(* ===== verification/Tumult_Prelude.thy ===== *)
theory Tumult_Prelude
  imports Main "HOL-Library.Word" "HOL-Library.Sublist"
begin

text \<open>
  Shared vocabulary of the development: the collections of simplification
  rules, the string operations of the Rust standard library the program uses
  (on strings of ASCII characters), results as sums, and the
  state-and-error computations in which the store operations are written.
\<close>

named_theorems evals \<open>unfolding rules that let the simplifier run a definition on a concrete input\<close>

section \<open>Lists\<close>

lemma length_filter_update: "i < length xs \<Longrightarrow>
    length (filter P (xs[i := y])) + (if P (xs ! i) then 1 else 0) = length (filter P xs) + (if P y then 1 else 0)"
proof (induction xs arbitrary: i)
  case (Cons x xs)
  then show ?case by (cases i) auto
qed simp

section \<open>Results\<close>

type_synonym ('e, 'a) result = "'e + 'a"

text \<open>\<open>Result::and_then\<close> / the \<open>?\<close> operator.\<close>

fun res_bind :: "('e, 'a) result \<Rightarrow> ('a \<Rightarrow> ('e, 'b) result) \<Rightarrow> ('e, 'b) result" where
  "res_bind (Inl e) f = Inl e"
| "res_bind (Inr x) f = f x"

lemma res_bind_Inr_iff [simp]: "res_bind m f = Inr y \<longleftrightarrow> (\<exists>x. m = Inr x \<and> f x = Inr y)"
  by (cases m) auto

lemma res_bind_Inl_iff: "res_bind m f = Inl e \<longleftrightarrow> m = Inl e \<or> (\<exists>x. m = Inr x \<and> f x = Inl e)"
  by (cases m) auto

fun is_ok :: "('e, 'a) result \<Rightarrow> bool" where
  "is_ok (Inl _) = False"
| "is_ok (Inr _) = True"

lemma is_ok_iff: "is_ok r \<longleftrightarrow> (\<exists>x. r = Inr x)"
  by (cases r) auto

section \<open>Strings\<close>

text \<open>\<open>char::is_whitespace\<close> on ASCII: tab, line feed, vertical tab, form feed,
  carriage return, space.\<close>

definition is_ws :: "char \<Rightarrow> bool" where
  "is_ws c \<longleftrightarrow> c \<in> {CHR 0x09, CHR 0x0A, CHR 0x0B, CHR 0x0C, CHR 0x0D, CHR '' ''}"

text \<open>\<open>str::trim\<close>.\<close>

definition trim :: "string \<Rightarrow> string" where
  "trim s = rev (dropWhile is_ws (rev (dropWhile is_ws s)))"

text \<open>\<open>char::to_ascii_lowercase\<close> / \<open>str::to_ascii_lowercase\<close>.\<close>

definition lower_char :: "char \<Rightarrow> char" where
  "lower_char c = (let n = (of_char c :: nat) in if 65 \<le> n \<and> n \<le> 90 then char_of (n + 32) else c)"

definition lower :: "string \<Rightarrow> string" where
  "lower s = map lower_char s"

text \<open>\<open>str::starts_with\<close>, \<open>str::strip_prefix\<close>, \<open>str::contains\<close>.\<close>

fun strip_prefix :: "string \<Rightarrow> string \<Rightarrow> string option" where
  "strip_prefix [] s = Some s"
| "strip_prefix (p # ps) [] = None"
| "strip_prefix (p # ps) (c # cs) = (if p = c then strip_prefix ps cs else None)"

definition starts_with :: "string \<Rightarrow> string \<Rightarrow> bool" where
  "starts_with s p \<longleftrightarrow> strip_prefix p s \<noteq> None"

fun contains_str :: "string \<Rightarrow> string \<Rightarrow> bool" where
  "contains_str [] p \<longleftrightarrow> p = []"
| "contains_str (c # cs) p \<longleftrightarrow> starts_with (c # cs) p \<or> contains_str cs p"

text \<open>\<open>[T]::join\<close>.\<close>

fun intersperse_str :: "string \<Rightarrow> string list \<Rightarrow> string" where
  "intersperse_str sep [] = []"
| "intersperse_str sep [s] = s"
| "intersperse_str sep (s # ss) = s @ sep @ intersperse_str sep ss"

text \<open>\<open>char::to_ascii_uppercase\<close>.\<close>

definition upper_char :: "char \<Rightarrow> char" where
  "upper_char c = (let n = (of_char c :: nat) in if 97 \<le> n \<and> n \<le> 122 then char_of (n - 32) else c)"

definition upper :: "string \<Rightarrow> string" where
  "upper s = map upper_char s"

text \<open>The case of a letter is its bit 5: equations for evaluation.\<close>

lemma lower_char_code [code]: "lower_char (Char b0 b1 b2 b3 b4 b5 b6 b7) =
    (if \<not> b7 \<and> b6 \<and> \<not> b5 \<and> (b0 \<or> b1 \<or> b2 \<or> b3 \<or> b4) \<and> \<not> (b4 \<and> b3 \<and> (b2 \<or> b1 \<and> b0)) then Char b0 b1 b2 b3 b4 True b6 b7
     else Char b0 b1 b2 b3 b4 b5 b6 b7)"
  by (cases b0; cases b1; cases b2; cases b3; cases b4; cases b5; cases b6; cases b7; simp add: lower_char_def char_of_def bit_simps)

lemma upper_char_code [code]: "upper_char (Char b0 b1 b2 b3 b4 b5 b6 b7) =
    (if \<not> b7 \<and> b6 \<and> b5 \<and> (b0 \<or> b1 \<or> b2 \<or> b3 \<or> b4) \<and> \<not> (b4 \<and> b3 \<and> (b2 \<or> b1 \<and> b0)) then Char b0 b1 b2 b3 b4 False b6 b7
     else Char b0 b1 b2 b3 b4 b5 b6 b7)"
  by (cases b0; cases b1; cases b2; cases b3; cases b4; cases b5; cases b6; cases b7; simp add: upper_char_def char_of_def bit_simps)

lemma strip_prefix_Some [simp]: "strip_prefix p s = Some r \<longleftrightarrow> s = p @ r"
  by (induction p s rule: strip_prefix.induct) auto

lemma starts_with_append [simp]: "starts_with (p @ s) p"
  by (simp add: starts_with_def)

lemma starts_with_iff: "starts_with s p \<longleftrightarrow> (\<exists>r. s = p @ r)"
  by (auto simp: starts_with_def)

lemma contains_str_iff: "contains_str s p \<longleftrightarrow> (\<exists>a b. s = a @ p @ b)"
proof (induction s)
  case (Cons c cs)
  show ?case
  proof
    assume "contains_str (c # cs) p"
    then consider r where "c # cs = p @ r" | a b where "cs = a @ p @ b"
      using Cons by (auto simp: starts_with_iff)
    then show "\<exists>a b. c # cs = a @ p @ b"
    proof cases
      case 1
      then show ?thesis by (intro exI[of _ "[]"] exI[of _ r]) simp
    next
      case 2
      then show ?thesis by (intro exI[of _ "c # a"] exI[of _ b]) simp
    qed
  next
    assume "\<exists>a b. c # cs = a @ p @ b"
    then obtain a b where ab: "c # cs = a @ p @ b" by blast
    show "contains_str (c # cs) p"
    proof (cases a)
      case Nil
      then have "starts_with (c # cs) p" using ab by (simp add: starts_with_iff)
      then show ?thesis by simp
    next
      case a: (Cons d ds)
      then have "contains_str cs p" using ab Cons by auto
      then show ?thesis by simp
    qed
  qed
qed auto

lemma contains_str_append [simp]: "contains_str (a @ p @ b) p"
  using contains_str_iff by blast

lemma lower_char_idem [simp]: "lower_char (lower_char c) = lower_char c"
  by (auto simp: lower_char_def Let_def)

lemma lower_idem [simp]: "lower (lower s) = lower s"
  by (simp add: lower_def)

lemma dropWhile_id: "(s = [] \<or> \<not> P (hd s)) \<Longrightarrow> dropWhile P s = s"
  by (cases s) auto

lemma trim_no_ws: "(\<And>c. c \<in> set s \<Longrightarrow> \<not> is_ws c) \<Longrightarrow> trim s = s"
proof -
  assume n: "\<And>c. c \<in> set s \<Longrightarrow> \<not> is_ws c"
  then have "dropWhile is_ws s = s" "dropWhile is_ws (rev s) = rev s"
    by (metis dropWhile_id hd_in_set, metis dropWhile_id hd_in_set set_rev)
  then show ?thesis by (simp add: trim_def)
qed

lemma trim_idem [simp]: "trim (trim s) = trim s"
proof -
  let ?m = "dropWhile is_ws s" and ?r = "dropWhile is_ws (rev (dropWhile is_ws s))"
  have "rev ?r = [] \<or> \<not> is_ws (hd (rev ?r))"
  proof (cases "?r = []")
    case False
    have "?m = rev ?r @ rev (takeWhile is_ws (rev ?m))"
      by (metis rev_append rev_rev_ident takeWhile_dropWhile_id)
    then have "hd ?m = hd (rev ?r)" "?m \<noteq> []"
      using False by (metis hd_append2 rev_is_Nil_conv, metis append_is_Nil_conv rev_is_Nil_conv)
    then show ?thesis by (metis hd_dropWhile)
  qed simp
  moreover have "?r = [] \<or> \<not> is_ws (hd ?r)"
    by (metis hd_dropWhile)
  ultimately show ?thesis by (simp add: trim_def dropWhile_id)
qed

text \<open>\<open>str::split\<close> at one character: always at least one piece.\<close>

fun split_at :: "char \<Rightarrow> string \<Rightarrow> string list" where
  "split_at d [] = [[]]"
| "split_at d (c # cs) = (if c = d then [] # split_at d cs
     else (case split_at d cs of [] \<Rightarrow> [[c]] | p # ps \<Rightarrow> (c # p) # ps))"

lemma split_at_ne [simp]: "split_at d s \<noteq> []"
  by (induction s) (auto split: list.splits)

lemma split_at_none: "d \<notin> set s \<Longrightarrow> split_at d s = [s]"
  by (induction s) auto

lemma split_at_append: "d \<notin> set a \<Longrightarrow> split_at d (a @ d # s) = a # split_at d s"
  by (induction a) auto

lemma split_at_inj: "split_at d s = split_at d u \<Longrightarrow> s = u"
proof (induction s arbitrary: u)
  case Nil
  then show ?case by (cases u) (auto split: if_splits list.splits dest: sym)
next
  case (Cons c cs)
  obtain p ps where cs: "split_at d cs = p # ps" by (meson neq_Nil_conv split_at_ne)
  obtain b bs where u: "u = b # bs"
    using Cons.prems by (cases u) (auto split: if_splits list.splits)
  obtain q qs where bs: "split_at d bs = q # qs" by (meson neq_Nil_conv split_at_ne)
  have "c = b \<and> split_at d cs = split_at d bs"
    using Cons.prems u cs bs by (auto split: if_splits)
  then show ?case using Cons.IH u by simp
qed

section \<open>Computations on a state that may fail\<close>

text \<open>A function taking \<open>&mut self\<close> (or a connection) and returning \<open>Result\<close>: it
  returns the outcome and the state it leaves, also when it fails.\<close>

type_synonym ('s, 'e, 'a) comp = "'s \<Rightarrow> ('e, 'a) result \<times> 's"

definition ret :: "'a \<Rightarrow> ('s, 'e, 'a) comp" where
  "ret x = (\<lambda>s. (Inr x, s))"

definition fail :: "'e \<Rightarrow> ('s, 'e, 'a) comp" where
  "fail e = (\<lambda>s. (Inl e, s))"

text \<open>Sequencing: the \<open>?\<close> operator on a call that may change the state.\<close>

definition bindc :: "('s, 'e, 'a) comp \<Rightarrow> ('a \<Rightarrow> ('s, 'e, 'b) comp) \<Rightarrow> ('s, 'e, 'b) comp" where
  "bindc m f = (\<lambda>s. case m s of (Inl e, s') \<Rightarrow> (Inl e, s') | (Inr x, s') \<Rightarrow> f x s')"

definition seqc :: "('s, 'e, 'a) comp \<Rightarrow> ('s, 'e, 'b) comp \<Rightarrow> ('s, 'e, 'b) comp" where
  "seqc m n = bindc m (\<lambda>_. n)"

text \<open>\<open>if c { return Err(e) }\<close>.\<close>

definition ensure :: "bool \<Rightarrow> 'e \<Rightarrow> ('s, 'e, unit) comp" where
  "ensure c e = (if c then ret () else fail e)"

lemma ret_eq [simp]: "ret x s = (r, s') \<longleftrightarrow> r = Inr x \<and> s' = s"
  by (auto simp: ret_def)

lemma fail_eq [simp]: "fail e s = (r, s') \<longleftrightarrow> r = Inl e \<and> s' = s"
  by (auto simp: fail_def)

lemma bindc_eq: "bindc m f s = (r, s') \<longleftrightarrow>
    (\<exists>e. m s = (Inl e, s') \<and> r = Inl e) \<or> (\<exists>x t. m s = (Inr x, t) \<and> f x t = (r, s'))"
  by (auto simp: bindc_def split: prod.splits sum.splits)

lemma bindc_Inr [simp]: "bindc m f s = (Inr y, s') \<longleftrightarrow> (\<exists>x t. m s = (Inr x, t) \<and> f x t = (Inr y, s'))"
  by (auto simp: bindc_eq)

lemma seqc_Inr [simp]: "seqc m n s = (Inr y, s') \<longleftrightarrow> (\<exists>x t. m s = (Inr x, t) \<and> n t = (Inr y, s'))"
  by (simp add: seqc_def)

lemma ensure_Inr [simp]: "ensure c e s = (Inr x, s') \<longleftrightarrow> c \<and> s' = s"
  by (auto simp: ensure_def)

lemma ensure_Inl [simp]: "ensure c e s = (Inl f, s') \<longleftrightarrow> \<not> c \<and> f = e \<and> s' = s"
  by (auto simp: ensure_def)

lemma bindc_assoc: "bindc (bindc m f) g = bindc m (\<lambda>x. bindc (f x) g)"
  by (rule ext) (auto simp: bindc_def split: prod.splits sum.splits)

text \<open>A predicate every step of a computation keeps is kept by the whole.\<close>

definition keeps :: "('s \<Rightarrow> bool) \<Rightarrow> ('s, 'e, 'a) comp \<Rightarrow> bool" where
  "keeps P m \<longleftrightarrow> (\<forall>s. P s \<longrightarrow> P (snd (m s)))"

lemma keepsI: "(\<And>s r s'. P s \<Longrightarrow> m s = (r, s') \<Longrightarrow> P s') \<Longrightarrow> keeps P m"
  unfolding keeps_def by (metis prod.collapse)

lemma keepsD: "keeps P m \<Longrightarrow> P s \<Longrightarrow> m s = (r, s') \<Longrightarrow> P s'"
  unfolding keeps_def by (metis snd_conv)

lemma keeps_ret [intro, simp]: "keeps P (ret x)"
  by (simp add: keeps_def ret_def)

lemma keeps_fail [intro, simp]: "keeps P (fail e)"
  by (simp add: keeps_def fail_def)

lemma keeps_ensure [intro, simp]: "keeps P (ensure c e)"
  by (simp add: ensure_def)

lemma keeps_bindc [intro]: "keeps P m \<Longrightarrow> (\<And>x. keeps P (f x)) \<Longrightarrow> keeps P (bindc m f)"
  by (rule keepsI) (auto simp: bindc_eq dest: keepsD)

lemma keeps_seqc [intro]: "keeps P m \<Longrightarrow> keeps P n \<Longrightarrow> keeps P (seqc m n)"
  unfolding seqc_def by (rule keeps_bindc)

lemma keeps_if [intro]: "(c \<Longrightarrow> keeps P m) \<Longrightarrow> (\<not> c \<Longrightarrow> keeps P n) \<Longrightarrow> keeps P (if c then m else n)"
  by simp

lemma keeps_case_option [intro]:
  "(x = None \<Longrightarrow> keeps P m) \<Longrightarrow> (\<And>y. x = Some y \<Longrightarrow> keeps P (f y)) \<Longrightarrow>
    keeps P (case x of None \<Rightarrow> m | Some y \<Rightarrow> f y)"
  by (cases x) auto

section \<open>Invariants of step relations\<close>

text \<open>The contract of a component whose every step keeps an invariant; what follows for
  any number of steps is proved once.\<close>

locale stable_system =
  fixes step :: "'s \<Rightarrow> 's \<Rightarrow> bool"
    and inv :: "'s \<Rightarrow> bool"
  assumes step_inv: "step s s' \<Longrightarrow> inv s \<Longrightarrow> inv s'"
begin

lemma steps_inv: "step\<^sup>*\<^sup>* s s' \<Longrightarrow> inv s \<Longrightarrow> inv s'"
  by (induction rule: rtranclp_induct) (auto intro: step_inv)

end

text \<open>The contract of a relation between the states before and after, under which every
  operation moves.\<close>

locale preorder_system =
  fixes le :: "'s \<Rightarrow> 's \<Rightarrow> bool"
  assumes le_refl [simp]: "le s s"
    and le_trans: "le s t \<Longrightarrow> le t u \<Longrightarrow> le s u"
begin

lemma steps_le: "(\<And>s s'. step s s' \<Longrightarrow> le s s') \<Longrightarrow> step\<^sup>*\<^sup>* s s' \<Longrightarrow> le s s'"
proof -
  assume step: "\<And>s s'. step s s' \<Longrightarrow> le s s'" and "step\<^sup>*\<^sup>* s s'"
  from this(2) show "le s s'"
    by (induction rule: rtranclp_induct) (auto intro: le_trans step)
qed

end

section \<open>Computations that move a state along an order\<close>

definition obeys :: "('s \<Rightarrow> 's \<Rightarrow> bool) \<Rightarrow> ('s, 'e, 'a) comp \<Rightarrow> bool" where
  "obeys R m \<longleftrightarrow> (\<forall>s r s'. m s = (r, s') \<longrightarrow> R s s')"

lemma obeysD: "obeys R m \<Longrightarrow> m s = (r, s') \<Longrightarrow> R s s'"
  by (auto simp: obeys_def)

lemma obeys_weaken: "obeys R m \<Longrightarrow> (\<And>s s'. R s s' \<Longrightarrow> Q s s') \<Longrightarrow> obeys Q m"
  by (auto simp: obeys_def)

locale comp_order = preorder_system le for le :: "'s \<Rightarrow> 's \<Rightarrow> bool"
begin

lemma obeys_base [simp, intro]: "obeys le (ret x)" "obeys le (fail e)" "obeys le (ensure c e)"
  by (auto simp: obeys_def ensure_def)

lemma obeys_bindc: "obeys le m \<Longrightarrow> (\<And>x. obeys le (f x)) \<Longrightarrow> obeys le (bindc m f)"
  unfolding obeys_def bindc_eq using le_trans by blast

lemma obeys_seqc: "obeys le m \<Longrightarrow> obeys le n \<Longrightarrow> obeys le (seqc m n)"
  by (simp add: seqc_def obeys_bindc)

lemma obeys_if: "obeys le m \<Longrightarrow> obeys le n \<Longrightarrow> obeys le (if c then m else n)"
  by simp

lemma obeys_option: "obeys le m \<Longrightarrow> (\<And>y. obeys le (f y)) \<Longrightarrow> obeys le (case x of None \<Rightarrow> m | Some y \<Rightarrow> f y)"
  by (cases x) auto

lemma obeys_pair: "(\<And>a b. obeys le (f a b)) \<Longrightarrow> obeys le (case p of (a, b) \<Rightarrow> f a b)"
  by (cases p) auto

lemmas obeys_rules = obeys_base obeys_bindc obeys_seqc obeys_if obeys_option obeys_pair

end

end
