(* ===== verification/Run_Store.thy ===== *)
theory Run_Store
  imports Tumult_Prelude
begin

text \<open>
  The daemon's run tables and every write and read on them:
  \<open>tumult-lake/src/runs.rs\<close>, \<open>tumult-lake/src/approvals.rs\<close> and \<open>with_tx\<close> of
  \<open>tumult-lake/src/store.rs\<close>.

  The database is a record of tables; a table is the list of its rows in rowid
  order (the schema has no keys and no indexes). SQL is what the statements of
  these files say of it: a conditional \<open>UPDATE\<close> with its number of changed rows, an
  \<open>INSERT\<close>, a \<open>SELECT\<close>. What the code cannot control is the record \<open>env\<close>: whether the
  n-th statement fails (and with which message), what the wall clock shows, and the
  two SHA-256 digests. A failed transaction leaves the tables as they were, as the
  database documents. JSON columns are their text.
\<close>

section \<open>Rows and tables\<close>

text \<open>\<open>runs.state\<close>: the column holds one of the constants of \<open>run_state\<close>.\<close>

datatype run_state = Queued | Validating | Running | Stopping | Passed | RDeviated | RFailed
  | RAborted | Orphaned | RollbackPending | PendingApproval | Rejected | Expired

fun state_str :: "run_state \<Rightarrow> string" where
  "state_str Queued = ''queued''"
| "state_str Validating = ''validating''"
| "state_str Running = ''running''"
| "state_str Stopping = ''stopping''"
| "state_str Passed = ''passed''"
| "state_str RDeviated = ''deviated''"
| "state_str RFailed = ''failed''"
| "state_str RAborted = ''aborted''"
| "state_str Orphaned = ''orphaned''"
| "state_str RollbackPending = ''rollback_pending''"
| "state_str PendingApproval = ''pending_approval''"
| "state_str Rejected = ''rejected''"
| "state_str Expired = ''expired''"

definition active_states :: "run_state list" where
  "active_states = [Queued, Validating, Running, Stopping, Orphaned, RollbackPending]"

definition terminal_states :: "run_state list" where
  "terminal_states = [Passed, RDeviated, RFailed, RAborted, Rejected, Expired]"

definition terminal :: "run_state \<Rightarrow> bool" where
  "terminal st \<longleftrightarrow> st \<in> set terminal_states"

definition active :: "run_state \<Rightarrow> bool" where
  "active st \<longleftrightarrow> st \<in> set active_states"

lemma terminal_simps [simp]:
  "\<not> terminal Queued" "\<not> terminal Validating" "\<not> terminal Running" "\<not> terminal Stopping"
  "terminal Passed" "terminal RDeviated" "terminal RFailed" "terminal RAborted"
  "\<not> terminal Orphaned" "\<not> terminal RollbackPending" "\<not> terminal PendingApproval"
  "terminal Rejected" "terminal Expired"
  by (simp_all add: terminal_def terminal_states_def)

lemma active_simps [simp]:
  "active Queued" "active Validating" "active Running" "active Stopping" "active Orphaned"
  "active RollbackPending" "\<not> active PendingApproval" "\<not> active Passed" "\<not> active RDeviated"
  "\<not> active RFailed" "\<not> active RAborted" "\<not> active Rejected" "\<not> active Expired"
  by (simp_all add: active_def active_states_def)

record run_row =
  run_id :: string
  run_registry_id :: string
  run_st :: run_state
  run_params_json :: "string option"
  run_experiment_id :: "string option"
  run_rollback_status :: "string option"
  run_error :: "string option"
  run_queued_at :: int
  run_started_at :: "int option"
  run_ended_at :: "int option"
  run_gameday_id :: "string option"

record audit_row =
  au_run :: string
  au_at :: int
  au_event :: string
  au_detail :: "string option"
  au_actor :: "string option"
  au_prev :: "string option"
  au_new :: "string option"

record registry_row =
  reg_id :: string
  reg_name :: string
  reg_definition_toon :: string
  reg_content_hash :: string
  reg_registered_at :: int
  reg_registered_by :: "string option"
  reg_gameday :: bool

record request_row =
  rq_run :: string
  rq_tier :: string
  rq_pin :: string
  rq_env :: string
  rq_target :: "string option"
  rq_quorum :: int
  rq_requested_by :: string
  rq_requested_at :: int
  rq_expires_at :: int
  rq_consumed_at :: "int option"
  rq_break_glass :: bool
  rq_break_glass_by :: "string option"
  rq_justification :: "string option"

datatype decision = Approved | DRejected

record decision_row =
  dc_run :: string
  dc_approver :: string
  dc_decision :: decision
  dc_note :: "string option"
  dc_decided_at :: int

record db =
  runs :: "run_row list"
  audits :: "audit_row list"
  registry :: "registry_row list"
  requests :: "request_row list"
  decisions :: "decision_row list"
  plans :: "(string \<times> string) list"
  pins :: "(string \<times> string) list"

record store =
  data :: db
  tick :: nat  \<comment> \<open>statements and clock readings so far\<close>

section \<open>What the code cannot control\<close>

record env =
  env_io :: "nat \<Rightarrow> string option"  \<comment> \<open>the message the statement at a tick fails with\<close>
  env_clock :: "nat \<Rightarrow> int"
  env_audit_hash :: "string \<times> int \<times> string \<times> string option \<times> string option \<times> string option \<Rightarrow> string"
  env_pin_hash :: "string \<times> (string \<rightharpoonup> string) \<times> string \<times> string option \<Rightarrow> string"

datatype store_error = DuckDb string | Json string | Internal string

type_synonym 'a writer = "(store, store_error, 'a) comp"

definition stmt :: "env \<Rightarrow> unit writer" where
  "stmt E = (\<lambda>s. (case env_io E (tick s) of None \<Rightarrow> Inr () | Some msg \<Rightarrow> Inl (DuckDb msg),
                 s \<lparr> tick := tick s + 1 \<rparr>))"

definition now_ns :: "env \<Rightarrow> int writer" where
  "now_ns E = (\<lambda>s. (Inr (env_clock E (tick s)), s \<lparr> tick := tick s + 1 \<rparr>))"

text \<open>A query reads the tables; an execution changes them and may count rows.\<close>

definition query :: "env \<Rightarrow> (db \<Rightarrow> 'a) \<Rightarrow> 'a writer" where
  "query E f = seqc (stmt E) (\<lambda>s. (Inr (f (data s)), s))"

definition execute :: "env \<Rightarrow> (db \<Rightarrow> 'a \<times> db) \<Rightarrow> 'a writer" where
  "execute E f = seqc (stmt E) (\<lambda>s. case f (data s) of (x, d) \<Rightarrow> (Inr x, s \<lparr> data := d \<rparr>))"

definition update_where :: "('r \<Rightarrow> bool) \<Rightarrow> ('r \<Rightarrow> 'r) \<Rightarrow> 'r list \<Rightarrow> nat \<times> 'r list" where
  "update_where P f rows = (length (filter P rows), map (\<lambda>r. if P r then f r else r) rows)"

definition update_runs :: "env \<Rightarrow> (run_row \<Rightarrow> bool) \<Rightarrow> (run_row \<Rightarrow> run_row) \<Rightarrow> nat writer" where
  "update_runs E P f = execute E (\<lambda>d. case update_where P f (runs d) of (n, rs) \<Rightarrow> (n, d \<lparr> runs := rs \<rparr>))"

definition update_requests :: "env \<Rightarrow> (request_row \<Rightarrow> bool) \<Rightarrow> (request_row \<Rightarrow> request_row) \<Rightarrow> nat writer" where
  "update_requests E P f =
    execute E (\<lambda>d. case update_where P f (requests d) of (n, rs) \<Rightarrow> (n, d \<lparr> requests := rs \<rparr>))"

text \<open>\<open>with_tx\<close>: \<open>BEGIN\<close>, the body, then \<open>COMMIT\<close> or \<open>ROLLBACK\<close>.\<close>

definition with_tx :: "env \<Rightarrow> 'a writer \<Rightarrow> 'a writer" where
  "with_tx E f = (\<lambda>s.
     case stmt E s of
       (Inl e, s1) \<Rightarrow> (Inl e, s1)
     | (Inr _, s1) \<Rightarrow>
         (case f s1 of
            (Inr x, s2) \<Rightarrow>
              (case stmt E s2 of
                 (Inl e, s3) \<Rightarrow> (Inl e, s3 \<lparr> data := data s \<rparr>)
               | (Inr _, s3) \<Rightarrow> (Inr x, s3))
          | (Inl e, s2) \<Rightarrow> (Inl e, snd (stmt E (s2 \<lparr> data := data s \<rparr>)))))"

section \<open>The audit trail\<close>

text \<open>\<open>ORDER BY at_ns DESC, rowid DESC LIMIT 1\<close>: the newest row, the later one on a tie.\<close>

definition latest_audit :: "audit_row list \<Rightarrow> audit_row option" where
  "latest_audit rows = fold (\<lambda>r acc. case acc of
       None \<Rightarrow> Some r
     | Some a \<Rightarrow> if au_at a \<le> au_at r then Some r else acc) rows None"

definition run_audits :: "string \<Rightarrow> db \<Rightarrow> audit_row list" where
  "run_audits rid d = filter (\<lambda>r. au_run r = rid) (audits d)"

definition audit_hash_of :: "env \<Rightarrow> audit_row \<Rightarrow> string" where
  "audit_hash_of E r = env_audit_hash E (au_run r, au_at r, au_event r, au_detail r, au_actor r, au_prev r)"

definition insert_run_audit ::
    "env \<Rightarrow> string \<Rightarrow> string \<Rightarrow> string option \<Rightarrow> string option \<Rightarrow> unit writer" where
  "insert_run_audit E rid event detail actor =
    bindc (now_ns E) (\<lambda>at_ns.
    bindc (query E (\<lambda>d. case latest_audit (run_audits rid d) of None \<Rightarrow> None | Some r \<Rightarrow> au_new r)) (\<lambda>prev_hash.
      let new_hash = env_audit_hash E (rid, at_ns, event, detail, actor, prev_hash)
      in execute E (\<lambda>d. ((), d \<lparr> audits := audits d @
           [\<lparr> au_run = rid, au_at = at_ns, au_event = event, au_detail = detail, au_actor = actor,
              au_prev = prev_hash, au_new = Some new_hash \<rparr>] \<rparr>))))"

section \<open>Writes on runs\<close>

definition require_transition :: "nat \<Rightarrow> string \<Rightarrow> unit writer" where
  "require_transition changed rid =
    ensure (changed = 1)
      (Internal (''run '' @ rid @ '': state changed or approval unavailable; refusing execution''))"

definition set_run_gameday :: "env \<Rightarrow> string \<Rightarrow> string \<Rightarrow> unit writer" where
  "set_run_gameday E rid gameday_id =
    bindc (update_runs E (\<lambda>r. run_id r = rid) (\<lambda>r. r \<lparr> run_gameday_id := Some gameday_id \<rparr>)) (\<lambda>_. ret ())"

definition active_gameday_campaign :: "env \<Rightarrow> string \<Rightarrow> string option writer" where
  "active_gameday_campaign E registry_id =
    query E (\<lambda>d. map_option run_id
      (find (\<lambda>r. run_registry_id r = registry_id \<and> run_gameday_id r = None \<and> active (run_st r)) (runs d)))"

definition register_definition :: "env \<Rightarrow> registry_row \<Rightarrow> unit writer" where
  "register_definition E def =
    execute E (\<lambda>d. ((), d \<lparr> registry := registry d @ [def \<lparr> reg_gameday := False \<rparr>] \<rparr>))"

definition register_gameday_definition :: "env \<Rightarrow> registry_row \<Rightarrow> unit writer" where
  "register_gameday_definition E def =
    execute E (\<lambda>d. ((), d \<lparr> registry := registry d @ [def \<lparr> reg_gameday := True \<rparr>] \<rparr>))"

record new_run =
  nr_id :: string
  nr_registry_id :: string
  nr_params_json :: "string option"
  nr_queued_at :: int
  nr_actor :: "string option"

text \<open>A run's execution context is a JSON object. The field \<open>execution_hash\<close> (absent, a
  string, or something else) is taken out of it before it is recorded; a text that is not an
  object is refused.\<close>

datatype pin_field = NoPin | PinString string | PinOther

datatype context_json = NotJson | NotObject | ContextObject pin_field string

definition insert_run_context :: "env \<Rightarrow> string \<Rightarrow> context_json \<Rightarrow> string option \<Rightarrow> unit writer" where
  "insert_run_context E rid context actor = (case context of
     NotJson \<Rightarrow> fail (Json ''execution context'')
   | NotObject \<Rightarrow> fail (Internal ''execution context must be an object'')
   | ContextObject pin rest \<Rightarrow>
       seqc (case pin of
               NoPin \<Rightarrow> ret ()
             | PinOther \<Rightarrow> fail (Internal ''execution fingerprint must be a string'')
             | PinString hash \<Rightarrow> execute E (\<lambda>d. ((), d \<lparr> pins := pins d @ [(rid, hash)] \<rparr>)))
            (insert_run_audit E rid ''requested_context'' (Some rest) actor))"

definition new_row :: "new_run \<Rightarrow> run_state \<Rightarrow> run_row" where
  "new_row r st = \<lparr> run_id = nr_id r, run_registry_id = nr_registry_id r, run_st = st,
     run_params_json = nr_params_json r, run_experiment_id = None, run_rollback_status = None,
     run_error = None, run_queued_at = nr_queued_at r, run_started_at = None, run_ended_at = None,
     run_gameday_id = None \<rparr>"

definition insert_row :: "env \<Rightarrow> new_run \<Rightarrow> run_state \<Rightarrow> unit writer" where
  "insert_row E r st = execute E (\<lambda>d. ((), d \<lparr> runs := runs d @ [new_row r st] \<rparr>))"

definition insert_run_with_context :: "env \<Rightarrow> new_run \<Rightarrow> context_json option \<Rightarrow> unit writer" where
  "insert_run_with_context E r context = with_tx E
    (seqc (insert_row E r Queued)
    (seqc (insert_run_audit E (nr_id r) ''enqueued'' None (nr_actor r))
       (case context of None \<Rightarrow> ret () | Some c \<Rightarrow> insert_run_context E (nr_id r) c (nr_actor r))))"

definition insert_run :: "env \<Rightarrow> new_run \<Rightarrow> unit writer" where
  "insert_run E r = insert_run_with_context E r None"

definition set_run_state_with ::
    "env \<Rightarrow> string \<Rightarrow> run_state \<Rightarrow> string option \<Rightarrow> string option \<Rightarrow> string option \<Rightarrow> unit writer" where
  "set_run_state_with E rid st audit_event audit_detail actor = with_tx E
    (bindc (update_runs E
        (\<lambda>r. run_id r = rid \<and> \<not> terminal (run_st r) \<and> (st \<noteq> Queued \<or> run_st r = PendingApproval))
        (\<lambda>r. r \<lparr> run_st := st \<rparr>)) (\<lambda>changed.
     seqc (require_transition changed rid)
       (insert_run_audit E rid (case audit_event of Some e \<Rightarrow> e | None \<Rightarrow> state_str st) audit_detail actor)))"

definition set_run_state :: "env \<Rightarrow> string \<Rightarrow> run_state \<Rightarrow> unit writer" where
  "set_run_state E rid st = set_run_state_with E rid st None None None"

definition coalesce :: "'a option \<Rightarrow> 'a option \<Rightarrow> 'a option" where
  "coalesce a b = (case a of Some x \<Rightarrow> Some x | None \<Rightarrow> b)"

definition mark_run_started :: "env \<Rightarrow> string \<Rightarrow> string option \<Rightarrow> unit writer" where
  "mark_run_started E rid experiment_id = with_tx E
    (bindc (now_ns E) (\<lambda>now.
     bindc (update_runs E (\<lambda>r. run_id r = rid \<and> run_st r \<in> {Queued, Validating})
        (\<lambda>r. r \<lparr> run_st := Running, run_started_at := Some now,
                 run_experiment_id := coalesce experiment_id (run_experiment_id r) \<rparr>)) (\<lambda>changed.
     seqc (require_transition changed rid)
       (insert_run_audit E rid ''started'' experiment_id None))))"

definition claim_run :: "env \<Rightarrow> string \<Rightarrow> unit writer" where
  "claim_run E rid = with_tx E
    (bindc (update_runs E (\<lambda>r. run_id r = rid \<and> run_st r = Queued) (\<lambda>r. r \<lparr> run_st := Validating \<rparr>)) (\<lambda>changed.
     seqc (require_transition changed rid) (insert_run_audit E rid ''validating'' None None)))"

definition begin_run_execution :: "env \<Rightarrow> string \<Rightarrow> string \<Rightarrow> string option \<Rightarrow> unit writer" where
  "begin_run_execution E rid plan_json approval_pin = with_tx E
    (bindc (now_ns E) (\<lambda>now.
     bindc (update_runs E (\<lambda>r. run_id r = rid \<and> run_st r = Validating)
        (\<lambda>r. r \<lparr> run_st := Running, run_started_at := Some now \<rparr>)) (\<lambda>changed.
     seqc (require_transition changed rid)
    (seqc (case approval_pin of
        None \<Rightarrow> ret ()
      | Some pin \<Rightarrow>
          bindc (update_requests E
            (\<lambda>q. rq_run q = rid \<and> rq_pin q = pin \<and> rq_consumed_at q = None
               \<and> (rq_break_glass q \<or> now \<le> rq_expires_at q))
            (\<lambda>q. q \<lparr> rq_consumed_at := Some now \<rparr>)) (\<lambda>changed.
          seqc (require_transition changed rid) (insert_run_audit E rid ''consumed'' (Some pin) None)))
    (seqc (execute E (\<lambda>d. ((), d \<lparr> plans := plans d @ [(rid, plan_json)] \<rparr>)))
       (insert_run_audit E rid ''started'' None None))))))"

definition stoppable :: "run_state \<Rightarrow> bool" where
  "stoppable st \<longleftrightarrow> st \<in> {Queued, Validating, Running, Stopping, PendingApproval}"

definition stop_row :: "int \<Rightarrow> run_row \<Rightarrow> run_row" where
  "stop_row now r = (if run_started_at r = None
     then r \<lparr> run_st := RAborted, run_ended_at := Some now,
              run_rollback_status := Some ''not_needed'', run_error := Some ''cancelled before start'' \<rparr>
     else r \<lparr> run_st := Stopping \<rparr>)"

definition query_state :: "env \<Rightarrow> string \<Rightarrow> run_state writer" where
  "query_state E rid = bindc (query E (\<lambda>d. find (\<lambda>r. run_id r = rid) (runs d))) (\<lambda>row.
     case row of Some r \<Rightarrow> ret (run_st r) | None \<Rightarrow> fail (DuckDb ''Query returned no rows''))"

definition request_run_stop :: "env \<Rightarrow> string \<Rightarrow> string option \<Rightarrow> unit writer" where
  "request_run_stop E rid actor = with_tx E
    (bindc (now_ns E) (\<lambda>now.
     bindc (update_runs E (\<lambda>r. run_id r = rid \<and> stoppable (run_st r)) (stop_row now)) (\<lambda>changed.
     seqc (require_transition changed rid)
    (seqc (insert_run_audit E rid ''stop_requested'' None actor)
    (bindc (query_state E rid) (\<lambda>st. insert_run_audit E rid (state_str st) None actor))))))"

definition fail_row :: "string \<Rightarrow> int \<Rightarrow> run_row \<Rightarrow> run_row" where
  "fail_row err now r = (if run_started_at r = None
     then r \<lparr> run_st := RFailed, run_error := Some err, run_ended_at := Some now \<rparr>
     else r \<lparr> run_st := RollbackPending, run_error := Some err \<rparr>)"

definition fail_run :: "env \<Rightarrow> string \<Rightarrow> string \<Rightarrow> unit writer" where
  "fail_run E rid err = with_tx E
    (bindc (now_ns E) (\<lambda>now.
     bindc (update_runs E (\<lambda>r. run_id r = rid \<and> run_st r \<in> {Queued, Validating, Running, Stopping})
        (fail_row err now)) (\<lambda>changed.
     if changed = 0 then ret ()
     else insert_run_audit E rid ''execution_failed'' (Some err) None)))"

definition finish_run ::
    "env \<Rightarrow> string \<Rightarrow> run_state \<Rightarrow> string option \<Rightarrow> string option \<Rightarrow> string option \<Rightarrow> unit writer" where
  "finish_run E rid st experiment_id rollback_status err = with_tx E
    (let pending_only = (st = Rejected \<or> st = Expired) in
     bindc (now_ns E) (\<lambda>now.
     bindc (update_runs E (\<lambda>r. run_id r = rid \<and> (\<not> pending_only \<or> run_st r = PendingApproval))
        (\<lambda>r. r \<lparr> run_st := st, run_ended_at := Some now,
                 run_experiment_id := coalesce experiment_id (run_experiment_id r),
                 run_rollback_status := rollback_status, run_error := err \<rparr>)) (\<lambda>changed.
     seqc (require_transition changed rid) (insert_run_audit E rid (state_str st) err None))))"

section \<open>Writes on approvals\<close>

definition insert_approval_request :: "env \<Rightarrow> request_row \<Rightarrow> unit writer" where
  "insert_approval_request E q =
    execute E (\<lambda>d. ((), d \<lparr> requests := requests d @
      [q \<lparr> rq_consumed_at := None, rq_break_glass := False, rq_break_glass_by := None,
           rq_justification := None \<rparr>] \<rparr>))"

definition insert_gated_run_with_context ::
    "env \<Rightarrow> new_run \<Rightarrow> request_row \<Rightarrow> string option \<Rightarrow> context_json option \<Rightarrow> unit writer" where
  "insert_gated_run_with_context E r q detail context = with_tx E
    (seqc (insert_row E r PendingApproval)
    (seqc (insert_approval_request E q)
    (seqc (insert_run_audit E (nr_id r) ''requested'' detail (nr_actor r))
       (case context of None \<Rightarrow> ret () | Some c \<Rightarrow> insert_run_context E (nr_id r) c (nr_actor r)))))"

definition insert_gated_run :: "env \<Rightarrow> new_run \<Rightarrow> request_row \<Rightarrow> string option \<Rightarrow> unit writer" where
  "insert_gated_run E r q detail = insert_gated_run_with_context E r q detail None"

definition em_dash :: string where
  "em_dash = [CHR 0xE2, CHR 0x80, CHR 0x94]"

definition insert_approval_decision :: "env \<Rightarrow> decision_row \<Rightarrow> unit writer" where
  "insert_approval_decision E dec =
    bindc (query E (\<lambda>d. find (\<lambda>q. rq_run q = dc_run dec) (requests d))) (\<lambda>request.
    case request of
      None \<Rightarrow> fail (Internal (''no approval request for run '' @ dc_run dec))
    | Some q \<Rightarrow>
        seqc (ensure (rq_requested_by q \<noteq> dc_approver dec)
          (Internal (''approver '' @ dc_approver dec @ '' is the requester '' @ em_dash
             @ '' self-approval is forbidden'')))
       (bindc (query E (\<lambda>d. filter (\<lambda>x. dc_run x = dc_run dec \<and> dc_approver x = dc_approver dec) (decisions d)))
          (\<lambda>existing.
        seqc (ensure (existing = [])
          (Internal (''approver '' @ dc_approver dec @ '' already decided on run '' @ dc_run dec)))
          (execute E (\<lambda>d. ((), d \<lparr> decisions := decisions d @ [dec] \<rparr>))))))"

definition require_pending_approval :: "env \<Rightarrow> string \<Rightarrow> unit writer" where
  "require_pending_approval E rid =
    bindc (query E (\<lambda>d. length (filter (\<lambda>r. run_id r = rid \<and> run_st r = PendingApproval) (runs d)))) (\<lambda>pending.
    ensure (pending = 1) (Internal ''run not awaiting approval''))"

definition insert_pending_approval_decision :: "env \<Rightarrow> decision_row \<Rightarrow> unit writer" where
  "insert_pending_approval_decision E dec = with_tx E
    (seqc (require_pending_approval E (dc_run dec)) (insert_approval_decision E dec))"

definition mark_break_glass :: "env \<Rightarrow> string \<Rightarrow> string \<Rightarrow> string \<Rightarrow> unit writer" where
  "mark_break_glass E rid who justification =
    bindc (update_requests E (\<lambda>q. rq_run q = rid)
      (\<lambda>q. q \<lparr> rq_break_glass := True, rq_break_glass_by := Some who,
               rq_justification := Some justification \<rparr>)) (\<lambda>_. ret ())"

definition mark_pending_break_glass :: "env \<Rightarrow> string \<Rightarrow> string \<Rightarrow> string \<Rightarrow> unit writer" where
  "mark_pending_break_glass E rid who justification = with_tx E
    (seqc (require_pending_approval E rid) (mark_break_glass E rid who justification))"

definition consume_approval :: "env \<Rightarrow> string \<Rightarrow> int \<Rightarrow> unit writer" where
  "consume_approval E rid at_ns =
    bindc (update_requests E (\<lambda>q. rq_run q = rid) (\<lambda>q. q \<lparr> rq_consumed_at := Some at_ns \<rparr>)) (\<lambda>_. ret ())"

section \<open>Reads\<close>

text \<open>A reader is a connection of its own, opened on a snapshot; opening it is one more
  statement that may fail.\<close>

definition run_execution_hash :: "env \<Rightarrow> string \<Rightarrow> string option writer" where
  "run_execution_hash E rid = query E (\<lambda>d. map_option snd (find (\<lambda>p. fst p = rid) (pins d)))"

definition registry_definition :: "env \<Rightarrow> string \<Rightarrow> registry_row option writer" where
  "registry_definition E rid = query E (\<lambda>d. find (\<lambda>g. reg_id g = rid) (registry d))"

text \<open>\<open>ORDER BY registered_at_ns LIMIT 1\<close>.\<close>

definition registry_by_hash :: "env \<Rightarrow> string \<Rightarrow> registry_row option writer" where
  "registry_by_hash E h = query E (\<lambda>d.
     case sort_key reg_registered_at (filter (\<lambda>g. reg_content_hash g = h) (registry d)) of
       [] \<Rightarrow> None | g # _ \<Rightarrow> Some g)"

definition registry_list :: "env \<Rightarrow> nat \<Rightarrow> registry_row list writer" where
  "registry_list E limit = query E (\<lambda>d. take limit (sort_key (\<lambda>g. - reg_registered_at g) (registry d)))"

text \<open>A run joined with its definition's name.\<close>

definition definition_name :: "db \<Rightarrow> run_row \<Rightarrow> string option" where
  "definition_name d r = map_option reg_name (find (\<lambda>g. reg_id g = run_registry_id r) (registry d))"

definition runs_list :: "env \<Rightarrow> run_state option \<Rightarrow> nat \<Rightarrow> (run_row \<times> string option) list writer" where
  "runs_list E st limit = query E (\<lambda>d. take limit (sort_key (\<lambda>p. - run_queued_at (fst p))
     (map (\<lambda>r. (r, definition_name d r))
       (filter (\<lambda>r. case st of None \<Rightarrow> True | Some x \<Rightarrow> run_st r = x) (runs d)))))"

definition run_get :: "env \<Rightarrow> string \<Rightarrow> (run_row \<times> string option) option writer" where
  "run_get E rid = query E (\<lambda>d. map_option (\<lambda>r. (r, definition_name d r)) (find (\<lambda>r. run_id r = rid) (runs d)))"

definition run_audit_trail :: "env \<Rightarrow> string \<Rightarrow> audit_row list writer" where
  "run_audit_trail E rid = query E (\<lambda>d. sort_key au_at (run_audits rid d))"

text \<open>The reconciliation input: active runs of experiment definitions with their source and
  recovery plan.\<close>

record active_run =
  ar_run :: run_row
  ar_definition_toon :: string
  ar_plan_json :: "string option"

definition recovery_rows :: "db \<Rightarrow> run_row \<Rightarrow> registry_row \<Rightarrow> active_run list" where
  "recovery_rows d r g = (case filter (\<lambda>p. fst p = run_id r) (plans d) of
     [] \<Rightarrow> [\<lparr> ar_run = r, ar_definition_toon = reg_definition_toon g, ar_plan_json = None \<rparr>]
   | ps \<Rightarrow> map (\<lambda>p. \<lparr> ar_run = r, ar_definition_toon = reg_definition_toon g, ar_plan_json = Some (snd p) \<rparr>) ps)"

definition active_run_rows :: "db \<Rightarrow> active_run list" where
  "active_run_rows d = sort_key (\<lambda>a. run_queued_at (ar_run a))
     (concat (map (\<lambda>r. concat (map (recovery_rows d r)
        (filter (\<lambda>g. reg_id g = run_registry_id r \<and> \<not> reg_gameday g) (registry d))))
      (filter (\<lambda>r. active (run_st r)) (runs d))))"

definition active_runs :: "env \<Rightarrow> active_run list writer" where
  "active_runs E = query E active_run_rows"

definition approval_request :: "env \<Rightarrow> string \<Rightarrow> request_row option writer" where
  "approval_request E rid = query E (\<lambda>d. find (\<lambda>q. rq_run q = rid) (requests d))"

definition approval_decisions :: "env \<Rightarrow> string \<Rightarrow> decision_row list writer" where
  "approval_decisions E rid = query E (\<lambda>d. sort_key dc_decided_at (filter (\<lambda>x. dc_run x = rid) (decisions d)))"

definition decision_count :: "db \<Rightarrow> string \<Rightarrow> decision \<Rightarrow> nat" where
  "decision_count d rid k = length (filter (\<lambda>x. dc_run x = rid \<and> dc_decision x = k) (decisions d))"

definition approvals_queue :: "env \<Rightarrow> (run_row \<times> request_row \<times> nat) list writer" where
  "approvals_queue E = query E (\<lambda>d. sort_key (\<lambda>(r, q, n). rq_requested_at q)
     (concat (map (\<lambda>r. map (\<lambda>q. (r, q, decision_count d (run_id r) Approved))
          (filter (\<lambda>q. rq_run q = run_id r) (requests d)))
        (filter (\<lambda>r. run_st r = PendingApproval) (runs d)))))"

definition expired_pending_approvals :: "env \<Rightarrow> int \<Rightarrow> string list writer" where
  "expired_pending_approvals E now = query E (\<lambda>d.
     concat (map (\<lambda>r. map (\<lambda>q. run_id r) (filter (\<lambda>q. rq_run q = run_id r \<and> rq_expires_at q < now) (requests d)))
       (filter (\<lambda>r. run_st r = PendingApproval) (runs d))))"

text \<open>The loop of \<open>verify_run_audit_chain\<close> over the rows in \<open>at_ns, rowid\<close> order: a row
  without hash is a legacy row and is skipped.\<close>

fun verify_chain :: "env \<Rightarrow> string option \<Rightarrow> audit_row list \<Rightarrow> bool" where
  "verify_chain E expected [] = True"
| "verify_chain E expected (r # rs) =
    (case au_new r of
       None \<Rightarrow> verify_chain E expected rs
     | Some h \<Rightarrow>
         if au_prev r \<noteq> expected then False
         else if audit_hash_of E r \<noteq> h then False
         else verify_chain E (Some h) rs)"

definition verify_run_audit_chain :: "env \<Rightarrow> string \<Rightarrow> bool writer" where
  "verify_run_audit_chain E rid = query E (\<lambda>d. verify_chain E None (sort_key au_at (run_audits rid d)))"

section \<open>Reasoning about writes\<close>

text \<open>What a computation does to the tables, for a relation between the tables before and
  after; and that time only advances.\<close>

definition moves :: "(db \<Rightarrow> db \<Rightarrow> bool) \<Rightarrow> 'a writer \<Rightarrow> bool" where
  "moves R m \<longleftrightarrow> (\<forall>s r s'. m s = (r, s') \<longrightarrow> R (data s) (data s'))"

definition advances :: "'a writer \<Rightarrow> bool" where
  "advances m \<longleftrightarrow> (\<forall>s r s'. m s = (r, s') \<longrightarrow> tick s \<le> tick s')"

lemma movesD: "moves R m \<Longrightarrow> m s = (r, s') \<Longrightarrow> R (data s) (data s')"
  by (auto simp: moves_def)

lemma advancesD: "advances m \<Longrightarrow> m s = (r, s') \<Longrightarrow> tick s \<le> tick s'"
  by (auto simp: advances_def)

lemma stmt_eq: "stmt E s = (r, s') \<longleftrightarrow> s' = s \<lparr> tick := tick s + 1 \<rparr> \<and>
    r = (case env_io E (tick s) of None \<Rightarrow> Inr () | Some msg \<Rightarrow> Inl (DuckDb msg))"
  by (auto simp: stmt_def)

lemma now_ns_eq: "now_ns E s = (r, s') \<longleftrightarrow> r = Inr (env_clock E (tick s)) \<and> s' = s \<lparr> tick := tick s + 1 \<rparr>"
  by (auto simp: now_ns_def)

lemma query_cases:
  assumes "query E f s = (r, s')"
  shows "s' = s \<lparr> tick := tick s + 1 \<rparr>" and "\<And>x. r = Inr x \<Longrightarrow> x = f (data s)"
  using assms by (auto simp: query_def seqc_def bindc_eq stmt_eq split: option.splits)

lemma query_Inr [simp]: "query E f s = (Inr x, s') \<longleftrightarrow> env_io E (tick s) = None \<and> x = f (data s) \<and> s' = s \<lparr> tick := tick s + 1 \<rparr>"
  by (auto simp: query_def stmt_eq split: option.splits)

lemma execute_Inr [simp]: "execute E f s = (Inr x, s') \<longleftrightarrow> env_io E (tick s) = None \<and>
    x = fst (f (data s)) \<and> s' = s \<lparr> tick := tick s + 1, data := snd (f (data s)) \<rparr>"
  by (auto simp: execute_def stmt_eq split: option.splits prod.splits)

lemma execute_Inl [simp]: "execute E f s = (Inl e, s') \<longleftrightarrow> (\<exists>msg. env_io E (tick s) = Some msg \<and> e = DuckDb msg)
    \<and> s' = s \<lparr> tick := tick s + 1 \<rparr>"
  by (auto simp: execute_def seqc_def bindc_eq stmt_eq split: option.splits prod.splits)

lemma with_tx_Inr: "with_tx E f s = (Inr x, s') \<Longrightarrow>
    \<exists>s2. f (s \<lparr> tick := tick s + 1 \<rparr>) = (Inr x, s2) \<and> s' = s2 \<lparr> tick := tick s2 + 1 \<rparr>"
  by (auto simp: with_tx_def stmt_def split: prod.splits sum.splits option.splits)

lemma with_tx_Inl: "with_tx E f s = (Inl e, s') \<Longrightarrow> data s' = data s"
  by (auto simp: with_tx_def stmt_def split: prod.splits sum.splits option.splits)

lemma advances_intros [simp, intro]:
  "advances (stmt E)" "advances (now_ns E)" "advances (ret x)" "advances (fail e)"
  "advances (ensure c e)" "advances (query E f)" "advances (execute E g)"
  by (auto simp: advances_def stmt_eq now_ns_eq ensure_def query_def execute_def seqc_def bindc_eq
      split: option.splits prod.splits)

lemma advances_bindc [intro]: "advances m \<Longrightarrow> (\<And>x. advances (f x)) \<Longrightarrow> advances (bindc m f)"
  by (fastforce simp: advances_def bindc_eq intro: order_trans)

lemma advances_seqc [intro]: "advances m \<Longrightarrow> advances n \<Longrightarrow> advances (seqc m n)"
  by (simp add: seqc_def advances_bindc)

lemma advances_with_tx [intro]:
  assumes "advances f"
  shows "advances (with_tx E f)"
proof -
  have "tick s \<le> tick s'" if "with_tx E f s = (r, s')" for s r s'
  proof -
    let ?s1 = "s \<lparr> tick := tick s + 1 \<rparr>"
    obtain r2 s2 where f: "f ?s1 = (r2, s2)" by (cases "f ?s1")
    have "tick s + 1 \<le> tick s2" using advancesD[OF assms f] by simp
    then show ?thesis
      using that f by (auto simp: with_tx_def stmt_def split: sum.splits option.splits)
  qed
  then show ?thesis by (auto simp: advances_def)
qed

section \<open>The operations of the writer\<close>

datatype wop =
    SetGameday string string
  | RegisterDef registry_row
  | RegisterGameday registry_row
  | InsertRun new_run "context_json option"
  | InsertGated new_run request_row "string option" "context_json option"
  | SetState string run_state "string option" "string option" "string option"
  | MarkStarted string "string option"
  | Claim string
  | Begin string string "string option"
  | Stop string "string option"
  | FailRun string string
  | Finish string run_state "string option" "string option" "string option"
  | Audit string string "string option" "string option"
  | InsertRequest request_row
  | Decide decision_row
  | DecidePending decision_row
  | BreakGlass string string string
  | BreakGlassPending string string string
  | Consume string int

fun exec_op :: "env \<Rightarrow> wop \<Rightarrow> unit writer" where
  "exec_op E (SetGameday rid g) = set_run_gameday E rid g"
| "exec_op E (RegisterDef g) = register_definition E g"
| "exec_op E (RegisterGameday g) = register_gameday_definition E g"
| "exec_op E (InsertRun r c) = insert_run_with_context E r c"
| "exec_op E (InsertGated r q d c) = insert_gated_run_with_context E r q d c"
| "exec_op E (SetState rid st ev det act) = set_run_state_with E rid st ev det act"
| "exec_op E (MarkStarted rid eid) = mark_run_started E rid eid"
| "exec_op E (Claim rid) = claim_run E rid"
| "exec_op E (Begin rid plan pin) = begin_run_execution E rid plan pin"
| "exec_op E (Stop rid act) = request_run_stop E rid act"
| "exec_op E (FailRun rid err) = fail_run E rid err"
| "exec_op E (Finish rid st eid rb err) = finish_run E rid st eid rb err"
| "exec_op E (Audit rid ev det act) = insert_run_audit E rid ev det act"
| "exec_op E (InsertRequest q) = insert_approval_request E q"
| "exec_op E (Decide dec) = insert_approval_decision E dec"
| "exec_op E (DecidePending dec) = insert_pending_approval_decision E dec"
| "exec_op E (BreakGlass rid who j) = mark_break_glass E rid who j"
| "exec_op E (BreakGlassPending rid who j) = mark_pending_break_glass E rid who j"
| "exec_op E (Consume rid t) = consume_approval E rid t"

lemmas op_defs = set_run_gameday_def register_definition_def register_gameday_definition_def
  insert_run_with_context_def insert_gated_run_with_context_def set_run_state_with_def
  mark_run_started_def claim_run_def begin_run_execution_def request_run_stop_def fail_run_def
  finish_run_def insert_approval_request_def
  insert_pending_approval_decision_def mark_break_glass_def mark_pending_break_glass_def
  consume_approval_def

lemmas part_defs = insert_run_context_def insert_row_def require_transition_def query_state_def
  require_pending_approval_def update_runs_def update_requests_def

text \<open>Relations between tables that every write moves along.\<close>

locale table_order = preorder_system le for le :: "db \<Rightarrow> db \<Rightarrow> bool"
begin

lemma moves_base [simp, intro]:
  "moves le (stmt E)" "moves le (now_ns E)" "moves le (ret x)" "moves le (fail e)"
  "moves le (ensure c e)" "moves le (query E f)"
  by (auto simp: moves_def stmt_eq now_ns_eq ensure_def dest: query_cases)

lemma moves_execute: "(\<And>d. le d (snd (f d))) \<Longrightarrow> moves le (execute E f)"
  by (auto simp: moves_def execute_def seqc_def bindc_eq stmt_eq split: option.splits prod.splits)
    (metis snd_conv)

lemma moves_bindc: "moves le m \<Longrightarrow> (\<And>x. moves le (f x)) \<Longrightarrow> moves le (bindc m f)"
  unfolding moves_def bindc_eq using le_trans by blast

lemma moves_seqc: "moves le m \<Longrightarrow> moves le n \<Longrightarrow> moves le (seqc m n)"
  by (simp add: seqc_def moves_bindc)

lemma moves_with_tx: "moves le f \<Longrightarrow> moves le (with_tx E f)"
proof -
  assume f: "moves le f"
  have "le (data s) (data s')" if t: "with_tx E f s = (r, s')" for s r s'
  proof (cases r)
    case (Inl e)
    show ?thesis using with_tx_Inl[OF t[unfolded Inl]] by simp
  next
    case (Inr x)
    then obtain s2 where s2: "f (s \<lparr> tick := tick s + 1 \<rparr>) = (Inr x, s2)" "s' = s2 \<lparr> tick := tick s2 + 1 \<rparr>"
      using with_tx_Inr[OF t[unfolded Inr]] by (elim exE conjE)
    show ?thesis using movesD[OF f s2(1)] s2(2) by simp
  qed
  then show ?thesis by (simp add: moves_def)
qed

lemma moves_insert_run_audit:
  "(\<And>d a. le d (d \<lparr> audits := audits d @ [a] \<rparr>)) \<Longrightarrow> moves le (insert_run_audit E rid ev det act)"
  unfolding insert_run_audit_def Let_def by (intro moves_bindc moves_execute moves_base) auto

lemma moves_update_runs:
  "(\<And>d. le d (d \<lparr> runs := map (\<lambda>r. if P r then f r else r) (runs d) \<rparr>)) \<Longrightarrow> moves le (update_runs E P f)"
  unfolding update_runs_def by (rule moves_execute) (simp add: update_where_def)

lemma moves_update_requests:
  "(\<And>d. le d (d \<lparr> requests := map (\<lambda>r. if P r then f r else r) (requests d) \<rparr>)) \<Longrightarrow> moves le (update_requests E P f)"
  unfolding update_requests_def by (rule moves_execute) (simp add: update_where_def)

lemmas moves_rules = moves_bindc moves_seqc moves_with_tx moves_base

end

text \<open>Rows are never removed: a table after a write is its old rows, each related to what it
  was, followed by new ones.\<close>

definition grows :: "('r \<Rightarrow> 'r \<Rightarrow> bool) \<Rightarrow> 'r list \<Rightarrow> 'r list \<Rightarrow> bool" where
  "grows R xs ys \<longleftrightarrow> (\<exists>zs ws. ys = zs @ ws \<and> list_all2 R xs zs)"

lemma grows_refl: "(\<And>x. R x x) \<Longrightarrow> grows R xs xs"
  unfolding grows_def by (intro exI[of _ xs] exI[of _ "[]"]) (auto simp: list_all2_conv_all_nth)

lemma grows_trans:
  assumes R: "\<And>x y z. R x y \<Longrightarrow> R y z \<Longrightarrow> R x z" and "grows R xs ys" "grows R ys zs"
  shows "grows R xs zs"
proof -
  obtain a b where a: "ys = a @ b" "list_all2 R xs a" using assms by (auto simp: grows_def)
  obtain c e where c: "zs = c @ e" "list_all2 R (a @ b) c" using assms a by (auto simp: grows_def)
  then obtain u v where uv: "c = u @ v" "list_all2 R a u" by (auto simp: list_all2_append1)
  have "list_all2 R xs u" using list_all2_trans[of R R R xs a u] R a(2) uv(2) by blast
  then show ?thesis using c(1) uv(1) unfolding grows_def by (intro exI[of _ u] exI[of _ "v @ e"]) simp
qed

lemma grows_append: "(\<And>x. R x x) \<Longrightarrow> grows R xs (xs @ ys)"
  unfolding grows_def by (intro exI[of _ xs] exI[of _ ys]) (auto simp: list_all2_conv_all_nth)

lemma grows_update: "(\<And>x. R x x) \<Longrightarrow> (\<And>x. P x \<Longrightarrow> R x (f x)) \<Longrightarrow> grows R xs (map (\<lambda>r. if P r then f r else r) xs)"
  unfolding grows_def by (intro exI[of _ "map (\<lambda>r. if P r then f r else r) xs"] exI[of _ "[]"])
    (auto simp: list_all2_conv_all_nth)

lemma grows_in: "grows R xs ys \<Longrightarrow> x \<in> set xs \<Longrightarrow> \<exists>y \<in> set ys. R x y"
  unfolding grows_def by (metis Un_iff list_all2_conv_all_nth in_set_conv_nth set_append)

end
