(* ===== verification/Run_Invariants.thy ===== *)
theory Run_Invariants
  imports Run_Store "HOL-Library.Countable"
begin

text \<open>
  What every sequence of writes on the run tables keeps: rows are only added or
  moved forward, operations are all-or-nothing whatever statement fails, the
  audit trail of each run is a verifiable hash chain, an approval is consumed
  once, decisions respect the segregation of duties, and a run changes state only
  along the edges of its state machine.
\<close>

section \<open>Tables only move forward\<close>

definition run_evolves :: "run_row \<Rightarrow> run_row \<Rightarrow> bool" where
  "run_evolves r r' \<longleftrightarrow> run_id r' = run_id r \<and> run_registry_id r' = run_registry_id r
     \<and> run_params_json r' = run_params_json r \<and> run_queued_at r' = run_queued_at r
     \<and> (run_started_at r' = None \<longrightarrow> run_started_at r = None)"

definition request_evolves :: "request_row \<Rightarrow> request_row \<Rightarrow> bool" where
  "request_evolves q q' \<longleftrightarrow> rq_run q' = rq_run q \<and> rq_tier q' = rq_tier q \<and> rq_pin q' = rq_pin q
     \<and> rq_env q' = rq_env q \<and> rq_target q' = rq_target q \<and> rq_quorum q' = rq_quorum q
     \<and> rq_requested_by q' = rq_requested_by q \<and> rq_requested_at q' = rq_requested_at q
     \<and> rq_expires_at q' = rq_expires_at q \<and> (rq_consumed_at q' = None \<longrightarrow> rq_consumed_at q = None)
     \<and> (rq_break_glass q \<longrightarrow> rq_break_glass q')"

definition evolves :: "db \<Rightarrow> db \<Rightarrow> bool" where
  "evolves d d' \<longleftrightarrow> grows run_evolves (runs d) (runs d') \<and> prefix (audits d) (audits d')
     \<and> prefix (registry d) (registry d') \<and> grows request_evolves (requests d) (requests d')
     \<and> prefix (decisions d) (decisions d') \<and> prefix (plans d) (plans d') \<and> prefix (pins d) (pins d')"

lemma run_evolves_refl [simp]: "run_evolves r r"
  by (simp add: run_evolves_def)

lemma request_evolves_refl [simp]: "request_evolves q q"
  by (simp add: request_evolves_def)

lemma run_evolves_trans: "run_evolves a b \<Longrightarrow> run_evolves b c \<Longrightarrow> run_evolves a c"
  by (auto simp: run_evolves_def)

lemma request_evolves_trans: "request_evolves a b \<Longrightarrow> request_evolves b c \<Longrightarrow> request_evolves a c"
  by (auto simp: request_evolves_def)

lemma grows_evolves_refl [simp]: "grows run_evolves xs xs" "grows request_evolves ys ys"
  by (simp_all add: grows_refl)

lemma grows_evolves_append [simp]: "grows run_evolves xs (xs @ zs)" "grows request_evolves ys (ys @ ws)"
  by (simp_all add: grows_append)

interpretation history: table_order evolves
proof unfold_locales
  show "evolves d d" for d by (simp add: evolves_def)
  show "evolves d1 d3" if "evolves d1 d2" "evolves d2 d3" for d1 d2 d3
    using that grows_trans[OF run_evolves_trans] grows_trans[OF request_evolves_trans]
    by (auto simp: evolves_def intro: prefix_order.trans)
qed

lemma evolves_runs: "(\<And>r. P r \<Longrightarrow> run_evolves r (f r)) \<Longrightarrow> moves evolves (update_runs E P f)"
  by (rule history.moves_update_runs) (auto simp: evolves_def intro!: grows_update)

lemma evolves_requests: "(\<And>q. P q \<Longrightarrow> request_evolves q (f q)) \<Longrightarrow> moves evolves (update_requests E P f)"
  by (rule history.moves_update_requests) (auto simp: evolves_def intro!: grows_update)

lemma evolves_audit [simp, intro]: "moves evolves (insert_run_audit E rid ev det act)"
  by (rule history.moves_insert_run_audit) (simp add: evolves_def)

lemma evolves_parts [simp, intro]:
  "moves evolves (require_transition n rid)" "moves evolves (query_state E rid)"
  "moves evolves (require_pending_approval E rid)" "moves evolves (insert_row E nr st)"
  "moves evolves (insert_run_context E rid c act)" "moves evolves (insert_approval_request E q)"
  "moves evolves (insert_approval_decision E dec)" "moves evolves (mark_break_glass E rid who j)"
  by (auto simp: require_transition_def query_state_def require_pending_approval_def insert_row_def
      insert_run_context_def insert_approval_request_def insert_approval_decision_def mark_break_glass_def
      evolves_def request_evolves_def intro!: history.moves_rules history.moves_execute evolves_requests
      split: option.split context_json.split pin_field.split)

lemmas evolves_intros = history.moves_rules history.moves_execute evolves_runs evolves_requests evolves_audit evolves_parts

lemma exec_op_evolves: "moves evolves (exec_op E op)"
  by (cases op) (auto simp: op_defs Let_def evolves_def run_evolves_def request_evolves_def
      stop_row_def fail_row_def intro!: evolves_intros split: option.split)

section \<open>Operations are all-or-nothing\<close>

definition atomic :: "'a writer \<Rightarrow> bool" where
  "atomic m \<longleftrightarrow> (\<forall>s e s'. m s = (Inl e, s') \<longrightarrow> data s' = data s)"

interpretation unchanged: table_order "(=)"
  by unfold_locales auto

lemma atomic_base [simp, intro]:
  "atomic (ret x)" "atomic (fail e)" "atomic (ensure c e)" "atomic (query E f)" "atomic (execute E g)"
  "atomic (with_tx E m)"
  by (auto simp: atomic_def dest: query_cases with_tx_Inl)

lemma atomic_bindc: "moves (=) m \<Longrightarrow> (\<And>x. atomic (f x)) \<Longrightarrow> atomic (bindc m f)"
  by (auto simp: atomic_def moves_def bindc_eq)

lemma atomic_seqc: "moves (=) m \<Longrightarrow> atomic n \<Longrightarrow> atomic (seqc m n)"
  by (simp add: seqc_def atomic_bindc)

lemma atomic_unit: "atomic m \<Longrightarrow> atomic (bindc m (\<lambda>_. ret ()))"
  by (auto simp: atomic_def bindc_eq)

lemma atomic_updates [simp, intro]: "atomic (update_runs E P f)" "atomic (update_requests E Q g)"
  by (simp_all add: update_runs_def update_requests_def)

lemma atomic_insert_run_audit [simp, intro]: "atomic (insert_run_audit E rid ev det act)"
  unfolding insert_run_audit_def Let_def by (intro atomic_bindc unchanged.moves_base atomic_base)

lemma atomic_insert_approval_decision [simp, intro]: "atomic (insert_approval_decision E dec)"
  unfolding insert_approval_decision_def
  by (intro atomic_bindc atomic_seqc unchanged.moves_base) (auto split: option.split intro!: atomic_seqc atomic_bindc)

lemma exec_op_advances: "advances (exec_op E op)"
  by (cases op) (auto simp: op_defs part_defs insert_run_audit_def insert_approval_decision_def Let_def
      intro!: advances_bindc advances_seqc advances_with_tx split: option.split context_json.split pin_field.split)

text \<open>Every write on the run tables is all-or-nothing: when it reports an error, whichever
  of its statements or guards failed, the tables are exactly as before.\<close>

theorem write_all_or_nothing:
  assumes "exec_op E op s = (Inl e, s')"
  shows "data s' = data s"
proof -
  have "atomic (exec_op E op)"
    by (cases op) (auto simp: op_defs Let_def intro!: atomic_unit)
  then show ?thesis using assms by (auto simp: atomic_def)
qed

section \<open>The audit chain\<close>

lemma latest_audit_Nil [simp]: "latest_audit [] = None"
  by (simp add: latest_audit_def)

lemma latest_audit_snoc:
  "latest_audit (rs @ [r]) = (case latest_audit rs of None \<Rightarrow> Some r
     | Some a \<Rightarrow> if au_at a \<le> au_at r then Some r else Some a)"
  by (simp add: latest_audit_def split: option.split)

lemma latest_audit_sorted: "sorted (map au_at rs) \<Longrightarrow> latest_audit rs = (if rs = [] then None else Some (last rs))"
proof (induction rs rule: rev_induct)
  case (snoc r rs)
  then show ?case
    by (auto simp: latest_audit_snoc sorted_append split: option.split)
qed (simp add: latest_audit_def)

text \<open>The hash the next link must carry as its predecessor's.\<close>

fun tip :: "string option \<Rightarrow> audit_row list \<Rightarrow> string option" where
  "tip h [] = h"
| "tip h (r # rs) = tip (case au_new r of None \<Rightarrow> h | Some x \<Rightarrow> Some x) rs"

lemma tip_append [simp]: "tip h (rs @ ss) = tip (tip h rs) ss"
  by (induction rs arbitrary: h) auto

lemma verify_chain_append [simp]:
  "verify_chain E h (rs @ ss) \<longleftrightarrow> verify_chain E h rs \<and> verify_chain E (tip h rs) ss"
  by (induction rs arbitrary: h) (auto split: option.split)

definition chained :: "audit_row list \<Rightarrow> bool" where
  "chained rs \<longleftrightarrow> (\<forall>r \<in> set rs. au_new r \<noteq> None)"

lemma tip_last: "chained rs \<Longrightarrow> rs \<noteq> [] \<Longrightarrow> tip h rs = au_new (last rs)"
  by (induction rs arbitrary: h rule: rev_induct) (auto simp: chained_def split: option.split)

definition audits_ok :: "env \<Rightarrow> store \<Rightarrow> bool" where
  "audits_ok E s \<longleftrightarrow> sorted (map au_at (audits (data s)))
     \<and> (\<forall>r \<in> set (audits (data s)). au_at r \<le> env_clock E (tick s)) \<and> chained (audits (data s))
     \<and> (\<forall>rid. verify_chain E None (run_audits rid (data s)))"

lemma run_audits_facts:
  "sorted (map au_at (audits d)) \<Longrightarrow> sorted (map au_at (run_audits rid d))"
  "chained (audits d) \<Longrightarrow> chained (run_audits rid d)"
  by (auto simp: run_audits_def chained_def sorted_filter)

text \<open>With a clock that never runs backwards, an append extends every chain.\<close>

lemma audits_ok_insert:
  assumes mono: "mono (env_clock E)" and ok: "audits_ok E s"
    and ins: "insert_run_audit E rid ev det act s = (Inr (), s')"
  shows "audits_ok E s'"
proof -
  define d where "d = data s"
  define at where "at = env_clock E (tick s)"
  define prev where "prev = (case latest_audit (run_audits rid d) of None \<Rightarrow> None | Some r \<Rightarrow> au_new r)"
  define row where "row = \<lparr> au_run = rid, au_at = at, au_event = ev, au_detail = det, au_actor = act,
    au_prev = prev, au_new = Some (env_audit_hash E (rid, at, ev, det, act, prev)) \<rparr>"
  have s': "audits (data s') = audits d @ [row]" "tick s' = tick s + 3"
    using ins by (auto simp: insert_run_audit_def now_ns_eq Let_def d_def at_def prev_def row_def)
  have sd: "sorted (map au_at (audits d))" "chained (audits d)"
    and bd: "\<And>r. r \<in> set (audits d) \<Longrightarrow> au_at r \<le> at"
    and vd: "\<And>x. verify_chain E None (run_audits x d)"
    using ok by (auto simp: audits_ok_def d_def at_def)
  have prev_tip: "prev = tip None (run_audits rid d)"
    using tip_last[OF run_audits_facts(2)[OF sd(2)]] latest_audit_sorted[OF run_audits_facts(1)[OF sd(1)]]
    by (cases "run_audits rid d = []") (auto simp: prev_def)
  have at': "at \<le> env_clock E (tick s')" unfolding at_def s' by (rule monoD[OF mono]) simp
  have "run_audits x (data s') = run_audits x d @ (if x = rid then [row] else [])" for x
    by (simp add: run_audits_def s' row_def)
  then have "verify_chain E None (run_audits x (data s'))" for x
    using vd prev_tip by (simp add: row_def audit_hash_of_def)
  moreover have "chained (audits (data s'))" using sd(2) by (simp add: chained_def s' row_def)
  moreover have "sorted (map au_at (audits (data s')))"
    using sd(1) bd by (simp add: s' sorted_append row_def)
  moreover have "\<forall>r \<in> set (audits (data s')). au_at r \<le> env_clock E (tick s')"
    using bd at' by (auto simp: s' row_def intro: order_trans)
  ultimately show ?thesis by (simp add: audits_ok_def)
qed

lemma audits_ok_later:
  assumes "mono (env_clock E)" "audits_ok E s" "audits (data s') = audits (data s)" "tick s \<le> tick s'"
  shows "audits_ok E s'"
proof -
  have c: "env_clock E (tick s) \<le> env_clock E (tick s')" using assms(1,4) by (rule monoD)
  have "run_audits rid (data s') = run_audits rid (data s)" for rid
    by (simp add: run_audits_def assms(3))
  then show ?thesis using assms(2) c by (auto simp: audits_ok_def assms(3) intro: order_trans)
qed

definition same_audits :: "db \<Rightarrow> db \<Rightarrow> bool" where
  "same_audits d d' \<longleftrightarrow> audits d' = audits d"

interpretation same_audits: table_order same_audits
  by unfold_locales (auto simp: same_audits_def)

lemma keeps_same_audits:
  "mono (env_clock E) \<Longrightarrow> moves same_audits m \<Longrightarrow> advances m \<Longrightarrow> keeps (audits_ok E) m"
  by (rule keepsI) (metis audits_ok_later movesD advancesD same_audits_def)

lemma advances_insert_run_audit [simp, intro]: "advances (insert_run_audit E rid ev det act)"
  unfolding insert_run_audit_def Let_def by (intro advances_bindc) auto

lemma keeps_insert_run_audit [simp, intro]:
  assumes "mono (env_clock E)"
  shows "keeps (audits_ok E) (insert_run_audit E rid ev det act)"
proof (rule keepsI)
  fix s r s'
  assume ok: "audits_ok E s" and run: "insert_run_audit E rid ev det act s = (r, s')"
  show "audits_ok E s'"
  proof (cases r)
    case (Inl e)
    then have "data s' = data s"
      using run atomic_insert_run_audit[unfolded atomic_def, rule_format] by blast
    then show ?thesis
      using audits_ok_later[OF assms ok] advancesD[OF advances_insert_run_audit run] by simp
  next
    case (Inr x)
    then show ?thesis using audits_ok_insert[OF assms ok] run by simp
  qed
qed

lemma keeps_with_tx:
  assumes mono: "mono (env_clock E)" and f: "keeps (audits_ok E) f" and adv: "advances f"
  shows "keeps (audits_ok E) (with_tx E f)"
proof (rule keepsI)
  fix s r s'
  assume ok: "audits_ok E s" and run: "with_tx E f s = (r, s')"
  have later: "tick s \<le> tick s'" using advancesD[OF advances_with_tx[OF adv] run] .
  show "audits_ok E s'"
  proof (cases r)
    case (Inl e)
    then have "data s' = data s" using with_tx_Inl run by blast
    then show ?thesis using audits_ok_later[OF mono ok _ later] by simp
  next
    case (Inr x)
    then obtain s2 where s2: "f (s \<lparr> tick := tick s + 1 \<rparr>) = (Inr x, s2)" "s' = s2 \<lparr> tick := tick s2 + 1 \<rparr>"
      using with_tx_Inr[of E f s x s'] run by auto
    have "audits_ok E (s \<lparr> tick := tick s + 1 \<rparr>)" by (rule audits_ok_later[OF mono ok]) simp_all
    then have "audits_ok E s2" by (rule keepsD[OF f _ s2(1)])
    then show ?thesis by (rule audits_ok_later[OF mono]) (simp_all add: s2(2))
  qed
qed

lemma same_audits_parts [simp, intro]:
  "moves same_audits (update_runs E P f)"
  "moves same_audits (update_requests E Q g)"
  "moves same_audits (require_transition n rid)"
  "moves same_audits (query_state E rid)"
  "moves same_audits (require_pending_approval E rid)"
  "moves same_audits (insert_row E nr st)"
  "moves same_audits (insert_approval_request E q)"
  "moves same_audits (insert_approval_decision E dec)"
  by (auto simp: require_transition_def query_state_def require_pending_approval_def insert_row_def
      insert_approval_request_def insert_approval_decision_def same_audits_def split: option.split
      intro!: same_audits.moves_rules same_audits.moves_execute same_audits.moves_update_runs
        same_audits.moves_update_requests)

lemma advances_parts [simp, intro]:
  "advances (update_runs E P f)" "advances (update_requests E Q g)" "advances (require_transition n rid)"
  "advances (query_state E rid)" "advances (require_pending_approval E rid)" "advances (insert_row E nr st)"
  "advances (insert_approval_request E q)" "advances (insert_approval_decision E dec)"
  "advances (insert_run_context E rid c act)"
  by (auto simp: part_defs insert_approval_request_def insert_approval_decision_def
      split: option.split context_json.split pin_field.split intro!: advances_bindc advances_seqc)

lemma audit_keeps_parts:
  assumes "mono (env_clock E)"
  shows "keeps (audits_ok E) (update_runs E P f)" "keeps (audits_ok E) (update_requests E Q g)"
    "keeps (audits_ok E) (require_transition n rid)" "keeps (audits_ok E) (query_state E rid)"
    "keeps (audits_ok E) (require_pending_approval E rid)" "keeps (audits_ok E) (insert_row E nr st)"
    "keeps (audits_ok E) (insert_approval_request E q)" "keeps (audits_ok E) (insert_approval_decision E dec)"
    "keeps (audits_ok E) (now_ns E)" "keeps (audits_ok E) (query E h)"
    "(\<And>d. audits (snd (g' d)) = audits d) \<Longrightarrow> keeps (audits_ok E) (execute E g')"
  by (auto intro!: keeps_same_audits[OF assms] same_audits.moves_execute simp: same_audits_def)

lemma audit_keeps_context:
  "mono (env_clock E) \<Longrightarrow> keeps (audits_ok E) (insert_run_context E rid c act)"
  by (auto simp: insert_run_context_def intro!: keeps_seqc audit_keeps_parts
      split: context_json.split pin_field.split)

lemma exec_op_audits: "mono (env_clock E) \<Longrightarrow> keeps (audits_ok E) (exec_op E op)"
  by (cases op) (auto simp: op_defs Let_def intro!: keeps_with_tx keeps_bindc keeps_seqc advances_bindc
      advances_seqc audit_keeps_parts audit_keeps_context split: option.split)

section \<open>Reachable stores\<close>

text \<open>Run ids are fresh uuids: an insertion names a run no table knows yet. The schema has no
  keys, so uniqueness is exactly this.\<close>

definition known_runs :: "db \<Rightarrow> string set" where
  "known_runs d = run_id ` set (runs d) \<union> rq_run ` set (requests d) \<union> dc_run ` set (decisions d)"

fun fresh_op :: "wop \<Rightarrow> db \<Rightarrow> bool" where
  "fresh_op (InsertRun r c) d = (nr_id r \<notin> known_runs d)"
| "fresh_op (InsertGated r q det c) d = (nr_id r \<notin> known_runs d \<and> rq_run q = nr_id r)"
| "fresh_op (InsertRequest q) d = (rq_run q \<notin> rq_run ` set (requests d) \<union> dc_run ` set (decisions d))"
| "fresh_op _ d = True"

text \<open>A step is one write of the writer, or time that passes with reads and clock readings.\<close>

inductive store_step :: "env \<Rightarrow> store \<Rightarrow> store \<Rightarrow> bool" for E where
  step: "fresh_op op (data s) \<Longrightarrow> exec_op E op s = (r, s') \<Longrightarrow> store_step E s s'"
| idle: "tick s \<le> n \<Longrightarrow> store_step E s (s \<lparr> tick := n \<rparr>)"

inductive_cases store_stepE: "store_step E s s'"

definition empty_db :: db where
  "empty_db = \<lparr> runs = [], audits = [], registry = [], requests = [], decisions = [], plans = [], pins = [] \<rparr>"

definition empty_store :: store where
  "empty_store = \<lparr> data = empty_db, tick = 0 \<rparr>"

abbreviation reachable :: "env \<Rightarrow> store \<Rightarrow> bool" where
  "reachable E s \<equiv> (store_step E)\<^sup>*\<^sup>* empty_store s"

lemma store_step_evolves: "store_step E s s' \<Longrightarrow> evolves (data s) (data s')"
  by (elim store_stepE) (auto dest: movesD[OF exec_op_evolves])

lemma store_steps_evolve: "(store_step E)\<^sup>*\<^sup>* s s' \<Longrightarrow> evolves (data s) (data s')"
  by (induction rule: rtranclp_induct) (auto intro: history.le_trans store_step_evolves)

interpretation audit_system: stable_system "store_step E" "\<lambda>s. mono (env_clock E) \<longrightarrow> audits_ok E s" for E
  by unfold_locales (auto elim!: store_stepE dest: keepsD[OF exec_op_audits] intro: audits_ok_later)

lemma audits_ok_empty: "audits_ok E empty_store"
  by (simp add: audits_ok_def empty_store_def empty_db_def chained_def run_audits_def)

text \<open>C4: with a clock that does not run backwards, the audit trail of every run verifies after
  any sequence of writes, failed ones included, from the empty store.\<close>

theorem audit_trail_verifies:
  assumes "mono (env_clock E)" "reachable E s" "env_io E (tick s) = None"
  shows "fst (verify_run_audit_chain E rid s) = Inr True"
proof -
  have ok: "audits_ok E s"
    using audit_system.steps_inv[OF assms(2)] audits_ok_empty assms(1) by blast
  then have "sort_key au_at (run_audits rid (data s)) = run_audits rid (data s)"
    by (intro sort_key_id_if_sorted run_audits_facts(1)) (simp add: audits_ok_def)
  then show ?thesis using ok assms(3)
    by (simp add: verify_run_audit_chain_def query_def seqc_def bindc_def stmt_def audits_ok_def)
qed

section \<open>Tampering is detected\<close>

lemma chain_tip_inject:
  assumes inj: "inj (env_audit_hash E)"
  shows "verify_chain E None rs \<Longrightarrow> verify_chain E None ss \<Longrightarrow> chained rs \<Longrightarrow> chained ss \<Longrightarrow>
    tip None rs = tip None ss \<Longrightarrow> rs = ss"
proof (induction rs arbitrary: ss rule: rev_induct)
  case Nil
  then show ?case using tip_last[of ss None] by (cases ss rule: rev_cases) (auto simp: chained_def)
next
  case (snoc r rs)
  obtain h where h: "au_new r = Some h" using snoc.prems(3) by (auto simp: chained_def)
  have t: "tip None ss = Some h" using snoc.prems(5) h by simp
  then obtain ss' q where ss: "ss = ss' @ [q]" by (cases ss rule: rev_cases) auto
  have q: "au_new q = Some h" using t tip_last[OF snoc.prems(4)] by (simp add: ss)
  have "audit_hash_of E r = h" "audit_hash_of E q = h"
    "au_prev r = tip None rs" "au_prev q = tip None ss'"
    using snoc.prems h q by (auto simp: ss split: if_splits)
  then have "r = q" "tip None rs = tip None ss'"
    using inj h q by (auto simp: audit_hash_of_def dest!: injD)
  then show ?case using snoc ss by (auto simp: chained_def)
qed

text \<open>An audit trail cannot be rewritten unnoticed: under a collision-free digest, any other
  trail of hashed events that ends in the same hash fails verification, so an event that was
  edited, dropped, inserted or reordered breaks the chain unless its head is replaced too.\<close>

theorem tampering_detected:
  assumes "inj (env_audit_hash E)" "verify_chain E None rs" "chained rs"
    and "chained ss" "tip None ss = tip None rs" "ss \<noteq> rs"
  shows "\<not> verify_chain E None ss"
  using chain_tip_inject[OF assms(1), of ss rs] assms by auto

section \<open>Identities and decisions\<close>

definition requester_of :: "request_row \<Rightarrow> string \<times> string" where
  "requester_of q = (rq_run q, rq_requested_by q)"

definition same_keys :: "db \<Rightarrow> db \<Rightarrow> bool" where
  "same_keys d d' \<longleftrightarrow> map run_id (runs d') = map run_id (runs d)
     \<and> map requester_of (requests d') = map requester_of (requests d) \<and> decisions d' = decisions d"

interpretation same_keys: table_order same_keys
  by unfold_locales (auto simp: same_keys_def)

lemma keys_runs: "(\<And>r. run_id (f r) = run_id r) \<Longrightarrow> moves same_keys (update_runs E P f)"
  by (rule same_keys.moves_update_runs) (auto simp: same_keys_def)

lemma keys_requests: "(\<And>q. requester_of (f q) = requester_of q) \<Longrightarrow> moves same_keys (update_requests E P f)"
  by (rule same_keys.moves_update_requests) (auto simp: same_keys_def)

lemma keys_parts [simp, intro]:
  "moves same_keys (insert_run_audit E rid ev det act)"
  "moves same_keys (require_transition n rid)" "moves same_keys (query_state E rid)"
  "moves same_keys (require_pending_approval E rid)" "moves same_keys (mark_break_glass E rid who j)"
  "moves same_keys (insert_run_context E rid c act)"
  by (auto simp: require_transition_def query_state_def require_pending_approval_def mark_break_glass_def
      insert_run_context_def same_keys_def requester_of_def
      intro!: same_keys.moves_rules same_keys.moves_execute keys_requests same_keys.moves_insert_run_audit
      split: option.split context_json.split pin_field.split)

fun adds_keys :: "wop \<Rightarrow> bool" where
  "adds_keys (InsertRun r c) = True"
| "adds_keys (InsertGated r q det c) = True"
| "adds_keys (InsertRequest q) = True"
| "adds_keys (Decide dec) = True"
| "adds_keys (DecidePending dec) = True"
| "adds_keys _ = False"

lemma exec_op_same_keys: "\<not> adds_keys op \<Longrightarrow> moves same_keys (exec_op E op)"
  by (cases op) (auto simp: op_defs Let_def same_keys_def requester_of_def stop_row_def fail_row_def
      intro!: same_keys.moves_rules same_keys.moves_execute keys_runs keys_requests split: option.split)

definition decision_ok :: "db \<Rightarrow> decision_row \<Rightarrow> bool" where
  "decision_ok d x \<longleftrightarrow> (\<exists>q \<in> set (requests d). rq_run q = dc_run x \<and> rq_requested_by q \<noteq> dc_approver x)"

definition keys_ok :: "db \<Rightarrow> bool" where
  "keys_ok d \<longleftrightarrow> distinct (map run_id (runs d)) \<and> distinct (map rq_run (requests d))
     \<and> (\<forall>x \<in> set (decisions d). decision_ok d x)
     \<and> distinct (map (\<lambda>x. (dc_run x, dc_approver x)) (decisions d))"

lemma same_keys_ok: "same_keys d d' \<Longrightarrow> keys_ok d \<Longrightarrow> keys_ok d'"
proof -
  assume s: "same_keys d d'" and k: "keys_ok d"
  have m: "map rq_run xs = map fst (map requester_of xs)" for xs
    by (simp add: requester_of_def)
  have run: "map rq_run (requests d') = map rq_run (requests d)"
    using s unfolding m by (simp only: same_keys_def)
  have "requester_of ` set (requests d') = requester_of ` set (requests d)"
    using s by (metis same_keys_def set_map)
  moreover have "decision_ok e x \<longleftrightarrow> (\<exists>p \<in> requester_of ` set (requests e). fst p = dc_run x \<and> snd p \<noteq> dc_approver x)" for e x
    by (auto simp: decision_ok_def requester_of_def)
  ultimately have "decision_ok d' x \<longleftrightarrow> decision_ok d x" for x by (simp only:)
  then show ?thesis using s k run by (simp add: keys_ok_def same_keys_def)
qed

lemma keys_ok_insert_run:
  "keys_ok d \<Longrightarrow> nr_id r \<notin> known_runs d \<Longrightarrow> keys_ok (d \<lparr> runs := runs d @ [new_row r st] \<rparr>)"
  by (auto simp: keys_ok_def known_runs_def new_row_def decision_ok_def)

lemma keys_ok_insert_request:
  "keys_ok d \<Longrightarrow> rq_run q \<notin> rq_run ` set (requests d) \<Longrightarrow> keys_ok (d \<lparr> requests := requests d @ [q] \<rparr>)"
  by (auto simp: keys_ok_def decision_ok_def)

lemma insert_approval_decision_Inr:
  assumes "insert_approval_decision E dec s = (Inr (), s')"
  shows "\<exists>q. find (\<lambda>q. rq_run q = dc_run dec) (requests (data s)) = Some q \<and> rq_requested_by q \<noteq> dc_approver dec
    \<and> (dc_run dec, dc_approver dec) \<notin> (\<lambda>x. (dc_run x, dc_approver x)) ` set (decisions (data s))
    \<and> data s' = data s \<lparr> decisions := decisions (data s) @ [dec] \<rparr>"
  using assms by (auto simp: insert_approval_decision_def filter_empty_conv image_iff split: option.splits)

lemma keys_ok_decision:
  assumes "keys_ok (data s)" "insert_approval_decision E dec s = (r, s')"
  shows "keys_ok (data s')"
proof (cases r)
  case (Inl e)
  then have "data s' = data s"
    using assms(2) atomic_insert_approval_decision[unfolded atomic_def, rule_format] by blast
  then show ?thesis using assms(1) by simp
next
  case (Inr x)
  then obtain q where q: "find (\<lambda>q. rq_run q = dc_run dec) (requests (data s)) = Some q"
      "rq_requested_by q \<noteq> dc_approver dec"
      "(dc_run dec, dc_approver dec) \<notin> (\<lambda>x. (dc_run x, dc_approver x)) ` set (decisions (data s))"
      "data s' = data s \<lparr> decisions := decisions (data s) @ [dec] \<rparr>"
    using insert_approval_decision_Inr[of E dec s s'] assms(2) by auto
  have "q \<in> set (requests (data s))" "rq_run q = dc_run dec"
    using q(1) by (auto simp: find_Some_iff)
  then have "decision_ok (data s) dec" using q(2) by (auto simp: decision_ok_def)
  moreover have "decision_ok (data s') y = decision_ok (data s) y" for y by (simp add: q(4) decision_ok_def)
  ultimately show ?thesis using assms(1) q(3) by (auto simp: keys_ok_def q(4))
qed

text \<open>A body run in a transaction: what it keeps is kept.\<close>

lemma with_tx_keeps_data:
  assumes "with_tx E f s = (r, s')" "P (data s)"
    and "\<And>s1 x s2. data s1 = data s \<Longrightarrow> f s1 = (Inr x, s2) \<Longrightarrow> P (data s2)"
  shows "P (data s')"
proof (cases r)
  case (Inl e)
  then show ?thesis using assms with_tx_Inl by metis
next
  case (Inr x)
  then obtain s2 where s2: "f (s \<lparr> tick := tick s + 1 \<rparr>) = (Inr x, s2)" "s' = s2 \<lparr> tick := tick s2 + 1 \<rparr>"
    using with_tx_Inr[of E f s x s'] assms(1) by auto
  have "P (data s2)" by (rule assms(3)[OF _ s2(1)]) simp
  then show ?thesis by (simp add: s2(2))
qed

lemma keys_ok_moves: "moves same_keys m \<Longrightarrow> m s = (r, s') \<Longrightarrow> keys_ok (data s) \<Longrightarrow> keys_ok (data s')"
  using movesD same_keys_ok by blast

lemma insert_row_Inr: "insert_row E r st s = (Inr x, s') \<Longrightarrow> data s' = data s \<lparr> runs := runs (data s) @ [new_row r st] \<rparr>"
  by (simp add: insert_row_def)

lemma insert_request_Inr: "insert_approval_request E q s = (Inr x, s') \<Longrightarrow>
    \<exists>q'. requester_of q' = requester_of q \<and> data s' = data s \<lparr> requests := requests (data s) @ [q'] \<rparr>"
  by (auto simp: insert_approval_request_def requester_of_def
      intro!: exI[of _ "q \<lparr> rq_consumed_at := None, rq_break_glass := False, rq_break_glass_by := None,
        rq_justification := None \<rparr>"])

lemma context_case_keys: "moves same_keys (case c of None \<Rightarrow> ret () | Some c \<Rightarrow> insert_run_context E rid c act)"
  by (cases c) auto

lemma keys_ok_insert_op:
  assumes "keys_ok (data s)" "nr_id r \<notin> known_runs (data s)"
    and "insert_run_with_context E r c s = (res, s')"
  shows "keys_ok (data s')"
proof (rule with_tx_keeps_data[where P = keys_ok, OF assms(3)[unfolded insert_run_with_context_def] assms(1)])
  fix s1 x s2
  assume s1: "data s1 = data s" and run: "seqc (insert_row E r Queued)
    (seqc (insert_run_audit E (nr_id r) ''enqueued'' None (nr_actor r))
     (case c of None \<Rightarrow> ret () | Some c \<Rightarrow> insert_run_context E (nr_id r) c (nr_actor r))) s1 = (Inr x, s2)"
  then obtain y t where t: "insert_row E r Queued s1 = (Inr y, t)"
    and rest: "seqc (insert_run_audit E (nr_id r) ''enqueued'' None (nr_actor r))
     (case c of None \<Rightarrow> ret () | Some c \<Rightarrow> insert_run_context E (nr_id r) c (nr_actor r)) t = (Inr x, s2)"
    by (subst (asm) seqc_Inr) blast
  have "keys_ok (data t)"
    using keys_ok_insert_run[OF assms(1,2)] insert_row_Inr[OF t] s1 by simp
  then show "keys_ok (data s2)"
    by (rule keys_ok_moves[OF same_keys.moves_seqc[OF keys_parts(1) context_case_keys] rest])
qed

lemma keys_ok_gated_op:
  assumes "keys_ok (data s)" "nr_id r \<notin> known_runs (data s)" "rq_run q = nr_id r"
    and "insert_gated_run_with_context E r q det c s = (res, s')"
  shows "keys_ok (data s')"
proof (rule with_tx_keeps_data[where P = keys_ok, OF assms(4)[unfolded insert_gated_run_with_context_def] assms(1)])
  fix s1 x s2
  assume s1: "data s1 = data s" and run: "seqc (insert_row E r PendingApproval)
    (seqc (insert_approval_request E q) (seqc (insert_run_audit E (nr_id r) ''requested'' det (nr_actor r))
     (case c of None \<Rightarrow> ret () | Some c \<Rightarrow> insert_run_context E (nr_id r) c (nr_actor r)))) s1 = (Inr x, s2)"
  then obtain y t z u where t: "insert_row E r PendingApproval s1 = (Inr y, t)"
    and u: "insert_approval_request E q t = (Inr z, u)"
    and rest: "seqc (insert_run_audit E (nr_id r) ''requested'' det (nr_actor r))
     (case c of None \<Rightarrow> ret () | Some c \<Rightarrow> insert_run_context E (nr_id r) c (nr_actor r)) u = (Inr x, s2)"
    by (simp only: seqc_Inr[of "insert_row E r PendingApproval"] seqc_Inr[of "insert_approval_request E q"]) blast
  have t': "keys_ok (data t)" "requests (data t) = requests (data s)"
    using keys_ok_insert_run[OF assms(1,2)] insert_row_Inr[OF t] s1 by simp_all
  obtain q' where q': "requester_of q' = requester_of q" "data u = data t \<lparr> requests := requests (data t) @ [q'] \<rparr>"
    using insert_request_Inr[OF u] by blast
  have "rq_run q' = nr_id r" using q'(1) assms(3) by (simp add: requester_of_def)
  then have "keys_ok (data u)"
    using keys_ok_insert_request[OF t'(1), of q'] t'(2) q'(2) assms(2) by (simp add: known_runs_def)
  then show "keys_ok (data s2)"
    by (rule keys_ok_moves[OF same_keys.moves_seqc[OF keys_parts(1) context_case_keys] rest])
qed

lemma exec_op_keys_ok:
  assumes "fresh_op op (data s)" "exec_op E op s = (r, s')" "keys_ok (data s)"
  shows "keys_ok (data s')"
proof (cases "adds_keys op")
  case False
  then show ?thesis using keys_ok_moves[OF exec_op_same_keys] assms by blast
next
  case True
  then show ?thesis
  proof (cases op)
    case (InsertRequest q)
    have "insert_approval_request E q s = (r, s')" using assms(2) InsertRequest by simp
    then show ?thesis
      using assms InsertRequest keys_ok_insert_request[OF assms(3)]
      by (cases r) (auto simp: insert_approval_request_def)
  next
    case (DecidePending dec)
    then have tx: "with_tx E (seqc (require_pending_approval E (dc_run dec)) (insert_approval_decision E dec)) s = (r, s')"
      using assms(2) by (simp add: insert_pending_approval_decision_def)
    show ?thesis
    proof (rule with_tx_keeps_data[where P = keys_ok, OF tx assms(3)])
      fix s1 x s2
      assume s1: "data s1 = data s"
        and run: "seqc (require_pending_approval E (dc_run dec)) (insert_approval_decision E dec) s1 = (Inr x, s2)"
      then obtain y t where t: "require_pending_approval E (dc_run dec) s1 = (Inr y, t)"
        and d: "insert_approval_decision E dec t = (Inr x, s2)" by auto
      have "keys_ok (data t)" using keys_ok_moves[OF keys_parts(4) t] assms(3) s1 by simp
      then show "keys_ok (data s2)" by (rule keys_ok_decision[OF _ d])
    qed
  next
    case (InsertRun nr c)
    show ?thesis
      by (rule keys_ok_insert_op[OF assms(3)]) (use assms(1,2) InsertRun in simp_all)
  next
    case (InsertGated nr q det c)
    show ?thesis
      by (rule keys_ok_gated_op[OF assms(3)]) (use assms(1,2) InsertGated in simp_all)
  next
    case (Decide dec)
    show ?thesis
      by (rule keys_ok_decision[OF assms(3)]) (use assms(2) Decide in simp)
  qed (use True in simp_all)
qed

interpretation keys_system: stable_system "store_step E" "\<lambda>s. keys_ok (data s)" for E
  by unfold_locales (auto elim!: store_stepE intro: exec_op_keys_ok)

lemma keys_ok_empty: "keys_ok (data empty_store)"
  by (simp add: keys_ok_def empty_store_def empty_db_def)

lemma reachable_keys_ok: "reachable E s \<Longrightarrow> keys_ok (data s)"
  using keys_system.steps_inv keys_ok_empty by blast

text \<open>C8: after any sequence of writes, failed ones included, every decision stands on a request
  whose requester is not the approver, and no approver decided twice on one run; run ids and
  requests stay unique.\<close>

theorem segregation_of_duties:
  assumes "reachable E s"
  shows "distinct (map run_id (runs (data s))) \<and> distinct (map rq_run (requests (data s)))
    \<and> (\<forall>x \<in> set (decisions (data s)). \<exists>q \<in> set (requests (data s)).
         rq_run q = dc_run x \<and> rq_requested_by q \<noteq> dc_approver x)
    \<and> distinct (map (\<lambda>x. (dc_run x, dc_approver x)) (decisions (data s)))"
  using reachable_keys_ok[OF assms] by (auto simp: keys_ok_def decision_ok_def)

section \<open>Starting an execution\<close>

lemma insert_run_audit_Inr:
  assumes "insert_run_audit E rid ev det act s = (Inr x, s')"
  shows "\<exists>row. au_run row = rid \<and> au_event row = ev \<and> au_detail row = det \<and> au_actor row = act
    \<and> data s' = data s \<lparr> audits := audits (data s) @ [row] \<rparr>"
proof -
  define prev where "prev = (case latest_audit (run_audits rid (data s)) of None \<Rightarrow> None | Some r \<Rightarrow> au_new r)"
  define row where "row = \<lparr> au_run = rid, au_at = env_clock E (tick s), au_event = ev, au_detail = det,
    au_actor = act, au_prev = prev,
    au_new = Some (env_audit_hash E (rid, env_clock E (tick s), ev, det, act, prev)) \<rparr>"
  have "data s' = data s \<lparr> audits := audits (data s) @ [row] \<rparr>"
    using assms by (auto simp: insert_run_audit_def now_ns_eq Let_def prev_def row_def)
  then show ?thesis by (intro exI[of _ row]) (simp add: row_def)
qed

lemma update_runs_Inr: "update_runs E P f s = (Inr n, s') \<Longrightarrow>
    n = length (filter P (runs (data s))) \<and>
    data s' = data s \<lparr> runs := map (\<lambda>r. if P r then f r else r) (runs (data s)) \<rparr>"
  by (auto simp: update_runs_def update_where_def)

lemma update_requests_Inr: "update_requests E P f s = (Inr n, s') \<Longrightarrow>
    n = length (filter P (requests (data s))) \<and>
    data s' = data s \<lparr> requests := map (\<lambda>r. if P r then f r else r) (requests (data s)) \<rparr>"
  by (auto simp: update_requests_def update_where_def)

lemma require_transition_Inr [simp]: "require_transition n rid s = (Inr x, s') \<longleftrightarrow> n = 1 \<and> s' = s"
  by (simp add: require_transition_def)

definition startable :: "string \<Rightarrow> run_row \<Rightarrow> bool" where
  "startable rid r \<longleftrightarrow> run_id r = rid \<and> run_st r = Validating"

definition consumable :: "string \<Rightarrow> string \<Rightarrow> int \<Rightarrow> request_row \<Rightarrow> bool" where
  "consumable rid pin now q \<longleftrightarrow> rq_run q = rid \<and> rq_pin q = pin \<and> rq_consumed_at q = None
     \<and> (rq_break_glass q \<or> now \<le> rq_expires_at q)"

definition started_row :: "int \<Rightarrow> run_row \<Rightarrow> run_row" where
  "started_row now r = r \<lparr> run_st := Running, run_started_at := Some now \<rparr>"

definition consumed_row :: "int \<Rightarrow> request_row \<Rightarrow> request_row" where
  "consumed_row now q = q \<lparr> rq_consumed_at := Some now \<rparr>"

lemma begin_approval_Inr:
  assumes "(case pin of None \<Rightarrow> ret () | Some p \<Rightarrow>
      bindc (update_requests E (\<lambda>q. rq_run q = rid \<and> rq_pin q = p \<and> rq_consumed_at q = None
               \<and> (rq_break_glass q \<or> now \<le> rq_expires_at q)) (\<lambda>q. q \<lparr> rq_consumed_at := Some now \<rparr>)) (\<lambda>changed.
      seqc (require_transition changed rid) (insert_run_audit E rid ''consumed'' (Some p) None))) s = (Inr x, s')"
  shows "\<exists>rows. data s' = data s \<lparr> audits := audits (data s) @ rows, requests :=
        (case pin of None \<Rightarrow> requests (data s)
         | Some p \<Rightarrow> map (\<lambda>q. if consumable rid p now q then consumed_row now q else q) (requests (data s))) \<rparr>
    \<and> map au_event rows = (if pin = None then [] else [''consumed''])
    \<and> (\<forall>p. pin = Some p \<longrightarrow> length (filter (consumable rid p now) (requests (data s))) = 1)"
proof (cases pin)
  case None
  then show ?thesis using assms by (intro exI[of _ "[]"]) simp
next
  case (Some p)
  have c: "(\<lambda>q. rq_run q = rid \<and> rq_pin q = p \<and> rq_consumed_at q = None \<and> (rq_break_glass q \<or> now \<le> rq_expires_at q))
      = consumable rid p now" "(\<lambda>q. q \<lparr> rq_consumed_at := Some now \<rparr>) = consumed_row now"
    by (auto simp: consumable_def consumed_row_def fun_eq_iff)
  obtain n t where u: "update_requests E (consumable rid p now) (consumed_row now) s = (Inr n, t)" "n = 1"
    and i: "insert_run_audit E rid ''consumed'' (Some p) None t = (Inr x, s')"
    using assms unfolding Some option.case c by auto
  from insert_run_audit_Inr[OF i] obtain row where "au_event row = ''consumed''"
      "data s' = data t \<lparr> audits := audits (data t) @ [row] \<rparr>" by blast
  then show ?thesis using update_requests_Inr[OF u(1)] u(2) Some by (intro exI[of _ "[row]"]) auto
qed

lemma begin_body_Inr:
  assumes "begin_run_execution E rid plan pin s = (Inr (), s')"
  shows "\<exists>now rows.
      length (filter (startable rid) (runs (data s))) = 1
    \<and> (\<forall>p. pin = Some p \<longrightarrow> length (filter (consumable rid p now) (requests (data s))) = 1)
    \<and> data s' = data s \<lparr>
        runs := map (\<lambda>r. if startable rid r then started_row now r else r) (runs (data s)),
        requests := (case pin of None \<Rightarrow> requests (data s)
          | Some p \<Rightarrow> map (\<lambda>q. if consumable rid p now q then consumed_row now q else q) (requests (data s))),
        plans := plans (data s) @ [(rid, plan)], audits := audits (data s) @ rows \<rparr>
    \<and> map au_event rows = (if pin = None then [''started''] else [''consumed'', ''started''])"
proof -
  have c: "(\<lambda>r. run_id r = rid \<and> run_st r = Validating) = startable rid"
      "(\<lambda>r. r \<lparr> run_st := Running, run_started_at := Some now \<rparr>) = started_row now" for now
    by (auto simp: startable_def started_row_def fun_eq_iff)
  let ?app = "\<lambda>now. case pin of None \<Rightarrow> ret () | Some p \<Rightarrow>
      bindc (update_requests E (\<lambda>q. rq_run q = rid \<and> rq_pin q = p \<and> rq_consumed_at q = None
               \<and> (rq_break_glass q \<or> now \<le> rq_expires_at q)) (\<lambda>q. q \<lparr> rq_consumed_at := Some now \<rparr>)) (\<lambda>changed.
      seqc (require_transition changed rid) (insert_run_audit E rid ''consumed'' (Some p) None))"
  obtain now s1 n s2 u s3 v s4 w s5 where n: "now_ns E (s \<lparr> tick := tick s + 1 \<rparr>) = (Inr now, s1)"
    and upd: "update_runs E (startable rid) (started_row now) s1 = (Inr n, s2)" "n = 1"
    and app: "?app now s2 = (Inr u, s3)"
    and ex: "execute E (\<lambda>d. ((), d \<lparr> plans := plans d @ [(rid, plan)] \<rparr>)) s3 = (Inr v, s4)"
    and aud: "insert_run_audit E rid ''started'' None None s4 = (Inr w, s5)" and s': "s' = s5 \<lparr> tick := tick s5 + 1 \<rparr>"
    using with_tx_Inr[OF assms[unfolded begin_run_execution_def c]]
    by (elim exE conjE, simp only: bindc_Inr seqc_Inr require_transition_Inr, elim exE conjE) blast
  have s1: "data s1 = data s" using n by (simp add: now_ns_eq)
  have plan: "data s4 = data s3 \<lparr> plans := plans (data s3) @ [(rid, plan)] \<rparr>" using ex by simp
  from begin_approval_Inr[OF app] obtain rows where rows: "data s3 = data s2 \<lparr> audits := audits (data s2) @ rows,
      requests := (case pin of None \<Rightarrow> requests (data s2)
         | Some p \<Rightarrow> map (\<lambda>q. if consumable rid p now q then consumed_row now q else q) (requests (data s2))) \<rparr>"
      "map au_event rows = (if pin = None then [] else [''consumed''])"
      "\<forall>p. pin = Some p \<longrightarrow> length (filter (consumable rid p now) (requests (data s2))) = 1" by blast
  from insert_run_audit_Inr[OF aud] obtain row where row: "au_event row = ''started''"
      "data s' = data s4 \<lparr> audits := audits (data s4) @ [row] \<rparr>"
    unfolding s' by auto
  show ?thesis
    using update_runs_Inr[OF upd(1)] upd(2) rows row s1 plan
    by (intro exI[of _ now] exI[of _ "rows @ [row]"]) (auto split: option.split)
qed

text \<open>A run's execution starts only through one transaction: it moves exactly one validating
  row to running with its start time, consumes exactly one approval of the pinned content that
  was neither used nor, unless broken glass, expired, stores the recovery plan, and appends the
  audit events, in this order; nothing else of the tables changes.\<close>

theorem execution_start_spec:
  assumes "begin_run_execution E rid plan pin s = (Inr (), s')"
  shows "\<exists>now rows.
      length (filter (startable rid) (runs (data s))) = 1
    \<and> (\<forall>p. pin = Some p \<longrightarrow> length (filter (consumable rid p now) (requests (data s))) = 1)
    \<and> data s' = data s \<lparr>
        runs := map (\<lambda>r. if startable rid r then started_row now r else r) (runs (data s)),
        requests := (case pin of None \<Rightarrow> requests (data s)
          | Some p \<Rightarrow> map (\<lambda>q. if consumable rid p now q then consumed_row now q else q) (requests (data s))),
        plans := plans (data s) @ [(rid, plan)], audits := audits (data s) @ rows \<rparr>
    \<and> map au_event rows = (if pin = None then [''started''] else [''consumed'', ''started''])"
  using begin_body_Inr[OF assms] .

lemma distinct_key_unique:
  "distinct (map f xs) \<Longrightarrow> x \<in> set xs \<Longrightarrow> y \<in> set xs \<Longrightarrow> f x = f y \<Longrightarrow> x = y"
  by (simp add: distinct_map inj_on_def)

lemma filter_one: "length (filter P xs) = 1 \<Longrightarrow> \<exists>x. x \<in> set xs \<and> P x"
  by (metis filter_empty_conv length_0_conv zero_neq_one)

lemma consumed_stays:
  assumes "reachable E s" "begin_run_execution E rid plan (Some pin) s = (Inr (), s1)"
    and "(store_step E)\<^sup>*\<^sup>* s1 s2" "q \<in> set (requests (data s2))" "rq_run q = rid"
  shows "rq_consumed_at q \<noteq> None"
proof -
  from begin_body_Inr[OF assms(2)] obtain now where
    one: "length (filter (consumable rid pin now) (requests (data s))) = 1"
    and r1: "requests (data s1) = map (\<lambda>q. if consumable rid pin now q then consumed_row now q else q) (requests (data s))"
    by auto
  from filter_one[OF one] obtain x where "x \<in> set (requests (data s))" "consumable rid pin now x" by blast
  then have x: "consumed_row now x \<in> set (requests (data s1))" "rq_run (consumed_row now x) = rid"
    by (auto simp: r1 consumable_def consumed_row_def)
  obtain y where y: "y \<in> set (requests (data s2))" "request_evolves (consumed_row now x) y"
    using store_steps_evolve[OF assms(3)] grows_in[OF _ x(1)] by (auto simp: evolves_def)
  have "store_step E s s1"
    using assms(2) by (intro store_step.step[of "Begin rid plan (Some pin)"]) simp_all
  then have "reachable E s2"
    using assms(1,3) by (meson rtranclp.rtrancl_into_rtrancl rtranclp_trans)
  then have "distinct (map rq_run (requests (data s2)))" using reachable_keys_ok by (simp add: keys_ok_def)
  moreover have "rq_run y = rid" using y(2) x(2) by (simp add: request_evolves_def)
  ultimately have "y = q" using distinct_key_unique[OF _ y(1) assms(4), of rq_run] assms(5) by simp
  then show ?thesis using y(2) by (auto simp: request_evolves_def consumed_row_def)
qed

text \<open>C7: an approval is single-use: once an execution consumed the approval of a run, no later
  execution of that run that needs one can start, whatever writes happen in between.\<close>

theorem approval_single_use:
  assumes "reachable E s" "begin_run_execution E rid plan (Some pin) s = (Inr (), s1)"
    and "(store_step E)\<^sup>*\<^sup>* s1 s2"
  shows "\<not> is_ok (fst (begin_run_execution E rid plan' (Some pin') s2))"
proof
  assume "is_ok (fst (begin_run_execution E rid plan' (Some pin') s2))"
  then obtain s3 where b: "begin_run_execution E rid plan' (Some pin') s2 = (Inr (), s3)"
    by (cases "begin_run_execution E rid plan' (Some pin') s2") (auto simp: is_ok_iff)
  from begin_body_Inr[OF b] obtain now where
    "length (filter (consumable rid pin' now) (requests (data s2))) = 1" by auto
  then obtain q where "q \<in> set (requests (data s2))" "consumable rid pin' now q" by (blast dest: filter_one)
  then show False using consumed_stays[OF assms, of q] by (simp add: consumable_def)
qed

section \<open>The run state machine\<close>

text \<open>A terminal row is not touched, but for the link to its campaign.\<close>

definition final_evolves :: "run_row \<Rightarrow> run_row \<Rightarrow> bool" where
  "final_evolves r r' \<longleftrightarrow> (terminal (run_st r) \<longrightarrow> r' \<lparr> run_gameday_id := None \<rparr> = r \<lparr> run_gameday_id := None \<rparr>)"

lemma final_evolves_refl [simp]: "final_evolves r r"
  by (simp add: final_evolves_def)

lemma final_evolves_trans: "final_evolves a b \<Longrightarrow> final_evolves b c \<Longrightarrow> final_evolves a c"
proof -
  assume ab: "final_evolves a b" and bc: "final_evolves b c"
  have "run_st (r \<lparr> run_gameday_id := None \<rparr>) = run_st r" for r :: run_row by simp
  then have "terminal (run_st a) \<Longrightarrow> terminal (run_st b)"
    using ab unfolding final_evolves_def by metis
  then show ?thesis using ab bc by (simp add: final_evolves_def)
qed

definition finals_kept :: "db \<Rightarrow> db \<Rightarrow> bool" where
  "finals_kept d d' \<longleftrightarrow> grows final_evolves (runs d) (runs d')"

interpretation finals: table_order finals_kept
proof unfold_locales
  show "finals_kept d d" for d by (simp add: finals_kept_def grows_refl)
  show "finals_kept d1 d3" if "finals_kept d1 d2" "finals_kept d2 d3" for d1 d2 d3
    using that grows_trans[of final_evolves "runs d1" "runs d2" "runs d3"] final_evolves_trans
    unfolding finals_kept_def by blast
qed

lemma finals_runs: "(\<And>r. P r \<Longrightarrow> final_evolves r (f r)) \<Longrightarrow> moves finals_kept (update_runs E P f)"
  by (rule finals.moves_update_runs) (auto simp: finals_kept_def intro!: grows_update)

lemma finals_other [simp]:
  "runs d' = runs d \<Longrightarrow> finals_kept d d'" "finals_kept d (d \<lparr> runs := runs d @ rs \<rparr>)"
  by (simp_all add: finals_kept_def grows_refl grows_append)

lemma finals_parts [simp, intro]:
  "moves finals_kept (insert_run_audit E rid ev det act)"
  "moves finals_kept (require_transition n rid)" "moves finals_kept (query_state E rid)"
  "moves finals_kept (require_pending_approval E rid)" "moves finals_kept (mark_break_glass E rid who j)"
  "moves finals_kept (insert_run_context E rid c act)" "moves finals_kept (insert_row E nr st)"
  "moves finals_kept (insert_approval_request E q)" "moves finals_kept (insert_approval_decision E dec)"
  "moves finals_kept (update_requests E Q g)"
  by (auto simp: require_transition_def query_state_def require_pending_approval_def mark_break_glass_def
      insert_run_context_def insert_row_def insert_approval_request_def insert_approval_decision_def
      intro!: finals.moves_rules finals.moves_execute finals.moves_update_requests finals.moves_insert_run_audit
      split: option.split context_json.split pin_field.split)

text \<open>The one write without a guard on terminal states: \<open>finish_run\<close> to a state that is
  neither rejected nor expired.\<close>

fun overwrites :: "wop \<Rightarrow> bool" where
  "overwrites (Finish rid st eid rb err) = (st \<noteq> Rejected \<and> st \<noteq> Expired)"
| "overwrites _ = False"

lemma stoppable_not_terminal: "stoppable st \<Longrightarrow> \<not> terminal st"
  by (cases st) (auto simp: stoppable_def)

lemma exec_op_finals: "\<not> overwrites op \<Longrightarrow> moves finals_kept (exec_op E op)"
  by (cases op) (auto simp: op_defs Let_def final_evolves_def stoppable_not_terminal
      intro!: finals.moves_rules finals.moves_execute finals_runs split: option.split)

lemma grows_nth: "grows R xs ys \<Longrightarrow> i < length xs \<Longrightarrow> i < length ys \<and> R (xs ! i) (ys ! i)"
  by (auto simp: grows_def nth_append list_all2_conv_all_nth)


section \<open>Stopping and failing\<close>

inductive guarded_step :: "env \<Rightarrow> store \<Rightarrow> store \<Rightarrow> bool" for E where
  step: "\<not> overwrites op \<Longrightarrow> fresh_op op (data s) \<Longrightarrow> exec_op E op s = (r, s') \<Longrightarrow> guarded_step E s s'"
| idle: "tick s \<le> n \<Longrightarrow> guarded_step E s (s \<lparr> tick := n \<rparr>)"

lemma guarded_is_step: "guarded_step E s s' \<Longrightarrow> store_step E s s'"
  by (auto elim!: guarded_step.cases intro: store_step.intros)

lemma guarded_steps_are_steps: "(guarded_step E)\<^sup>*\<^sup>* s s' \<Longrightarrow> (store_step E)\<^sup>*\<^sup>* s s'"
  by (metis guarded_is_step mono_rtranclp)

lemma guarded_finals: "(guarded_step E)\<^sup>*\<^sup>* s s' \<Longrightarrow> finals_kept (data s) (data s')"
proof (induction rule: rtranclp_induct)
  case (step y z)
  then show ?case
    by (auto elim!: guarded_step.cases dest: movesD[OF exec_op_finals] intro: finals.le_trans)
qed simp

lemma request_run_stop_Inr:
  assumes "request_run_stop E rid actor s = (Inr (), s')"
  shows "\<exists>now rows. length (filter (\<lambda>r. run_id r = rid \<and> stoppable (run_st r)) (runs (data s))) = 1
    \<and> data s' = data s \<lparr> runs := map (\<lambda>r. if run_id r = rid \<and> stoppable (run_st r) then stop_row now r else r)
          (runs (data s)), audits := audits (data s) @ rows \<rparr>"
proof -
  let ?P = "\<lambda>r. run_id r = rid \<and> stoppable (run_st r)"
  obtain now s1 n s2 u s3 st s4 w s5 where n: "now_ns E (s \<lparr> tick := tick s + 1 \<rparr>) = (Inr now, s1)"
    and upd: "update_runs E ?P (stop_row now) s1 = (Inr n, s2)" "n = 1"
    and a1: "insert_run_audit E rid ''stop_requested'' None actor s2 = (Inr u, s3)"
    and q: "query_state E rid s3 = (Inr st, s4)"
    and a2: "insert_run_audit E rid (state_str st) None actor s4 = (Inr w, s5)"
    and s': "s' = s5 \<lparr> tick := tick s5 + 1 \<rparr>"
    using with_tx_Inr[OF assms[unfolded request_run_stop_def]]
    by (elim exE conjE, simp only: bindc_Inr seqc_Inr require_transition_Inr, elim exE conjE) blast
  have "data s1 = data s" using n by (simp add: now_ns_eq)
  moreover have "data s4 = data s3" using q by (auto simp: query_state_def split: option.splits)
  ultimately show ?thesis
    using update_runs_Inr[OF upd(1)] upd(2) insert_run_audit_Inr[OF a1] insert_run_audit_Inr[OF a2]
    unfolding s' by (intro exI[of _ now]) force
qed

text \<open>A run stopped before it started never starts: after the acknowledged stop of a run
  without start time, no sequence of guarded writes lets an execution of that run begin.\<close>

theorem stopped_before_start_never_starts:
  assumes "reachable E s" "request_run_stop E rid actor s = (Inr (), s1)"
    and "\<forall>r \<in> set (runs (data s)). run_id r = rid \<longrightarrow> run_started_at r = None"
    and "(guarded_step E)\<^sup>*\<^sup>* s1 s2"
  shows "\<not> is_ok (fst (begin_run_execution E rid plan pin s2))"
proof
  assume "is_ok (fst (begin_run_execution E rid plan pin s2))"
  then obtain s3 where b: "begin_run_execution E rid plan pin s2 = (Inr (), s3)"
    by (cases "begin_run_execution E rid plan pin s2") (auto simp: is_ok_iff)
  from begin_body_Inr[OF b] have "length (filter (startable rid) (runs (data s2))) = 1" by blast
  then obtain q where q: "q \<in> set (runs (data s2))" "run_id q = rid" "run_st q = Validating"
    using filter_one unfolding startable_def by blast
  let ?P = "\<lambda>r. run_id r = rid \<and> stoppable (run_st r)"
  from request_run_stop_Inr[OF assms(2)] obtain now rows where one: "length (filter ?P (runs (data s))) = 1"
    and d1: "data s1 = data s \<lparr> runs := map (\<lambda>r. if ?P r then stop_row now r else r) (runs (data s)),
      audits := audits (data s) @ rows \<rparr>" by blast
  have r1: "runs (data s1) = map (\<lambda>r. if ?P r then stop_row now r else r) (runs (data s))" by (simp add: d1)
  obtain x where x: "x \<in> set (runs (data s))" "?P x" using filter_one[OF one] by blast
  then have y: "stop_row now x \<in> set (runs (data s1))" "run_st (stop_row now x) = RAborted"
      "run_id (stop_row now x) = rid"
    using assms(3) by (auto simp: r1 stop_row_def image_iff)
  obtain z where z: "z \<in> set (runs (data s2))" "final_evolves (stop_row now x) z"
    using guarded_finals[OF assms(4)] grows_in[OF _ y(1)] by (auto simp: finals_kept_def)
  have zz: "z \<lparr> run_gameday_id := None \<rparr> = (stop_row now x) \<lparr> run_gameday_id := None \<rparr>"
    using z(2) y(2) by (simp add: final_evolves_def)
  have "run_id z = rid" "run_st z = RAborted"
    using arg_cong[OF zz, of run_id] arg_cong[OF zz, of run_st] y by simp_all
  moreover have "store_step E s s1"
    using assms(2) by (intro store_step.step[of "Stop rid actor"]) simp_all
  then have "reachable E s2"
    using assms(1) guarded_steps_are_steps[OF assms(4)] by (meson rtranclp.rtrancl_into_rtrancl rtranclp_trans)
  then have "distinct (map run_id (runs (data s2)))" using reachable_keys_ok by (simp add: keys_ok_def)
  ultimately show False using distinct_key_unique[OF _ z(1) q(1), of run_id] q by simp
qed

lemma active_run_rows_mem:
  assumes "r \<in> set (runs d)" "active (run_st r)" "g \<in> set (registry d)" "reg_id g = run_registry_id r" "\<not> reg_gameday g"
  shows "\<exists>a \<in> set (active_run_rows d). ar_run a = r \<and> ar_definition_toon a = reg_definition_toon g"
proof -
  have "recovery_rows d r g \<noteq> []" "\<forall>a \<in> set (recovery_rows d r g). ar_run a = r \<and> ar_definition_toon a = reg_definition_toon g"
    by (auto simp: recovery_rows_def split: list.split)
  then obtain a where "a \<in> set (recovery_rows d r g)" "ar_run a = r" "ar_definition_toon a = reg_definition_toon g"
    using hd_in_set by blast
  then show ?thesis using assms by (auto simp: active_run_rows_def intro!: bexI[of _ a])
qed

text \<open>What finishing a run writes.\<close>

definition finishable :: "string \<Rightarrow> run_state \<Rightarrow> run_row \<Rightarrow> bool" where
  "finishable rid st r \<longleftrightarrow> run_id r = rid \<and> (st = Rejected \<or> st = Expired \<longrightarrow> run_st r = PendingApproval)"

definition finished_row :: "run_state \<Rightarrow> string option \<Rightarrow> string option \<Rightarrow> string option \<Rightarrow> int \<Rightarrow> run_row \<Rightarrow> run_row" where
  "finished_row st eid rb err now r = r \<lparr> run_st := st, run_ended_at := Some now,
     run_experiment_id := coalesce eid (run_experiment_id r), run_rollback_status := rb, run_error := err \<rparr>"

lemma finish_run_rows:
  assumes "finish_run E rid st eid rb err s = (Inr (), s')"
  shows "\<exists>now. length (filter (finishable rid st) (runs (data s))) = 1
    \<and> runs (data s') = map (\<lambda>r. if finishable rid st r then finished_row st eid rb err now r else r) (runs (data s))"
proof -
  let ?P = "\<lambda>r. run_id r = rid \<and> (\<not> (st = Rejected \<or> st = Expired) \<or> run_st r = PendingApproval)"
  have c: "?P = finishable rid st" by (auto simp: finishable_def fun_eq_iff)
  have f: "(\<lambda>r. r \<lparr> run_st := st, run_ended_at := Some now, run_experiment_id := coalesce eid (run_experiment_id r),
      run_rollback_status := rb, run_error := err \<rparr>) = finished_row st eid rb err now" for now
    by (simp add: finished_row_def fun_eq_iff)
  obtain now s1 n s2 u s3 where n: "now_ns E (s \<lparr> tick := tick s + 1 \<rparr>) = (Inr now, s1)"
    and upd: "update_runs E (finishable rid st) (finished_row st eid rb err now) s1 = (Inr n, s2)" "n = 1"
    and aud: "insert_run_audit E rid (state_str st) err None s2 = (Inr u, s3)" and s': "s' = s3 \<lparr> tick := tick s3 + 1 \<rparr>"
    using with_tx_Inr[OF assms[unfolded finish_run_def Let_def c f]]
    by (elim exE conjE, simp only: bindc_Inr seqc_Inr require_transition_Inr, elim exE conjE) blast
  have s1: "data s1 = data s" using n by (simp add: now_ns_eq)
  from insert_run_audit_Inr[OF aud] obtain row where "data s3 = data s2 \<lparr> audits := audits (data s2) @ [row] \<rparr>" by blast
  then show ?thesis using update_runs_Inr[OF upd(1)] upd(2) s' s1 by (intro exI[of _ now]) simp
qed

text \<open>A failure never loses a run that started: after \<open>fail_run\<close> on a run in flight that had
  started and whose experiment definition is registered, the run is among the rows the
  reconciliation of the next start cleans up.\<close>

theorem failed_started_run_is_recovered:
  assumes "fail_run E rid err s = (Inr (), s')"
    and "r \<in> set (runs (data s))" "run_id r = rid" "run_st r \<in> {Queued, Validating, Running, Stopping}"
    and "run_started_at r \<noteq> None"
    and "g \<in> set (registry (data s))" "reg_id g = run_registry_id r" "\<not> reg_gameday g"
  shows "\<exists>a \<in> set (active_run_rows (data s')). run_id (ar_run a) = rid \<and> run_st (ar_run a) = RollbackPending
    \<and> ar_definition_toon a = reg_definition_toon g"
proof -
  let ?P = "\<lambda>r. run_id r = rid \<and> run_st r \<in> {Queued, Validating, Running, Stopping}"
  obtain now s1 n s2 s5 u where nn: "now_ns E (s \<lparr> tick := tick s + 1 \<rparr>) = (Inr now, s1)"
    and upd: "update_runs E ?P (fail_row err now) s1 = (Inr n, s2)"
    and fin: "(if n = 0 then ret () else insert_run_audit E rid ''execution_failed'' (Some err) None) s2 = (Inr u, s5)"
    and s': "s' = s5 \<lparr> tick := tick s5 + 1 \<rparr>"
    using with_tx_Inr[OF assms(1)[unfolded fail_run_def]]
    by (elim exE conjE, simp only: bindc_Inr, elim exE conjE) blast
  have s1: "data s1 = data s" using nn by (simp add: now_ns_eq)
  have "runs (data s5) = runs (data s2) \<and> registry (data s5) = registry (data s2)"
    using fin insert_run_audit_Inr by (auto split: if_splits) force+
  then have rs: "runs (data s') = map (\<lambda>r. if ?P r then fail_row err now r else r) (runs (data s))"
    and gs: "registry (data s') = registry (data s)"
    using update_runs_Inr[OF upd] s1 s' by auto
  let ?r = "fail_row err now r"
  have r: "?r \<in> set (runs (data s'))" using assms(2-4) unfolding rs by (auto simp: image_iff intro!: bexI[of _ r])
  have r': "run_id ?r = rid" "run_st ?r = RollbackPending" "run_registry_id ?r = run_registry_id r"
    using assms(3,5) by (simp_all add: fail_row_def)
  obtain a where "a \<in> set (active_run_rows (data s'))" "ar_run a = ?r" "ar_definition_toon a = reg_definition_toon g"
    using active_run_rows_mem[OF r, of g] r' assms(6-8) gs by auto
  then show ?thesis using r' by (intro bexI[of _ a]) simp_all
qed

end
