(* ===== verification/Run_Lifecycle.thy ===== *)
theory Run_Lifecycle
  imports Run_Invariants
begin

text \<open>
  The writes as the daemon issues them: no operation sets a run back to validating or to
  waiting for approval, and only \<open>dispatch\<close> queues one. Along such steps a run that has
  started never returns to a state from which it could start again.
\<close>

definition early :: "run_state \<Rightarrow> bool" where
  "early st \<longleftrightarrow> st \<in> {PendingApproval, Queued, Validating}"

lemma early_simps [simp]:
  "early PendingApproval" "early Queued" "early Validating" "\<not> early Running" "\<not> early Stopping"
  "\<not> early Passed" "\<not> early RDeviated" "\<not> early RFailed" "\<not> early RAborted" "\<not> early Orphaned"
  "\<not> early RollbackPending" "\<not> early Rejected" "\<not> early Expired"
  by (simp_all add: early_def)

fun forward :: "wop \<Rightarrow> bool" where
  "forward (SetState rid st ev det act) = (st = Queued \<or> \<not> early st)"
| "forward (Finish rid st eid rb err) = (\<not> early st)"
| "forward _ = True"

inductive forward_step :: "env \<Rightarrow> store \<Rightarrow> store \<Rightarrow> bool" for E where
  step: "forward op \<Longrightarrow> fresh_op op (data s) \<Longrightarrow> exec_op E op s = (r, s') \<Longrightarrow> forward_step E s s'"
| idle: "tick s \<le> n \<Longrightarrow> forward_step E s (s \<lparr> tick := n \<rparr>)"

inductive_cases forward_stepE: "forward_step E s s'"

abbreviation forward_steps :: "env \<Rightarrow> store \<Rightarrow> store \<Rightarrow> bool" where
  "forward_steps E \<equiv> (forward_step E)\<^sup>*\<^sup>*"

lemma forward_is_step: "forward_step E s s' \<Longrightarrow> store_step E s s'"
  by (auto elim!: forward_stepE intro: store_step.intros)

lemma forward_steps_are_steps: "forward_steps E s s' \<Longrightarrow> (store_step E)\<^sup>*\<^sup>* s s'"
  by (metis forward_is_step mono_rtranclp)

section \<open>A started run has left the early states\<close>

definition past_start :: "run_row \<Rightarrow> bool" where
  "past_start r \<longleftrightarrow> (run_started_at r \<noteq> None \<longrightarrow> \<not> early (run_st r))"

definition starts_kept :: "db \<Rightarrow> db \<Rightarrow> bool" where
  "starts_kept d d' \<longleftrightarrow> (list_all past_start (runs d) \<longrightarrow> list_all past_start (runs d'))"

interpretation lifecycle: table_order starts_kept
  by unfold_locales (auto simp: starts_kept_def)

lemma starts_runs: "(\<And>r. P r \<Longrightarrow> past_start r \<Longrightarrow> past_start (f r)) \<Longrightarrow> moves starts_kept (update_runs E P f)"
  by (rule lifecycle.moves_update_runs) (auto simp: starts_kept_def list_all_iff)

lemma starts_other [simp]: "runs d' = runs d \<Longrightarrow> starts_kept d d'"
  "list_all past_start rs \<Longrightarrow> starts_kept d (d \<lparr> runs := runs d @ rs \<rparr>)"
  by (simp_all add: starts_kept_def)

lemma starts_parts [simp, intro]:
  "moves starts_kept (insert_run_audit E rid ev det act)"
  "moves starts_kept (require_transition n rid)" "moves starts_kept (query_state E rid)"
  "moves starts_kept (require_pending_approval E rid)" "moves starts_kept (mark_break_glass E rid who j)"
  "moves starts_kept (insert_run_context E rid c act)" "moves starts_kept (insert_row E nr st)"
  "moves starts_kept (insert_approval_request E q)" "moves starts_kept (insert_approval_decision E dec)"
  "moves starts_kept (update_requests E Q g)"
  by (auto simp: require_transition_def query_state_def require_pending_approval_def mark_break_glass_def
      insert_run_context_def insert_row_def insert_approval_request_def insert_approval_decision_def new_row_def
      past_start_def intro!: lifecycle.moves_rules lifecycle.moves_execute lifecycle.moves_update_requests
      lifecycle.moves_insert_run_audit split: option.split context_json.split pin_field.split)

lemma exec_op_starts: "forward op \<Longrightarrow> moves starts_kept (exec_op E op)"
  by (cases op) (auto simp: op_defs Let_def past_start_def stop_row_def fail_row_def
      intro!: lifecycle.moves_rules lifecycle.moves_execute starts_runs split: option.split)

interpretation lifecycle_system: stable_system "forward_step E" "\<lambda>s. list_all past_start (runs (data s))" for E
  by unfold_locales (auto elim!: forward_stepE dest: movesD[OF exec_op_starts] simp: starts_kept_def)

lemma reachable_past_start: "forward_steps E empty_store s \<Longrightarrow> list_all past_start (runs (data s))"
  using lifecycle_system.steps_inv[of E empty_store s] by (simp add: empty_store_def empty_db_def)

lemma forward_reachable: "forward_steps E empty_store s \<Longrightarrow> forward_steps E s s' \<Longrightarrow> reachable E s'"
  by (meson forward_steps_are_steps rtranclp_trans)

lemma begin_marks_started:
  assumes "begin_run_execution E rid plan pin s = (Inr (), s')"
  shows "\<exists>r \<in> set (runs (data s')). run_id r = rid \<and> run_started_at r \<noteq> None"
proof -
  from begin_body_Inr[OF assms] obtain now rows where one: "length (filter (startable rid) (runs (data s))) = 1"
    and d: "data s' = data s \<lparr>
        runs := map (\<lambda>r. if startable rid r then started_row now r else r) (runs (data s)),
        requests := (case pin of None \<Rightarrow> requests (data s)
          | Some p \<Rightarrow> map (\<lambda>q. if consumable rid p now q then consumed_row now q else q) (requests (data s))),
        plans := plans (data s) @ [(rid, plan)], audits := audits (data s) @ rows \<rparr>" by blast
  from filter_one[OF one] obtain x where x: "x \<in> set (runs (data s))" "startable rid x" by blast
  then have "started_row now x \<in> set (runs (data s'))" unfolding d by (auto intro!: image_eqI[of _ _ x])
  then show ?thesis using x by (intro bexI[of _ "started_row now x"]) (auto simp: started_row_def startable_def)
qed

text \<open>C26: at most once: when the execution of a run has begun, no later execution of that run can
  begin, with or without approval, whatever the daemon writes in between and whichever of the
  writes fail.\<close>

theorem executes_at_most_once:
  assumes "forward_steps E empty_store s" "begin_run_execution E rid plan pin s = (Inr (), s1)"
    and "forward_steps E s1 s2"
  shows "\<not> is_ok (fst (begin_run_execution E rid plan' pin' s2))"
proof
  assume "is_ok (fst (begin_run_execution E rid plan' pin' s2))"
  then obtain s3 where b: "begin_run_execution E rid plan' pin' s2 = (Inr (), s3)"
    by (cases "begin_run_execution E rid plan' pin' s2") (auto simp: is_ok_iff)
  from begin_body_Inr[OF b] have "length (filter (startable rid) (runs (data s2))) = 1" by blast
  then obtain q where q: "q \<in> set (runs (data s2))" "run_id q = rid" "run_st q = Validating"
    using filter_one unfolding startable_def by blast
  from begin_marks_started[OF assms(2)] obtain y where
    y: "y \<in> set (runs (data s1))" "run_id y = rid" "run_started_at y \<noteq> None" by blast
  obtain z where z: "z \<in> set (runs (data s2))" "run_evolves y z"
    using store_steps_evolve[OF forward_steps_are_steps[OF assms(3)]] grows_in[OF _ y(1)]
    by (auto simp: evolves_def)
  have one: "forward_step E s s1"
    using assms(2) by (intro forward_step.step[of "Begin rid plan pin"]) simp_all
  then have fw: "forward_steps E empty_store s2" using assms(1,3)
    by (meson rtranclp.rtrancl_into_rtrancl rtranclp_trans)
  have "distinct (map run_id (runs (data s2)))"
    using reachable_keys_ok[OF forward_reachable[OF fw rtranclp.rtrancl_refl]] by (simp add: keys_ok_def)
  moreover have "run_id z = rid" "run_started_at z \<noteq> None" using z(2) y by (auto simp: run_evolves_def)
  ultimately have "z = q" using distinct_key_unique[OF _ z(1) q(1), of run_id] q(2) by simp
  then show False
    using reachable_past_start[OF fw] q z \<open>run_started_at z \<noteq> None\<close> by (auto simp: list_all_iff past_start_def)
qed

end
