(* ===== verification/Float64.thy ===== *)
theory Float64
  imports Complex_Main
begin

text \<open>
  The part of Rust's \<open>f64\<close> the program decides with: comparison (false on NaN)
  and the correctly rounded quotient of two \<open>u32\<close> values. A finite value is the
  rational it denotes; the sign of zero is not kept, since only comparisons read
  these values.
\<close>

datatype f64 = NaN | Inf bool | Fin rat  \<comment> \<open>\<open>Inf True\<close> is positive infinity\<close>

fun f64_le :: "f64 \<Rightarrow> f64 \<Rightarrow> bool" where
  "f64_le NaN _ = False"
| "f64_le _ NaN = False"
| "f64_le (Inf p) (Inf q) = (p \<longrightarrow> q)"
| "f64_le (Inf p) (Fin _) = (\<not> p)"
| "f64_le (Fin _) (Inf q) = q"
| "f64_le (Fin x) (Fin y) = (x \<le> y)"

fun f64_lt :: "f64 \<Rightarrow> f64 \<Rightarrow> bool" where
  "f64_lt NaN _ = False"
| "f64_lt _ NaN = False"
| "f64_lt (Inf p) (Inf q) = (\<not> p \<and> q)"
| "f64_lt (Inf p) (Fin _) = (\<not> p)"
| "f64_lt (Fin _) (Inf q) = q"
| "f64_lt (Fin x) (Fin y) = (x < y)"

definition f64_ge :: "f64 \<Rightarrow> f64 \<Rightarrow> bool" where
  "f64_ge x y = f64_le y x"

fun is_finite :: "f64 \<Rightarrow> bool" where
  "is_finite (Fin _) = True"
| "is_finite _ = False"

definition f64_of_nat :: "nat \<Rightarrow> f64" where
  "f64_of_nat n = Fin (of_nat n)"

lemma f64_lt_not_le: "f64_lt x y \<Longrightarrow> \<not> f64_le y x"
  by (cases x; cases y) auto

lemma f64_le_trans: "f64_le x y \<Longrightarrow> f64_le y z \<Longrightarrow> f64_le x z"
  by (cases x; cases y; cases z) auto

section \<open>Rounding to 53 bits\<close>

text \<open>Nearest integer, ties to even.\<close>

definition round_even :: "rat \<Rightarrow> int" where
  "round_even x = (let n = \<lfloor>x\<rfloor>; d = x - of_int n in
     if d < 1 / 2 then n else if 1 / 2 < d then n + 1 else if even n then n else n + 1)"

lemma round_even_of_int [simp]: "round_even (of_int n) = n"
  by (simp add: round_even_def)

lemma round_even_mono: "x \<le> y \<Longrightarrow> round_even x \<le> round_even y"
proof -
  assume le: "x \<le> y"
  show ?thesis
  proof (cases "\<lfloor>x\<rfloor> = \<lfloor>y\<rfloor>")
    case True
    then show ?thesis using le by (auto simp: round_even_def Let_def)
  next
    case False
    then have "\<lfloor>x\<rfloor> + 1 \<le> \<lfloor>y\<rfloor>" using floor_mono[OF le] by linarith
    then show ?thesis by (auto simp: round_even_def Let_def)
  qed
qed

lemma round_even_ge: "of_int n \<le> x \<Longrightarrow> n \<le> round_even x"
  using round_even_mono[of "of_int n" x] by simp

lemma round_even_le: "x \<le> of_int n \<Longrightarrow> round_even x \<le> n"
  using round_even_mono[of x "of_int n"] by simp

text \<open>The power of two that brings a positive \<open>x\<close> to at least \<open>2 ^ 52\<close>: the search
  starts at 20, where the largest quotient of two \<open>u32\<close> values ends, and 65 steps
  reach the smallest.\<close>

fun scale_of :: "nat \<Rightarrow> rat \<Rightarrow> nat \<Rightarrow> nat" where
  "scale_of 0 x e = e"
| "scale_of (Suc f) x e = (if 2 ^ 52 \<le> x * 2 ^ e then e else scale_of f x (Suc e))"

definition rnd53 :: "rat \<Rightarrow> rat" where
  "rnd53 x = (if x = 0 then 0
     else let e = scale_of 65 x 20 in of_int (round_even (x * 2 ^ e)) / 2 ^ e)"

text \<open>\<open>f64::from(a) / f64::from(b)\<close> for \<open>u32\<close> values with \<open>b\<close> not zero.\<close>

definition f64_ratio :: "nat \<Rightarrow> nat \<Rightarrow> f64" where
  "f64_ratio a b = Fin (rnd53 (of_nat a / of_nat b))"

lemma scale_of_ge: "e \<le> scale_of f x e"
  by (induction f x e rule: scale_of.induct) auto

lemma scale_of_reach: "2 ^ 52 \<le> x * 2 ^ (e + f) \<Longrightarrow> 2 ^ 52 \<le> x * 2 ^ scale_of f x e"
  by (induction f x e rule: scale_of.induct) auto

lemma scale_of_tight:
  assumes "x * 2 ^ e < 2 ^ 53" "0 < x"
  shows "x * 2 ^ scale_of f x e < 2 ^ 53"
  using assms by (induction f x e rule: scale_of.induct) auto

lemma scale_of_mono:
  "0 < x \<Longrightarrow> x \<le> y \<Longrightarrow> scale_of f y e \<le> scale_of f x e"
proof (induction f arbitrary: e)
  case (Suc f)
  have "x * 2 ^ e \<le> y * 2 ^ e" using Suc.prems by simp
  moreover have "e \<le> scale_of f x (Suc e)"
    using scale_of_ge[of "Suc e" f x] by simp
  moreover have "scale_of f y (Suc e) \<le> scale_of f x (Suc e)"
    using Suc.IH[OF Suc.prems, of "Suc e"] .
  moreover have "2 ^ 52 \<le> x * 2 ^ e \<Longrightarrow> 2 ^ 52 \<le> y * 2 ^ e"
    using calculation(1) by (rule order_trans[rotated])
  ultimately show ?case
    by (cases "2 ^ 52 \<le> y * 2 ^ e"; cases "2 ^ 52 \<le> x * 2 ^ e") (simp_all del: power_numeral)
qed simp

lemma rnd53_nonneg: "0 \<le> x \<Longrightarrow> 0 \<le> rnd53 x"
  using round_even_ge[of 0] by (auto simp: rnd53_def Let_def)

lemma rnd53_mono:
  assumes x: "0 < x" "2 ^ 52 \<le> x * 2 ^ 85" and xy: "x \<le> y" and y: "y * 2 ^ 20 < 2 ^ 53"
  shows "rnd53 x \<le> rnd53 y"
proof -
  define e where "e = scale_of 65 x 20"
  define g where "g = scale_of 65 y 20"
  have rx: "rnd53 x = of_int (round_even (x * 2 ^ e)) / 2 ^ e"
    and ry: "rnd53 y = of_int (round_even (y * 2 ^ g)) / 2 ^ g"
    using x xy by (auto simp: rnd53_def Let_def e_def g_def)
  have ge: "g \<le> e" unfolding e_def g_def by (rule scale_of_mono[OF x(1) xy])
  show ?thesis
  proof (cases "g = e")
    case True
    have "round_even (x * 2 ^ e) \<le> round_even (y * 2 ^ e)"
      using xy by (intro round_even_mono) simp
    then show ?thesis using True by (simp add: rx ry divide_right_mono)
  next
    case False
    then obtain k where k: "e = g + Suc k" using ge less_imp_Suc_add by (metis le_neq_implies_less add_Suc_right)
    have yb: "2 ^ 52 \<le> y * 2 ^ g"
    proof -
      have "x * 2 ^ 85 \<le> y * 2 ^ 85" using xy by simp
      then have "2 ^ 52 \<le> y * 2 ^ (20 + 65)" using x(2) by simp
      then show ?thesis unfolding g_def by (rule scale_of_reach)
    qed
    have xb: "x * 2 ^ e \<le> of_int (2 ^ 53)"
    proof -
      have "x * 2 ^ 20 \<le> y * 2 ^ 20" using xy by simp
      then have "x * 2 ^ 20 < 2 ^ 53" using y by (rule order.strict_trans1)
      then have "x * 2 ^ e < 2 ^ 53" unfolding e_def using x(1) by (rule scale_of_tight)
      then show ?thesis by (simp only: of_int_power of_int_numeral less_imp_le)
    qed
    have "of_int (round_even (x * 2 ^ e)) / 2 ^ e \<le> (2 ^ 53 :: rat) / 2 ^ e"
      using round_even_le[OF xb] by (intro divide_right_mono) (auto simp flip: of_int_power)
    also have "\<dots> \<le> 2 ^ 52 / 2 ^ g"
      by (simp add: k power_add field_simps)
    also have "\<dots> \<le> of_int (round_even (y * 2 ^ g)) / 2 ^ g"
    proof (intro divide_right_mono)
      have "2 ^ 52 \<le> round_even (y * 2 ^ g)" using yb by (intro round_even_ge) simp
      then have "of_int (2 ^ 52) \<le> (of_int (round_even (y * 2 ^ g)) :: rat)" by (simp only: of_int_le_iff)
      then show "(2 ^ 52 :: rat) \<le> of_int (round_even (y * 2 ^ g))" by simp
    qed simp
    finally show ?thesis by (simp add: rx ry)
  qed
qed

lemma ratio_range:
  assumes "0 < a" "a < 2 ^ 32" "0 < b" "b < (2 ^ 32 :: nat)"
  shows "0 < (of_nat a / of_nat b :: rat)" "2 ^ 52 \<le> (of_nat a / of_nat b :: rat) * 2 ^ 85"
    "(of_nat a / of_nat b :: rat) * 2 ^ 20 < 2 ^ 53"
proof -
  have b: "(of_nat b :: rat) \<le> 2 ^ 32" "0 < (of_nat b :: rat)" "1 \<le> (of_nat b :: rat)"
    using assms less_imp_le[OF assms(4)] of_nat_le_iff[of b "2 ^ 32", where ?'a = rat] by auto
  have a: "1 \<le> (of_nat a :: rat)" "(of_nat a :: rat) < 2 ^ 32"
    using assms of_nat_less_iff[of a "2 ^ 32", where ?'a = rat] by auto
  show "0 < (of_nat a / of_nat b :: rat)" using assms by simp
  have "2 ^ 52 * (of_nat b :: rat) \<le> of_nat a * 2 ^ 85" using a b by simp
  then show "2 ^ 52 \<le> (of_nat a / of_nat b :: rat) * 2 ^ 85" using b by (simp add: field_simps)
  have "of_nat a * 2 ^ 20 < (2 ^ 53 :: rat) * of_nat b" using a b by simp
  then show "(of_nat a / of_nat b :: rat) * 2 ^ 20 < 2 ^ 53" using b by (simp add: field_simps)
qed

lemma f64_ratio_mono:
  assumes "a \<le> a'" "a' < 2 ^ 32" "0 < b" "b < 2 ^ 32"
  shows "f64_le (f64_ratio a b) (f64_ratio a' b)"
proof (cases "a = 0")
  case True
  moreover have "0 \<le> rnd53 (of_nat a' / of_nat b)" by (rule rnd53_nonneg) simp
  ultimately show ?thesis by (simp add: f64_ratio_def rnd53_def [of 0])
next
  case False
  then have "rnd53 (of_nat a / of_nat b) \<le> rnd53 (of_nat a' / of_nat b)"
    using assms by (intro rnd53_mono ratio_range) (auto simp: divide_right_mono)
  then show ?thesis by (simp add: f64_ratio_def)
qed

lemma f64_ratio_self: "0 < b \<Longrightarrow> f64_ratio b b = Fin 1"
proof -
  assume "0 < b"
  have "scale_of 65 1 20 = 52" by (simp add: eval_nat_numeral)
  then show ?thesis using \<open>0 < b\<close> by (simp add: f64_ratio_def rnd53_def Let_def)
     (metis of_int_numeral of_int_power round_even_of_int div_self of_int_eq_0_iff power_not_zero zero_neq_numeral)
qed

end
