(* ===== verification/Core_Types.thy ===== *)
theory Core_Types
  imports Tumult_Prelude Float64
begin

text \<open>
  The data model of \<open>tumult-core/src/types\<close>: activities and their providers, the
  experiment definition, activity and hypothesis results, and the tolerance
  check of \<open>engine/tolerance.rs\<close>. Paths and strings are \<open>string\<close>, an
  \<open>IndexMap\<close> is an association list, a \<open>HashMap\<close> a map.
\<close>

section \<open>JSON values\<close>

text \<open>A number as serde_json holds it: a non-negative or a negative 64-bit integer,
  or a finite float.\<close>

datatype jnum = PosInt nat | NegInt int | JFloat rat

datatype json = JNull | JBool bool | JNumber jnum | JString string
  | JArray "json list" | JObject "(string \<times> json) list"

text \<open>\<open>Value::as_f64\<close>: an integer is converted to the nearest float. Integers up to
  \<open>2 ^ 53\<close> in magnitude are exact.\<close>

fun shift_of :: "nat \<Rightarrow> nat \<Rightarrow> nat \<Rightarrow> nat" where
  "shift_of 0 n k = k"
| "shift_of (Suc f) n k = (if n < 2 ^ (53 + k) then k else shift_of f n (Suc k))"

definition f64_of_u64 :: "nat \<Rightarrow> rat" where
  "f64_of_u64 n = (let k = shift_of 11 n 0 in of_int (round_even (of_nat n / 2 ^ k)) * 2 ^ k)"

lemma f64_of_u64_exact [simp]: "n < 2 ^ 53 \<Longrightarrow> f64_of_u64 n = of_nat n"
proof -
  assume "n < 2 ^ 53"
  then have "shift_of (Suc 10) n 0 = 0" by (simp only: shift_of.simps add_0_right if_True)
  then have "shift_of 11 n 0 = 0" by simp
  then show ?thesis
    using round_even_of_int[of "int n"] by (simp add: f64_of_u64_def)
qed

fun json_as_f64 :: "json \<Rightarrow> f64 option" where
  "json_as_f64 (JNumber (PosInt n)) = Some (Fin (f64_of_u64 n))"
| "json_as_f64 (JNumber (NegInt i)) = Some (Fin (- f64_of_u64 (nat (- i))))"
| "json_as_f64 (JNumber (JFloat x)) = Some (Fin x)"
| "json_as_f64 _ = None"

section \<open>Enumerations\<close>

datatype activity_type = Action | Probe

datatype experiment_status = Completed | Deviated | Aborted | Failed | Interrupted | Halted

datatype activity_status = ActSucceeded | ActFailed | ActTimeout | ActSkipped

datatype expected_outcome = ExpDeviated | ExpRecovered | ExpUnaffected

datatype degradation_level = DegNone | DegMinor | DegModerate | DegSevere

datatype confidence = ConfLow | ConfMedium | ConfHigh

datatype baseline_method = BmStatic | BmPercentile | BmMeanStddev | BmIqr | BmLearned

datatype load_tool = K6 | Jmeter

datatype baseline_source = SrcLive | SrcHistorical | SrcAqe

datatype trend = Improving | Stable | Degrading

fun activity_type_display :: "activity_type \<Rightarrow> string" where
  "activity_type_display Action = ''action''"
| "activity_type_display Probe = ''probe''"

fun experiment_status_display :: "experiment_status \<Rightarrow> string" where
  "experiment_status_display Completed = ''completed''"
| "experiment_status_display Deviated = ''deviated''"
| "experiment_status_display Aborted = ''aborted''"
| "experiment_status_display Failed = ''failed''"
| "experiment_status_display Interrupted = ''interrupted''"
| "experiment_status_display Halted = ''halted''"

section \<open>Providers, tolerances, configuration sources\<close>

datatype provider =
    Native (native_plugin: string) (native_function: string) (native_arguments: "string \<rightharpoonup> json")
  | Script (script_plugin: string) (script_function: string) (script_arguments: "string \<rightharpoonup> json")
      (script_timeout: "f64 option")
  | Process (process_path: string) (process_arguments: "string list")
      (process_env: "string \<rightharpoonup> string") (process_timeout: "f64 option")

datatype tolerance =
    Exact json
  | Range f64 f64
  | Regex string

datatype config_value = ConfigEnv string | ConfigInline string

datatype secret_value = SecretEnv string | SecretFile string

section \<open>The experiment definition\<close>

record activity =
  act_name :: string
  act_type :: activity_type
  act_provider :: provider
  act_tolerance :: "tolerance option"
  act_pause_before :: "f64 option"
  act_pause_after :: "f64 option"
  act_background :: bool
  act_label_selector :: "(string \<rightharpoonup> string) option"

definition activity_default :: activity where
  "activity_default = \<lparr> act_name = [], act_type = Action,
     act_provider = Process ''echo'' [] Map.empty None, act_tolerance = None,
     act_pause_before = None, act_pause_after = None, act_background = False,
     act_label_selector = None \<rparr>"

record hypothesis =
  hyp_title :: string
  hyp_probes :: "activity list"

record guard =
  guard_name :: string
  guard_probe :: activity
  guard_min_breaches :: nat

record control =
  control_name :: string
  control_provider :: provider

record estimate =
  est_outcome :: expected_outcome
  est_recovery_s :: "f64 option"
  est_degradation :: "degradation_level option"
  est_data_loss :: "bool option"
  est_confidence :: "confidence option"
  est_rationale :: "string option"
  est_prior_runs :: "nat option"

record baseline_config =
  base_duration_s :: f64
  base_warmup_s :: "f64 option"
  base_interval_s :: f64
  base_method :: baseline_method
  base_sigma :: "f64 option"
  base_confidence :: "f64 option"

record load_config =
  load_tool_of :: load_tool
  load_script :: string
  load_vus :: "nat option"
  load_duration_s :: "f64 option"
  load_thresholds :: "string \<rightharpoonup> f64"

record regulatory_requirement =
  requirement_id :: string
  requirement_description :: string
  requirement_evidence :: string

record regulatory_mapping =
  mapping_frameworks :: "string list"
  mapping_requirements :: "regulatory_requirement list"

record chaos_experiment =
  exp_version :: string
  exp_title :: string
  exp_description :: "string option"
  exp_tags :: "string list"
  exp_configuration :: "(string \<times> config_value) list"
  exp_secrets :: "(string \<times> (string \<times> secret_value) list) list"
  exp_controls :: "control list"
  exp_hypothesis :: "hypothesis option"
  exp_guards :: "guard list"
  exp_blast_radius :: "string option"
  exp_max_concurrent_faults :: "nat option"
  exp_method :: "activity list"
  exp_rollbacks :: "activity list"
  exp_estimate :: "estimate option"
  exp_baseline :: "baseline_config option"
  exp_load :: "load_config option"
  exp_regulatory :: "regulatory_mapping option"

definition experiment_default :: chaos_experiment where
  "experiment_default = \<lparr> exp_version = ''v1'', exp_title = [], exp_description = None,
     exp_tags = [], exp_configuration = [], exp_secrets = [], exp_controls = [],
     exp_hypothesis = None, exp_guards = [], exp_blast_radius = None,
     exp_max_concurrent_faults = None, exp_method = [], exp_rollbacks = [],
     exp_estimate = None, exp_baseline = None, exp_load = None, exp_regulatory = None \<rparr>"

section \<open>Results\<close>

record activity_result =
  res_name :: string
  res_type :: activity_type
  res_status :: activity_status
  res_started_at :: int
  res_duration_ms :: nat
  res_output :: "string option"
  res_error :: "string option"
  res_trace_id :: string
  res_span_id :: string

record hypothesis_result =
  hr_title :: string
  hr_met :: bool
  hr_probe_results :: "activity_result list"

record halt_record =
  halt_guard :: string
  halt_observed :: "string option"
  halt_safe_condition :: string
  halt_breach_count :: nat
  halt_breached_at :: int
  halt_time_to_halt_ms :: nat
  halt_rollback_ms :: nat

record blast_radius_record =
  blast_note :: "string option"
  blast_cap :: "nat option"
  blast_peak :: nat

text \<open>The per-phase measurement results.\<close>

record probe_baseline =
  pb_name :: string
  pb_mean :: f64
  pb_stddev :: f64
  pb_p50 :: f64
  pb_p95 :: f64
  pb_p99 :: f64
  pb_min :: f64
  pb_max :: f64
  pb_error_rate :: f64
  pb_samples :: nat

record baseline_result =
  br_started_at :: int
  br_ended_at :: int
  br_duration_s :: f64
  br_warmup_s :: f64
  br_samples :: nat
  br_interval_s :: f64
  br_method :: baseline_method
  br_sigma :: "f64 option"
  br_source :: baseline_source
  br_anomaly :: bool
  br_probes :: "probe_baseline list"
  br_lower :: f64
  br_upper :: f64

record probe_during =
  pd_name :: string
  pd_samples :: nat
  pd_mean :: f64
  pd_max :: f64
  pd_min :: f64
  pd_error_rate :: f64
  pd_breached_at :: "int option"
  pd_breach_count :: nat

record during_result =
  du_started_at :: int
  du_ended_at :: int
  du_fault_active_s :: f64
  du_interval_s :: f64
  du_probes :: "probe_during list"
  du_onset_s :: "f64 option"
  du_peak_s :: "f64 option"
  du_magnitude :: "f64 option"
  du_graceful :: "bool option"

record probe_post =
  pp_name :: string
  pp_mean :: f64
  pp_p95 :: f64
  pp_error_rate :: f64
  pp_returned :: bool
  pp_recovery_s :: f64

record post_result =
  po_started_at :: int
  po_ended_at :: int
  po_duration_s :: f64
  po_samples :: nat
  po_probes :: "probe_post list"
  po_recovery_s :: f64
  po_full_recovery :: bool
  po_residual :: "f64 option"
  po_integrity :: "bool option"
  po_data_loss :: "bool option"
  po_mttr_s :: "f64 option"

record load_result =
  lr_tool :: load_tool
  lr_started_at :: int
  lr_ended_at :: int
  lr_duration_s :: f64
  lr_vus :: nat
  lr_throughput :: f64
  lr_p50 :: f64
  lr_p95 :: f64
  lr_p99 :: f64
  lr_error_rate :: f64
  lr_total :: nat
  lr_thresholds_met :: bool

record analysis_result =
  an_accuracy :: "f64 option"
  an_recovery_delta :: "f64 option"
  an_trend :: "trend option"
  an_score :: "f64 option"

record journal =
  jr_title :: string
  jr_experiment_id :: string
  jr_status :: experiment_status
  jr_started_at :: int
  jr_ended_at :: int
  jr_duration_ms :: nat
  jr_before :: "hypothesis_result option"
  jr_after :: "hypothesis_result option"
  jr_method :: "activity_result list"
  jr_rollback :: "activity_result list"
  jr_rollback_failures :: nat
  jr_estimate :: "estimate option"
  jr_baseline :: "baseline_result option"
  jr_during :: "during_result option"
  jr_post :: "post_result option"
  jr_load :: "load_result option"
  jr_analysis :: "analysis_result option"
  jr_regulatory :: "regulatory_mapping option"
  jr_halt :: "halt_record option"
  jr_blast_radius :: "blast_radius_record option"

text \<open>\<open>Journal::for_experiment\<close>: every execution result empty.\<close>

definition journal_for :: "chaos_experiment \<Rightarrow> string \<Rightarrow> experiment_status \<Rightarrow> int \<Rightarrow> journal" where
  "journal_for e eid st started = \<lparr> jr_title = exp_title e, jr_experiment_id = eid, jr_status = st,
     jr_started_at = started, jr_ended_at = started, jr_duration_ms = 0, jr_before = None, jr_after = None,
     jr_method = [], jr_rollback = [], jr_rollback_failures = 0, jr_estimate = exp_estimate e,
     jr_baseline = None, jr_during = None, jr_post = None, jr_load = None, jr_analysis = None,
     jr_regulatory = exp_regulatory e, jr_halt = None, jr_blast_radius = None \<rparr>"

section \<open>Tolerance evaluation\<close>

text \<open>\<open>engine/tolerance.rs\<close>. The regular-expression engine is a parameter:
  \<open>re pattern text\<close> is \<open>None\<close> when the pattern does not compile, else whether
  it matches; \<open>show_json\<close> is the serialized text of a value. The process-wide
  cache of compiled patterns does not change any outcome.\<close>

fun evaluate_tolerance ::
    "(string \<Rightarrow> string \<Rightarrow> bool option) \<Rightarrow> (json \<Rightarrow> string) \<Rightarrow> json \<Rightarrow> tolerance \<Rightarrow> bool" where
  "evaluate_tolerance re show_json actual (Exact v) = (actual = v)"
| "evaluate_tolerance re show_json actual (Range lo hi) =
    (case json_as_f64 actual of Some n \<Rightarrow> f64_ge n lo \<and> f64_le n hi | None \<Rightarrow> False)"
| "evaluate_tolerance re show_json actual (Regex pattern) =
    (let haystack = (case actual of JString s \<Rightarrow> s | _ \<Rightarrow> show_json actual) in
     case re pattern haystack of Some m \<Rightarrow> m | None \<Rightarrow> False)"

definition determine_status :: "bool option \<Rightarrow> bool option \<Rightarrow> bool \<Rightarrow> experiment_status" where
  "determine_status before after all_ok =
    (if before = Some False then Aborted
     else if \<not> all_ok then Failed
     else if after = Some False then Deviated
     else Completed)"

lemma determine_status_Completed_iff:
  "determine_status b a ok = Completed \<longleftrightarrow> b \<noteq> Some False \<and> ok \<and> a \<noteq> Some False"
  by (auto simp: determine_status_def)

end
