(* ===== verification/Autopilot.thy ===== *)
theory Autopilot
  imports Tumult_Prelude Float64
begin

text \<open>
  The deterministic safety gate of \<open>tumult-autopilot\<close>: the policy and its
  validation (\<open>policy.rs\<close>), candidates and the frozen environment
  (\<open>candidate.rs\<close>), earned autonomy (\<open>ladder.rs\<close>), the anti-hollow validator
  (\<open>validator.rs\<close>) and the gate (\<open>gate.rs\<close>). A human-readable reason is the
  constructor of its message with the values it interpolates; the text is not
  rendered. TOML parsing and the text hash are parameters.
\<close>

section \<open>Policy\<close>

record pretrust_entry =
  pre_plugin :: string
  pre_action :: string
  pre_tier :: string

record playbook_entry =
  pb_plugin :: string
  pb_action :: string
  pb_service :: "string option"
  pb_experiment :: string

record autopilot_policy =
  pol_enabled :: bool
  pol_max_runs_per_day :: nat
  pol_cooldown_hours :: nat
  pol_evidence_ttl_days :: nat
  pol_enact_tiers :: "string list"
  pol_require_guard :: bool
  pol_business_hours_only :: bool
  pol_require_enrollment :: bool
  pol_enrolled_services :: "string list"
  pol_autonomy_threshold :: f64
  pol_autonomy_min_samples :: nat
  pol_pretrusted :: "pretrust_entry list"
  pol_playbook :: "playbook_entry list"
  pol_evidence_ttl_by_framework :: "(string \<times> nat) list"

text \<open>The double nearest to 0.8.\<close>

definition default_autonomy_threshold :: f64 where
  "default_autonomy_threshold = Fin (3602879701896397 / 2 ^ 52)"

definition policy_default :: autopilot_policy where
  "policy_default = \<lparr> pol_enabled = False, pol_max_runs_per_day = 6, pol_cooldown_hours = 12,
     pol_evidence_ttl_days = 90, pol_enact_tiers = [], pol_require_guard = True,
     pol_business_hours_only = False, pol_require_enrollment = False, pol_enrolled_services = [],
     pol_autonomy_threshold = default_autonomy_threshold, pol_autonomy_min_samples = 3,
     pol_pretrusted = [], pol_playbook = [], pol_evidence_ttl_by_framework = [] \<rparr>"

definition strip_svc :: "string \<Rightarrow> string" where
  "strip_svc service = (case strip_prefix ''svc:'' service of Some r \<Rightarrow> r | None \<Rightarrow> service)"

definition is_pretrusted :: "autopilot_policy \<Rightarrow> string \<Rightarrow> string \<Rightarrow> string option \<Rightarrow> bool" where
  "is_pretrusted p plugin action tier = (case tier of None \<Rightarrow> False | Some t \<Rightarrow>
     list_ex (\<lambda>e. pre_plugin e = plugin \<and> pre_action e = action \<and> pre_tier e = t) (pol_pretrusted p))"

definition is_enrolled :: "autopilot_policy \<Rightarrow> string \<Rightarrow> bool" where
  "is_enrolled p service_id =
    (if \<not> pol_require_enrollment p then True
     else list_ex (\<lambda>e. strip_svc e = strip_svc service_id) (pol_enrolled_services p))"

definition tier_allows_enact :: "autopilot_policy \<Rightarrow> string option \<Rightarrow> bool" where
  "tier_allows_enact p tier = (case tier of None \<Rightarrow> False | Some t \<Rightarrow> t \<in> set (pol_enact_tiers p))"

text \<open>The loop over the matching entries with its early return and the running
  \<open>generic\<close>.\<close>

fun playbook_scan :: "string option \<Rightarrow> playbook_entry option \<Rightarrow> playbook_entry list \<Rightarrow> playbook_entry option" where
  "playbook_scan service generic [] = generic"
| "playbook_scan service generic (e # es) =
    (case pb_service e of
       Some bound \<Rightarrow> if service = Some bound then Some e else playbook_scan service generic es
     | None \<Rightarrow> playbook_scan service (if generic = None then Some e else generic) es)"

definition playbook_for :: "autopilot_policy \<Rightarrow> string \<Rightarrow> string \<Rightarrow> string option \<Rightarrow> playbook_entry option" where
  "playbook_for p plugin action service =
    playbook_scan service None (filter (\<lambda>e. pb_plugin e = plugin \<and> pb_action e = action) (pol_playbook p))"

definition evidence_ttl_days_for :: "autopilot_policy \<Rightarrow> string \<Rightarrow> nat" where
  "evidence_ttl_days_for p framework =
    (case map_of (pol_evidence_ttl_by_framework p) framework of Some d \<Rightarrow> d | None \<Rightarrow> pol_evidence_ttl_days p)"

datatype policy_error = ParseError string | ThresholdOutOfRange f64 | ZeroMinSamples
  | IncompletePretrust nat | IncompletePlaybook nat

fun first_index :: "('a \<Rightarrow> bool) \<Rightarrow> nat \<Rightarrow> 'a list \<Rightarrow> nat option" where
  "first_index P i [] = None"
| "first_index P i (x # xs) = (if P x then Some i else first_index P (Suc i) xs)"

definition pretrust_incomplete :: "pretrust_entry \<Rightarrow> bool" where
  "pretrust_incomplete e \<longleftrightarrow> pre_plugin e = [] \<or> pre_action e = [] \<or> pre_tier e = []"

definition playbook_incomplete :: "playbook_entry \<Rightarrow> bool" where
  "playbook_incomplete e \<longleftrightarrow> pb_plugin e = [] \<or> pb_action e = [] \<or> pb_experiment e = []"

definition validate_policy :: "autopilot_policy \<Rightarrow> (policy_error, unit) result" where
  "validate_policy p =
    (if \<not> is_finite (pol_autonomy_threshold p)
        \<or> \<not> (f64_le (Fin 0) (pol_autonomy_threshold p) \<and> f64_le (pol_autonomy_threshold p) (Fin 1))
     then Inl (ThresholdOutOfRange (pol_autonomy_threshold p))
     else if pol_autonomy_min_samples p = 0 then Inl ZeroMinSamples
     else case first_index pretrust_incomplete 0 (pol_pretrusted p) of
       Some i \<Rightarrow> Inl (IncompletePretrust i)
     | None \<Rightarrow> (case first_index playbook_incomplete 0 (pol_playbook p) of
         Some i \<Rightarrow> Inl (IncompletePlaybook i)
       | None \<Rightarrow> Inr ()))"

record loaded_policy =
  lp_policy :: autopilot_policy
  lp_raw_toml :: string
  lp_hash :: string

definition loaded_policy_parse ::
    "(string \<Rightarrow> (string, autopilot_policy) result) \<Rightarrow> (string \<Rightarrow> string) \<Rightarrow> string \<Rightarrow>
     (policy_error, loaded_policy) result" where
  "loaded_policy_parse toml hash text = (case toml text of
     Inl e \<Rightarrow> Inl (ParseError e)
   | Inr p \<Rightarrow> (case validate_policy p of
       Inl e \<Rightarrow> Inl e
     | Inr _ \<Rightarrow> Inr \<lparr> lp_policy = p, lp_raw_toml = text, lp_hash = hash text \<rparr>))"

section \<open>Candidates and the frozen environment\<close>

datatype trigger = Staleness string nat | BrokenControl string | Manual
  | ChangeEvent string "string option"

datatype confidence_tier = High | Directional

record candidate =
  cand_id :: string
  cand_service_id :: string
  cand_tier :: "string option"
  cand_plugin :: string
  cand_action :: string
  cand_article_id :: string
  cand_score :: f64
  cand_reasons :: "string list"
  cand_confidence :: confidence_tier
  cand_playbook :: "string option"
  cand_has_guard :: bool
  cand_has_rollback :: bool
  cand_has_steady_state :: bool
  cand_fault_count :: nat
  cand_trigger :: trigger

record ambient_context =
  amb_open_deviation :: bool
  amb_runs_today :: nat
  amb_hours_since_last_run :: "f64 option"
  amb_business_hours :: bool
  amb_concurrent :: nat
  amb_guard_telemetry :: "bool option"

record autonomy_record =
  enacted_total :: nat
  enacted_clean :: nat

section \<open>Anti-hollow validation\<close>

datatype reason =
    NoPlaybook string string
  | NoSteadyState | NoFault | MultiFault nat | NoRollback
  | AutopilotDisabled | NotEnrolled string | OpenDeviation | ConcurrentExperiments nat
  | BudgetExhausted nat nat | HollowCandidate "reason list" | Blocked "reason list"
  | TierNotEnact "string option" | GuardMissing | TelemetryUnverified "bool option"
  | OutsideBusinessHours | CooldownActive f64 string f64 | ConfidenceDirectional
  | AutonomyNotEarned string reason
  | Pretrusted | NoAutonomyRecord | TooFewSamples nat nat
  | PrecisionReached f64 f64 nat | PrecisionBelow f64 f64 nat

record validator_report =
  vr_hollow :: "reason list"
  vr_blockers :: "reason list"
  vr_enactable :: bool

definition validate_candidate :: "candidate \<Rightarrow> validator_report" where
  "validate_candidate c =
    (let hollow = (if cand_playbook c = None then []
           else (if \<not> cand_has_steady_state c then [NoSteadyState] else [])
              @ (if cand_fault_count c = 0 then [NoFault] else []));
         blockers = (if cand_playbook c = None then [NoPlaybook (cand_plugin c) (cand_action c)]
           else (if 1 < cand_fault_count c then [MultiFault (cand_fault_count c)] else [])
              @ (if \<not> cand_has_rollback c then [NoRollback] else []))
     in \<lparr> vr_hollow = hollow, vr_blockers = blockers,
          vr_enactable = (hollow = [] \<and> blockers = []) \<rparr>)"

section \<open>Earned autonomy\<close>

definition class_key :: "string \<Rightarrow> string \<Rightarrow> string option \<Rightarrow> string" where
  "class_key plugin action tier =
    plugin @ ''::'' @ action @ ''@'' @ (case tier of Some t \<Rightarrow> t | None \<Rightarrow> ''-'')"

definition autonomy_earned ::
    "autopilot_policy \<Rightarrow> autonomy_record option \<Rightarrow> bool \<Rightarrow> bool \<times> reason" where
  "autonomy_earned p rec pretrusted =
    (if pretrusted then (True, Pretrusted)
     else case rec of
       None \<Rightarrow> (False, NoAutonomyRecord)
     | Some r \<Rightarrow>
         if enacted_total r = 0 \<or> enacted_total r < pol_autonomy_min_samples p
         then (False, TooFewSamples (enacted_total r) (pol_autonomy_min_samples p))
         else (let clean = min (enacted_clean r) (enacted_total r);
                   precision = f64_ratio clean (enacted_total r);
                   threshold = pol_autonomy_threshold p
               in if f64_ge precision threshold
                  then (True, PrecisionReached precision threshold (enacted_total r))
                  else (False, PrecisionBelow precision threshold (enacted_total r))))"

definition u32_max :: nat where
  "u32_max = 2 ^ 32 - 1"

definition u32_saturating_succ :: "nat \<Rightarrow> nat" where
  "u32_saturating_succ n = min u32_max (n + 1)"

definition record_outcome :: "autonomy_record \<Rightarrow> bool \<Rightarrow> autonomy_record" where
  "record_outcome r clean = \<lparr> enacted_total = u32_saturating_succ (enacted_total r),
     enacted_clean = (if clean then u32_saturating_succ (enacted_clean r) else enacted_clean r) \<rparr>"

definition ladder_reset :: "autonomy_record \<Rightarrow> autonomy_record" where
  "ladder_reset r = \<lparr> enacted_total = 0, enacted_clean = 0 \<rparr>"

section \<open>The gate\<close>

definition rule_order :: "string list" where
  "rule_order = [''policy.enabled'', ''target.enrolled'', ''ambient.no_open_deviation'',
     ''ambient.no_concurrent_experiment'', ''budget.daily_runs_remaining'',
     ''validator.not_hollow'', ''validator.enactable'', ''tier.enact_allowed'', ''guard.present'',
     ''guard.telemetry_verified'', ''schedule.business_hours'', ''cooldown.clear'',
     ''confidence.high'', ''autonomy.earned'']"

datatype verdict = Enact | Downgrade "reason list" | Propose "reason list" | Veto string

record gate_decision =
  gd_verdict :: verdict
  gd_rules :: "(string \<times> bool) list"

record rule =
  rule_id :: string
  rule_passed :: bool
  rule_reason :: "reason option"

definition rule_pass :: "string \<Rightarrow> rule" where
  "rule_pass rid = \<lparr> rule_id = rid, rule_passed = True, rule_reason = None \<rparr>"

definition rule_fail :: "string \<Rightarrow> reason \<Rightarrow> rule" where
  "rule_fail rid why = \<lparr> rule_id = rid, rule_passed = False, rule_reason = Some why \<rparr>"

definition rule_check :: "string \<Rightarrow> bool \<Rightarrow> reason \<Rightarrow> rule" where
  "rule_check rid passed why = (if passed then rule_pass rid else rule_fail rid why)"

definition veto_rules ::
    "autopilot_policy \<Rightarrow> candidate \<Rightarrow> ambient_context \<Rightarrow> validator_report \<Rightarrow> rule list" where
  "veto_rules p c amb v =
    [rule_check ''policy.enabled'' (pol_enabled p) AutopilotDisabled,
     rule_check ''target.enrolled'' (is_enrolled p (cand_service_id c)) (NotEnrolled (cand_service_id c)),
     rule_check ''ambient.no_open_deviation'' (\<not> amb_open_deviation amb) OpenDeviation,
     rule_check ''ambient.no_concurrent_experiment'' (amb_concurrent amb = 0)
       (ConcurrentExperiments (amb_concurrent amb)),
     rule_check ''budget.daily_runs_remaining'' (amb_runs_today amb < pol_max_runs_per_day p)
       (BudgetExhausted (amb_runs_today amb) (pol_max_runs_per_day p)),
     rule_check ''validator.not_hollow'' (vr_hollow v = []) (HollowCandidate (vr_hollow v))]"

definition enactability_rule :: "validator_report \<Rightarrow> rule" where
  "enactability_rule v = rule_check ''validator.enactable'' (vr_blockers v = []) (Blocked (vr_blockers v))"

definition cooldown_rule :: "autopilot_policy \<Rightarrow> candidate \<Rightarrow> ambient_context \<Rightarrow> rule" where
  "cooldown_rule p c amb = (let required = f64_of_nat (pol_cooldown_hours p) in
     case amb_hours_since_last_run amb of
       Some hours \<Rightarrow> if f64_lt hours required
         then rule_fail ''cooldown.clear'' (CooldownActive hours (cand_service_id c) required)
         else rule_pass ''cooldown.clear''
     | None \<Rightarrow> rule_pass ''cooldown.clear'')"

definition bounded_rules ::
    "autopilot_policy \<Rightarrow> candidate \<Rightarrow> ambient_context \<Rightarrow> autonomy_record option \<Rightarrow> rule list" where
  "bounded_rules p c amb autonomy =
    (let tier = cand_tier c;
         pretrusted = is_pretrusted p (cand_plugin c) (cand_action c) tier;
         ea = autonomy_earned p autonomy pretrusted;
         cls = class_key (cand_plugin c) (cand_action c) tier
     in [rule_check ''tier.enact_allowed'' (tier_allows_enact p tier) (TierNotEnact tier),
         rule_check ''guard.present'' (\<not> pol_require_guard p \<or> cand_has_guard c) GuardMissing,
         rule_check ''guard.telemetry_verified'' (amb_guard_telemetry amb = Some True)
           (TelemetryUnverified (amb_guard_telemetry amb)),
         rule_check ''schedule.business_hours'' (\<not> pol_business_hours_only p \<or> amb_business_hours amb)
           OutsideBusinessHours,
         cooldown_rule p c amb,
         rule_check ''confidence.high'' (cand_confidence c = High) ConfidenceDirectional,
         rule_check ''autonomy.earned'' (fst ea) (AutonomyNotEarned cls (snd ea))])"

definition gate_evaluate ::
    "autopilot_policy \<Rightarrow> candidate \<Rightarrow> ambient_context \<Rightarrow> autonomy_record option \<Rightarrow> validator_report
      \<Rightarrow> gate_decision" where
  "gate_evaluate p c amb autonomy v =
    (let veto = veto_rules p c amb v;
         enactability = enactability_rule v;
         bounded = bounded_rules p c amb autonomy;
         verdict = (case find (\<lambda>r. \<not> rule_passed r) veto of
             Some fired \<Rightarrow> Veto (rule_id fired)
           | None \<Rightarrow>
               if rule_passed enactability
               then (let reasons = List.map_filter rule_reason (filter (\<lambda>r. \<not> rule_passed r) bounded)
                     in if reasons = [] then Enact else Downgrade reasons)
               else Propose (vr_blockers v))
     in \<lparr> gd_verdict = verdict,
          gd_rules = map (\<lambda>r. (rule_id r, rule_passed r)) (veto @ [enactability] @ bounded) \<rparr>)"

section \<open>Rules\<close>

lemma rule_id_simps [simp]:
  "rule_id (rule_pass rid) = rid" "rule_id (rule_fail rid why) = rid" "rule_id (rule_check rid b why) = rid"
  by (simp_all add: rule_pass_def rule_fail_def rule_check_def)

lemma rule_passed_simps [simp]:
  "rule_passed (rule_pass rid)" "\<not> rule_passed (rule_fail rid why)" "rule_passed (rule_check rid b why) = b"
  by (simp_all add: rule_pass_def rule_fail_def rule_check_def)

text \<open>A rule is well formed when it carries a reason exactly if it failed.\<close>

definition rule_wf :: "rule \<Rightarrow> bool" where
  "rule_wf r \<longleftrightarrow> (rule_reason r = None) = rule_passed r"

lemma rule_wf_simps [simp]: "rule_wf (rule_pass rid)" "rule_wf (rule_fail rid why)" "rule_wf (rule_check rid b why)"
  by (simp_all add: rule_wf_def rule_pass_def rule_fail_def rule_check_def)

lemma rule_cooldown [simp]:
  "rule_id (cooldown_rule p c amb) = ''cooldown.clear''"
  "rule_passed (cooldown_rule p c amb) =
    (case amb_hours_since_last_run amb of None \<Rightarrow> True | Some h \<Rightarrow> \<not> f64_lt h (f64_of_nat (pol_cooldown_hours p)))"
  "rule_wf (cooldown_rule p c amb)"
  by (auto simp: cooldown_rule_def Let_def split: option.split)

lemma enactability_rule_simps [simp]:
  "rule_id (enactability_rule v) = ''validator.enactable''" "rule_passed (enactability_rule v) = (vr_blockers v = [])"
  by (simp_all add: enactability_rule_def)

lemma bounded_rules_wf: "list_all rule_wf (bounded_rules p c amb a)"
  by (simp add: bounded_rules_def Let_def)

lemma failed_reasons_empty:
  "list_all rule_wf rs \<Longrightarrow>
    List.map_filter rule_reason (filter (\<lambda>r. \<not> rule_passed r) rs) = [] \<longleftrightarrow> list_all rule_passed rs"
  by (induction rs) (auto simp: rule_wf_def List.map_filter_simps split: option.split)

lemma find_None_list_all: "find (\<lambda>x. \<not> P x) xs = None \<longleftrightarrow> list_all P xs"
  by (induction xs) auto

lemma gate_rule_ids: "map fst (gd_rules (gate_evaluate p c amb a v)) = rule_order"
  by (simp add: gate_evaluate_def Let_def veto_rules_def bounded_rules_def rule_order_def)

lemma gate_enact_all:
  "gd_verdict (gate_evaluate p c amb a v) = Enact \<longleftrightarrow>
    list_all rule_passed (veto_rules p c amb v) \<and> vr_blockers v = [] \<and> list_all rule_passed (bounded_rules p c amb a)"
proof (cases "find (\<lambda>r. \<not> rule_passed r) (veto_rules p c amb v)")
  case None
  then have "list_all rule_passed (veto_rules p c amb v)" by (simp only: find_None_list_all)
  then show ?thesis
    using failed_reasons_empty[OF bounded_rules_wf, of p c amb a]
    unfolding gate_evaluate_def Let_def None by simp
next
  case (Some r)
  then have "\<not> list_all rule_passed (veto_rules p c amb v)"
    by (metis find_None_list_all option.distinct(1))
  then show ?thesis unfolding gate_evaluate_def Let_def Some by simp
qed

lemma gate_rules_passed:
  "list_all snd (gd_rules (gate_evaluate p c amb a v)) \<longleftrightarrow>
    list_all rule_passed (veto_rules p c amb v) \<and> vr_blockers v = [] \<and> list_all rule_passed (bounded_rules p c amb a)"
proof -
  have *: "list_all snd (map (\<lambda>r. (rule_id r, rule_passed r)) rs) = list_all rule_passed rs" for rs
    by (induction rs) auto
  show ?thesis by (simp add: gate_evaluate_def Let_def *)
qed

text \<open>What it takes to enact, written over the inputs.\<close>

definition cooldown_clear :: "autopilot_policy \<Rightarrow> ambient_context \<Rightarrow> bool" where
  "cooldown_clear p amb = (case amb_hours_since_last_run amb of None \<Rightarrow> True
     | Some h \<Rightarrow> \<not> f64_lt h (f64_of_nat (pol_cooldown_hours p)))"

definition vetoed :: "autopilot_policy \<Rightarrow> candidate \<Rightarrow> ambient_context \<Rightarrow> validator_report \<Rightarrow> bool" where
  "vetoed p c amb v \<longleftrightarrow> \<not> (pol_enabled p \<and> is_enrolled p (cand_service_id c) \<and> \<not> amb_open_deviation amb
     \<and> amb_concurrent amb = 0 \<and> amb_runs_today amb < pol_max_runs_per_day p \<and> vr_hollow v = [])"

definition bounds_ok ::
    "autopilot_policy \<Rightarrow> candidate \<Rightarrow> ambient_context \<Rightarrow> autonomy_record option \<Rightarrow> bool" where
  "bounds_ok p c amb a \<longleftrightarrow> tier_allows_enact p (cand_tier c)
     \<and> (pol_require_guard p \<longrightarrow> cand_has_guard c) \<and> amb_guard_telemetry amb = Some True
     \<and> (pol_business_hours_only p \<longrightarrow> amb_business_hours amb) \<and> cooldown_clear p amb
     \<and> cand_confidence c = High
     \<and> fst (autonomy_earned p a (is_pretrusted p (cand_plugin c) (cand_action c) (cand_tier c)))"

lemma veto_rules_passed: "list_all rule_passed (veto_rules p c amb v) \<longleftrightarrow> \<not> vetoed p c amb v"
  by (auto simp: veto_rules_def vetoed_def)

lemma bounded_rules_passed: "list_all rule_passed (bounded_rules p c amb a) \<longleftrightarrow> bounds_ok p c amb a"
  by (auto simp: bounded_rules_def bounds_ok_def cooldown_clear_def Let_def split: option.splits)

lemmas gate_bundle = gate_enact_all gate_rules_passed veto_rules_passed bounded_rules_passed

lemma gate_veto_iff: "(\<exists>r. gd_verdict (gate_evaluate p c amb a v) = Veto r) \<longleftrightarrow> vetoed p c amb v"
proof (cases "find (\<lambda>r. \<not> rule_passed r) (veto_rules p c amb v)")
  case None
  then have "\<not> vetoed p c amb v" by (simp only: find_None_list_all veto_rules_passed) simp
  then show ?thesis unfolding gate_evaluate_def Let_def None by simp
next
  case (Some r)
  then have "vetoed p c amb v" by (metis find_None_list_all option.distinct(1) veto_rules_passed)
  then show ?thesis unfolding gate_evaluate_def Let_def Some by simp
qed

section \<open>Properties of the gate\<close>

text \<open>C31: the gate enacts exactly when no veto condition holds, the validator found no
  blocker and every bounded condition holds; this is the same as every rule of the audit
  record having passed, and the record always lists the fourteen rules in their fixed order.\<close>

theorem gate_enact_iff:
  "(gd_verdict (gate_evaluate p c amb a v) = Enact \<longleftrightarrow>
      \<not> vetoed p c amb v \<and> vr_blockers v = [] \<and> bounds_ok p c amb a) \<and>
   (gd_verdict (gate_evaluate p c amb a v) = Enact \<longleftrightarrow> list_all snd (gd_rules (gate_evaluate p c amb a v))) \<and>
   map fst (gd_rules (gate_evaluate p c amb a v)) = rule_order"
  by (simp add: gate_bundle gate_rule_ids)

text \<open>The verdict can be read off the audit record: a failing rule among the first six is a
  veto naming the first such rule; otherwise the validator's blockers make a proposal; otherwise
  the failing bounded rules downgrade, with one reason each.\<close>

theorem gate_verdict_from_audit:
  "gd_verdict (gate_evaluate p c amb a v) =
    (case find (\<lambda>r. \<not> snd r) (take 6 (gd_rules (gate_evaluate p c amb a v))) of
       Some r \<Rightarrow> Veto (fst r)
     | None \<Rightarrow>
         if vr_blockers v \<noteq> [] then Propose (vr_blockers v)
         else if bounds_ok p c amb a then Enact
         else Downgrade (List.map_filter rule_reason (bounded_rules p c amb a)))"
proof -
  let ?f = "\<lambda>r. (rule_id r, rule_passed r)"
  have t: "take 6 (gd_rules (gate_evaluate p c amb a v)) = map ?f (veto_rules p c amb v)"
    by (simp add: gate_evaluate_def Let_def veto_rules_def)
  have f: "find (\<lambda>r. \<not> snd r) (map ?f rs) = map_option ?f (find (\<lambda>r. \<not> rule_passed r) rs)" for rs
    by (induction rs) auto
  have m: "list_all rule_wf rs \<Longrightarrow>
      List.map_filter rule_reason (filter (\<lambda>r. \<not> rule_passed r) rs) = List.map_filter rule_reason rs" for rs
    by (induction rs) (auto simp: rule_wf_def List.map_filter_simps split: option.split)
  show ?thesis
  proof (cases "find (\<lambda>r. \<not> rule_passed r) (veto_rules p c amb v)")
    case None
    then show ?thesis
      unfolding t f unfolding gate_evaluate_def Let_def None
      using failed_reasons_empty[OF bounded_rules_wf, of p c amb a] m[OF bounded_rules_wf, of p c amb a]
      by (simp add: bounded_rules_passed)
  next
    case (Some r)
    show ?thesis unfolding t f unfolding gate_evaluate_def Let_def Some by simp
  qed
qed

text \<open>A policy that allows at most what another allows.\<close>

definition narrower :: "autopilot_policy \<Rightarrow> autopilot_policy \<Rightarrow> bool" where
  "narrower q p \<longleftrightarrow>
     (pol_enabled q \<longrightarrow> pol_enabled p) \<and> pol_max_runs_per_day q \<le> pol_max_runs_per_day p
   \<and> pol_cooldown_hours p \<le> pol_cooldown_hours q \<and> set (pol_enact_tiers q) \<subseteq> set (pol_enact_tiers p)
   \<and> (pol_require_guard p \<longrightarrow> pol_require_guard q)
   \<and> (pol_business_hours_only p \<longrightarrow> pol_business_hours_only q)
   \<and> (pol_require_enrollment p \<longrightarrow> pol_require_enrollment q)
   \<and> set (pol_enrolled_services q) \<subseteq> set (pol_enrolled_services p)
   \<and> f64_le (pol_autonomy_threshold p) (pol_autonomy_threshold q)
   \<and> pol_autonomy_min_samples p \<le> pol_autonomy_min_samples q
   \<and> set (pol_pretrusted q) \<subseteq> set (pol_pretrusted p)"

lemma narrower_autonomy:
  "narrower q p \<Longrightarrow> (pre \<longrightarrow> pre') \<Longrightarrow> fst (autonomy_earned q a pre) \<Longrightarrow> fst (autonomy_earned p a pre')"
  by (auto simp: autonomy_earned_def narrower_def Let_def f64_ge_def split: option.splits if_splits
      intro: f64_le_trans)

lemma narrower_not_vetoed: "narrower q p \<Longrightarrow> \<not> vetoed q c amb v \<Longrightarrow> \<not> vetoed p c amb v"
  by (auto simp: vetoed_def narrower_def is_enrolled_def list_ex_iff split: if_splits)

lemma cooldown_mono: "m \<le> n \<Longrightarrow> \<not> f64_lt h (f64_of_nat n) \<Longrightarrow> \<not> f64_lt h (f64_of_nat m)"
  by (cases h) (auto simp: f64_of_nat_def)

lemma narrower_bounds: "narrower q p \<Longrightarrow> bounds_ok q c amb a \<Longrightarrow> bounds_ok p c amb a"
proof -
  assume n: "narrower q p" and b: "bounds_ok q c amb a"
  have "tier_allows_enact p (cand_tier c)"
    using n b by (auto simp: bounds_ok_def narrower_def tier_allows_enact_def split: option.splits)
  moreover have "cooldown_clear p amb"
    using n b cooldown_mono by (auto simp: bounds_ok_def narrower_def cooldown_clear_def split: option.splits)
  moreover have "is_pretrusted q (cand_plugin c) (cand_action c) (cand_tier c) \<longrightarrow>
      is_pretrusted p (cand_plugin c) (cand_action c) (cand_tier c)"
    using n by (auto simp: narrower_def is_pretrusted_def list_ex_iff split: option.splits)
  ultimately show ?thesis
    using n b narrower_autonomy[OF n] by (auto simp: bounds_ok_def narrower_def)
qed

text \<open>Tightening a policy never lets more through: whatever a narrower policy enacts, the
  wider one enacts on the same inputs.\<close>

theorem gate_enact_mono_policy:
  assumes "narrower q p" "gd_verdict (gate_evaluate q c amb a v) = Enact"
  shows "gd_verdict (gate_evaluate p c amb a v) = Enact"
  using assms narrower_not_vetoed narrower_bounds by (simp add: gate_bundle)

text \<open>A policy and candidate for which every rule passes.\<close>

definition open_policy :: autopilot_policy where
  "open_policy = policy_default \<lparr> pol_enabled := True, pol_enact_tiers := [''staging''],
     pol_pretrusted := [\<lparr> pre_plugin = ''tumult-postgres'', pre_action = ''kill-connections'', pre_tier = ''staging'' \<rparr>] \<rparr>"

definition good_candidate :: candidate where
  "good_candidate = \<lparr> cand_id = ''c'', cand_service_id = ''svc:db'', cand_tier = Some ''staging'',
     cand_plugin = ''tumult-postgres'', cand_action = ''kill-connections'', cand_article_id = ''DORA'',
     cand_score = Fin 1, cand_reasons = [], cand_confidence = High, cand_playbook = Some ''e.toon'',
     cand_has_guard = True, cand_has_rollback = True, cand_has_steady_state = True,
     cand_fault_count = 1, cand_trigger = Manual \<rparr>"

definition quiet_ambient :: ambient_context where
  "quiet_ambient = \<lparr> amb_open_deviation = False, amb_runs_today = 0, amb_hours_since_last_run = None,
     amb_business_hours = True, amb_concurrent = 0, amb_guard_telemetry = Some True \<rparr>"

lemma open_policy_enacts:
  "gd_verdict (gate_evaluate (open_policy \<lparr> pol_max_runs_per_day := 1 \<rparr>) good_candidate quiet_ambient None
     (validate_candidate good_candidate)) = Enact"
  by (simp add: gate_bundle vetoed_def bounds_ok_def open_policy_def good_candidate_def quiet_ambient_def
      validate_candidate_def Let_def is_enrolled_def policy_default_def tier_allows_enact_def
      cooldown_clear_def autonomy_earned_def is_pretrusted_def)

lemma narrower_open: "narrower (open_policy \<lparr> pol_max_runs_per_day := 1 \<rparr>) open_policy"
  by (simp add: narrower_def open_policy_def policy_default_def default_autonomy_threshold_def)

theorem gate_enact_mono_policy_witness:
  "narrower (open_policy \<lparr> pol_max_runs_per_day := 1 \<rparr>) open_policy \<and>
   gd_verdict (gate_evaluate open_policy good_candidate quiet_ambient None (validate_candidate good_candidate)) = Enact"
  using gate_enact_mono_policy[OF narrower_open open_policy_enacts] narrower_open by blast

section \<open>Properties of the ladder\<close>

lemma ratio_succ_mono:
  assumes "a \<le> b" "0 < b" "b + 1 < 2 ^ 32"
  shows "f64_le (f64_ratio a b) (f64_ratio (a + 1) (b + 1))"
proof (cases "a = 0")
  case True
  moreover have "0 \<le> rnd53 (of_nat (a + 1) / of_nat (b + 1))" by (rule rnd53_nonneg) simp
  ultimately show ?thesis by (simp add: f64_ratio_def rnd53_def [of 0])
next
  case False
  have q: "(of_nat a / of_nat b :: rat) \<le> of_nat (a + 1) / of_nat (b + 1)"
    using assms by (simp add: field_simps)
  have "rnd53 (of_nat a / of_nat b) \<le> rnd53 (of_nat (a + 1) / of_nat (b + 1))"
    using False assms ratio_range[of a b] ratio_range[of "a + 1" "b + 1"] q
    by (intro rnd53_mono) auto
  then show ?thesis by (simp add: f64_ratio_def)
qed

lemma autonomy_earned_iff:
  "fst (autonomy_earned p (Some r) False) \<longleftrightarrow> enacted_total r \<noteq> 0 \<and> pol_autonomy_min_samples p \<le> enacted_total r
    \<and> f64_le (pol_autonomy_threshold p) (f64_ratio (min (enacted_clean r) (enacted_total r)) (enacted_total r))"
  by (auto simp: autonomy_earned_def Let_def f64_ge_def)

text \<open>Autonomy is not lost by a clean run: when a class has earned autonomy, it still has
  after one more clean outcome is recorded, despite the rounding of the quotient and the
  saturation of the counters.\<close>

theorem autonomy_kept_by_clean_run:
  assumes "fst (autonomy_earned p (Some r) False)"
    and "enacted_total r \<le> u32_max" "enacted_clean r \<le> u32_max"
  shows "fst (autonomy_earned p (Some (record_outcome r True)) False)"
proof -
  define t where "t = enacted_total r"
  define c where "c = min (enacted_clean r) t"
  let ?r = "record_outcome r True"
  have old: "t \<noteq> 0" "pol_autonomy_min_samples p \<le> t" "f64_le (pol_autonomy_threshold p) (f64_ratio c t)"
    using assms(1) by (simp_all add: autonomy_earned_iff t_def c_def)
  have tm: "t \<le> u32_max" using assms by (simp add: t_def)
  have "f64_le (f64_ratio c t) (f64_ratio (min (enacted_clean ?r) (enacted_total ?r)) (enacted_total ?r))"
  proof (cases "t = u32_max")
    case True
    then have r: "enacted_total ?r = t" "c \<le> min (enacted_clean ?r) t" "min (enacted_clean ?r) t < 2 ^ 32"
      using assms by (auto simp: record_outcome_def u32_saturating_succ_def t_def c_def u32_max_def)
    show ?thesis
      unfolding r(1) using old(1) tm r by (intro f64_ratio_mono) (auto simp: u32_max_def)
  next
    case False
    then have "enacted_total ?r = t + 1" "min (enacted_clean ?r) (enacted_total ?r) = c + 1"
      using tm assms by (auto simp: record_outcome_def u32_saturating_succ_def t_def c_def min_def)
    then show ?thesis using ratio_succ_mono[of c t] old tm False by (auto simp: c_def u32_max_def)
  qed
  moreover have "t \<le> enacted_total ?r"
    using tm by (simp add: record_outcome_def u32_saturating_succ_def t_def)
  ultimately show ?thesis
    using old by (auto simp: autonomy_earned_iff intro: f64_le_trans)
qed

theorem autonomy_kept_by_clean_run_witness:
  "fst (autonomy_earned policy_default (Some (record_outcome \<lparr> enacted_total = 3, enacted_clean = 3 \<rparr> True)) False)"
proof (rule autonomy_kept_by_clean_run)
  show "fst (autonomy_earned policy_default (Some \<lparr> enacted_total = 3, enacted_clean = 3 \<rparr>) False)"
    by (simp add: autonomy_earned_iff policy_default_def f64_ratio_self default_autonomy_threshold_def)
qed (simp_all add: u32_max_def)

section \<open>Properties of the playbook lookup\<close>

lemma playbook_scan_eq:
  "playbook_scan s g es =
    (case find (\<lambda>e. pb_service e = s \<and> s \<noteq> None) es of
       Some e \<Rightarrow> Some e
     | None \<Rightarrow> (case g of Some e \<Rightarrow> Some e | None \<Rightarrow> find (\<lambda>e. pb_service e = None) es))"
  by (induction s g es rule: playbook_scan.induct) (auto split: option.split)

text \<open>A playbook lookup returns the first entry of the plugin and action bound to the
  requested service, and only without one the first entry bound to no service.\<close>

theorem playbook_for_spec:
  "playbook_for p plugin action service =
    (case find (\<lambda>e. pb_service e = service \<and> service \<noteq> None)
            (filter (\<lambda>e. pb_plugin e = plugin \<and> pb_action e = action) (pol_playbook p)) of
       Some e \<Rightarrow> Some e
     | None \<Rightarrow> find (\<lambda>e. pb_service e = None)
            (filter (\<lambda>e. pb_plugin e = plugin \<and> pb_action e = action) (pol_playbook p)))"
  unfolding playbook_for_def playbook_scan_eq by (simp split: option.split)

section \<open>The contract the approval gate relies on\<close>

text \<open>A gate that never enacts a blocked candidate.\<close>

locale fail_closed_gate =
  fixes decide :: "'p \<Rightarrow> 'c \<Rightarrow> 'a \<Rightarrow> verdict"
    and blocked :: "'c \<Rightarrow> bool"
  assumes blocked_not_enact: "blocked c \<Longrightarrow> decide p c amb \<noteq> Enact"
begin

lemma refused:
  "blocked c \<Longrightarrow> (\<exists>r. decide p c amb = Veto r) \<or> (\<exists>rs. decide p c amb = Downgrade rs) \<or> (\<exists>rs. decide p c amb = Propose rs)"
  using blocked_not_enact[of c p amb] by (cases "decide p c amb") auto

end

definition autopilot_verdict :: "autopilot_policy \<Rightarrow> candidate \<Rightarrow> ambient_context \<Rightarrow> verdict" where
  "autopilot_verdict p c amb = gd_verdict (gate_evaluate p c amb None (validate_candidate c))"

interpretation autopilot_gate: fail_closed_gate autopilot_verdict "\<lambda>c. cand_playbook c = None"
  by unfold_locales (simp add: autopilot_verdict_def gate_bundle validate_candidate_def Let_def)

end
