(* ===== verification/Auth_Roles.thy ===== *)
theory Auth_Roles
  imports Tumult_Prelude
begin

text \<open>
  The authentication primitives of \<open>tumult-auth/src/lib.rs\<close>: the RBAC role and
  its order, credential generation from a source of random bytes (a parameter:
  the operating system's generator), and the string comparison. Password hashing
  is a call into argon2 and is not modelled.
\<close>

unbundle bit_operations_syntax

section \<open>Roles\<close>

datatype role = Viewer | Operator | Approver | Admin

definition role_parse :: "string \<Rightarrow> role option" where
  "role_parse s = (let l = lower (trim s) in
     if l = ''viewer'' then Some Viewer
     else if l = ''operator'' then Some Operator
     else if l = ''approver'' then Some Approver
     else if l = ''admin'' then Some Admin
     else None)"

fun role_as_str :: "role \<Rightarrow> string" where
  "role_as_str Viewer = ''viewer''"
| "role_as_str Operator = ''operator''"
| "role_as_str Approver = ''approver''"
| "role_as_str Admin = ''admin''"

text \<open>The derived \<open>Ord\<close> compares by order of declaration.\<close>

fun role_rank :: "role \<Rightarrow> nat" where
  "role_rank Viewer = 0"
| "role_rank Operator = 1"
| "role_rank Approver = 2"
| "role_rank Admin = 3"

lemma role_rank_inj [simp]: "role_rank r = role_rank q \<longleftrightarrow> r = q"
  by (cases r; cases q) auto

instantiation role :: linorder
begin

definition less_eq_role :: "role \<Rightarrow> role \<Rightarrow> bool" where
  "r \<le> q \<longleftrightarrow> role_rank r \<le> role_rank q"

definition less_role :: "role \<Rightarrow> role \<Rightarrow> bool" where
  "r < q \<longleftrightarrow> role_rank r < role_rank q"

instance
  by standard (auto simp: less_eq_role_def less_role_def simp flip: role_rank_inj)

end

lemma viewer_least [simp]: "Viewer \<le> r"
  by (simp add: less_eq_role_def)

lemma admin_greatest [simp]: "r \<le> Admin"
  by (cases r) (auto simp: less_eq_role_def)

lemma approver_le_iff: "Approver \<le> r \<longleftrightarrow> r = Approver \<or> r = Admin"
  by (cases r) (auto simp: less_eq_role_def)

lemma operator_le_iff: "Operator \<le> r \<longleftrightarrow> r \<noteq> Viewer"
  by (cases r) (auto simp: less_eq_role_def)

lemma lower_role_as_str [simp]: "lower (trim (role_as_str r)) = role_as_str r"
  by (cases r; simp; code_simp)

lemma role_as_str_inj: "role_as_str r = role_as_str q \<Longrightarrow> r = q"
  by (cases r; cases q) auto

lemma role_parse_iff: "role_parse s = Some r \<longleftrightarrow> lower (trim s) = role_as_str r"
  by (cases r) (auto simp: role_parse_def Let_def)

section \<open>Random credentials\<close>

definition hex_digits :: string where
  "hex_digits = ''0123456789abcdef''"

definition hex_byte :: "8 word \<Rightarrow> string" where
  "hex_byte b = [hex_digits ! unat (drop_bit 4 b), hex_digits ! unat (b AND 0x0f)]"

definition hex_encode :: "8 word list \<Rightarrow> string" where
  "hex_encode bytes = concat (map hex_byte bytes)"

lemma hex_digits_distinct: "distinct hex_digits" "length hex_digits = 16"
  by (simp_all add: hex_digits_def)

lemma unat_high_nibble: "unat (drop_bit 4 w) = unat w div 16" for w :: "8 word"
  by (simp only: unat_drop_bit_eq drop_bit_eq_div) (simp add: unat_div_distrib)

lemma unat_low_nibble: "unat (w AND 0x0f) = unat w mod 16" for w :: "8 word"
proof -
  have "(0x0f :: 8 word) = mask 4" by (simp add: mask_numeral)
  then have "w AND 0x0f = w mod 16"
    by (simp only: take_bit_eq_mask[symmetric] take_bit_eq_mod) simp
  then show ?thesis by (simp add: unat_mod)
qed

lemma hex_byte_inj: "hex_byte b = hex_byte c \<Longrightarrow> b = c"
proof -
  assume eq: "hex_byte b = hex_byte c"
  have bound: "unat w div 16 < 16" for w :: "8 word"
    using unsigned_less[where ?'a = nat, of w] by simp
  have "unat b div 16 = unat c div 16" "unat b mod 16 = unat c mod 16"
    using eq bound hex_digits_distinct
    by (auto simp: hex_byte_def unat_high_nibble unat_low_nibble nth_eq_iff_index_eq)
  then have "unat b = unat c" by (metis div_mult_mod_eq)
  then show "b = c" by (simp add: word_eq_iff_unsigned [where ?'a = nat])
qed

lemma length_hex_encode [simp]: "length (hex_encode bs) = 2 * length bs"
  by (induction bs) (auto simp: hex_encode_def hex_byte_def)

lemma hex_encode_inj: "hex_encode bs = hex_encode cs \<Longrightarrow> bs = cs"
proof (induction bs arbitrary: cs)
  case Nil
  then show ?case by (cases cs) (auto simp: hex_encode_def hex_byte_def)
next
  case (Cons b bs)
  then obtain c cs' where cs: "cs = c # cs'"
    by (cases cs) (auto simp: hex_encode_def hex_byte_def)
  have "hex_byte b = hex_byte c \<and> hex_encode bs = hex_encode cs'"
    using Cons.prems unfolding cs hex_encode_def hex_byte_def by simp
  then show ?case using Cons.IH hex_byte_inj cs by blast
qed

text \<open>\<open>random_bytes\<close> fills 32 bytes: the argument is what the generator delivered.\<close>

definition new_session_id :: "8 word list \<Rightarrow> string" where
  "new_session_id random_bytes = hex_encode random_bytes"

definition new_token :: "8 word list \<Rightarrow> string" where
  "new_token random_bytes = ''kro_'' @ hex_encode random_bytes"

definition pw_alphabet :: string where
  "pw_alphabet = ''ABCDEFGHIJKLMNOPQRSTUVWXYZabcdefghijklmnopqrstuvwxyz0123456789''"

definition reject_at :: "8 word" where
  "reject_at = 248"

definition pw_char :: "8 word \<Rightarrow> char" where
  "pw_char b = pw_alphabet ! unat (b mod 62)"

text \<open>The \<open>for\<close> over one buffer, with its \<open>break\<close> once 24 characters are out.\<close>

fun pw_buffer :: "8 word list \<Rightarrow> string \<Rightarrow> string" where
  "pw_buffer [] out = out"
| "pw_buffer (b # bs) out =
    (if b < reject_at
     then (let out' = out @ [pw_char b] in if length out' = 24 then out' else pw_buffer bs out')
     else pw_buffer bs out)"

text \<open>The \<open>while\<close> draws one buffer per turn; it ends only if the generator delivers
  enough bytes below 248, so a turn budget stands for the number of draws made.\<close>

fun pw_loop :: "nat \<Rightarrow> (nat \<Rightarrow> 8 word list) \<Rightarrow> nat \<Rightarrow> string \<Rightarrow> string option" where
  "pw_loop fuel fill i out =
    (if length out < 24
     then (case fuel of 0 \<Rightarrow> None | Suc f \<Rightarrow> pw_loop f fill (Suc i) (pw_buffer (fill i) out))
     else Some out)"

declare pw_loop.simps [simp del]

definition new_password :: "nat \<Rightarrow> (nat \<Rightarrow> 8 word list) \<Rightarrow> string option" where
  "new_password fuel fill = pw_loop fuel fill 0 []"

definition usable :: "8 word list \<Rightarrow> 8 word list" where
  "usable bs = filter (\<lambda>b. b < reject_at) bs"

lemma pw_buffer_eq: "length out < 24 \<Longrightarrow>
    pw_buffer bs out = out @ take (24 - length out) (map pw_char (usable bs))"
proof (induction bs out rule: pw_buffer.induct)
  case (2 b bs out)
  show ?case
  proof (cases "b < reject_at \<and> length out + 1 < 24")
    case True
    then have "24 - length out = Suc (24 - length (out @ [pw_char b]))" by auto
    then show ?thesis using 2 True by (simp add: usable_def Let_def)
  next
    case False
    then show ?thesis
    proof (cases "b < reject_at")
      case True
      then have "length out = 23" using False 2(3) by simp
      then show ?thesis using True by (simp add: usable_def Let_def)
    qed (use 2 in \<open>simp add: usable_def\<close>)
  qed
qed (simp add: usable_def)

text \<open>All bytes the generator delivers in draws \<open>i\<close> to \<open>i + n - 1\<close>.\<close>

fun drawn :: "nat \<Rightarrow> (nat \<Rightarrow> 8 word list) \<Rightarrow> nat \<Rightarrow> 8 word list" where
  "drawn 0 fill i = []"
| "drawn (Suc n) fill i = fill i @ drawn n fill (Suc i)"

lemma pw_loop_eq:
  assumes "length out < 24" "24 \<le> length out + length (usable (drawn n fill i))"
  shows "pw_loop n fill i out = Some (out @ take (24 - length out) (map pw_char (usable (drawn n fill i))))"
  using assms
proof (induction n arbitrary: i out)
  case (Suc n)
  let ?u = "map pw_char (usable (fill i))"
  have step: "pw_loop (Suc n) fill i out = pw_loop n fill (Suc i) (out @ take (24 - length out) ?u)"
    using Suc.prems(1) by (subst pw_loop.simps) (simp add: pw_buffer_eq)
  show ?case
  proof (cases "24 \<le> length out + length ?u")
    case True
    then show ?thesis
      using step Suc.prems(1) by (subst (asm) (2) pw_loop.simps) (simp add: usable_def)
  next
    case False
    then have "take (24 - length out) ?u = ?u" by simp
    then show ?thesis
      using step False Suc.IH[of "out @ ?u" "Suc i"] Suc.prems
      by (simp add: usable_def algebra_simps)
  qed
qed (simp add: usable_def)

lemma pw_char_alnum: "pw_char b \<in> set pw_alphabet"
proof -
  have "unat (b mod 62) < 62" by (simp add: unat_mod)
  then show ?thesis unfolding pw_char_def by (intro nth_mem) (simp add: pw_alphabet_def)
qed

section \<open>Comparison\<close>

text \<open>Byte-wise equality on equal lengths; unequal lengths are unequal whatever the
  digests say (the digest comparison's result is discarded).\<close>

definition constant_time_eq :: "string \<Rightarrow> string \<Rightarrow> bool" where
  "constant_time_eq a b = (if length a = length b then list_all2 (=) a b else False)"

lemma constant_time_eq_iff [simp]: "constant_time_eq a b \<longleftrightarrow> a = b"
  by (auto simp: constant_time_eq_def list.rel_eq)

section \<open>Properties\<close>

text \<open>A text parses to a role exactly if, trimmed and in lower case, it is that role's
  canonical name; the canonical name of every role parses to it, and a text that names no role
  is rejected.\<close>

theorem role_parse_roundtrip:
  "(role_parse s = Some r \<longleftrightarrow> lower (trim s) = role_as_str r) \<and>
   role_parse (role_as_str r) = Some r \<and>
   (role_parse s = None \<longleftrightarrow> lower (trim s) \<notin> range role_as_str)"
proof -
  have "role_parse s = None \<longleftrightarrow> (\<forall>q. role_parse s \<noteq> Some q)" by (cases "role_parse s") auto
  then show ?thesis by (auto simp: role_parse_iff)
qed

text \<open>Password generation returns once the draws hold 24 bytes below the rejection bound:
  the result is what the first 24 of them spell, 24 characters of the alphabet.\<close>

theorem new_password_terminates:
  assumes "24 \<le> length (usable (drawn n fill 0))"
  shows "new_password n fill = Some (take 24 (map pw_char (usable (drawn n fill 0))))
    \<and> length (the (new_password n fill)) = 24 \<and> set (the (new_password n fill)) \<subseteq> set pw_alphabet"
proof -
  have "new_password n fill = Some (take 24 (map pw_char (usable (drawn n fill 0))))"
    using pw_loop_eq[of "[]" n fill 0] assms by (simp add: new_password_def)
  moreover have "set (take 24 (map pw_char bs)) \<subseteq> set pw_alphabet" for bs
    using pw_char_alnum by (fastforce dest!: in_set_takeD)
  ultimately show ?thesis using assms by simp
qed

theorem new_password_terminates_witness:
  "new_password 1 (\<lambda>_. replicate 32 0) = Some (replicate 24 (CHR ''A''))"
proof -
  have u: "usable (drawn 1 (\<lambda>_. replicate 32 (0 :: 8 word)) 0) = replicate 32 0"
    by (simp add: usable_def reject_at_def)
  have p: "pw_char 0 = CHR ''A''" by (simp add: pw_char_def pw_alphabet_def)
  show ?thesis
    using new_password_terminates[of 1 "\<lambda>_. replicate 32 0"] unfolding u by (simp add: p)
qed

end
