(* ===== verification/Approval_Tiers.thy ===== *)
theory Approval_Tiers
  imports Core_Types Autopilot Auth_Roles
begin

text \<open>
  Risk tiers and the T3 gate (\<open>tumult-ingest/src/approvals.rs\<close>) and the operator-owned
  execution bindings that decide whether a request's label may be believed at all
  (\<open>tumult-ingest/src/execution_policy.rs\<close>). The fingerprint of a resolved execution
  (canonical JSON and SHA-256) is a parameter, as are the user tables of the lake.
\<close>

section \<open>Tiers\<close>

datatype tier = T0 | T1 | T2 | T3

fun tier_as_str :: "tier \<Rightarrow> string" where
  "tier_as_str T0 = ''T0''"
| "tier_as_str T1 = ''T1''"
| "tier_as_str T2 = ''T2''"
| "tier_as_str T3 = ''T3''"

fun quorum_required :: "tier \<Rightarrow> nat" where
  "quorum_required T3 = 2"
| "quorum_required _ = 1"

definition hour_ns :: int where
  "hour_ns = 3600000000000"

fun ttl_ns :: "tier \<Rightarrow> int" where
  "ttl_ns T1 = 72 * hour_ns"
| "ttl_ns T2 = 24 * hour_ns"
| "ttl_ns T3 = 4 * hour_ns"
| "ttl_ns T0 = 0"

fun tier_rank :: "tier \<Rightarrow> nat" where
  "tier_rank T0 = 0"
| "tier_rank T1 = 1"
| "tier_rank T2 = 2"
| "tier_rank T3 = 3"

lemma tier_rank_inj [simp]: "tier_rank t = tier_rank u \<longleftrightarrow> t = u"
  by (cases t; cases u) auto

instantiation tier :: linorder
begin

definition less_eq_tier :: "tier \<Rightarrow> tier \<Rightarrow> bool" where
  "t \<le> u \<longleftrightarrow> tier_rank t \<le> tier_rank u"

definition less_tier :: "tier \<Rightarrow> tier \<Rightarrow> bool" where
  "t < u \<longleftrightarrow> tier_rank t < tier_rank u"

instance
  by standard (auto simp: less_eq_tier_def less_tier_def simp flip: tier_rank_inj)

end

lemma tier_order_simps [simp]:
  "T0 \<le> t" "t \<le> T3" "T1 \<le> t \<longleftrightarrow> t \<noteq> T0" "T3 \<le> t \<longleftrightarrow> t = T3" "t \<le> T0 \<longleftrightarrow> t = T0"
  by (cases t; simp add: less_eq_tier_def)+

section \<open>Environment classes\<close>

datatype env_class = Production | Staging | OtherEnv

definition production_words :: "string list" where
  "production_words = [''prod'', ''production'', ''live'']"

definition staging_words :: "string list" where
  "staging_words = [''staging'', ''stage'', ''stg'', ''preprod'', ''pre-prod'', ''uat'']"

definition matches_class_word :: "string \<Rightarrow> string \<Rightarrow> bool" where
  "matches_class_word env word \<longleftrightarrow> env = word \<or>
    (case strip_prefix word env of None \<Rightarrow> False
     | Some rest \<Rightarrow> starts_with rest ''-'' \<or> starts_with rest ''_'' \<or> starts_with rest ''.'')"

definition env_class_of :: "string \<Rightarrow> env_class" where
  "env_class_of env = (let e = lower (trim env) in
     if list_ex (matches_class_word e) production_words then Production
     else if list_ex (matches_class_word e) staging_words then Staging
     else OtherEnv)"

section \<open>Introspection of a definition\<close>

definition destructive_fragments :: "string list" where
  "destructive_fragments =
    [''kill'', ''terminate'', ''delete'', ''destroy'', ''corrupt'', ''drop'', ''purge'', ''wipe'']"

record introspection =
  in_probe_only :: bool
  in_has_rollback :: bool
  in_has_guard :: bool
  in_has_steady_state :: bool
  in_fault_count :: nat
  in_fault_kinds :: nat
  in_destructive :: bool
  in_first_fault :: "(string \<times> string) option"

fun fault_owner :: "provider \<Rightarrow> string \<times> string" where
  "fault_owner (Native plugin fn _) = (plugin, fn)"
| "fault_owner (Script plugin fn _ _) = (plugin, fn)"
| "fault_owner (Process path _ _ _) = (path, [])"

definition fault_kind :: "activity \<Rightarrow> string" where
  "fault_kind a = (case fault_owner (act_provider a) of (own, fn) \<Rightarrow> own @ ''/'' @ fn)"

definition fault_haystack :: "activity \<Rightarrow> string" where
  "fault_haystack a = (case fault_owner (act_provider a) of (own, fn) \<Rightarrow>
     lower (act_name a @ '' '' @ own @ '' '' @ fn))"

text \<open>The loop over the actions: the kinds seen so far in order, whether a destructive
  name was met, and the first fault.\<close>

fun introspect_loop ::
    "activity list \<Rightarrow> string list \<times> bool \<times> (string \<times> string) option \<Rightarrow> string list \<times> bool \<times> (string \<times> string) option" where
  "introspect_loop [] acc = acc"
| "introspect_loop (a # as) (kinds, destructive, first) =
    introspect_loop as
      (if fault_kind a \<in> set kinds then kinds else kinds @ [fault_kind a],
       destructive \<or> list_ex (contains_str (fault_haystack a)) destructive_fragments,
       if first = None then Some (fault_owner (act_provider a)) else first)"

definition method_actions :: "chaos_experiment \<Rightarrow> activity list" where
  "method_actions e = filter (\<lambda>a. act_type a = Action) (exp_method e)"

definition introspect :: "chaos_experiment \<Rightarrow> introspection" where
  "introspect e = (let actions = method_actions e in
     case introspect_loop actions ([], False, None) of (kinds, destructive, first) \<Rightarrow>
     \<lparr> in_probe_only = (actions = []), in_has_rollback = (exp_rollbacks e \<noteq> []),
       in_has_guard = (exp_guards e \<noteq> []), in_has_steady_state = (exp_hypothesis e \<noteq> None),
       in_fault_count = length actions, in_fault_kinds = length kinds,
       in_destructive = destructive, in_first_fault = first \<rparr>)"

section \<open>Classification\<close>

record tier_input =
  ti_env :: string
  ti_catalog_matched :: bool
  ti_introspection :: introspection

definition classify :: "tier_input \<Rightarrow> tier" where
  "classify i = (let intro = ti_introspection i in
     if ti_catalog_matched i \<or> in_probe_only intro then T0
     else
       (let t = T1;
            t = (if env_class_of (ti_env i) = Production then max t T3 else t);
            t = (if 0 < in_fault_count intro \<and> \<not> in_has_rollback intro then max t T3 else t);
            t = (if 1 < in_fault_kinds intro then max t T3 else t);
            t = (if env_class_of (ti_env i) = Staging then max t T2 else t);
            t = (if in_destructive intro then max t T2 else t)
        in t))"

section \<open>The T3 gate\<close>

datatype gate_outcome = GateEnact string "(string \<times> bool) list" | GateVeto string
  | GateNotEnact string | GateUnavailable string

definition t3_candidate :: "string \<Rightarrow> introspection \<Rightarrow> string \<Rightarrow> string option \<Rightarrow> candidate" where
  "t3_candidate run_id intro env target =
    (let pa = (case in_first_fault intro of Some x \<Rightarrow> x | None \<Rightarrow> (''run'', ''run'')) in
     \<lparr> cand_id = run_id, cand_service_id = (case target of Some t \<Rightarrow> t | None \<Rightarrow> env),
       cand_tier = Some env, cand_plugin = fst pa, cand_action = snd pa,
       cand_article_id = ''run-approval'', cand_score = Fin 0,
       cand_reasons = [''operator-requested run''], cand_confidence = High, cand_playbook = None,
       cand_has_guard = in_has_guard intro, cand_has_rollback = in_has_rollback intro,
       cand_has_steady_state = in_has_steady_state intro, cand_fault_count = in_fault_count intro,
       cand_trigger = Manual \<rparr>)"

definition evaluate_t3_gate ::
    "loaded_policy option \<Rightarrow> string \<Rightarrow> introspection \<Rightarrow> string \<Rightarrow> string option \<Rightarrow> ambient_context \<Rightarrow> gate_outcome" where
  "evaluate_t3_gate policy run_id intro env target amb =
    (case policy of
       None \<Rightarrow> GateUnavailable ''no autopilot policy configured (KRONIKA_AUTOPILOT_POLICY)''
     | Some lp \<Rightarrow>
         (let c = t3_candidate run_id intro env target;
              decision = gate_evaluate (lp_policy lp) c amb None (validate_candidate c)
          in case gd_verdict decision of
               Enact \<Rightarrow> GateEnact (lp_hash lp) (gd_rules decision)
             | Veto r \<Rightarrow> GateVeto r
             | Downgrade _ \<Rightarrow> GateNotEnact ''downgrade''
             | Propose _ \<Rightarrow> GateNotEnact ''propose''))"

section \<open>Execution bindings\<close>

record binding =
  bind_sha256 :: string
  bind_env :: string
  bind_target :: "string option"

datatype policy_refusal =
    EnvRequired | CannotFingerprint | NotBound | BindingsUnreadable | BindingsInvalid
  | CannotAuthorizeOwner | NoOwner | OwnerGone | OwnerNotOperator | OwnerOutOfScope

definition classify_bound ::
    "(chaos_experiment \<Rightarrow> (string \<rightharpoonup> string) \<Rightarrow> (policy_refusal, string) result) \<Rightarrow>
     chaos_experiment \<Rightarrow> (string \<rightharpoonup> string) \<Rightarrow> string \<Rightarrow> string option \<Rightarrow> bool \<Rightarrow> binding list \<Rightarrow>
     (policy_refusal, tier) result" where
  "classify_bound execution_hash e injected env target require_binding bindings =
    (if trim env = [] then Inl EnvRequired
     else res_bind (execution_hash e injected) (\<lambda>hash.
       let bound = list_ex (\<lambda>b. bind_sha256 b = hash \<and> bind_env b = env \<and> bind_target b = target) bindings
       in if \<not> bound \<and> (require_binding \<or> list_ex (\<lambda>b. bind_sha256 b = hash) bindings) then Inl NotBound
          else if \<not> bound then Inr T3
          else Inr (classify \<lparr> ti_env = env, ti_catalog_matched = False, ti_introspection = introspect e \<rparr>)))"

text \<open>Where the bindings come from: the variable, else the file beside the database. A
  file read is \<open>None\<close> when the file does not exist.\<close>

definition load_bindings ::
    "string option \<Rightarrow> (string \<Rightarrow> (unit, string) result option) \<Rightarrow> string \<Rightarrow>
     (string \<Rightarrow> (unit, binding list) result) \<Rightarrow> (policy_refusal, binding list) result" where
  "load_bindings env_var read_file default_path parse =
    (let parse' = (\<lambda>raw. case parse raw of Inl _ \<Rightarrow> Inl BindingsInvalid | Inr bs \<Rightarrow> Inr bs)
     in case (case env_var of Some p \<Rightarrow> if trim p \<noteq> [] then Some p else None | None \<Rightarrow> None) of
          Some p \<Rightarrow> (case read_file p of Some (Inr raw) \<Rightarrow> parse' raw | _ \<Rightarrow> Inl BindingsUnreadable)
        | None \<Rightarrow> (case read_file default_path of
              None \<Rightarrow> Inr []
            | Some (Inr raw) \<Rightarrow> parse' raw
            | Some (Inl _) \<Rightarrow> Inl BindingsUnreadable))"

definition classify_execution ::
    "(chaos_experiment \<Rightarrow> (string \<rightharpoonup> string) \<Rightarrow> (policy_refusal, string) result) \<Rightarrow>
     (policy_refusal, binding list) result \<Rightarrow>
     chaos_experiment \<Rightarrow> (string \<rightharpoonup> string) \<Rightarrow> string \<Rightarrow> string option \<Rightarrow> bool \<Rightarrow> (policy_refusal, tier) result" where
  "classify_execution execution_hash loaded e injected env target require_binding =
    res_bind loaded (\<lambda>bindings. classify_bound execution_hash e injected env target require_binding bindings)"

text \<open>What the lake answers about users; \<open>None\<close> at the outer level is a failed read.\<close>

record user_row =
  user_id :: string
  user_role :: string
  user_disabled :: bool

record auth_lake =
  lake_opens :: bool
  lake_real_users :: "bool option"
  lake_user :: "string \<Rightarrow> user_row option option"
  lake_scopes :: "string \<Rightarrow> string list option"

definition actor_requires_binding ::
    "auth_lake \<Rightarrow> string option \<Rightarrow> string \<Rightarrow> (policy_refusal, bool) result" where
  "actor_requires_binding lake actor env =
    (if \<not> lake_opens lake then Inl CannotAuthorizeOwner
     else case lake_real_users lake of
       None \<Rightarrow> Inl CannotAuthorizeOwner
     | Some False \<Rightarrow> Inr False
     | Some True \<Rightarrow> (case actor of
         None \<Rightarrow> Inl NoOwner
       | Some a \<Rightarrow> (case lake_user lake a of
           None \<Rightarrow> Inl CannotAuthorizeOwner
         | Some None \<Rightarrow> Inl OwnerGone
         | Some (Some u) \<Rightarrow>
             if user_disabled u \<or> (case role_parse (user_role u) of None \<Rightarrow> True | Some r \<Rightarrow> r < Operator)
             then Inl OwnerNotOperator
             else (case lake_scopes lake (user_id u) of
                 None \<Rightarrow> Inl CannotAuthorizeOwner
               | Some scopes \<Rightarrow>
                   if scopes \<noteq> [] \<and> env \<notin> set scopes then Inl OwnerOutOfScope
                   else Inr (scopes \<noteq> [])))))"

section \<open>Facts about introspection\<close>

lemma introspect_loop_eq:
  "introspect_loop as (kinds, d, first) = (ks, d', first') \<Longrightarrow> distinct kinds \<Longrightarrow>
    distinct ks \<and> set ks = set kinds \<union> fault_kind ` set as
    \<and> d' = (d \<or> (\<exists>a \<in> set as. \<exists>f \<in> set destructive_fragments. contains_str (fault_haystack a) f))
    \<and> (first' = None \<longleftrightarrow> first = None \<and> as = [])"
proof (induction as arbitrary: kinds d first)
  case (Cons a as)
  show ?case
    using Cons.IH[OF Cons.prems(1)[unfolded introspect_loop.simps]] Cons.prems(2)
    by (auto simp: list_ex_iff split: if_splits)
qed auto

lemma introspect_eq:
  shows "in_probe_only (introspect e) = (method_actions e = [])"
    and "in_fault_count (introspect e) = length (method_actions e)"
    and "in_fault_kinds (introspect e) = card (fault_kind ` set (method_actions e))"
    and "in_destructive (introspect e) =
      (\<exists>a \<in> set (method_actions e). \<exists>f \<in> set destructive_fragments. contains_str (fault_haystack a) f)"
    and "in_has_rollback (introspect e) = (exp_rollbacks e \<noteq> [])"
    and "(in_first_fault (introspect e) = None) = (method_actions e = [])"
proof -
  obtain ks d f where l: "introspect_loop (method_actions e) ([], False, None) = (ks, d, f)"
    by (metis prod_cases3)
  note q = introspect_loop_eq[OF l]
  show "in_probe_only (introspect e) = (method_actions e = [])"
    "in_fault_count (introspect e) = length (method_actions e)"
    "in_has_rollback (introspect e) = (exp_rollbacks e \<noteq> [])"
    by (simp_all add: introspect_def Let_def l)
  show "in_fault_kinds (introspect e) = card (fault_kind ` set (method_actions e))"
    using q by (simp add: introspect_def Let_def l) (metis distinct_card)
  show "in_destructive (introspect e) =
      (\<exists>a \<in> set (method_actions e). \<exists>f \<in> set destructive_fragments. contains_str (fault_haystack a) f)"
    "(in_first_fault (introspect e) = None) = (method_actions e = [])"
    using q by (simp_all add: introspect_def Let_def l)
qed

section \<open>Properties of classification\<close>

lemma classify_cases:
  "classify i = (let intro = ti_introspection i in
     if ti_catalog_matched i \<or> in_probe_only intro then T0
     else if env_class_of (ti_env i) = Production \<or> 0 < in_fault_count intro \<and> \<not> in_has_rollback intro
       \<or> 1 < in_fault_kinds intro then T3
     else if env_class_of (ti_env i) = Staging \<or> in_destructive intro then T2 else T1)"
  by (auto simp: classify_def Let_def max_def less_eq_tier_def)

text \<open>The tier of a run is the highest one any rule of the table asks for: nothing but a
  catalogued hash or a probe-only definition is T0; production, faults without a rollback and
  several kinds of fault are T3; staging and destructive names are T2; the rest is T1. Read on
  the definition itself: kinds are the distinct owner and function pairs of its actions.\<close>

theorem classify_experiment:
  "classify \<lparr> ti_env = env, ti_catalog_matched = cat, ti_introspection = introspect e \<rparr> =
    (if cat \<or> method_actions e = [] then T0
     else if env_class_of env = Production \<or> exp_rollbacks e = []
       \<or> 1 < card (fault_kind ` set (method_actions e)) then T3
     else if env_class_of env = Staging
       \<or> (\<exists>a \<in> set (method_actions e). \<exists>f \<in> set destructive_fragments. contains_str (fault_haystack a) f) then T2
     else T1)"
  by (auto simp: classify_cases introspect_eq Let_def)

text \<open>A label never lowers the risk of a fault: an execution classified below T3 has an
  operator's binding of exactly its fingerprint, environment and target, one classified T0
  (which dispatches without approval) has moreover no action at all, and a principal who needs
  a binding is refused without it.\<close>

theorem classify_bound_trusts_only_bindings:
  assumes "classify_bound h e injected env target require_binding bindings = Inr t"
  shows "trim env \<noteq> []
    \<and> (t = T3 \<or> (\<exists>b. b \<in> set bindings \<and> h e injected = Inr (bind_sha256 b) \<and> bind_env b = env \<and> bind_target b = target))
    \<and> (t = T0 \<longrightarrow> (\<forall>a \<in> set (exp_method e). act_type a = Probe))
    \<and> (require_binding \<longrightarrow> (\<exists>b. b \<in> set bindings \<and> h e injected = Inr (bind_sha256 b) \<and> bind_env b = env \<and> bind_target b = target))"
proof -
  have no_action: "method_actions e = [] \<Longrightarrow> \<forall>a \<in> set (exp_method e). act_type a = Probe"
    by (auto simp: method_actions_def filter_empty_conv) (metis activity_type.exhaust)
  have T0: "classify \<lparr> ti_env = env, ti_catalog_matched = False, ti_introspection = introspect e \<rparr> = T0 \<Longrightarrow>
      method_actions e = []"
    by (simp add: classify_cases introspect_eq Let_def split: if_splits)
  show ?thesis
    using assms no_action T0
    by (auto simp: classify_bound_def Let_def list_ex_iff split: if_splits)
qed

text \<open>A definition with one reversible fault, and its binding.\<close>

definition sleep_experiment :: chaos_experiment where
  "sleep_experiment = experiment_default \<lparr> exp_method := [activity_default], exp_rollbacks := [activity_default] \<rparr>"

definition hash_title :: "chaos_experiment \<Rightarrow> (string \<rightharpoonup> string) \<Rightarrow> (policy_refusal, string) result" where
  "hash_title e injected = Inr (exp_version e)"

lemma sleep_bound:
  "classify_bound hash_title sleep_experiment Map.empty ''dev'' None True
     [\<lparr> bind_sha256 = ''v1'', bind_env = ''dev'', bind_target = None \<rparr>] = Inr T1"
proof -
  have ws: "trim ''dev'' = ''dev''" by code_simp
  have env: "env_class_of ''dev'' = OtherEnv" by code_simp
  have acts: "method_actions sleep_experiment = [activity_default]"
    by (simp add: method_actions_def sleep_experiment_def activity_default_def)
  have hay: "fault_haystack activity_default = '' echo ''" by code_simp
  have nd: "list_ex (contains_str '' echo '') destructive_fragments = False" by code_simp
  have "exp_rollbacks sleep_experiment \<noteq> []" "exp_version sleep_experiment = ''v1''"
    by (simp_all add: sleep_experiment_def experiment_default_def)
  then show ?thesis
    using nd by (simp add: classify_bound_def Let_def ws hash_title_def classify_cases introspect_eq acts env hay list_ex_iff)
qed

theorem classify_bound_trusts_only_bindings_witness:
  "trim ''dev'' \<noteq> [] \<and> (\<exists>b. b \<in> set [\<lparr> bind_sha256 = ''v1'', bind_env = ''dev'', bind_target = None \<rparr>] \<and>
     hash_title sleep_experiment Map.empty = Inr (bind_sha256 b) \<and> bind_env b = ''dev'' \<and> bind_target b = None)"
  using classify_bound_trusts_only_bindings[OF sleep_bound] by blast

section \<open>The T3 gate refuses\<close>

lemma t3_candidate_blocked: "cand_playbook (t3_candidate run_id intro env target) = None"
  by (simp add: t3_candidate_def Let_def)

text \<open>The candidate built for an approval names no playbook, so the gate never enacts a T3
  run: without a policy it is unavailable, with one it vetoes or answers with a proposal. A T3
  run is dispatched through break-glass or not at all.\<close>

theorem t3_gate_never_enacts:
  "evaluate_t3_gate policy run_id intro env target amb =
    (case policy of
       None \<Rightarrow> GateUnavailable ''no autopilot policy configured (KRONIKA_AUTOPILOT_POLICY)''
     | Some lp \<Rightarrow>
         (case find (\<lambda>r. \<not> rule_passed r) (veto_rules (lp_policy lp) (t3_candidate run_id intro env target) amb
                 (validate_candidate (t3_candidate run_id intro env target))) of
            Some r \<Rightarrow> GateVeto (rule_id r)
          | None \<Rightarrow> GateNotEnact ''propose''))"
proof (cases policy)
  case (Some lp)
  let ?c = "t3_candidate run_id intro env target"
  have b: "vr_blockers (validate_candidate ?c) \<noteq> []"
    by (simp add: validate_candidate_def Let_def t3_candidate_blocked)
  show ?thesis
    by (simp add: Some evaluate_t3_gate_def Let_def gate_evaluate_def b split: option.split)
qed (simp add: evaluate_t3_gate_def)

lemma t3_gate_not_enact: "evaluate_t3_gate policy run_id intro env target amb \<noteq> GateEnact h rs"
proof (cases policy)
  case (Some lp)
  show ?thesis
    using autopilot_gate.refused[OF t3_candidate_blocked, of "lp_policy lp" run_id intro env target amb]
    by (auto simp: Some evaluate_t3_gate_def Let_def autopilot_verdict_def)
qed (simp add: evaluate_t3_gate_def)

section \<open>Ownership of recurring executions\<close>

text \<open>A recurring execution may run only for an owner who exists, is enabled, still holds at
  least the operator role and has the environment in scope; it needs a binding exactly when the
  owner is scoped; only an installation without real users runs without an owner.\<close>

theorem actor_requires_binding_iff:
  "actor_requires_binding lake actor env = Inr b \<longleftrightarrow>
    lake_opens lake \<and>
    (lake_real_users lake = Some False \<and> \<not> b \<or>
     lake_real_users lake = Some True \<and>
     (\<exists>a u r scopes. actor = Some a \<and> lake_user lake a = Some (Some u) \<and> \<not> user_disabled u
        \<and> role_parse (user_role u) = Some r \<and> Operator \<le> r
        \<and> lake_scopes lake (user_id u) = Some scopes \<and> (scopes = [] \<or> env \<in> set scopes) \<and> b = (scopes \<noteq> [])))"
  by (auto simp: actor_requires_binding_def not_less split: option.splits bool.splits if_splits)

end
