(* ===== verification/Experiment_Engine.thy ===== *)
theory Experiment_Engine
  imports Core_Types "HOL-Library.List_Lexorder" "HOL-Library.Char_ord"
begin

text \<open>
  \<open>tumult-core/src/engine\<close>: resolution of configuration values and secrets
  (\<open>config.rs\<close>), substitution of template variables (\<open>template.rs\<close>) and static
  validation of an experiment (\<open>validation.rs\<close>), with their errors (\<open>error.rs\<close>).

  Parameters: the process environment and the file system (\<open>host\<close>), the TOON
  encoder, decoder and string escape (\<open>codec\<close>), the regular-expression engine. Keys
  and texts are strings of ASCII characters, ordered as Rust orders strings.
\<close>

section \<open>Errors\<close>

datatype engine_error =
    EmptyMethod
  | ConfigResolutionFailed string string
  | SecretResolutionFailed string string string
  | SecretFileNotFound string string string
  | ParseError string
  | InvalidRegex string string
  | InvalidToleranceBounds string f64 f64
  | EmptyHypothesisProbes string
  | UnsupportedVersion string
  | GuardMissingTolerance string
  | GuardInvalidMinBreaches string
  | InvalidMaxConcurrentFaults
  | UndefinedVars string
  | InvalidScriptProvider string string

text \<open>The rendered message; \<open>show_f64\<close> is how a float is printed.\<close>

fun engine_error_text :: "(f64 \<Rightarrow> string) \<Rightarrow> engine_error \<Rightarrow> string" where
  "engine_error_text sf EmptyMethod = ''experiment has no method steps''"
| "engine_error_text sf (ConfigResolutionFailed k e) =
    ''configuration key '' @ [CHR 0x27] @ k @ [CHR 0x27] @ '' references env var '' @ [CHR 0x27] @ e @ [CHR 0x27] @ '' which is not set''"
| "engine_error_text sf (SecretResolutionFailed g k e) =
    ''secret '' @ [CHR 0x27] @ g @ ''.'' @ k @ [CHR 0x27] @ '' references env var '' @ [CHR 0x27] @ e @ [CHR 0x27] @ '' which is not set''"
| "engine_error_text sf (SecretFileNotFound g k p) =
    ''secret '' @ [CHR 0x27] @ g @ ''.'' @ k @ [CHR 0x27] @ '' references file '' @ [CHR 0x27] @ p @ [CHR 0x27] @ '' which does not exist''"
| "engine_error_text sf (ParseError e) = ''experiment file parse error: '' @ e"
| "engine_error_text sf (InvalidRegex a p) =
    ''invalid regex pattern in activity '' @ [CHR 0x27] @ a @ [CHR 0x27] @ '': '' @ p"
| "engine_error_text sf (InvalidToleranceBounds a lo hi) =
    ''invalid tolerance range in activity '' @ [CHR 0x27] @ a @ [CHR 0x27] @ '': lower ('' @ sf lo @ '') must be <= upper ('' @ sf hi @ '')''"
| "engine_error_text sf (EmptyHypothesisProbes t) =
    ''hypothesis '' @ [CHR 0x27] @ t @ [CHR 0x27] @ '' has no probes defined''"
| "engine_error_text sf (UnsupportedVersion v) =
    ''unsupported experiment version '' @ [CHR 0x27] @ v @ [CHR 0x27] @ '' (supported: v1)''"
| "engine_error_text sf (GuardMissingTolerance g) =
    ''guard '' @ [CHR 0x27] @ g @ [CHR 0x27] @ '' has no tolerance; a guard''  @ [CHR 0x27]
      @ ''s tolerance defines the safe condition (breach '' @ [CHR 0xE2, CHR 0x87, CHR 0x92] @ '' halt)''"
| "engine_error_text sf (GuardInvalidMinBreaches g) =
    ''guard '' @ [CHR 0x27] @ g @ [CHR 0x27] @ '' has min_breaches = 0; it must be at least 1''"
| "engine_error_text sf InvalidMaxConcurrentFaults =
    ''max_concurrent_faults must be at least 1 when set (0 would block every background activity forever)''"
| "engine_error_text sf (UndefinedVars n) = ''experiment template references undefined variables: '' @ n"
| "engine_error_text sf (InvalidScriptProvider a r) =
    ''invalid script provider in activity '' @ [CHR 0x27] @ a @ [CHR 0x27] @ '': '' @ r"

section \<open>Configuration and secrets\<close>

type_synonym vars = "string \<rightharpoonup> string"

record host =
  host_env :: "string \<Rightarrow> string option"
  host_exists :: "string \<Rightarrow> bool"
  host_read :: "string \<Rightarrow> string option"

fun resolve_config_loop :: "host \<Rightarrow> (string \<times> config_value) list \<Rightarrow> vars \<Rightarrow> (engine_error, vars) result" where
  "resolve_config_loop H [] resolved = Inr resolved"
| "resolve_config_loop H ((key, ConfigEnv env_key) # rest) resolved =
    (case host_env H env_key of
       None \<Rightarrow> Inl (ConfigResolutionFailed key env_key)
     | Some v \<Rightarrow> resolve_config_loop H rest (resolved(key \<mapsto> v)))"
| "resolve_config_loop H ((key, ConfigInline v) # rest) resolved = resolve_config_loop H rest (resolved(key \<mapsto> v))"

definition resolve_config :: "host \<Rightarrow> (string \<times> config_value) list \<Rightarrow> (engine_error, vars) result" where
  "resolve_config H config = resolve_config_loop H config Map.empty"

fun resolve_secret :: "host \<Rightarrow> string \<Rightarrow> string \<Rightarrow> secret_value \<Rightarrow> (engine_error, string) result" where
  "resolve_secret H grp key (SecretEnv env_key) =
    (case host_env H env_key of None \<Rightarrow> Inl (SecretResolutionFailed grp key env_key) | Some v \<Rightarrow> Inr v)"
| "resolve_secret H grp key (SecretFile path) =
    (if \<not> host_exists H path then Inl (SecretFileNotFound grp key path)
     else (case host_read H path of None \<Rightarrow> Inl (SecretFileNotFound grp key path) | Some v \<Rightarrow> Inr v))"

fun resolve_group :: "host \<Rightarrow> string \<Rightarrow> (string \<times> secret_value) list \<Rightarrow> vars \<Rightarrow> (engine_error, vars) result" where
  "resolve_group H grp [] acc = Inr acc"
| "resolve_group H grp ((key, v) # rest) acc =
    res_bind (resolve_secret H grp key v) (\<lambda>x. resolve_group H grp rest (acc(key \<mapsto> x)))"

fun resolve_secrets_loop ::
    "host \<Rightarrow> (string \<times> (string \<times> secret_value) list) list \<Rightarrow> (string \<rightharpoonup> vars) \<Rightarrow> (engine_error, string \<rightharpoonup> vars) result" where
  "resolve_secrets_loop H [] acc = Inr acc"
| "resolve_secrets_loop H ((grp, vs) # rest) acc =
    res_bind (resolve_group H grp vs Map.empty) (\<lambda>g. resolve_secrets_loop H rest (acc(grp \<mapsto> g)))"

definition resolve_secrets ::
    "host \<Rightarrow> (string \<times> (string \<times> secret_value) list) list \<Rightarrow> (engine_error, string \<rightharpoonup> vars) result" where
  "resolve_secrets H secrets = resolve_secrets_loop H secrets Map.empty"

text \<open>\<open>flatten_secrets\<close> walks a hash map of hash maps, in an order the program does
  not fix: \<open>ks\<close> is the order in which the pairs of group and key come out.\<close>

definition flatten_secrets :: "(string \<times> string) list \<Rightarrow> (string \<rightharpoonup> vars) \<Rightarrow> vars" where
  "flatten_secrets ks secrets = foldl (\<lambda>flat (grp, key).
     (case secrets grp of None \<Rightarrow> flat
      | Some g \<Rightarrow> (case g key of None \<Rightarrow> flat | Some v \<Rightarrow> flat(grp @ ''.'' @ key \<mapsto> v)))) Map.empty ks"

section \<open>Environment variables for provider processes\<close>

definition is_ascii_alpha :: "char \<Rightarrow> bool" where
  "is_ascii_alpha c = (let n = (of_char c :: nat) in (65 \<le> n \<and> n \<le> 90) \<or> (97 \<le> n \<and> n \<le> 122))"

definition is_ascii_digit :: "char \<Rightarrow> bool" where
  "is_ascii_digit c = (let n = (of_char c :: nat) in 48 \<le> n \<and> n \<le> 57)"

fun is_valid_env_identifier :: "string \<Rightarrow> bool" where
  "is_valid_env_identifier [] = False"
| "is_valid_env_identifier (c # cs) =
    ((is_ascii_alpha c \<or> c = CHR ''_'')
     \<and> list_all (\<lambda>d. is_ascii_alpha d \<or> is_ascii_digit d \<or> d = CHR ''_'') cs)"

definition env_name :: "char option \<Rightarrow> string \<Rightarrow> string" where
  "env_name separator key = (case separator of None \<Rightarrow> upper key
     | Some sep \<Rightarrow> map (\<lambda>c. if c = sep then CHR ''_'' else c) (upper key))"

fun prefixed_loop ::
    "vars \<Rightarrow> string \<Rightarrow> char option \<Rightarrow> string list \<Rightarrow> vars \<Rightarrow> string list \<Rightarrow> vars \<times> string list" where
  "prefixed_loop values pre sep [] env skipped = (env, skipped)"
| "prefixed_loop values pre sep (key # keys) env skipped =
    (let name = env_name sep key in
     if \<not> is_valid_env_identifier name then prefixed_loop values pre sep keys env (skipped @ [key])
     else if env (pre @ name) \<noteq> None then prefixed_loop values pre sep keys env (skipped @ [key])
     else prefixed_loop values pre sep keys (env(pre @ name := values key)) skipped)"

definition build_prefixed_env :: "vars \<Rightarrow> string \<Rightarrow> char option \<Rightarrow> vars \<times> string list" where
  "build_prefixed_env values pre sep =
    prefixed_loop values pre sep (sorted_list_of_set (dom values)) Map.empty []"

definition build_config_env :: "vars \<Rightarrow> vars \<times> string list" where
  "build_config_env config = build_prefixed_env config ''TUMULT_CONFIG_'' None"

definition build_secret_env :: "vars \<Rightarrow> vars \<times> string list" where
  "build_secret_env secrets = build_prefixed_env secrets ''TUMULT_SECRET_'' (Some CHR ''.'')"

section \<open>Template variables\<close>

definition lookup_var :: "vars \<Rightarrow> vars \<Rightarrow> vars \<Rightarrow> string \<Rightarrow> string option" where
  "lookup_var vs config secrets nm =
    (case vs nm of
       Some v \<Rightarrow> Some v
     | None \<Rightarrow> (case strip_prefix ''config.'' nm of
         Some key \<Rightarrow> config key
       | None \<Rightarrow> (case strip_prefix ''secrets.'' nm of Some key \<Rightarrow> secrets key | None \<Rightarrow> None)))"

text \<open>The inner loops read to the closing brace: what precedes it, whether it was
  there, and what follows.\<close>

fun to_brace :: "string \<Rightarrow> string \<times> bool \<times> string" where
  "to_brace [] = ([], False, [])"
| "to_brace (c # cs) = (if c = CHR ''}'' then ([], True, cs)
     else (case to_brace cs of (inner, shut, rest) \<Rightarrow> (c # inner, shut, rest)))"

lemma to_brace_length: "to_brace s = (inner, shut, rest) \<Longrightarrow> length rest \<le> length s"
  by (induction s arbitrary: inner shut rest) (auto split: if_splits prod.splits)

text \<open>The loop of \<open>substitute_vars\<close>, on the remaining characters, the text so far and
  the missing names so far; \<open>esc\<close> is the TOON string escape.\<close>

function substitute_loop ::
    "(string \<Rightarrow> string option) \<Rightarrow> (string \<Rightarrow> string) \<Rightarrow> string \<Rightarrow> string \<Rightarrow> string list \<Rightarrow> string \<times> string list" where
  "substitute_loop look esc [] out missing = (out, missing)"
| "substitute_loop look esc (c # cs) out missing =
    (if c \<noteq> CHR ''$'' then substitute_loop look esc cs (out @ [c]) missing
     else if cs \<noteq> [] \<and> hd cs = CHR ''$'' then
       (let cs2 = tl cs in
        if cs2 \<noteq> [] \<and> hd cs2 = CHR ''{''
        then (case to_brace (tl cs2) of (inner, shut, rest) \<Rightarrow>
               substitute_loop look esc rest (out @ ''${'' @ inner @ (if shut then ''}'' else [])) missing)
        else substitute_loop look esc cs2 (out @ ''$$'') missing)
     else if cs \<noteq> [] \<and> hd cs = CHR ''{'' then
       (case to_brace (tl cs) of (nm, shut, rest) \<Rightarrow>
          (case look nm of
             Some v \<Rightarrow> substitute_loop look esc rest (out @ esc v) missing
           | None \<Rightarrow> substitute_loop look esc rest out (if nm \<in> set missing then missing else missing @ [nm])))
     else substitute_loop look esc cs (out @ [c]) missing)"
  by pat_completeness auto
termination
  by (relation "measure (\<lambda>(look, esc, s, out, missing). length s)")
     (auto simp: neq_Nil_conv dest!: sym[of _ "to_brace _"] to_brace_length)

definition substitute_vars ::
    "(string \<Rightarrow> string) \<Rightarrow> string \<Rightarrow> vars \<Rightarrow> vars \<Rightarrow> vars \<Rightarrow> (engine_error, string) result" where
  "substitute_vars esc txt vs config secrets =
    (case substitute_loop (lookup_var vs config secrets) esc txt [] [] of (out, missing) \<Rightarrow>
       if missing = [] then Inr out
       else Inl (UndefinedVars (intersperse_str '', '' (map (\<lambda>n. ''${'' @ n @ ''}'') missing))))"

record codec =
  toon_encode :: "chaos_experiment \<Rightarrow> (string, string) result"
  toon_decode :: "string \<Rightarrow> (string, chaos_experiment) result"
  toon_escape :: "string \<Rightarrow> string"

definition map_err :: "('e \<Rightarrow> 'f) \<Rightarrow> ('e, 'a) result \<Rightarrow> ('f, 'a) result" where
  "map_err f r = (case r of Inl e \<Rightarrow> Inl (f e) | Inr x \<Rightarrow> Inr x)"

lemma map_err_simps [simp]: "map_err f (Inl e) = Inl (f e)" "map_err f (Inr x) = Inr x"
  by (simp_all add: map_err_def)

lemma map_err_Inr [simp]: "map_err f r = Inr x \<longleftrightarrow> r = Inr x"
  by (cases r) (auto simp: map_err_def)

lemma map_err_Inr' [simp]: "Inr x = map_err f r \<longleftrightarrow> r = Inr x"
  by (cases r) (auto simp: map_err_def)

lemma map_err_Inl: "map_err f r = Inl e \<longleftrightarrow> (\<exists>x. r = Inl x \<and> e = f x)"
  by (cases r) (auto simp: map_err_def)

definition parse_experiment :: "codec \<Rightarrow> string \<Rightarrow> (engine_error, chaos_experiment) result" where
  "parse_experiment C toon = map_err ParseError (toon_decode C toon)"

definition apply_template_vars ::
    "codec \<Rightarrow> chaos_experiment \<Rightarrow> vars \<Rightarrow> vars \<Rightarrow> vars \<Rightarrow> (engine_error, chaos_experiment) result" where
  "apply_template_vars C x vs config secrets =
    res_bind (map_err ParseError (toon_encode C x)) (\<lambda>toon.
    res_bind (substitute_vars (toon_escape C) toon vs config secrets) (\<lambda>substituted.
      map_err ParseError (toon_decode C substituted)))"

definition apply_vars :: "codec \<Rightarrow> chaos_experiment \<Rightarrow> vars \<Rightarrow> (engine_error, chaos_experiment) result" where
  "apply_vars C x vs = apply_template_vars C x vs Map.empty Map.empty"

section \<open>Validation\<close>

type_synonym regex_engine = "string \<Rightarrow> string \<Rightarrow> bool option"

definition validate_script_name :: "string \<Rightarrow> string \<Rightarrow> string \<Rightarrow> (engine_error, unit) result" where
  "validate_script_name act field value =
    (let reject = (\<lambda>reason. Inl (InvalidScriptProvider act
           (field @ '' '' @ [CHR 0x27] @ value @ [CHR 0x27] @ '' '' @ reason)))
     in if value = [] then Inl (InvalidScriptProvider act (field @ '' must not be empty''))
        else if CHR ''/'' \<in> set value \<or> CHR 0x5C \<in> set value then reject ''must not contain path separators''
        else if contains_str value ''..'' then reject (''must not contain '' @ [CHR 0x27] @ ''..'' @ [CHR 0x27])
        else if CHR 0x00 \<in> set value then reject ''must not contain null bytes''
        else if list_ex is_ws value then reject ''must not contain whitespace''
        else Inr ())"

definition validate_tolerance :: "regex_engine \<Rightarrow> string \<Rightarrow> tolerance option \<Rightarrow> (engine_error, unit) result" where
  "validate_tolerance re nm t = (case t of
     Some (Regex pattern) \<Rightarrow> if re pattern [] = None then Inl (InvalidRegex nm pattern) else Inr ()
   | Some (Range lo hi) \<Rightarrow> if f64_lt hi lo then Inl (InvalidToleranceBounds nm lo hi) else Inr ()
   | _ \<Rightarrow> Inr ())"

definition validate_guard :: "regex_engine \<Rightarrow> guard \<Rightarrow> (engine_error, unit) result" where
  "validate_guard re g =
    (if guard_min_breaches g = 0 then Inl (GuardInvalidMinBreaches (guard_name g))
     else if act_tolerance (guard_probe g) = None then Inl (GuardMissingTolerance (guard_name g))
     else validate_tolerance re (guard_name g) (act_tolerance (guard_probe g)))"

definition validate_activity :: "regex_engine \<Rightarrow> activity \<Rightarrow> (engine_error, unit) result" where
  "validate_activity re a =
    res_bind (validate_tolerance re (act_name a) (act_tolerance a)) (\<lambda>_.
      case act_provider a of
        Script plugin function _ _ \<Rightarrow>
          res_bind (validate_script_name (act_name a) ''plugin'' plugin) (\<lambda>_.
            validate_script_name (act_name a) ''function'' function)
      | _ \<Rightarrow> Inr ())"

fun for_each :: "('a \<Rightarrow> ('e, unit) result) \<Rightarrow> 'a list \<Rightarrow> ('e, unit) result" where
  "for_each f [] = Inr ()"
| "for_each f (x # xs) = res_bind (f x) (\<lambda>_. for_each f xs)"

definition all_activities :: "chaos_experiment \<Rightarrow> activity list" where
  "all_activities x = exp_method x @ exp_rollbacks x @
     (case exp_hypothesis x of None \<Rightarrow> [] | Some h \<Rightarrow> hyp_probes h)"

definition validate_hypothesis :: "hypothesis option \<Rightarrow> (engine_error, unit) result" where
  "validate_hypothesis h = (case h of
     Some h \<Rightarrow> if hyp_probes h = [] then Inl (EmptyHypothesisProbes (hyp_title h)) else Inr ()
   | None \<Rightarrow> Inr ())"

definition validate_experiment :: "regex_engine \<Rightarrow> chaos_experiment \<Rightarrow> (engine_error, unit) result" where
  "validate_experiment re x =
    (if exp_version x \<noteq> ''v1'' then Inl (UnsupportedVersion (exp_version x))
     else if exp_method x = [] then Inl EmptyMethod
     else if exp_max_concurrent_faults x = Some 0 then Inl InvalidMaxConcurrentFaults
     else res_bind (validate_hypothesis (exp_hypothesis x)) (\<lambda>_.
          res_bind (for_each (validate_guard re) (exp_guards x)) (\<lambda>_.
            for_each (validate_activity re) (all_activities x))))"

end
