(* ===== verification/Run_Queue.thy ===== *)
theory Run_Queue
  imports Run_Store Approval_Tiers Experiment_Engine
begin

text \<open>
  The daemon's run queue (\<open>tumult-ingest/src/runs\<close>): preparing a request, the enqueue
  and approval-request paths (\<open>queue/mod.rs\<close>), dispatch of an approved run
  (\<open>queue/dispatch.rs\<close>), e-stop (\<open>queue/stop.rs\<close>), the recovery plan
  (\<open>recovery_plan.rs\<close>) and the expiry sweep of \<open>worker.rs\<close>.

  The state is the store, the cancellation tokens of the runs executing in this
  process, the permits of the waiting queue and the channel to the workers. What
  resolves a definition against the daemon's environment and files (the engine's
  parser, configuration, secrets and templates), the digests and the JSON texts are
  the record \<open>engine\<close>.
\<close>

section \<open>Requests and state\<close>

record run_request =
  req_registry_id :: string
  req_definition_toon :: string
  req_vars :: vars
  req_env :: string
  req_target :: "string option"

record work_item =
  wi_run :: string
  wi_request :: run_request
  wi_pin :: "string option"

record qstate =
  q_store :: store
  q_tokens :: "string \<rightharpoonup> bool"  \<comment> \<open>registered tokens, and whether cancelled\<close>
  q_permits :: nat
  q_channel :: "work_item list"
  q_open :: bool
  q_evidence :: "journal list"  \<comment> \<open>journals ingested\<close>

record queue_config =
  cfg_concurrency :: nat
  cfg_queue_depth :: nat
  cfg_sweep_interval_s :: nat

definition queue_config_default :: queue_config where
  "queue_config_default = \<lparr> cfg_concurrency = 2, cfg_queue_depth = 32, cfg_sweep_interval_s = 60 \<rparr>"

text \<open>\<open>from_env\<close>: a variable counts when its trimmed text parses to a positive number.\<close>

definition config_from_env :: "(string \<rightharpoonup> string) \<Rightarrow> (string \<Rightarrow> nat option) \<Rightarrow> queue_config" where
  "config_from_env vs parse_usize =
    (let parse = (\<lambda>key fallback. case vs key of
           None \<Rightarrow> fallback
         | Some v \<Rightarrow> (case parse_usize (trim v) of
               Some n \<Rightarrow> if 0 < n then n else fallback | None \<Rightarrow> fallback));
         d = queue_config_default
     in \<lparr> cfg_concurrency = parse ''TUMULTD_RUN_CONCURRENCY'' (cfg_concurrency d),
          cfg_queue_depth = parse ''TUMULTD_RUN_QUEUE_DEPTH'' (cfg_queue_depth d),
          cfg_sweep_interval_s = parse ''TUMULTD_APPROVAL_SWEEP_S'' (max 1 (cfg_sweep_interval_s d)) \<rparr>)"

definition spawn_queue :: "store \<Rightarrow> queue_config \<Rightarrow> qstate" where
  "spawn_queue s cfg = \<lparr> q_store = s, q_tokens = Map.empty, q_permits = max 1 (cfg_queue_depth cfg),
     q_channel = [], q_open = True, q_evidence = [] \<rparr>"

datatype enqueue_error = EFull | EStore string

datatype stop_error = SNotFound | STerminal run_state | SStore string

text \<open>The reasons of \<open>DispatchError::Approval\<close>, with the values their texts interpolate.\<close>

datatype approval_refusal = NoRequest | AlreadyConsumed | WasRejected | QuorumShort nat int | ExpiredBeforeDispatch

datatype dispatch_error = NotPending | DFull | DApproval approval_refusal | DStore string

section \<open>What the daemon's environment provides\<close>

record recovery_plan =
  rp_definition :: chaos_experiment
  rp_vars :: vars
  rp_config_hash :: string

record engine =
  eng_host :: host
  eng_codec :: codec
  eng_regex :: regex_engine
  eng_show_f64 :: "f64 \<Rightarrow> string"
  eng_secret_order :: "(string \<rightharpoonup> vars) \<Rightarrow> (string \<times> string) list"  \<comment> \<open>the order a hash map is walked in\<close>
  eng_config_hash :: "vars \<Rightarrow> string"
  eng_execution_hash :: "chaos_experiment \<Rightarrow> vars \<Rightarrow> (policy_refusal, string) result"
  eng_bindings :: "(policy_refusal, binding list) result"
  eng_users :: auth_lake
  eng_params_text :: "vars \<Rightarrow> string"
  eng_params_parse :: "string \<Rightarrow> (string, vars) result"
  eng_params_object :: "string \<Rightarrow> vars"  \<comment> \<open>the string fields of a JSON object, else none\<close>
  eng_context_text :: "string \<Rightarrow> string option \<Rightarrow> string"
  eng_plan_text :: "recovery_plan \<Rightarrow> string"
  eng_plan_parse :: "string \<Rightarrow> (string, recovery_plan) result"

text \<open>The engine's functions, their errors rendered as the callers do.\<close>

definition engine_msg :: "engine \<Rightarrow> (engine_error, 'a) result \<Rightarrow> (string, 'a) result" where
  "engine_msg G r = map_err (engine_error_text (eng_show_f64 G)) r"

definition eng_parse :: "engine \<Rightarrow> string \<Rightarrow> (string, chaos_experiment) result" where
  "eng_parse G toon = engine_msg G (parse_experiment (eng_codec G) toon)"

definition eng_resolve_config :: "engine \<Rightarrow> (string \<times> config_value) list \<Rightarrow> (string, vars) result" where
  "eng_resolve_config G config = engine_msg G (resolve_config (eng_host G) config)"

definition eng_resolve_secrets :: "engine \<Rightarrow> (string \<times> (string \<times> secret_value) list) list \<Rightarrow> (string, vars) result" where
  "eng_resolve_secrets G secrets =
    res_bind (engine_msg G (resolve_secrets (eng_host G) secrets)) (\<lambda>m.
      Inr (flatten_secrets (eng_secret_order G m) m))"

definition eng_apply_vars :: "engine \<Rightarrow> chaos_experiment \<Rightarrow> vars \<Rightarrow> vars \<Rightarrow> vars \<Rightarrow> (string, chaos_experiment) result" where
  "eng_apply_vars G x vs config secrets = engine_msg G (apply_template_vars (eng_codec G) x vs config secrets)"

definition eng_validate :: "engine \<Rightarrow> chaos_experiment \<Rightarrow> (string, unit) result" where
  "eng_validate G x = engine_msg G (validate_experiment (eng_regex G) x)"

definition prepare_definition ::
    "engine \<Rightarrow> chaos_experiment \<Rightarrow> vars \<Rightarrow> vars \<Rightarrow> (string, chaos_experiment \<times> vars) result" where
  "prepare_definition G def vs config =
    res_bind (map_err (\<lambda>e. ''secrets: '' @ e) (eng_resolve_secrets G (exp_secrets def))) (\<lambda>secrets.
    res_bind (if vs = Map.empty \<and> config = Map.empty \<and> secrets = Map.empty then Inr def
              else map_err (\<lambda>e. ''template: '' @ e) (eng_apply_vars G def vs config secrets)) (\<lambda>resolved.
    res_bind (map_err (\<lambda>e. ''validate: '' @ e) (eng_validate G resolved)) (\<lambda>_.
      Inr (resolved, fst (build_config_env config) ++ fst (build_secret_env secrets)))))"

definition prepare_run :: "engine \<Rightarrow> string \<Rightarrow> vars \<Rightarrow> (string, chaos_experiment \<times> vars) result" where
  "prepare_run G toon vs =
    res_bind (map_err (\<lambda>e. ''parse: '' @ e) (eng_parse G toon)) (\<lambda>def.
    res_bind (map_err (\<lambda>e. ''config: '' @ e) (eng_resolve_config G (exp_configuration def))) (\<lambda>config.
      prepare_definition G def vs config))"

section \<open>Recovery plans\<close>

definition preparation_error :: "string \<Rightarrow> string" where
  "preparation_error stage =
    stage @ '': execution inputs could not be prepared; check the definition and configured sources''"

definition plan_capture :: "engine \<Rightarrow> string \<Rightarrow> vars \<Rightarrow> (string, recovery_plan) result" where
  "plan_capture G toon vs =
    res_bind (map_err (\<lambda>_. preparation_error ''parse'') (eng_parse G toon)) (\<lambda>def.
    res_bind (map_err (\<lambda>_. preparation_error ''config'') (eng_resolve_config G (exp_configuration def))) (\<lambda>resolved.
      Inr \<lparr> rp_definition = def, rp_vars = vs, rp_config_hash = eng_config_hash G resolved \<rparr>))"

definition prepare_stages :: "string list" where
  "prepare_stages = [''parse'', ''config'', ''secrets'', ''template'', ''validate'']"

definition diagnostic_stage :: "string \<Rightarrow> string" where
  "diagnostic_stage d = (case find (\<lambda>st. starts_with d (st @ '':'')) prepare_stages of
     Some st \<Rightarrow> st | None \<Rightarrow> ''prepare'')"

definition plan_prepare :: "engine \<Rightarrow> recovery_plan \<Rightarrow> (string, chaos_experiment \<times> vars) result" where
  "plan_prepare G plan =
    res_bind (map_err (\<lambda>_. preparation_error ''config'') (eng_resolve_config G (exp_configuration (rp_definition plan)))) (\<lambda>resolved.
      if eng_config_hash G resolved \<noteq> rp_config_hash plan
      then Inl ''configuration changed since execution; restore original bindings before cleanup''
      else map_err (\<lambda>d. preparation_error (diagnostic_stage d)) (prepare_definition G (rp_definition plan) (rp_vars plan) resolved))"

section \<open>Access to the store\<close>

fun store_error_str :: "store_error \<Rightarrow> string" where
  "store_error_str (DuckDb msg) = ''duckdb error: '' @ msg"
| "store_error_str (Json msg) = ''json error: '' @ msg"
| "store_error_str (Internal msg) = ''internal store error: '' @ msg"

text \<open>\<open>exec_write\<close>: one closure run on the single writer.\<close>

definition exec_write :: "('s \<Rightarrow> store) \<Rightarrow> (store \<Rightarrow> 's \<Rightarrow> 's) \<Rightarrow> 'a writer \<Rightarrow> ('s, string, 'a) comp" where
  "exec_write get put m = (\<lambda>s. case m (get s) of (r, t) \<Rightarrow> (map_err store_error_str r, put t s))"

definition put_store :: "store \<Rightarrow> qstate \<Rightarrow> qstate" where
  "put_store t q = q \<lparr> q_store := t \<rparr>"

definition on_store :: "'a writer \<Rightarrow> (qstate, string, 'a) comp" where
  "on_store = exec_write q_store put_store"

text \<open>A read on a fresh read-only connection: the open may fail, and so may the query.\<close>

definition fresh_read :: "env \<Rightarrow> 'a writer \<Rightarrow> (qstate, string, 'a) comp" where
  "fresh_read E m = on_store (seqc (stmt E) m)"

definition with_err :: "('e \<Rightarrow> 'f) \<Rightarrow> ('s, 'e, 'a) comp \<Rightarrow> ('s, 'f, 'a) comp" where
  "with_err f m = (\<lambda>s. case m s of (r, s') \<Rightarrow> (map_err f r, s'))"

definition from_result :: "('e, 'a) result \<Rightarrow> ('s, 'e, 'a) comp" where
  "from_result r = (\<lambda>s. (r, s))"

text \<open>\<open>read_run_state\<close>: a failed read is logged and reads as no state.\<close>

definition read_run_state :: "env \<Rightarrow> string \<Rightarrow> qstate \<Rightarrow> run_state option \<times> qstate" where
  "read_run_state E rid q = (case fresh_read E (run_get E rid) q of
     (Inr (Some (r, nm)), q') \<Rightarrow> (Some (run_st r), q')
   | (Inr None, q') \<Rightarrow> (None, q')
   | (Inl e, q') \<Rightarrow> (None, q'))"

section \<open>Enqueueing and requesting\<close>

definition refusal_str :: "policy_refusal \<Rightarrow> string" where
  "refusal_str r = (case r of
     EnvRequired \<Rightarrow> ''an explicit execution environment is required''
   | CannotFingerprint \<Rightarrow> ''cannot fingerprint execution''
   | NotBound \<Rightarrow> ''execution is not bound to this environment and target; ask the platform administrator to review its fingerprint and configure TUMULTD_EXECUTION_BINDINGS''
   | BindingsUnreadable \<Rightarrow> ''execution bindings cannot be read''
   | BindingsInvalid \<Rightarrow> ''execution bindings are invalid''
   | CannotAuthorizeOwner \<Rightarrow> ''cannot authorize execution owner''
   | NoOwner \<Rightarrow> ''execution has no authenticated owner''
   | OwnerGone \<Rightarrow> ''execution owner no longer exists''
   | OwnerNotOperator \<Rightarrow> ''execution owner is disabled or no longer an operator''
   | OwnerOutOfScope \<Rightarrow> ''execution environment is outside its owner's scopes'')"

definition params_of :: "engine \<Rightarrow> vars \<Rightarrow> string option" where
  "params_of G vs = (if vs = Map.empty then None else Some (eng_params_text G vs))"

definition request_context :: "engine \<Rightarrow> run_request \<Rightarrow> string \<Rightarrow> context_json" where
  "request_context G r hash = ContextObject (PinString hash) (eng_context_text G (req_env r) (req_target r))"

definition check_expected :: "string option \<Rightarrow> string \<Rightarrow> (string, unit) result" where
  "check_expected expected hash = (case expected of
     Some h \<Rightarrow> if h \<noteq> hash then Inl ''execution inputs changed since preview; request again'' else Inr ()
   | None \<Rightarrow> Inr ())"

text \<open>The part of \<open>enqueue_checked\<close> behind the permit. \<open>rid\<close> is the fresh uuid.\<close>

definition enqueue_body ::
    "env \<Rightarrow> engine \<Rightarrow> string \<Rightarrow> run_request \<Rightarrow> string option \<Rightarrow> string option \<Rightarrow> (qstate, string, unit) comp" where
  "enqueue_body E G rid r actor expected =
    bindc (on_store (now_ns E)) (\<lambda>now.
    bindc (from_result (map_err (\<lambda>_. ''execution inputs cannot be resolved'')
        (prepare_run G (req_definition_toon r) (req_vars r)))) (\<lambda>(resolved, injected).
    bindc (from_result (map_err refusal_str (eng_execution_hash G resolved injected))) (\<lambda>hash.
    seqc (from_result (check_expected expected hash))
    (seqc (on_store (insert_run_with_context E
        \<lparr> nr_id = rid, nr_registry_id = req_registry_id r, nr_params_json = params_of G (req_vars r),
          nr_queued_at = now, nr_actor = actor \<rparr> (Some (request_context G r hash))))
    (\<lambda>q. if q_open q
         then (Inr (), q \<lparr> q_channel := q_channel q @ [\<lparr> wi_run = rid, wi_request = r, wi_pin = None \<rparr>] \<rparr>)
         else (Inl ''run queue stopped'', q))))))"

text \<open>The permit is taken first and travels with the work item; an error drops it.\<close>

definition holding_permit :: "(qstate, 'e, unit) comp \<Rightarrow> qstate \<Rightarrow> ('e, unit) result \<times> qstate" where
  "holding_permit m q = (case m (q \<lparr> q_permits := q_permits q - 1 \<rparr>) of
     (Inr x, q') \<Rightarrow> (Inr x, q')
   | (Inl e, q') \<Rightarrow> (Inl e, q' \<lparr> q_permits := q_permits q' + 1 \<rparr>))"

definition enqueue_checked ::
    "env \<Rightarrow> engine \<Rightarrow> string \<Rightarrow> run_request \<Rightarrow> string option \<Rightarrow> string option \<Rightarrow> (qstate, enqueue_error, string) comp" where
  "enqueue_checked E G rid r actor expected = (\<lambda>q.
     if q_permits q = 0 then (Inl EFull, q)
     else (case holding_permit (enqueue_body E G rid r actor expected) q of
        (Inl e, q') \<Rightarrow> (Inl (EStore e), q')
      | (Inr _, q') \<Rightarrow> (Inr rid, q')))"

definition enqueue :: "env \<Rightarrow> engine \<Rightarrow> string \<Rightarrow> run_request \<Rightarrow> string option \<Rightarrow> (qstate, enqueue_error, string) comp" where
  "enqueue E G rid r actor = enqueue_checked E G rid r actor None"

definition canonical_pin :: "env \<Rightarrow> run_request \<Rightarrow> string" where
  "canonical_pin E r = env_pin_hash E (req_definition_toon r, req_vars r, req_env r, req_target r)"

text \<open>The detail of the \<open>requested\<close> event; numbers are written out by the parameters' text.\<close>

definition requested_detail :: "tier \<Rightarrow> string \<Rightarrow> string" where
  "requested_detail t pin = ''tier '' @ tier_as_str t @ '' quorum '' @ (if t = T3 then ''2'' else ''1'')
     @ '' ttl '' @ (case t of T0 \<Rightarrow> ''0'' | T1 \<Rightarrow> ''72'' | T2 \<Rightarrow> ''24'' | T3 \<Rightarrow> ''4'') @ ''h pin '' @ pin"

definition approval_row :: "env \<Rightarrow> string \<Rightarrow> run_request \<Rightarrow> tier \<Rightarrow> string option \<Rightarrow> int \<Rightarrow> request_row" where
  "approval_row E rid r t actor now = \<lparr> rq_run = rid, rq_tier = tier_as_str t, rq_pin = canonical_pin E r,
     rq_env = req_env r, rq_target = req_target r, rq_quorum = int (quorum_required t),
     rq_requested_by = (case actor of Some a \<Rightarrow> a | None \<Rightarrow> ''synthetic''), rq_requested_at = now,
     rq_expires_at = now + ttl_ns t, rq_consumed_at = None, rq_break_glass = False,
     rq_break_glass_by = None, rq_justification = None \<rparr>"

definition request_gated_checked ::
    "env \<Rightarrow> engine \<Rightarrow> string \<Rightarrow> run_request \<Rightarrow> tier \<Rightarrow> string option \<Rightarrow> string option \<Rightarrow> (qstate, enqueue_error, string) comp" where
  "request_gated_checked E G rid r t actor expected = with_err EStore
    (bindc (on_store (now_ns E)) (\<lambda>now.
     bindc (from_result (map_err (\<lambda>_. ''execution inputs cannot be resolved'')
        (prepare_run G (req_definition_toon r) (req_vars r)))) (\<lambda>(resolved, injected).
     bindc (from_result (map_err refusal_str
        (classify_execution (eng_execution_hash G) (eng_bindings G) resolved injected (req_env r) (req_target r) False)))
        (\<lambda>current_tier.
     seqc (ensure (\<not> t < current_tier) ''execution inputs changed risk tier; preview and request again'')
    (bindc (from_result (map_err refusal_str (eng_execution_hash G resolved injected))) (\<lambda>hash.
     seqc (from_result (check_expected expected hash))
    (seqc (on_store (insert_gated_run_with_context E
        \<lparr> nr_id = rid, nr_registry_id = req_registry_id r, nr_params_json = params_of G (req_vars r),
          nr_queued_at = now, nr_actor = actor \<rparr>
        (approval_row E rid r t actor now) (Some (requested_detail t (canonical_pin E r)))
        (Some (request_context G r hash))))
     (ret rid))))))))"

definition request_gated ::
    "env \<Rightarrow> engine \<Rightarrow> string \<Rightarrow> run_request \<Rightarrow> tier \<Rightarrow> string option \<Rightarrow> (qstate, enqueue_error, string) comp" where
  "request_gated E G rid r t actor = request_gated_checked E G rid r t actor None"

section \<open>Dispatch of an approved run\<close>

text \<open>The checks on the approval, re-read from the store: break-glass skips the decisions and
  the deadline, never the single use.\<close>

definition check_approval :: "env \<Rightarrow> string \<Rightarrow> request_row \<Rightarrow> (qstate, dispatch_error, unit) comp" where
  "check_approval E rid q =
    (if rq_consumed_at q \<noteq> None then fail (DApproval AlreadyConsumed)
     else if rq_break_glass q then ret ()
     else bindc (with_err DStore (on_store (approval_decisions E rid))) (\<lambda>ds.
       if list_ex (\<lambda>d. dc_decision d = DRejected) ds then fail (DApproval WasRejected)
       else (let approved = length (filter (\<lambda>d. dc_decision d = Approved) ds) in
         if int approved < rq_quorum q then fail (DApproval (QuorumShort approved (rq_quorum q)))
         else bindc (with_err DStore (on_store (now_ns E))) (\<lambda>now.
           if rq_expires_at q < now then fail (DApproval ExpiredBeforeDispatch) else ret ()))))"

definition dispatch_lookup :: "env \<Rightarrow> engine \<Rightarrow> string \<Rightarrow> (qstate, dispatch_error, run_request \<times> string) comp" where
  "dispatch_lookup E G rid =
    bindc (with_err DStore (fresh_read E (run_get E rid))) (\<lambda>row. case row of
      None \<Rightarrow> fail NotPending
    | Some (run, nm) \<Rightarrow>
        if run_st run \<noteq> PendingApproval then fail NotPending
        else bindc (with_err DStore (on_store (approval_request E rid))) (\<lambda>request. case request of
          None \<Rightarrow> fail (DApproval NoRequest)
        | Some q \<Rightarrow>
            seqc (check_approval E rid q)
           (bindc (with_err DStore (on_store (registry_definition E (run_registry_id run)))) (\<lambda>def. case def of
              None \<Rightarrow> fail (DStore ''registry row missing'')
            | Some g \<Rightarrow> ret (\<lparr> req_registry_id = reg_id g, req_definition_toon = reg_definition_toon g,
                 req_vars = (case run_params_json run of None \<Rightarrow> Map.empty | Some p \<Rightarrow> eng_params_object G p),
                 req_env = rq_env q, req_target = rq_target q \<rparr>, rq_pin q)))))"

definition dispatch_commit :: "env \<Rightarrow> string \<Rightarrow> run_request \<Rightarrow> string \<Rightarrow> (qstate, dispatch_error, unit) comp" where
  "dispatch_commit E rid r pin =
    seqc (with_err DStore (on_store (set_run_state_with E rid Queued (Some ''dispatch_queued'') None None)))
    (\<lambda>q. if q_open q
         then (Inr (), q \<lparr> q_channel := q_channel q @ [\<lparr> wi_run = rid, wi_request = r, wi_pin = Some pin \<rparr>] \<rparr>)
         else (Inl (DStore ''run queue stopped''), q))"

definition dispatch_approved :: "env \<Rightarrow> engine \<Rightarrow> string \<Rightarrow> (qstate, dispatch_error, unit) comp" where
  "dispatch_approved E G rid =
    bindc (dispatch_lookup E G rid) (\<lambda>(r, pin) q.
      if q_permits q = 0 then (Inl DFull, q) else holding_permit (dispatch_commit E rid r pin) q)"

section \<open>E-stop\<close>

definition cancel_token :: "string \<Rightarrow> qstate \<Rightarrow> qstate" where
  "cancel_token rid q = (case q_tokens q rid of
     None \<Rightarrow> q | Some _ \<Rightarrow> q \<lparr> q_tokens := (q_tokens q)(rid \<mapsto> True) \<rparr>)"

definition stop_run :: "env \<Rightarrow> string \<Rightarrow> string option \<Rightarrow> (qstate, stop_error, unit) comp" where
  "stop_run E rid actor = (\<lambda>q. case read_run_state E rid q of
     (None, q1) \<Rightarrow> (Inl SNotFound, q1)
   | (Some st, q1) \<Rightarrow>
       if terminal st then (Inl (STerminal st), q1)
       else with_err SStore (on_store (request_run_stop E rid actor)) (cancel_token rid q1))"

text \<open>\<open>POST /api/runs/stop-all\<close>: \<open>halt_runs\<close> of \<open>tumult-api/src/runs/control.rs\<close>.\<close>

definition haltable_states :: "run_state list" where
  "haltable_states = [Queued, Validating, Running, Stopping, PendingApproval]"

record halt_summary =
  hs_requested :: nat
  hs_stopped :: nat
  hs_skipped :: nat
  hs_failed :: "(string \<times> string) list"

fun halt_loop :: "(string \<Rightarrow> qstate \<Rightarrow> (stop_error, unit) result \<times> qstate) \<Rightarrow> string list \<Rightarrow> halt_summary \<Rightarrow> qstate
    \<Rightarrow> halt_summary \<times> qstate" where
  "halt_loop stop [] h q = (h, q)"
| "halt_loop stop (rid # ids) h q = (case stop rid q of
     (Inr _, q') \<Rightarrow> halt_loop stop ids (h \<lparr> hs_stopped := hs_stopped h + 1 \<rparr>) q'
   | (Inl (SStore e), q') \<Rightarrow> halt_loop stop ids (h \<lparr> hs_failed := hs_failed h @ [(rid, e)] \<rparr>) q'
   | (Inl _, q') \<Rightarrow> halt_loop stop ids (h \<lparr> hs_skipped := hs_skipped h + 1 \<rparr>) q')"

definition halt_runs :: "(string \<Rightarrow> qstate \<Rightarrow> (stop_error, unit) result \<times> qstate) \<Rightarrow> string list \<Rightarrow> qstate
    \<Rightarrow> halt_summary \<times> qstate" where
  "halt_runs stop ids = halt_loop stop ids
     \<lparr> hs_requested = length ids, hs_stopped = 0, hs_skipped = 0, hs_failed = [] \<rparr>"

section \<open>Expiry sweep\<close>

fun expire_all :: "env \<Rightarrow> string list \<Rightarrow> qstate \<Rightarrow> qstate" where
  "expire_all E [] q = q"
| "expire_all E (rid # ids) q =
    expire_all E ids (snd (on_store (finish_run E rid Expired None (Some ''not_needed'') (Some ''approval TTL lapsed'')) q))"

definition sweep_expired_approvals :: "env \<Rightarrow> qstate \<Rightarrow> qstate" where
  "sweep_expired_approvals E q =
    (case on_store (bindc (stmt E) (\<lambda>_. bindc (now_ns E) (expired_pending_approvals E))) q of
       (Inl e, q') \<Rightarrow> q'
     | (Inr ids, q') \<Rightarrow> expire_all E ids q')"

end
