(* ===== verification/Queue_Props.thy ===== *)
theory Queue_Props
  imports Run_Queue Run_Invariants
begin

text \<open>
  What the run queue guarantees: an approved run is dispatched only when the store clears it
  at that moment, four-eyes included; a rejected request costs no permit; the emergency stop
  visits every run; requests are persisted with their pin.
\<close>

section \<open>Reads and writes through the queue\<close>

text \<open>Reads change nothing but the time.\<close>

definition only_time :: "qstate \<Rightarrow> qstate \<Rightarrow> bool" where
  "only_time q q' \<longleftrightarrow> (\<exists>n \<ge> tick (q_store q). q' = q \<lparr> q_store := (q_store q) \<lparr> tick := n \<rparr> \<rparr>)"

lemma only_time_refl [simp]: "only_time q q"
  by (auto simp: only_time_def intro!: exI[of _ "tick (q_store q)"])

lemma only_timeI: "tick (q_store q) \<le> n \<Longrightarrow> only_time q (q \<lparr> q_store := (q_store q) \<lparr> tick := n \<rparr> \<rparr>)"
  unfolding only_time_def by blast

lemma only_time_trans: "only_time a b \<Longrightarrow> only_time b c \<Longrightarrow> only_time a c"
proof -
  assume "only_time a b" "only_time b c"
  then obtain n m where "tick (q_store a) \<le> n" "b = a \<lparr> q_store := (q_store a) \<lparr> tick := n \<rparr> \<rparr>"
    "n \<le> m" "c = b \<lparr> q_store := (q_store b) \<lparr> tick := m \<rparr> \<rparr>" by (auto simp: only_time_def)
  then show ?thesis using only_timeI[of a m] by simp
qed

lemma only_timeD:
  "only_time q q' \<Longrightarrow> data (q_store q') = data (q_store q)"
  "only_time q q' \<Longrightarrow> q_tokens q' = q_tokens q"
  "only_time q q' \<Longrightarrow> q_permits q' = q_permits q"
  "only_time q q' \<Longrightarrow> q_channel q' = q_channel q"
  "only_time q q' \<Longrightarrow> q_open q' = q_open q"
  "only_time q q' \<Longrightarrow> q_evidence q' = q_evidence q"
  by (auto simp: only_time_def)

interpretation quiet: comp_order only_time
  by unfold_locales (auto intro: only_time_trans)

abbreviation reads :: "(qstate, 'e, 'a) comp \<Rightarrow> bool" where
  "reads \<equiv> obeys only_time"

lemma on_store_eq: "on_store m q = (r, q') \<longleftrightarrow> (\<exists>r0 t. m (q_store q) = (r0, t) \<and> r = map_err store_error_str r0
    \<and> q' = q \<lparr> q_store := t \<rparr>)"
  by (auto simp: on_store_def exec_write_def put_store_def split: prod.splits)

lemma with_err_eq: "with_err f m q = (r, q') \<longleftrightarrow> (\<exists>r0. m q = (r0, q') \<and> r = map_err f r0)"
  by (auto simp: with_err_def split: prod.splits)

lemma store_ext: "data s' = data s \<Longrightarrow> tick s \<le> tick s' \<Longrightarrow> \<exists>n \<ge> tick s. s' = s \<lparr> tick := n \<rparr>" for s s' :: store
  by (intro exI[of _ "tick s'"]) simp

lemma reads_on_store: "moves (=) m \<Longrightarrow> advances m \<Longrightarrow> reads (on_store m)"
  unfolding obeys_def on_store_eq only_time_def by (metis advancesD movesD store_ext)

lemma obeys_from_result [simp, intro]: "(\<And>s. R s s) \<Longrightarrow> obeys R (from_result r)"
  by (auto simp: obeys_def from_result_def)

lemma obeys_with_err [intro]: "obeys R m \<Longrightarrow> obeys R (with_err f m)"
  by (auto simp: obeys_def with_err_eq)

lemma reads_base [simp, intro]:
  "reads (on_store (query E f))" "reads (on_store (stmt E))" "reads (on_store (now_ns E))"
  "reads (fresh_read E (query E f))"
  by (auto simp: fresh_read_def intro!: reads_on_store unchanged.moves_rules advances_seqc)

lemma on_store_Inr [simp]: "on_store m q = (Inr x, q') \<longleftrightarrow> (\<exists>t. m (q_store q) = (Inr x, t) \<and> q' = q \<lparr> q_store := t \<rparr>)"
  by (auto simp: on_store_eq)

lemma with_err_Inr [simp]: "with_err f m q = (Inr x, q') \<longleftrightarrow> m q = (Inr x, q')"
  by (auto simp: with_err_eq)

lemma from_result_Inr [simp]: "from_result r q = (Inr x, q') \<longleftrightarrow> r = Inr x \<and> q' = q"
  by (auto simp: from_result_def)

lemma fresh_query_Inr:
  "fresh_read E (query E f) q = (Inr x, q') \<Longrightarrow> x = f (data (q_store q)) \<and> only_time q q'"
  by (auto simp: fresh_read_def stmt_eq intro: only_timeI)

lemma store_query_Inr:
  "on_store (query E f) q = (Inr x, q') \<Longrightarrow> x = f (data (q_store q)) \<and> only_time q q'"
  by (auto intro: only_timeI)

lemmas reader_defs = run_get_def approval_request_def approval_decisions_def registry_definition_def
  run_audit_trail_def run_execution_hash_def

section \<open>Dispatch\<close>

text \<open>What clears a request for dispatch, over the tables.\<close>

definition cleared :: "db \<Rightarrow> int \<Rightarrow> request_row \<Rightarrow> bool" where
  "cleared d now q \<longleftrightarrow> rq_consumed_at q = None \<and> (rq_break_glass q \<or>
     decision_count d (rq_run q) DRejected = 0 \<and> rq_quorum q \<le> int (decision_count d (rq_run q) Approved)
     \<and> now \<le> rq_expires_at q)"

lemma filter_sort_key_length: "length (filter P (sort_key f xs)) = length (filter P xs)"
  by (simp add: filter_sort)

lemma check_approval_Inr:
  assumes "check_approval E rid r q = (Inr (), q')" "rq_run r = rid"
  shows "(\<exists>n. cleared (data (q_store q)) (env_clock E n) r) \<and> only_time q q'"
proof (cases "rq_consumed_at r = None \<and> \<not> rq_break_glass r")
  case False
  then show ?thesis using assms by (auto simp: check_approval_def cleared_def split: if_splits)
next
  case True
  let ?f = "\<lambda>d. sort_key dc_decided_at (filter (\<lambda>x. dc_run x = rid) (decisions d))"
  from assms(1) True obtain ds q1 where ds: "on_store (query E ?f) q = (Inr ds, q1)"
    and nr: "\<not> list_ex (\<lambda>d. dc_decision d = DRejected) ds"
    and quorum: "\<not> int (length (filter (\<lambda>d. dc_decision d = Approved) ds)) < rq_quorum r"
    and t: "on_store (now_ns E) q1 = (Inr (env_clock E (tick (q_store q1))), q')"
       "\<not> rq_expires_at r < env_clock E (tick (q_store q1))"
    by (auto simp: check_approval_def approval_decisions_def Let_def now_ns_eq simp del: query_Inr split: if_splits)
  have d: "ds = ?f (data (q_store q))" "only_time q q1" using store_query_Inr[OF ds] by auto
  have "decision_count (data (q_store q)) rid DRejected = 0"
    using nr by (auto simp: d list_ex_iff decision_count_def filter_empty_conv)
  moreover have "decision_count (data (q_store q)) rid Approved = length (filter (\<lambda>d. dc_decision d = Approved) ds)"
    by (simp add: d decision_count_def filter_sort_key_length conj_commute)
  moreover have "only_time q1 q'" using t(1) by (auto simp: now_ns_eq intro: only_timeI)
  ultimately show ?thesis
    using quorum t(2) d(2) True assms(2) only_time_trans
    by (auto simp: cleared_def intro!: exI[of _ "tick (q_store q1)"])
qed

lemma option_guard_Inr: "(case x of None \<Rightarrow> fail e | Some y \<Rightarrow> f y) s = (Inr z, s') \<longleftrightarrow> (\<exists>y. x = Some y \<and> f y s = (Inr z, s'))"
  by (cases x) auto

lemma if_guard_Inr: "(if c then fail e else m) s = (Inr z, s') \<longleftrightarrow> \<not> c \<and> m s = (Inr z, s')"
  by simp

lemmas guard_Inr = option_guard_Inr if_guard_Inr bindc_Inr seqc_Inr

lemma run_get_Inr:
  "fresh_read E (run_get E rid) q = (Inr (Some (run, nm)), q') \<Longrightarrow>
    find (\<lambda>r. run_id r = rid) (runs (data (q_store q))) = Some run \<and> only_time q q'"
  unfolding run_get_def by (drule fresh_query_Inr) (auto simp: eq_commute[of "Some _"])

lemma dispatch_lookup_Inr:
  assumes "dispatch_lookup E G rid q = (Inr (r, pin), q')"
  shows "\<exists>run rq g n. find (\<lambda>r. run_id r = rid) (runs (data (q_store q))) = Some run \<and> run_st run = PendingApproval
    \<and> find (\<lambda>q. rq_run q = rid) (requests (data (q_store q))) = Some rq
    \<and> cleared (data (q_store q)) (env_clock E n) rq \<and> pin = rq_pin rq
    \<and> find (\<lambda>g. reg_id g = run_registry_id run) (registry (data (q_store q))) = Some g
    \<and> req_definition_toon r = reg_definition_toon g \<and> req_env r = rq_env rq \<and> req_target r = rq_target rq
    \<and> only_time q q'"
proof -
  obtain run nm q1 rq q2 u q3 g where
    a: "fresh_read E (run_get E rid) q = (Inr (Some (run, nm)), q1)" "run_st run = PendingApproval"
    and b: "on_store (approval_request E rid) q1 = (Inr (Some rq), q2)"
    and c: "check_approval E rid rq q2 = (Inr u, q3)"
    and d: "on_store (registry_definition E (run_registry_id run)) q3 = (Inr (Some g), q')"
    and r: "r = \<lparr> req_registry_id = reg_id g, req_definition_toon = reg_definition_toon g,
                 req_vars = (case run_params_json run of None \<Rightarrow> Map.empty | Some p \<Rightarrow> eng_params_object G p),
                 req_env = rq_env rq, req_target = rq_target rq \<rparr>" "pin = rq_pin rq"
    using assms unfolding dispatch_lookup_def
    by (simp only: guard_Inr with_err_Inr split_paired_Ex prod.case, elim exE conjE)
      (simp only: ret_eq sum.inject prod.inject, blast)
  note b' = store_query_Inr[OF b[unfolded approval_request_def]]
  note d' = store_query_Inr[OF d[unfolded registry_definition_def]]
  note a' = run_get_Inr[OF a(1)]
  have rq: "find (\<lambda>q. rq_run q = rid) (requests (data (q_store q1))) = Some rq" using b' by simp
  then have "rq_run rq = rid" by (auto simp: find_Some_iff)
  then have c': "(\<exists>n. cleared (data (q_store q2)) (env_clock E n) rq) \<and> only_time q2 q3"
    using check_approval_Inr[of E rid rq q2 q3] c by simp
  have o: "only_time q1 q2" "only_time q3 q'" using b' d' by blast+
  then have "only_time q q'" using a' c' only_time_trans by blast
  moreover have "data (q_store q1) = data (q_store q)" "data (q_store q2) = data (q_store q)" "data (q_store q3) = data (q_store q)"
    using o a' c' by (metis only_timeD(1))+
  ultimately show ?thesis using a a' c' r b'[THEN conjunct1, symmetric] d'[THEN conjunct1, symmetric] by auto
qed

lemma set_run_state_with_Inr:
  assumes "set_run_state_with E rid st ev det act s = (Inr (), s')"
  shows "\<exists>row. length (filter (\<lambda>r. run_id r = rid \<and> \<not> terminal (run_st r) \<and> (st \<noteq> Queued \<or> run_st r = PendingApproval)) (runs (data s))) = 1
    \<and> au_run row = rid \<and> au_event row = (case ev of Some e \<Rightarrow> e | None \<Rightarrow> state_str st)
    \<and> data s' = data s \<lparr> runs := map (\<lambda>r. if run_id r = rid \<and> \<not> terminal (run_st r) \<and> (st \<noteq> Queued \<or> run_st r = PendingApproval)
           then r \<lparr> run_st := st \<rparr> else r) (runs (data s)), audits := audits (data s) @ [row] \<rparr>"
proof -
  let ?P = "\<lambda>r. run_id r = rid \<and> \<not> terminal (run_st r) \<and> (st \<noteq> Queued \<or> run_st r = PendingApproval)"
  let ?f = "\<lambda>r. r \<lparr> run_st := st \<rparr>"
  obtain n s1 u s2 where upd: "update_runs E ?P ?f (s \<lparr> tick := tick s + 1 \<rparr>) = (Inr n, s1)" "n = 1"
    and aud: "insert_run_audit E rid (case ev of Some e \<Rightarrow> e | None \<Rightarrow> state_str st) det act s1 = (Inr u, s2)"
    and s': "s' = s2 \<lparr> tick := tick s2 + 1 \<rparr>"
    using with_tx_Inr[OF assms[unfolded set_run_state_with_def]]
    by (elim exE conjE, simp only: bindc_Inr seqc_Inr require_transition_Inr, elim exE conjE) blast
  from insert_run_audit_Inr[OF aud] obtain row where "au_run row = rid"
      "au_event row = (case ev of Some e \<Rightarrow> e | None \<Rightarrow> state_str st)"
      "data s2 = data s1 \<lparr> audits := audits (data s1) @ [row] \<rparr>" by blast
  then show ?thesis using update_runs_Inr[OF upd(1)] upd(2) s' by (intro exI[of _ row]) auto
qed

definition queued_row :: "run_row \<Rightarrow> run_row" where
  "queued_row r = r \<lparr> run_st := Queued \<rparr>"

definition pending :: "string \<Rightarrow> run_row \<Rightarrow> bool" where
  "pending rid r \<longleftrightarrow> run_id r = rid \<and> run_st r = PendingApproval"

lemma queue_transition_Inr:
  assumes "set_run_state_with E rid Queued ev det act s = (Inr (), s')"
  shows "\<exists>row. length (filter (pending rid) (runs (data s))) = 1
    \<and> au_run row = rid \<and> au_event row = (case ev of Some e \<Rightarrow> e | None \<Rightarrow> ''queued'')
    \<and> data s' = data s \<lparr> runs := map (\<lambda>r. if pending rid r then queued_row r else r) (runs (data s)),
        audits := audits (data s) @ [row] \<rparr>"
proof -
  have c: "(\<lambda>r. run_id r = rid \<and> \<not> terminal (run_st r) \<and> (Queued \<noteq> Queued \<or> run_st r = PendingApproval)) = pending rid"
    by (auto simp: pending_def fun_eq_iff)
  have "run_id r = rid \<and> \<not> terminal (run_st r) \<and> (Queued \<noteq> Queued \<or> run_st r = PendingApproval) \<longleftrightarrow> pending rid r" for r
    by (auto simp: pending_def)
  then show ?thesis
    using set_run_state_with_Inr[OF assms] by (simp only: c queued_row_def state_str.simps)
qed

lemma dispatch_approved_Inr:
  assumes "dispatch_approved E G rid q = (Inr (), q')"
  shows "\<exists>rq r n row. find (\<lambda>q. rq_run q = rid) (requests (data (q_store q))) = Some rq
    \<and> cleared (data (q_store q)) (env_clock E n) rq
    \<and> 0 < q_permits q \<and> q_permits q' = q_permits q - 1
    \<and> length (filter (pending rid) (runs (data (q_store q)))) = 1
    \<and> au_run row = rid \<and> au_event row = ''dispatch_queued''
    \<and> data (q_store q') = data (q_store q) \<lparr>
        runs := map (\<lambda>r. if pending rid r then queued_row r else r) (runs (data (q_store q))),
        audits := audits (data (q_store q)) @ [row] \<rparr>
    \<and> q_channel q' = q_channel q @ [\<lparr> wi_run = rid, wi_request = r, wi_pin = Some (rq_pin rq) \<rparr>]
    \<and> req_env r = rq_env rq \<and> req_target r = rq_target rq \<and> q_tokens q' = q_tokens q"
proof -
  obtain r pin q1 where l: "dispatch_lookup E G rid q = (Inr (r, pin), q1)"
    and p: "q_permits q1 \<noteq> 0" "holding_permit (dispatch_commit E rid r pin) q1 = (Inr (), q')"
    using assms by (auto simp: dispatch_approved_def split: if_splits)
  let ?q = "q1 \<lparr> q_permits := q_permits q1 - 1 \<rparr>"
  have "dispatch_commit E rid r pin ?q = (Inr (), q')"
    using p(2) by (auto simp: holding_permit_def split: prod.splits sum.splits)
  then obtain t where t: "set_run_state_with E rid Queued (Some ''dispatch_queued'') None None (q_store q1) = (Inr (), t)"
    and q': "q' = ?q \<lparr> q_store := t, q_channel := q_channel q1 @ [\<lparr> wi_run = rid, wi_request = r, wi_pin = Some pin \<rparr>] \<rparr>"
    by (auto simp: dispatch_commit_def split: if_splits)
  from dispatch_lookup_Inr[OF l] obtain rq n where rq: "find (\<lambda>q. rq_run q = rid) (requests (data (q_store q))) = Some rq"
    "cleared (data (q_store q)) (env_clock E n) rq" "pin = rq_pin rq" "req_env r = rq_env rq" "req_target r = rq_target rq"
    and ot: "only_time q q1" by blast
  from queue_transition_Inr[OF t] obtain row where "length (filter (pending rid) (runs (data (q_store q1)))) = 1"
    "au_run row = rid" "au_event row = ''dispatch_queued''"
    "data t = data (q_store q1) \<lparr> runs := map (\<lambda>r. if pending rid r then queued_row r else r) (runs (data (q_store q1))),
        audits := audits (data (q_store q1)) @ [row] \<rparr>" by auto
  then show ?thesis using rq p(1) only_timeD[OF ot] unfolding q'
    by (intro exI[of _ rq] exI[of _ r] exI[of _ n] exI[of _ row]) simp
qed

lemma approvers_card:
  assumes "keys_ok d"
  shows "card (dc_approver ` {x \<in> set (decisions d). dc_run x = rid \<and> dc_decision x = k}) = decision_count d rid k"
proof -
  let ?P = "\<lambda>x. dc_run x = rid \<and> dc_decision x = k"
  let ?f = "\<lambda>x. (dc_run x, dc_approver x)"
  have dec: "distinct (decisions d)" "inj_on ?f (set (decisions d))"
    using assms by (simp_all add: keys_ok_def distinct_map)
  have "inj_on dc_approver {x \<in> set (decisions d). ?P x}"
  proof (rule inj_onI)
    fix x y
    assume "x \<in> {x \<in> set (decisions d). ?P x}" "y \<in> {x \<in> set (decisions d). ?P x}" "dc_approver x = dc_approver y"
    then show "x = y" using inj_onD[OF dec(2), of x y] by simp
  qed
  then have "card (dc_approver ` {x \<in> set (decisions d). ?P x}) = card (set (filter ?P (decisions d)))"
    by (simp add: card_image)
  also have "\<dots> = length (filter ?P (decisions d))"
    using dec(1) by (simp only: distinct_card distinct_filter)
  finally show ?thesis by (simp add: decision_count_def)
qed


text \<open>Four eyes: in every reachable store, dispatching a run without broken glass means that at
  least quorum many different people approved it, none of them the requester, and nobody
  rejected it.\<close>

theorem dispatch_four_eyes:
  assumes "reachable E (q_store q)" "dispatch_approved E G rid q = (Inr (), q')"
    and "\<forall>rq \<in> set (requests (data (q_store q))). rq_run rq = rid \<longrightarrow> \<not> rq_break_glass rq"
  shows "\<exists>rq \<in> set (requests (data (q_store q))). rq_run rq = rid
    \<and> rq_quorum rq \<le> int (card (dc_approver ` {x \<in> set (decisions (data (q_store q))). dc_run x = rid \<and> dc_decision x = Approved}))
    \<and> rq_requested_by rq \<notin> dc_approver ` {x \<in> set (decisions (data (q_store q))). dc_run x = rid \<and> dc_decision x = Approved}
    \<and> (\<forall>x \<in> set (decisions (data (q_store q))). dc_run x = rid \<longrightarrow> dc_decision x \<noteq> DRejected)"
proof -
  let ?d = "data (q_store q)"
  have k: "keys_ok ?d" by (rule reachable_keys_ok[OF assms(1)])
  from dispatch_approved_Inr[OF assms(2)] obtain rq n where
    f: "find (\<lambda>q. rq_run q = rid) (requests ?d) = Some rq" and c: "cleared ?d (env_clock E n) rq" by blast
  have rq: "rq \<in> set (requests ?d)" "rq_run rq = rid" using f by (auto simp: find_Some_iff)
  have c': "decision_count ?d rid DRejected = 0" "rq_quorum rq \<le> int (decision_count ?d rid Approved)"
    using c rq assms(3) by (auto simp: cleared_def)
  have req: "rq_requested_by rq \<noteq> dc_approver x" if xd: "x \<in> set (decisions ?d)" "dc_run x = rid" for x
  proof -
    have "decision_ok ?d x" using k xd(1) by (simp add: keys_ok_def)
    then obtain p where p: "p \<in> set (requests ?d)" "rq_run p = rid" "rq_requested_by p \<noteq> dc_approver x"
      using xd(2) by (auto simp: decision_ok_def)
    have "p = rq" using k rq p distinct_key_unique[of rq_run "requests ?d" p rq] by (simp add: keys_ok_def)
    then show ?thesis using p by simp
  qed
  show ?thesis
    using rq c' req unfolding approvers_card[OF k, symmetric]
    by (intro bexI[of _ rq]) (auto simp: approvers_card[OF k] decision_count_def filter_empty_conv)
qed

section \<open>Recovery plans\<close>

definition preparation_errors :: "string set" where
  "preparation_errors = insert ''configuration changed since execution; restore original bindings before cleanup''
     (preparation_error ` {''parse'', ''config'', ''secrets'', ''template'', ''validate'', ''prepare''})"

lemma diagnostic_stage_range: "diagnostic_stage d \<in> set (''prepare'' # prepare_stages)"
  by (auto simp: diagnostic_stage_def find_Some_iff split: option.split dest: nth_mem)

lemma map_err_bind: "map_err f (res_bind m g) = res_bind (map_err f m) (\<lambda>x. map_err f (g x))"
  by (cases m) (simp_all add: map_err_def)

text \<open>Preparing a run for execution or recovery fails only with one of seven fixed messages:
  nothing the parser, the configuration, the secrets or the template engine reports, and so no
  resolved credential, reaches the error that is stored with the run.\<close>

theorem preparation_errors_are_fixed:
  "\<forall>e. plan_capture G toon vs = Inl e \<or> plan_prepare G plan = Inl e \<longrightarrow> e \<in> preparation_errors"
proof (intro allI impI)
  fix e
  assume e: "plan_capture G toon vs = Inl e \<or> plan_prepare G plan = Inl e"
  have st: "preparation_error (diagnostic_stage d) \<in> preparation_errors" for d
    using diagnostic_stage_range[of d] by (auto simp: preparation_errors_def prepare_stages_def)
  from e show "e \<in> preparation_errors"
    using st by (auto simp: plan_capture_def plan_prepare_def res_bind_Inl_iff map_err_Inl preparation_errors_def
      split: if_splits)
qed

text \<open>A captured recovery plan resolves to what the run resolved to: under the same environment
  it yields the same experiment and injected variables as preparing the request again, and fails
  exactly when that fails.\<close>

theorem plan_resolves_as_run:
  assumes "plan_capture G toon vs = Inr plan"
  shows "plan_prepare G plan = map_err (\<lambda>d. preparation_error (diagnostic_stage d)) (prepare_run G toon vs)"
proof -
  obtain def config where "eng_parse G toon = Inr def" "eng_resolve_config G (exp_configuration def) = Inr config"
    "plan = \<lparr> rp_definition = def, rp_vars = vs, rp_config_hash = eng_config_hash G config \<rparr>"
    using assms by (auto simp: plan_capture_def)
  then show ?thesis by (simp add: plan_prepare_def prepare_run_def map_err_def)
qed

section \<open>Accepting runs\<close>

lemma insert_run_context_Inr:
  assumes "insert_run_context E rid (ContextObject (PinString h) rest) actor s = (Inr (), s')"
  shows "\<exists>row. au_run row = rid \<and> au_event row = ''requested_context'' \<and> au_actor row = actor
    \<and> data s' = data s \<lparr> pins := pins (data s) @ [(rid, h)], audits := audits (data s) @ [row] \<rparr>"
proof -
  obtain u t where "execute E (\<lambda>d. ((), d \<lparr> pins := pins d @ [(rid, h)] \<rparr>)) s = (Inr u, t)"
    and i: "insert_run_audit E rid ''requested_context'' (Some rest) actor t = (Inr (), s')"
    using assms by (simp only: insert_run_context_def context_json.case pin_field.case seqc_Inr, elim exE conjE)
  then have t: "data t = data s \<lparr> pins := pins (data s) @ [(rid, h)] \<rparr>" by simp
  from insert_run_audit_Inr[OF i] obtain row where "au_run row = rid" "au_event row = ''requested_context''"
    "au_actor row = actor" "data s' = data t \<lparr> audits := audits (data t) @ [row] \<rparr>" by blast
  then show ?thesis using t by (intro exI[of _ row]) simp
qed

definition accepted :: "string \<Rightarrow> string option \<Rightarrow> string list \<Rightarrow> audit_row list \<Rightarrow> bool" where
  "accepted rid actor events rows \<longleftrightarrow> map au_event rows = events \<and> (\<forall>a \<in> set rows. au_run a = rid \<and> au_actor a = actor)"

lemma insert_run_with_context_Inr:
  assumes "insert_run_with_context E nr (Some (ContextObject (PinString h) rest)) s = (Inr (), s')"
  shows "\<exists>rows. accepted (nr_id nr) (nr_actor nr) [''enqueued'', ''requested_context''] rows
    \<and> data s' = data s \<lparr> runs := runs (data s) @ [new_row nr Queued], audits := audits (data s) @ rows,
        pins := pins (data s) @ [(nr_id nr, h)] \<rparr>"
proof -
  obtain u1 s1 u2 s2 s3 where r: "insert_row E nr Queued (s \<lparr> tick := tick s + 1 \<rparr>) = (Inr u1, s1)"
    and a: "insert_run_audit E (nr_id nr) ''enqueued'' None (nr_actor nr) s1 = (Inr u2, s2)"
    and c: "insert_run_context E (nr_id nr) (ContextObject (PinString h) rest) (nr_actor nr) s2 = (Inr (), s3)"
    and s': "s' = s3 \<lparr> tick := tick s3 + 1 \<rparr>"
    using with_tx_Inr[OF assms[unfolded insert_run_with_context_def]]
    by (elim exE conjE, simp only: seqc_Inr option.case, elim exE conjE) blast
  from insert_run_audit_Inr[OF a] obtain r1 where r1: "au_run r1 = nr_id nr" "au_event r1 = ''enqueued''" "au_actor r1 = nr_actor nr"
    "data s2 = data s1 \<lparr> audits := audits (data s1) @ [r1] \<rparr>" by blast
  from insert_run_context_Inr[OF c] obtain r2 where r2: "au_run r2 = nr_id nr" "au_event r2 = ''requested_context''"
    "au_actor r2 = nr_actor nr"
    "data s3 = data s2 \<lparr> pins := pins (data s2) @ [(nr_id nr, h)], audits := audits (data s2) @ [r2] \<rparr>" by blast
  show ?thesis using insert_row_Inr[OF r] r1 r2 s'
    by (intro exI[of _ "[r1, r2]"]) (simp add: accepted_def)
qed

lemma insert_gated_run_with_context_Inr:
  assumes "insert_gated_run_with_context E nr rq det (Some (ContextObject (PinString h) rest)) s = (Inr (), s')"
  shows "\<exists>rows. accepted (nr_id nr) (nr_actor nr) [''requested'', ''requested_context''] rows
    \<and> data s' = data s \<lparr> runs := runs (data s) @ [new_row nr PendingApproval], audits := audits (data s) @ rows,
        requests := requests (data s) @ [rq \<lparr> rq_consumed_at := None, rq_break_glass := False,
          rq_break_glass_by := None, rq_justification := None \<rparr>],
        pins := pins (data s) @ [(nr_id nr, h)] \<rparr>"
proof -
  obtain u1 s1 u0 s0 u2 s2 s3 where r: "insert_row E nr PendingApproval (s \<lparr> tick := tick s + 1 \<rparr>) = (Inr u1, s1)"
    and q: "insert_approval_request E rq s1 = (Inr u0, s0)"
    and a: "insert_run_audit E (nr_id nr) ''requested'' det (nr_actor nr) s0 = (Inr u2, s2)"
    and c: "insert_run_context E (nr_id nr) (ContextObject (PinString h) rest) (nr_actor nr) s2 = (Inr (), s3)"
    and s': "s' = s3 \<lparr> tick := tick s3 + 1 \<rparr>"
    using with_tx_Inr[OF assms[unfolded insert_gated_run_with_context_def]]
    by (elim exE conjE, simp only: seqc_Inr option.case, elim exE conjE) blast
  have q': "data s0 = data s1 \<lparr> requests := requests (data s1) @ [rq \<lparr> rq_consumed_at := None, rq_break_glass := False,
          rq_break_glass_by := None, rq_justification := None \<rparr>] \<rparr>"
    using q by (simp add: insert_approval_request_def)
  from insert_run_audit_Inr[OF a] obtain r1 where r1: "au_run r1 = nr_id nr" "au_event r1 = ''requested''" "au_actor r1 = nr_actor nr"
    "data s2 = data s0 \<lparr> audits := audits (data s0) @ [r1] \<rparr>" by blast
  from insert_run_context_Inr[OF c] obtain r2 where r2: "au_run r2 = nr_id nr" "au_event r2 = ''requested_context''"
    "au_actor r2 = nr_actor nr"
    "data s3 = data s2 \<lparr> pins := pins (data s2) @ [(nr_id nr, h)], audits := audits (data s2) @ [r2] \<rparr>" by blast
  show ?thesis using insert_row_Inr[OF r] q' r1 r2 s'
    by (intro exI[of _ "[r1, r2]"]) (simp add: accepted_def)
qed

lemma holding_permit_Inr: "holding_permit m q = (Inr x, q') \<longleftrightarrow> m (q \<lparr> q_permits := q_permits q - 1 \<rparr>) = (Inr x, q')"
  by (auto simp: holding_permit_def split: prod.splits sum.splits)

lemma check_expected_Inr [simp]: "check_expected expected h = Inr u \<longleftrightarrow> (\<forall>e. expected = Some e \<longrightarrow> e = h)"
  by (auto simp: check_expected_def split: option.split)

definition submitted :: "engine \<Rightarrow> string \<Rightarrow> run_request \<Rightarrow> string option \<Rightarrow> int \<Rightarrow> new_run" where
  "submitted G rid r actor now = \<lparr> nr_id = rid, nr_registry_id = req_registry_id r,
     nr_params_json = params_of G (req_vars r), nr_queued_at = now, nr_actor = actor \<rparr>"

text \<open>An accepted run is durable before it can execute: a successful enqueue took a permit,
  inserted the queued row, the fingerprint of the inputs it resolved (the one the caller
  previewed, if it named one) and two audit events of the caller in one transaction, and only
  then handed exactly this request, without approval pin, to the workers.\<close>

theorem enqueue_is_durable:
  assumes "enqueue_checked E G rid r actor expected q = (Inr rid', q')"
  shows "\<exists>x injected h now rows. rid' = rid
    \<and> prepare_run G (req_definition_toon r) (req_vars r) = Inr (x, injected) \<and> eng_execution_hash G x injected = Inr h
    \<and> (\<forall>e. expected = Some e \<longrightarrow> e = h) \<and> 0 < q_permits q \<and> q_permits q' = q_permits q - 1
    \<and> now = env_clock E (tick (q_store q))
    \<and> accepted rid actor [''enqueued'', ''requested_context''] rows
    \<and> data (q_store q') = data (q_store q) \<lparr> runs := runs (data (q_store q)) @ [new_row (submitted G rid r actor now) Queued],
        audits := audits (data (q_store q)) @ rows, pins := pins (data (q_store q)) @ [(rid, h)] \<rparr>
    \<and> q_channel q' = q_channel q @ [\<lparr> wi_run = rid, wi_request = r, wi_pin = None \<rparr>]"
proof -
  have p: "0 < q_permits q" "rid' = rid"
    and b: "enqueue_body E G rid r actor expected (q \<lparr> q_permits := q_permits q - 1 \<rparr>) = (Inr (), q')"
    using assms by (auto simp: enqueue_checked_def holding_permit_def split: if_splits prod.splits sum.splits)
  define now where "now = env_clock E (tick (q_store q))"
  define t where "t = (q_store q) \<lparr> tick := tick (q_store q) + 1 \<rparr>"
  obtain x injected h s1 where h: "prepare_run G (req_definition_toon r) (req_vars r) = Inr (x, injected)"
      "eng_execution_hash G x injected = Inr h" "\<forall>e. expected = Some e \<longrightarrow> e = h"
    and ins: "insert_run_with_context E (submitted G rid r actor now) (Some (request_context G r h)) t = (Inr (), s1)"
    and q': "q' = q \<lparr> q_permits := q_permits q - 1, q_store := s1,
        q_channel := q_channel q @ [\<lparr> wi_run = rid, wi_request = r, wi_pin = None \<rparr>] \<rparr>"
    using b unfolding enqueue_body_def by (auto simp: now_ns_eq submitted_def now_def t_def split: if_splits)
  have dt: "data t = data (q_store q)" by (simp add: t_def)
  from insert_run_with_context_Inr[OF ins[unfolded request_context_def]] obtain rows where
    "accepted rid actor [''enqueued'', ''requested_context''] rows"
    "data s1 = data (q_store q) \<lparr> runs := runs (data (q_store q)) @ [new_row (submitted G rid r actor now) Queued],
        audits := audits (data (q_store q)) @ rows, pins := pins (data (q_store q)) @ [(rid, h)] \<rparr>"
    by (auto simp: submitted_def dt)
  then show ?thesis using p h q' by (intro exI[of _ x] exI[of _ injected] exI[of _ h] exI[of _ now] exI[of _ rows]) (simp add: now_def)
qed

text \<open>A gated run is parked, not queued: a successful approval request is for a tier at least as
  high as the inputs resolve to now, inserts the pending row with a request that carries the
  canonical pin, the tier's quorum and its deadline, and gives the workers nothing.\<close>

theorem request_gated_parks:
  assumes "request_gated_checked E G rid r t actor expected q = (Inr rid', q')"
  shows "\<exists>x injected h now current rows. rid' = rid
    \<and> prepare_run G (req_definition_toon r) (req_vars r) = Inr (x, injected) \<and> eng_execution_hash G x injected = Inr h
    \<and> (\<forall>e. expected = Some e \<longrightarrow> e = h)
    \<and> classify_execution (eng_execution_hash G) (eng_bindings G) x injected (req_env r) (req_target r) False = Inr current
    \<and> current \<le> t \<and> accepted rid actor [''requested'', ''requested_context''] rows \<and> now = env_clock E (tick (q_store q))
    \<and> data (q_store q') = data (q_store q) \<lparr>
        runs := runs (data (q_store q)) @ [new_row (submitted G rid r actor now) PendingApproval],
        requests := requests (data (q_store q)) @ [approval_row E rid r t actor now],
        audits := audits (data (q_store q)) @ rows, pins := pins (data (q_store q)) @ [(rid, h)] \<rparr>
    \<and> q_channel q' = q_channel q \<and> q_permits q' = q_permits q"
proof -
  define now where "now = env_clock E (tick (q_store q))"
  define t0 where "t0 = (q_store q) \<lparr> tick := tick (q_store q) + 1 \<rparr>"
  obtain x injected h current s1 where h: "rid' = rid" "prepare_run G (req_definition_toon r) (req_vars r) = Inr (x, injected)"
      "classify_execution (eng_execution_hash G) (eng_bindings G) x injected (req_env r) (req_target r) False = Inr current"
      "\<not> t < current" "eng_execution_hash G x injected = Inr h" "\<forall>e. expected = Some e \<longrightarrow> e = h"
    and ins: "insert_gated_run_with_context E (submitted G rid r actor now) (approval_row E rid r t actor now)
        (Some (requested_detail t (canonical_pin E r))) (Some (request_context G r h)) t0 = (Inr (), s1)"
    and q': "q' = q \<lparr> q_store := s1 \<rparr>"
    using assms unfolding request_gated_checked_def by (auto simp: now_ns_eq submitted_def now_def t0_def)
  have dt: "data t0 = data (q_store q)" by (simp add: t0_def)
  have a: "approval_row E rid r t actor now \<lparr> rq_consumed_at := None, rq_break_glass := False,
      rq_break_glass_by := None, rq_justification := None \<rparr> = approval_row E rid r t actor now"
    by (simp add: approval_row_def)
  have n: "nr_id (submitted G rid r actor now) = rid" "nr_actor (submitted G rid r actor now) = actor"
    by (simp_all add: submitted_def)
  from insert_gated_run_with_context_Inr[OF ins[unfolded request_context_def], unfolded a n dt] obtain rows where
    "accepted rid actor [''requested'', ''requested_context''] rows"
    "data s1 = data (q_store q) \<lparr> runs := runs (data (q_store q)) @ [new_row (submitted G rid r actor now) PendingApproval],
        audits := audits (data (q_store q)) @ rows,
        requests := requests (data (q_store q)) @ [approval_row E rid r t actor now],
        pins := pins (data (q_store q)) @ [(rid, h)] \<rparr>" by blast
  then show ?thesis using h q' leI[of t current]
    by (intro exI[of _ x] exI[of _ injected] exI[of _ h] exI[of _ now] exI[of _ current] exI[of _ rows]) (simp add: now_def)
qed

end
