(* ===== verification/Run_Worker.thy ===== *)
theory Run_Worker
  imports Run_Queue
begin

text \<open>
  The worker of the run queue (\<open>tumult-ingest/src/runs/worker.rs\<close>) as a machine of
  small steps: between two of its awaits another task may run, so \<open>process\<close> is cut at
  every await and at every read of shared state. Each step does what the code does
  between two such points and says where it continues. The experiment runner and the
  rollback run are blocking tasks; what they return is an argument of the step.
\<close>

section \<open>Pure parts\<close>

fun terminal_state :: "experiment_status \<Rightarrow> run_state" where
  "terminal_state Completed = Passed"
| "terminal_state Deviated = RDeviated"
| "terminal_state Failed = RFailed"
| "terminal_state Aborted = RAborted"
| "terminal_state Interrupted = RAborted"
| "terminal_state Halted = RAborted"

definition completion_state :: "journal \<Rightarrow> run_state" where
  "completion_state j = (if 0 < jr_rollback_failures j then RollbackPending else terminal_state (jr_status j))"

definition rollback_text :: "journal \<Rightarrow> string" where
  "rollback_text j = (if jr_rollback j = [] then ''not_needed''
     else if jr_rollback_failures j = 0 then ''completed'' else ''failed'')"

text \<open>\<open>>\<close> on strings is lexicographic in the bytes.\<close>

fun str_less :: "string \<Rightarrow> string \<Rightarrow> bool" where
  "str_less [] t = (t \<noteq> [])"
| "str_less (c # cs) [] = False"
| "str_less (c # cs) (d # ds) = ((of_char c :: nat) < of_char d \<or> c = d \<and> str_less cs ds)"

definition count_failures :: "activity_result list \<Rightarrow> nat" where
  "count_failures rs = length (filter (\<lambda>r. res_status r \<noteq> ActSucceeded) rs)"

section \<open>Checks before an execution\<close>

definition verify_approval :: "env \<Rightarrow> string \<Rightarrow> run_request \<Rightarrow> string option \<Rightarrow> (qstate, string, unit) comp" where
  "verify_approval E rid r expected_pin = (case expected_pin of
     None \<Rightarrow> ret ()
   | Some expected \<Rightarrow>
       (let actual = canonical_pin E r in
        if actual \<noteq> expected
        then fail (''approval pin mismatch (approved '' @ expected @ '', resolves to '' @ actual @ '') '' @ em_dash
           @ '' definition, params, env or target edited after approval'')
        else bindc (seqc (on_store (stmt E))
            (with_err (\<lambda>e. ''approval re-read failed: '' @ e) (on_store (approval_request E rid)))) (\<lambda>req. case req of
          None \<Rightarrow> fail ''approval request missing''
        | Some q \<Rightarrow>
            if rq_consumed_at q \<noteq> None then fail (''approval already consumed '' @ em_dash @ '' single-use'')
            else if rq_break_glass q then ret ()
            else bindc (on_store (now_ns E)) (\<lambda>now.
              if rq_expires_at q < now then fail ''approval expired before dispatch'' else ret ()))))"

definition first_actor :: "audit_row list \<Rightarrow> string option" where
  "first_actor rows = (case find (\<lambda>r. au_actor r \<noteq> None) rows of Some r \<Rightarrow> au_actor r | None \<Rightarrow> None)"

definition validate_dispatch_context ::
    "env \<Rightarrow> engine \<Rightarrow> string \<Rightarrow> run_request \<Rightarrow> chaos_experiment \<Rightarrow> vars \<Rightarrow> (qstate, string, unit) comp" where
  "validate_dispatch_context E G rid r e injected =
    bindc (fresh_read E (run_audit_trail E rid)) (\<lambda>audit.
    bindc (from_result (map_err refusal_str (actor_requires_binding (eng_users G) (first_actor audit) (req_env r)))) (\<lambda>requires.
    bindc (on_store (approval_request E rid)) (\<lambda>approval.
    bindc (on_store (run_execution_hash E rid)) (\<lambda>recorded.
    seqc (case recorded of
        Some h \<Rightarrow> bindc (from_result (map_err refusal_str (eng_execution_hash G e injected))) (\<lambda>current.
          ensure (current = h)
            ''resolved configuration or credentials changed after submission; submit for approval again'')
      | None \<Rightarrow> ensure (first_actor audit = None \<and> approval = None)
            ''run has no pinned execution fingerprint; submit it again'')
      (if first_actor audit = None \<and> approval = None then ret ()
       else bindc (from_result (map_err refusal_str (classify_execution (eng_execution_hash G) (eng_bindings G)
             e injected (req_env r) (req_target r) requires))) (\<lambda>t.
         ensure (\<not> str_less (case approval of Some q \<Rightarrow> rq_tier q | None \<Rightarrow> ''T0'') (tier_as_str t))
           ''resolved execution requires a higher approval tier; submit for approval again''))))))"

section \<open>Completion\<close>

text \<open>\<open>ingest_journal\<close>: a journal already present is skipped; otherwise its rows commit
  together. The rows of one journal count as one statement.\<close>

definition ingest_journal :: "env \<Rightarrow> journal \<Rightarrow> (qstate, string, unit) comp" where
  "ingest_journal E j =
    seqc (on_store (stmt E))
    (\<lambda>q. if jr_experiment_id j \<in> jr_experiment_id ` set (q_evidence q) then (Inr (), q)
      else seqc (on_store (stmt E)) (seqc (on_store (stmt E)) (seqc (on_store (stmt E))
        (\<lambda>q. (Inr (), q \<lparr> q_evidence := q_evidence q @ [j] \<rparr>)))) q)"

definition is_cancelled :: "string \<Rightarrow> qstate \<Rightarrow> bool" where
  "is_cancelled rid q = (q_tokens q rid = Some True)"

text \<open>The closure of \<open>record_completion\<close>, one job on the single writer.\<close>

definition record_completion :: "env \<Rightarrow> string \<Rightarrow> journal \<Rightarrow> (qstate, string, unit) comp" where
  "record_completion E rid j = (\<lambda>q.
     if is_cancelled rid q \<and> jr_status j \<noteq> Interrupted
     then (Inl ''stop accepted before completion; cleanup required'', q)
     else seqc (ingest_journal E j)
       (on_store (finish_run E rid (completion_state j) (Some (jr_experiment_id j)) (Some (rollback_text j)) None)) q)"

definition record_failure :: "env \<Rightarrow> string \<Rightarrow> string \<Rightarrow> qstate \<Rightarrow> qstate" where
  "record_failure E rid err q = snd (on_store (fail_run E rid err) q)"

text \<open>What the blocking tasks return.\<close>

datatype runner_outcome = RunnerJournal journal | RunnerError string | RunnerPanic string

datatype cleanup_outcome = CleanupDone "activity_result list" | CleanupPanic string

record task_results =
  tr_runner :: runner_outcome
  tr_cleanup :: cleanup_outcome

text \<open>\<open>u64::try_from((ended - started) / 1_000_000).unwrap_or(0)\<close>; Rust divides towards zero.\<close>

definition duration_ms :: "int \<Rightarrow> int \<Rightarrow> nat" where
  "duration_ms started ended = (if ended < started then 0 else nat ((ended - started) div 1000000))"

text \<open>The journal a late stop leaves: interrupted, with the cleanup's results when the runner
  did none.\<close>

definition late_stop_journal :: "journal \<Rightarrow> activity_result list option \<Rightarrow> int \<Rightarrow> journal" where
  "late_stop_journal j results ended =
    (let j1 = j \<lparr> jr_status := Interrupted, jr_analysis := None \<rparr>;
         j2 = (case results of None \<Rightarrow> j1
             | Some rs \<Rightarrow> j1 \<lparr> jr_rollback_failures := min u32_max (count_failures rs), jr_rollback := rs \<rparr>)
     in j2 \<lparr> jr_ended_at := ended, jr_duration_ms := duration_ms (jr_started_at j2) ended \<rparr>)"

section \<open>The worker's steps\<close>

datatype wpc =
    WTake
  | WCheckState
  | WVerify
  | WRefuse string
  | WClaim
  | WCapture
  | WContext recovery_plan chaos_experiment vars
  | WCheckToken recovery_plan chaos_experiment vars
  | WBegin recovery_plan chaos_experiment vars
  | WExecute chaos_experiment vars
  | WComplete chaos_experiment journal
  | WLateStop chaos_experiment journal
  | WCleanup chaos_experiment journal
  | WRetry chaos_experiment journal
  | WFail string
  | WRelease
  | WEnd

record worker =
  wk_item :: work_item
  wk_pc :: wpc

abbreviation goto :: "worker \<Rightarrow> wpc \<Rightarrow> qstate \<Rightarrow> worker \<times> qstate" where
  "goto w pc q \<equiv> (w \<lparr> wk_pc := pc \<rparr>, q)"

definition branch :: "worker \<Rightarrow> (qstate, string, 'a) comp \<Rightarrow> (string \<Rightarrow> wpc) \<Rightarrow> ('a \<Rightarrow> wpc) \<Rightarrow> qstate \<Rightarrow> worker \<times> qstate" where
  "branch w m err ok q = (case m q of (Inl e, q') \<Rightarrow> goto w (err e) q' | (Inr x, q') \<Rightarrow> goto w (ok x) q')"

definition step_take :: "worker \<Rightarrow> qstate \<Rightarrow> worker \<times> qstate" where
  "step_take w q =
    (let q1 = q \<lparr> q_permits := q_permits q + 1 \<rparr>; rid = wi_run (wk_item w)
     in if q_tokens q1 rid \<noteq> None then goto w WEnd q1
        else goto w WCheckState (q1 \<lparr> q_tokens := (q_tokens q1)(rid \<mapsto> False) \<rparr>))"

definition step_check_state :: "env \<Rightarrow> worker \<Rightarrow> qstate \<Rightarrow> worker \<times> qstate" where
  "step_check_state E w q = (case read_run_state E (wi_run (wk_item w)) q of
     (st, q') \<Rightarrow> goto w (if st = Some Queued then WVerify else WRelease) q')"

definition step_verify :: "env \<Rightarrow> worker \<Rightarrow> qstate \<Rightarrow> worker \<times> qstate" where
  "step_verify E w q = branch w (verify_approval E (wi_run (wk_item w)) (wi_request (wk_item w)) (wi_pin (wk_item w)))
     WRefuse (\<lambda>_. WClaim) q"

definition step_refuse :: "env \<Rightarrow> worker \<Rightarrow> string \<Rightarrow> qstate \<Rightarrow> worker \<times> qstate" where
  "step_refuse E w reason q = (let rid = wi_run (wk_item w) in
     goto w WRelease (snd (on_store (seqc (insert_run_audit E rid ''dispatch_refused'' (Some reason) None)
       (fail_run E rid reason)) q)))"

definition step_claim :: "env \<Rightarrow> worker \<Rightarrow> qstate \<Rightarrow> worker \<times> qstate" where
  "step_claim E w q = branch w (on_store (claim_run E (wi_run (wk_item w)))) (\<lambda>_. WRelease) (\<lambda>_. WCapture) q"

definition step_capture :: "engine \<Rightarrow> worker \<Rightarrow> qstate \<Rightarrow> worker \<times> qstate" where
  "step_capture G w q = (let r = wi_request (wk_item w) in
     case plan_capture G (req_definition_toon r) (req_vars r) of
       Inl e \<Rightarrow> goto w (WFail e) q
     | Inr plan \<Rightarrow> (case plan_prepare G plan of
         Inl e \<Rightarrow> goto w (WFail e) q
       | Inr (e, injected) \<Rightarrow> goto w (WContext plan e injected) q))"

definition step_context :: "env \<Rightarrow> engine \<Rightarrow> worker \<Rightarrow> recovery_plan \<Rightarrow> chaos_experiment \<Rightarrow> vars \<Rightarrow> qstate \<Rightarrow> worker \<times> qstate" where
  "step_context E G w plan e injected q =
    branch w (validate_dispatch_context E G (wi_run (wk_item w)) (wi_request (wk_item w)) e injected)
      WFail (\<lambda>_. WCheckToken plan e injected) q"

definition step_begin :: "env \<Rightarrow> engine \<Rightarrow> worker \<Rightarrow> recovery_plan \<Rightarrow> chaos_experiment \<Rightarrow> vars \<Rightarrow> qstate \<Rightarrow> worker \<times> qstate" where
  "step_begin E G w plan e injected q =
    branch w (on_store (begin_run_execution E (wi_run (wk_item w)) (eng_plan_text G plan) (wi_pin (wk_item w))))
      WFail (\<lambda>_. WExecute e injected) q"

definition step_execute :: "task_results \<Rightarrow> worker \<Rightarrow> chaos_experiment \<Rightarrow> qstate \<Rightarrow> worker \<times> qstate" where
  "step_execute T w e q = (case tr_runner T of
     RunnerJournal j \<Rightarrow> goto w (WComplete e j) q
   | RunnerError err \<Rightarrow> goto w (WFail (''runner: '' @ err)) q
   | RunnerPanic err \<Rightarrow> goto w (WFail (''runner task: '' @ err)) q)"

definition step_complete :: "env \<Rightarrow> worker \<Rightarrow> chaos_experiment \<Rightarrow> journal \<Rightarrow> qstate \<Rightarrow> worker \<times> qstate" where
  "step_complete E w e j q = branch w (record_completion E (wi_run (wk_item w)) j)
     (\<lambda>_. WLateStop e j) (\<lambda>_. WRelease) q"

text \<open>A stop that arrived after the runner returned: clean up unless the runner already did.\<close>

definition step_late_stop :: "env \<Rightarrow> worker \<Rightarrow> chaos_experiment \<Rightarrow> journal \<Rightarrow> qstate \<Rightarrow> worker \<times> qstate" where
  "step_late_stop E w e j q =
    (if is_cancelled (wi_run (wk_item w)) q \<and> jr_status j \<noteq> Interrupted
     then if jr_rollback j = [] then goto w (WCleanup e j) q
          else goto w (WRetry e (late_stop_journal j None (env_clock E (tick (q_store q))))) q
     else goto w WRelease q)"

definition step_cleanup :: "env \<Rightarrow> task_results \<Rightarrow> worker \<Rightarrow> chaos_experiment \<Rightarrow> journal \<Rightarrow> qstate \<Rightarrow> worker \<times> qstate" where
  "step_cleanup E T w e j q = (case tr_cleanup T of
     CleanupDone rs \<Rightarrow> goto w (WRetry e (late_stop_journal j (Some rs) (env_clock E (tick (q_store q))))) q
   | CleanupPanic err \<Rightarrow> goto w (WFail (''late-stop cleanup: '' @ err)) q)"

definition worker_step :: "env \<Rightarrow> engine \<Rightarrow> task_results \<Rightarrow> worker \<Rightarrow> qstate \<Rightarrow> worker \<times> qstate" where
  "worker_step E G T w q = (let rid = wi_run (wk_item w) in case wk_pc w of
     WTake \<Rightarrow> step_take w q
   | WCheckState \<Rightarrow> step_check_state E w q
   | WVerify \<Rightarrow> step_verify E w q
   | WRefuse reason \<Rightarrow> step_refuse E w reason q
   | WClaim \<Rightarrow> step_claim E w q
   | WCapture \<Rightarrow> step_capture G w q
   | WContext plan e injected \<Rightarrow> step_context E G w plan e injected q
   | WCheckToken plan e injected \<Rightarrow> goto w (if is_cancelled rid q then WRelease else WBegin plan e injected) q
   | WBegin plan e injected \<Rightarrow> step_begin E G w plan e injected q
   | WExecute e injected \<Rightarrow> step_execute T w e q
   | WComplete e j \<Rightarrow> step_complete E w e j q
   | WLateStop e j \<Rightarrow> step_late_stop E w e j q
   | WCleanup e j \<Rightarrow> step_cleanup E T w e j q
   | WRetry e j \<Rightarrow> goto w WRelease (snd (record_completion E rid j q))
   | WFail err \<Rightarrow> goto w WRelease (record_failure E rid err q)
   | WRelease \<Rightarrow> goto w WEnd (q \<lparr> q_tokens := (q_tokens q)(rid := None) \<rparr>)
   | WEnd \<Rightarrow> (w, q))"

text \<open>\<open>process\<close> alone, with nothing in between: at most seventeen steps.\<close>

fun run_worker :: "nat \<Rightarrow> env \<Rightarrow> engine \<Rightarrow> task_results \<Rightarrow> worker \<Rightarrow> qstate \<Rightarrow> worker \<times> qstate" where
  "run_worker 0 E G T w q = (w, q)"
| "run_worker (Suc n) E G T w q = (case worker_step E G T w q of (w', q') \<Rightarrow> run_worker n E G T w' q')"

definition process :: "env \<Rightarrow> engine \<Rightarrow> task_results \<Rightarrow> work_item \<Rightarrow> qstate \<Rightarrow> worker \<times> qstate" where
  "process E G T item q = run_worker 17 E G T \<lparr> wk_item = item, wk_pc = WTake \<rparr> q"

end
