(* ===== verification/Run_Reconcile.thy ===== *)
theory Run_Reconcile
  imports Run_Worker
begin

text \<open>
  Crash recovery at daemon start (\<open>tumult-ingest/src/runs/reconcile.rs\<close>): the runs a
  previous process left active are marked orphaned, their rollbacks attempted and the
  outcome recorded. The rollback runs themselves are returned as a log: which run's
  rollback was executed with which resolved experiment, in order.
\<close>

datatype orphan_outcome = NothingExecuted | RolledBack | RollbackFailed string

type_synonym rollback_log = "(string \<times> chaos_experiment) list"

definition prepare_orphan :: "engine \<Rightarrow> active_run \<Rightarrow> (string, chaos_experiment \<times> vars) result" where
  "prepare_orphan G a = (case ar_plan_json a of
     Some p \<Rightarrow> res_bind (map_err (\<lambda>e. ''invalid persisted recovery plan: '' @ e) (eng_plan_parse G p)) (plan_prepare G)
   | None \<Rightarrow> res_bind (case run_params_json (ar_run a) of
         None \<Rightarrow> Inr Map.empty
       | Some p \<Rightarrow> map_err (\<lambda>e. ''invalid saved parameters: '' @ e) (eng_params_parse G p))
       (prepare_run G (ar_definition_toon a)))"

definition execution_started :: "run_row \<Rightarrow> bool" where
  "execution_started r \<longleftrightarrow> run_started_at r \<noteq> None \<or> run_st r \<in> {Running, Stopping, RollbackPending}"

text \<open>A best-effort write: its failure is logged and ignored.\<close>

definition try_write :: "unit writer \<Rightarrow> qstate \<Rightarrow> qstate" where
  "try_write m q = snd (on_store m q)"

definition failed_names :: "activity_result list \<Rightarrow> string list" where
  "failed_names rs = map res_name (filter (\<lambda>r. res_status r \<noteq> ActSucceeded) rs)"

definition rollback_verdict :: "cleanup_outcome \<Rightarrow> string \<times> orphan_outcome" where
  "rollback_verdict c = (case c of
     CleanupDone rs \<Rightarrow> if failed_names rs = [] then (''rollback_completed'', RolledBack)
       else (''rollback_failed'', RollbackFailed (''rollback activities failed: '' @ intersperse_str '', '' (failed_names rs)))
   | CleanupPanic e \<Rightarrow> (''rollback_failed'', RollbackFailed (''rollback task: '' @ e)))"

definition attempt_orphan_rollback ::
    "env \<Rightarrow> (string \<Rightarrow> cleanup_outcome) \<Rightarrow> string \<Rightarrow> (string, chaos_experiment \<times> vars) result \<Rightarrow> qstate
      \<Rightarrow> orphan_outcome \<times> rollback_log \<times> qstate" where
  "attempt_orphan_rollback E cleanup rid prepared q =
    (let q1 = try_write (insert_run_audit E rid ''rollback_started'' (Some ''orphan recovery'') None) q in
     case prepared of
       Inl e \<Rightarrow> (RollbackFailed (if starts_with e ''parse:'' then ''definition unparseable: '' @ e else e), [], q1)
     | Inr (x, injected) \<Rightarrow>
         (case rollback_verdict (cleanup rid) of (event, outcome) \<Rightarrow>
           (outcome, [(rid, x)], try_write (insert_run_audit E rid event None None) q1)))"

definition finish_orphan :: "env \<Rightarrow> string \<Rightarrow> orphan_outcome \<Rightarrow> unit writer" where
  "finish_orphan E rid oc = (case oc of
     NothingExecuted \<Rightarrow> finish_run E rid RAborted None (Some ''not_needed'') (Some ''orphaned before execution'')
   | RolledBack \<Rightarrow> finish_run E rid RAborted None (Some ''completed'') (Some ''orphaned; rollback completed after restart'')
   | RollbackFailed e \<Rightarrow> finish_run E rid RollbackPending None (Some ''failed'') (Some e))"

definition reconcile_one :: "env \<Rightarrow> engine \<Rightarrow> (string \<Rightarrow> cleanup_outcome) \<Rightarrow> active_run \<Rightarrow> qstate \<Rightarrow> rollback_log \<times> qstate" where
  "reconcile_one E G cleanup a q =
    (let rid = run_id (ar_run a);
         q1 = try_write (set_run_state_with E rid Orphaned (Some ''orphan_detected'')
           (Some ''daemon restarted; run was owned by a previous process'') None) q
     in case (if execution_started (ar_run a)
              then attempt_orphan_rollback E cleanup rid (prepare_orphan G a) q1
              else (NothingExecuted, [], q1)) of
          (oc, lg, q2) \<Rightarrow> (lg, try_write (finish_orphan E rid oc) q2))"

fun reconcile_all :: "env \<Rightarrow> engine \<Rightarrow> (string \<Rightarrow> cleanup_outcome) \<Rightarrow> active_run list \<Rightarrow> qstate \<Rightarrow> rollback_log \<times> qstate" where
  "reconcile_all E G cleanup [] q = ([], q)"
| "reconcile_all E G cleanup (a # as) q = (case reconcile_one E G cleanup a q of (lg, q1) \<Rightarrow>
     (case reconcile_all E G cleanup as q1 of (lgs, q2) \<Rightarrow> (lg @ lgs, q2)))"

definition read_orphans :: "env \<Rightarrow> (qstate, string, active_run list) comp" where
  "read_orphans E = seqc (with_err (\<lambda>e. ''open store read-only: '' @ e) (on_store (stmt E))) (on_store (active_runs E))"

definition reconcile_orphans ::
    "env \<Rightarrow> engine \<Rightarrow> (string \<Rightarrow> cleanup_outcome) \<Rightarrow> qstate \<Rightarrow> (string, nat) result \<times> rollback_log \<times> qstate" where
  "reconcile_orphans E G cleanup q = (case read_orphans E q of
     (Inl e, q1) \<Rightarrow> (Inl e, [], q1)
   | (Inr orphans, q1) \<Rightarrow> (case reconcile_all E G cleanup orphans q1 of
       (lg, q2) \<Rightarrow> (Inr (length orphans), lg, q2)))"

section \<open>Properties\<close>

text \<open>The rollback a row calls for, from the row alone.\<close>

definition due_rollback :: "engine \<Rightarrow> active_run \<Rightarrow> rollback_log" where
  "due_rollback G a = (if execution_started (ar_run a)
     then (case prepare_orphan G a of Inr (x, injected) \<Rightarrow> [(run_id (ar_run a), x)] | Inl e \<Rightarrow> []) else [])"

lemma reconcile_one_log: "fst (reconcile_one E G cleanup a q) = due_rollback G a"
  by (auto simp: reconcile_one_def due_rollback_def attempt_orphan_rollback_def Let_def
      split: prod.split sum.split)

lemma reconcile_all_log: "fst (reconcile_all E G cleanup as q) = concat (map (due_rollback G) as)"
proof (induction as arbitrary: q)
  case (Cons a as)
  show ?case
    using reconcile_one_log[of E G cleanup a q] Cons.IH
    by (auto split: prod.split) (metis fst_conv)
qed simp

text \<open>C23: once the active runs were read, recovery executes the rollback of every run whose
  execution started and whose definition can still be resolved, in queue order and exactly once,
  whichever of the state and audit writes fail; it skips the runs that never started and counts
  every orphan.\<close>

theorem reconcile_always_rolls_back:
  assumes "env_io E (tick (q_store q)) = None" "env_io E (tick (q_store q) + 1) = None"
  shows "fst (reconcile_orphans E G cleanup q) = Inr (length (active_run_rows (data (q_store q))))
    \<and> fst (snd (reconcile_orphans E G cleanup q)) = concat (map (due_rollback G) (active_run_rows (data (q_store q))))"
proof -
  obtain q1 where r: "read_orphans E q = (Inr (active_run_rows (data (q_store q))), q1)"
    using assms by (simp add: read_orphans_def with_err_def on_store_def exec_write_def put_store_def active_runs_def
        query_def seqc_def bindc_def stmt_def map_err_def)
  show ?thesis
    using reconcile_all_log[of E G cleanup "active_run_rows (data (q_store q))" q1]
    by (auto simp: reconcile_orphans_def r split: prod.split)
qed

end
