(* ===== verification/Daemon_Steps.thy ===== *)
theory Daemon_Steps
  imports Run_Lifecycle Queue_Props Run_Reconcile
begin

text \<open>
  What each operation of the queue and each step of a worker does to the daemon's shared
  state: the store moves by forward steps only, and permits, channel and tokens change
  exactly where the code touches them.
\<close>

section \<open>Every write is a step of the store\<close>

interpretation stepping: comp_order "forward_steps E" for E
  by unfold_locales auto

lemma tick_step [simp]: "tick s \<le> n \<Longrightarrow> forward_steps E s (s \<lparr> tick := n \<rparr>)"
  by (rule r_into_rtranclp) (rule forward_step.idle)

lemma steps_query [simp, intro]: "obeys (forward_steps E) (query E f)"
  by (auto simp: obeys_def dest!: query_cases(1))

lemma steps_stmt [simp, intro]: "obeys (forward_steps E) (stmt E)" "obeys (forward_steps E) (now_ns E)"
  by (auto simp: obeys_def stmt_eq now_ns_eq)

lemma steps_exec: "forward op \<Longrightarrow> (\<And>d. fresh_op op d) \<Longrightarrow> obeys (forward_steps E) (exec_op E op)"
  by (auto simp: obeys_def intro: forward_step.step)

lemma steps_ops [simp, intro]:
  "obeys (forward_steps E) (claim_run E rid)"
  "obeys (forward_steps E) (begin_run_execution E rid plan pin)"
  "obeys (forward_steps E) (request_run_stop E rid act)"
  "obeys (forward_steps E) (fail_run E rid err)"
  "obeys (forward_steps E) (insert_run_audit E rid event det act)"
  using steps_exec[of "Claim rid" E] steps_exec[of "Begin rid plan pin" E] steps_exec[of "Stop rid act" E] steps_exec[of "FailRun rid err" E]
    steps_exec[of "Audit rid event det act" E] by simp_all

lemma steps_set_state: "st = Queued \<or> \<not> early st \<Longrightarrow> obeys (forward_steps E) (set_run_state_with E rid st ev det act)"
  using steps_exec[of "SetState rid st ev det act" E] by simp

lemma steps_finish: "\<not> early st \<Longrightarrow> obeys (forward_steps E) (finish_run E rid st eid rb err)"
  using steps_exec[of "Finish rid st eid rb err" E] by simp

definition writes :: "env \<Rightarrow> qstate \<Rightarrow> qstate \<Rightarrow> bool" where
  "writes E q q' \<longleftrightarrow> (\<exists>t. q' = q \<lparr> q_store := t \<rparr> \<and> forward_steps E (q_store q) t)"

lemma writes_refl [simp]: "writes E q q"
  by (auto simp: writes_def intro!: exI[of _ "q_store q"])

interpretation writing: comp_order "writes E" for E
proof unfold_locales
  show "writes E q q" for q by simp
  show "writes E q q''" if "writes E q q'" "writes E q' q''" for q q' q''
    using that unfolding writes_def by (elim exE conjE) (metis (no_types, lifting) qstate.select_convs(1)
      qstate.surjective qstate.update_convs(1) rtranclp_trans)
qed

lemma writes_on_store: "obeys (forward_steps E) m \<Longrightarrow> obeys (writes E) (on_store m)"
  by (auto simp: obeys_def on_store_eq writes_def)

lemma only_time_writes: "only_time q q' \<Longrightarrow> writes E q q'"
  by (auto simp: only_time_def writes_def)

lemma reads_write: "reads m \<Longrightarrow> obeys (writes E) m"
  by (erule obeys_weaken) (rule only_time_writes)

lemma writes_reads [simp, intro]:
  "obeys (writes E) (on_store (query E f))" "obeys (writes E) (fresh_read E (query E f))"
  "obeys (writes E) (on_store (now_ns E))" "obeys (writes E) (on_store (stmt E))"
  by (simp_all add: reads_write)

text \<open>A write whose freshness depends on the tables, behind reads.\<close>

definition writes_when :: "env \<Rightarrow> (db \<Rightarrow> bool) \<Rightarrow> (qstate, 'e, 'a) comp \<Rightarrow> bool" where
  "writes_when E P m \<longleftrightarrow> (\<forall>q r q'. P (data (q_store q)) \<longrightarrow> m q = (r, q') \<longrightarrow> writes E q q')"

lemma writes_whenD: "writes_when E P m \<Longrightarrow> P (data (q_store q)) \<Longrightarrow> m q = (r, q') \<Longrightarrow> writes E q q'"
  by (auto simp: writes_when_def)

lemma writes_when_bindc: "reads m \<Longrightarrow> (\<And>x. writes_when E P (f x)) \<Longrightarrow> writes_when E P (bindc m f)"
  unfolding writes_when_def bindc_eq obeys_def
  by (metis only_timeD(1) only_time_writes writing.le_trans)

lemma writes_when_seqc: "reads m \<Longrightarrow> writes_when E P n \<Longrightarrow> writes_when E P (seqc m n)"
  by (simp add: seqc_def writes_when_bindc)

lemma writes_when_then: "writes_when E P m \<Longrightarrow> obeys (writes E) n \<Longrightarrow> writes_when E P (seqc m n)"
  unfolding writes_when_def seqc_def bindc_eq obeys_def by (metis writing.le_trans)

lemma writes_when_pair: "(\<And>a b. writes_when E P (f a b)) \<Longrightarrow> writes_when E P (case p of (a, b) \<Rightarrow> f a b)"
  by (cases p) simp

lemma writes_when_with_err: "writes_when E P m \<Longrightarrow> writes_when E P (with_err f m)"
  by (auto simp: writes_when_def with_err_eq)

lemmas writes_when_rules = writes_when_with_err writes_when_bindc writes_when_seqc writes_when_pair

lemma writesD:
  "writes E q q' \<Longrightarrow> q_tokens q' = q_tokens q" "writes E q q' \<Longrightarrow> q_permits q' = q_permits q"
  "writes E q q' \<Longrightarrow> q_channel q' = q_channel q" "writes E q q' \<Longrightarrow> q_open q' = q_open q"
  "writes E q q' \<Longrightarrow> q_evidence q' = q_evidence q" "writes E q q' \<Longrightarrow> forward_steps E (q_store q) (q_store q')"
  by (auto simp: writes_def)

lemma writes_check_approval: "obeys (writes E) (check_approval E rid rq)"
  unfolding check_approval_def approval_decisions_def Let_def
  by (intro writing.obeys_rules obeys_with_err writes_reads)

lemma writes_dispatch_lookup: "obeys (writes E) (dispatch_lookup E G rid)"
  unfolding dispatch_lookup_def run_get_def approval_request_def registry_definition_def Let_def
  by (intro writing.obeys_rules obeys_with_err writes_reads writes_check_approval)

lemma writes_verify_approval: "obeys (writes E) (verify_approval E rid r pin)"
  unfolding verify_approval_def approval_request_def Let_def
  by (intro writing.obeys_rules obeys_with_err writes_reads)

lemma writes_validate: "obeys (writes E) (validate_dispatch_context E G rid r e injected)"
  unfolding validate_dispatch_context_def run_audit_trail_def approval_request_def run_execution_hash_def Let_def
  by (intro writing.obeys_rules obeys_with_err obeys_from_result writes_reads writing.le_refl)

lemma writes_read_run_state: "writes E q (snd (read_run_state E rid q))"
proof -
  have "obeys (writes E) (fresh_read E (run_get E rid))" by (simp add: run_get_def)
  then show ?thesis
    by (auto simp: read_run_state_def obeys_def split: prod.split sum.split option.split)
qed

lemma writes_insert_run: "nr_id nr = rid \<Longrightarrow>
    writes_when E (\<lambda>d. rid \<notin> known_runs d) (on_store (insert_run_with_context E nr c))"
  using forward_step.step[of "InsertRun nr c"] by (fastforce simp: writes_when_def on_store_eq writes_def)

lemma writes_insert_gated: "nr_id nr = rid \<Longrightarrow> rq_run rq = rid \<Longrightarrow>
    writes_when E (\<lambda>d. rid \<notin> known_runs d) (on_store (insert_gated_run_with_context E nr rq det c))"
  using forward_step.step[of "InsertGated nr rq det c"] by (fastforce simp: writes_when_def on_store_eq writes_def)

section \<open>Effects on the queue\<close>

text \<open>Everything the API calls and the sweeper does keeps the slots of the queue balanced and
  registers or releases no token.\<close>

definition balanced :: "env \<Rightarrow> qstate \<Rightarrow> qstate \<Rightarrow> bool" where
  "balanced E q q' \<longleftrightarrow> forward_steps E (q_store q) (q_store q')
     \<and> q_permits q' + length (q_channel q') = q_permits q + length (q_channel q)
     \<and> dom (q_tokens q') = dom (q_tokens q)"

interpretation balance: comp_order "balanced E" for E
  by unfold_locales (auto simp: balanced_def intro: rtranclp_trans)

lemma writes_balanced: "writes E q q' \<Longrightarrow> balanced E q q'"
  by (auto simp: balanced_def writes_def)

lemma obeys_writes_balanced: "obeys (writes E) m \<Longrightarrow> obeys (balanced E) m"
  by (erule obeys_weaken) (rule writes_balanced)

lemma obeys_snd: "obeys R m \<Longrightarrow> R q (snd (m q))"
  by (simp add: obeys_def prod_eq_iff)

lemma cancel_token_balanced: "balanced E q (cancel_token rid q)"
  by (auto simp: balanced_def cancel_token_def split: option.split)

lemma stop_run_balanced:
  assumes "stop_run E rid actor q = (r, q')"
  shows "balanced E q q'"
proof -
  let ?m = "with_err SStore (on_store (request_run_stop E rid actor))"
  obtain st q1 where s: "read_run_state E rid q = (st, q1)" by (cases "read_run_state E rid q")
  have b1: "balanced E q q1" using writes_balanced[OF writes_read_run_state[of E q rid]] s by simp
  have m: "obeys (balanced E) ?m"
    by (intro obeys_with_err obeys_writes_balanced writes_on_store) simp
  consider "q' = q1" | "?m (cancel_token rid q1) = (r, q')"
    using assms s by (auto simp: stop_run_def split: option.splits if_splits)
  then show ?thesis
  proof cases
    case 2
    have "balanced E (cancel_token rid q1) q'" by (rule obeysD[OF m 2])
    then show ?thesis using balance.le_trans[OF balance.le_trans[OF b1 cancel_token_balanced]] by blast
  qed (use b1 in simp)
qed

lemma expire_all_balanced: "balanced E q (expire_all E ids q)"
proof (induction ids arbitrary: q)
  case (Cons rid ids)
  have "obeys (balanced E) (on_store (finish_run E rid Expired None (Some ''not_needed'') (Some ''approval TTL lapsed'')))"
    by (intro obeys_writes_balanced writes_on_store steps_finish) simp
  from balance.le_trans[OF obeys_snd[OF this] Cons.IH] show ?case by simp
qed simp

lemma sweep_balanced: "balanced E q (sweep_expired_approvals E q)"
proof -
  let ?m = "on_store (bindc (stmt E) (\<lambda>_. bindc (now_ns E) (expired_pending_approvals E)))"
  obtain r q1 where m: "?m q = (r, q1)" by (cases "?m q")
  have "obeys (balanced E) ?m"
    by (intro obeys_writes_balanced writes_on_store stepping.obeys_rules steps_stmt)
      (simp add: expired_pending_approvals_def)
  then have "balanced E q q1" using m by (rule obeysD)
  then show ?thesis
    using balance.le_trans[OF _ expire_all_balanced, of E q q1] by (simp add: sweep_expired_approvals_def m split: sum.split)
qed

lemma request_gated_balanced:
  assumes "request_gated_checked E G rid r t actor expected q = (res, q')" "rid \<notin> known_runs (data (q_store q))"
  shows "balanced E q q'"
proof -
  have "writes_when E (\<lambda>d. rid \<notin> known_runs d) (request_gated_checked E G rid r t actor expected)"
    unfolding request_gated_checked_def
    by (intro writes_when_rules reads_base obeys_from_result only_time_refl quiet.obeys_base writes_when_then
        writes_insert_gated) (simp_all add: approval_row_def)
  then show ?thesis using assms by (auto dest: writes_whenD intro: writes_balanced)
qed

text \<open>A work item is handed over last.\<close>

definition pushed :: "work_item \<Rightarrow> qstate \<Rightarrow> qstate" where
  "pushed item q = q \<lparr> q_channel := q_channel q @ [item] \<rparr>"

definition pushes :: "env \<Rightarrow> (db \<Rightarrow> bool) \<Rightarrow> work_item \<Rightarrow> (qstate, 'e, unit) comp \<Rightarrow> bool" where
  "pushes E P item m \<longleftrightarrow> (\<forall>q r q'. P (data (q_store q)) \<longrightarrow> m q = (r, q') \<longrightarrow>
     (\<exists>q1. writes E q q1 \<and> q' = (if is_ok r then pushed item q1 else q1)))"

lemma pushesD: "pushes E P item m \<Longrightarrow> P (data (q_store q)) \<Longrightarrow> m q = (r, q') \<Longrightarrow>
    \<exists>q1. writes E q q1 \<and> q' = (if is_ok r then pushed item q1 else q1)"
  unfolding pushes_def by blast

lemma pushes_bindc:
  assumes "reads m" "\<And>x. pushes E P item (f x)"
  shows "pushes E P item (bindc m f)"
  unfolding pushes_def
proof (intro allI impI)
  fix q r q'
  assume P: "P (data (q_store q))" and run: "bindc m f q = (r, q')"
  show "\<exists>q1. writes E q q1 \<and> q' = (if is_ok r then pushed item q1 else q1)"
  proof (cases "\<exists>e. m q = (Inl e, q') \<and> r = Inl e")
    case True
    then obtain e where e: "m q = (Inl e, q')" "r = Inl e" by blast
    show ?thesis using only_time_writes[OF obeysD[OF assms(1) e(1)]] e(2) by auto
  next
    case False
    then obtain x q0 where x: "m q = (Inr x, q0)" "f x q0 = (r, q')" using run by (auto simp: bindc_eq)
    have o: "only_time q q0" by (rule obeysD[OF assms(1) x(1)])
    then obtain q1 where "writes E q0 q1" "q' = (if is_ok r then pushed item q1 else q1)"
      using pushesD[OF assms(2) _ x(2)] P only_timeD(1)[OF o] by auto
    then show ?thesis using only_time_writes[OF o] writing.le_trans by blast
  qed
qed

lemma pushes_seqc: "reads m \<Longrightarrow> pushes E P item n \<Longrightarrow> pushes E P item (seqc m n)"
  by (simp add: seqc_def pushes_bindc)

lemma pushes_pair: "(\<And>a b. pushes E P item (f a b)) \<Longrightarrow> pushes E P item (case p of (a, b) \<Rightarrow> f a b)"
  by (cases p) simp

lemma pushes_base:
  assumes "writes_when E P m"
  shows "pushes E P item (seqc m (\<lambda>q. if q_open q then (Inr (), q \<lparr> q_channel := q_channel q @ [item] \<rparr>) else (Inl e, q)))"
  unfolding pushes_def
proof (intro allI impI)
  fix q r q'
  assume P: "P (data (q_store q))"
    and run: "seqc m (\<lambda>q. if q_open q then (Inr (), q \<lparr> q_channel := q_channel q @ [item] \<rparr>) else (Inl e, q)) q = (r, q')"
  obtain r0 q0 where m: "m q = (r0, q0)" by (cases "m q")
  have "writes E q q0" by (rule writes_whenD[OF assms P m])
  then show "\<exists>q1. writes E q q1 \<and> q' = (if is_ok r then pushed item q1 else q1)"
    using run m by (intro exI[of _ q0]) (auto simp: seqc_def bindc_def pushed_def split: sum.splits if_splits)
qed

lemma pushed_balanced:
  assumes "writes E (q0 \<lparr> q_permits := q_permits q0 - 1 \<rparr>) q1" "0 < q_permits q0"
  shows "balanced E q0 (pushed item q1)"
  using writesD[OF assms(1)] assms(2) by (simp add: balanced_def pushed_def)

lemma holding_permit_balanced:
  assumes "pushes E P item m" "P (data (q_store q))" "0 < q_permits q" "holding_permit m q = (r, q')"
  shows "balanced E q q'"
proof -
  let ?q = "q \<lparr> q_permits := q_permits q - 1 \<rparr>"
  obtain r0 q0 where m: "m ?q = (r0, q0)" by (cases "m ?q")
  obtain q1 where q1: "writes E ?q q1" "q0 = (if is_ok r0 then pushed item q1 else q1)"
    using pushesD[OF assms(1) _ m] assms(2) by auto
  show ?thesis
  proof (cases r0)
    case (Inl e)
    then have "q' = q0 \<lparr> q_permits := q_permits q0 + 1 \<rparr>" using assms(4) m by (simp add: holding_permit_def)
    then show ?thesis using q1 Inl assms(3) writesD[OF q1(1)] by (simp add: balanced_def)
  next
    case (Inr x)
    then have "q' = q0" using assms(4) m by (simp add: holding_permit_def)
    then show ?thesis using pushed_balanced[OF q1(1) assms(3)] q1(2) Inr by simp
  qed
qed

lemma enqueue_balanced:
  assumes "enqueue_checked E G rid r actor expected q = (res, q')" "rid \<notin> known_runs (data (q_store q))"
  shows "balanced E q q'"
proof -
  have "pushes E (\<lambda>d. rid \<notin> known_runs d) \<lparr> wi_run = rid, wi_request = r, wi_pin = None \<rparr>
      (enqueue_body E G rid r actor expected)"
    unfolding enqueue_body_def
    by (intro pushes_bindc pushes_pair pushes_seqc pushes_base reads_base obeys_from_result only_time_refl
        writes_insert_run) simp
  from holding_permit_balanced[OF this, where q = q] show ?thesis
    using assms by (auto simp: enqueue_checked_def split: if_splits prod.splits sum.splits)
qed

lemma dispatch_balanced:
  assumes "dispatch_approved E G rid q = (res, q')"
  shows "balanced E q q'"
proof -
  have p: "pushes E (\<lambda>_. True) \<lparr> wi_run = rid, wi_request = r, wi_pin = Some pin \<rparr> (dispatch_commit E rid r pin)" for r pin
    unfolding dispatch_commit_def
    by (intro pushes_base) (auto simp: writes_when_def intro!: obeysD[OF writes_on_store[OF steps_set_state]]
        obeysD[OF obeys_with_err[OF writes_on_store[OF steps_set_state]]])
  obtain r0 q0 where l: "dispatch_lookup E G rid q = (r0, q0)" by (cases "dispatch_lookup E G rid q")
  have b: "balanced E q q0" using obeysD[OF writes_dispatch_lookup l] by (rule writes_balanced)
  show ?thesis
  proof (cases r0)
    case (Inl e)
    then show ?thesis using assms l b by (simp add: dispatch_approved_def bindc_def)
  next
    case (Inr x)
    obtain r pin where x: "x = (r, pin)" by (cases x)
    show ?thesis
    proof (cases "q_permits q0 = 0")
      case True
      then show ?thesis using assms l b Inr x by (simp add: dispatch_approved_def bindc_def)
    next
      case False
      then have "holding_permit (dispatch_commit E rid r pin) q0 = (res, q')"
        using assms l Inr x by (simp add: dispatch_approved_def bindc_def)
      then have "balanced E q0 q'" using holding_permit_balanced[OF p] False by blast
      then show ?thesis using b balance.le_trans by blast
    qed
  qed
qed

section \<open>Effects of a worker's step\<close>

definition holds_token :: "worker \<Rightarrow> bool" where
  "holds_token w \<longleftrightarrow> wk_pc w \<noteq> WTake \<and> wk_pc w \<noteq> WEnd"

text \<open>Only the first and the last step touch permits and tokens.\<close>

definition worker_effect :: "env \<Rightarrow> worker \<Rightarrow> worker \<Rightarrow> qstate \<Rightarrow> qstate \<Rightarrow> bool" where
  "worker_effect E w w' q q' \<longleftrightarrow> wk_item w' = wk_item w \<and> wk_pc w' \<noteq> WTake
     \<and> forward_steps E (q_store q) (q_store q') \<and> q_channel q' = q_channel q \<and> q_open q' = q_open q
     \<and> q_permits q' = q_permits q + (if wk_pc w = WTake then 1 else 0)
     \<and> q_tokens q' = (case wk_pc w of
          WTake \<Rightarrow> if holds_token w' then (q_tokens q)(wi_run (wk_item w) \<mapsto> False) else q_tokens q
        | WRelease \<Rightarrow> (q_tokens q)(wi_run (wk_item w) := None)
        | _ \<Rightarrow> q_tokens q)
     \<and> (wk_pc w = WTake \<longrightarrow> (holds_token w' \<longleftrightarrow> q_tokens q (wi_run (wk_item w)) = None))
     \<and> (wk_pc w \<noteq> WTake \<longrightarrow> (holds_token w' \<longleftrightarrow> holds_token w \<and> wk_pc w \<noteq> WRelease))"

definition recording :: "env \<Rightarrow> qstate \<Rightarrow> qstate \<Rightarrow> bool" where
  "recording E q q' \<longleftrightarrow> forward_steps E (q_store q) (q_store q') \<and> q_channel q' = q_channel q
     \<and> q_open q' = q_open q \<and> q_permits q' = q_permits q \<and> q_tokens q' = q_tokens q"

interpretation recording: comp_order "recording E" for E
  by unfold_locales (auto simp: recording_def intro: rtranclp_trans)

lemma writes_recording: "obeys (writes E) m \<Longrightarrow> obeys (recording E) m"
  by (erule obeys_weaken) (auto simp: recording_def dest: writesD)

lemma recording_ingest: "obeys (recording E) (ingest_journal E j)"
proof -
  have st: "obeys (recording E) (on_store (stmt E))" by (rule writes_recording) simp
  have add: "obeys (recording E) (\<lambda>q. (Inr (), q \<lparr> q_evidence := q_evidence q @ [j] \<rparr>))"
    by (auto simp: obeys_def recording_def)
  have "obeys (recording E) (\<lambda>q. if jr_experiment_id j \<in> jr_experiment_id ` set (q_evidence q) then (Inr (), q)
      else seqc (on_store (stmt E)) (seqc (on_store (stmt E)) (seqc (on_store (stmt E))
        (\<lambda>q. (Inr (), q \<lparr> q_evidence := q_evidence q @ [j] \<rparr>)))) q)"
    using recording.obeys_seqc[OF st recording.obeys_seqc[OF st recording.obeys_seqc[OF st add]]]
    by (auto simp: obeys_def split: if_splits)
  then show ?thesis unfolding ingest_journal_def by (rule recording.obeys_seqc[OF st])
qed

lemma completion_not_early: "\<not> early (completion_state j)"
  by (cases "jr_status j") (simp_all add: completion_state_def)

lemma recording_completion: "obeys (recording E) (record_completion E rid j)"
proof -
  have "obeys (recording E) (seqc (ingest_journal E j)
      (on_store (finish_run E rid (completion_state j) (Some (jr_experiment_id j)) (Some (rollback_text j)) None)))"
    by (intro recording.obeys_seqc recording_ingest writes_recording writes_on_store steps_finish completion_not_early)
  then show ?thesis by (auto simp: obeys_def record_completion_def split: if_splits)
qed

lemma recording_effect:
  assumes "recording E q q'" "pc \<noteq> WTake" "pc \<noteq> WEnd" "wk_pc w \<noteq> WTake" "wk_pc w \<noteq> WEnd" "wk_pc w \<noteq> WRelease"
  shows "worker_effect E w (w \<lparr> wk_pc := pc \<rparr>) q q'"
  using assms by (auto simp: worker_effect_def recording_def holds_token_def split: wpc.split)

lemma branch_effect:
  assumes "branch w m err ok q = (w', q')" "obeys (recording E) m"
    and "\<And>e. err e \<notin> {WTake, WEnd}" "\<And>x. ok x \<notin> {WTake, WEnd}" "wk_pc w \<notin> {WTake, WEnd, WRelease}"
  shows "worker_effect E w w' q q'"
proof -
  obtain r q1 where m: "m q = (r, q1)" by (cases "m q")
  have rec: "recording E q q1" by (rule obeysD[OF assms(2) m])
  have "\<exists>pc. pc \<notin> {WTake, WEnd} \<and> w' = w \<lparr> wk_pc := pc \<rparr> \<and> q' = q1"
    using assms(1,3,4) m by (auto simp: branch_def split: sum.splits)
  then show ?thesis using recording_effect[OF rec] assms(5) by auto
qed

lemma recording_snd: "obeys (recording E) m \<Longrightarrow> recording E q (snd (m q))"
  by (rule obeys_snd)

lemmas recording_parts = recording_completion
  writes_recording[OF writes_verify_approval] writes_recording[OF writes_validate]
  writes_recording[OF writes_on_store[OF steps_ops(1)]] writes_recording[OF writes_on_store[OF steps_ops(2)]]
  writes_recording[OF writes_on_store[OF steps_ops(4)]]
  writes_recording[OF writes_on_store[OF stepping.obeys_seqc[OF steps_ops(5) steps_ops(4)]]]

lemma step_effect:
  assumes "worker_step E G T w q = (w', q')" "wk_pc w \<noteq> WEnd"
  shows "worker_effect E w w' q q'"
proof (cases "wk_pc w")
  case WTake
  then show ?thesis using assms
    by (auto simp: worker_step_def step_take_def Let_def worker_effect_def holds_token_def split: if_splits)
next
  case WCheckState
  obtain st q1 where s: "read_run_state E (wi_run (wk_item w)) q = (st, q1)"
    by (cases "read_run_state E (wi_run (wk_item w)) q")
  have "writes E q q1" using writes_read_run_state[of E q "wi_run (wk_item w)"] s by simp
  then have "recording E q q1" by (auto simp: recording_def dest: writesD)
  then show ?thesis using assms WCheckState s
    by (auto simp: worker_step_def step_check_state_def intro!: recording_effect split: if_splits)
next
  case WVerify
  show ?thesis by (rule branch_effect[OF _ recording_parts(2)]) (use assms WVerify in \<open>auto simp: worker_step_def step_verify_def\<close>)
next
  case WClaim
  show ?thesis by (rule branch_effect[OF _ recording_parts(4)]) (use assms WClaim in \<open>auto simp: worker_step_def step_claim_def\<close>)
next
  case (WContext plan e injected)
  show ?thesis by (rule branch_effect[OF _ recording_parts(3)]) (use assms WContext in \<open>auto simp: worker_step_def step_context_def\<close>)
next
  case (WBegin plan e injected)
  show ?thesis by (rule branch_effect[OF _ recording_parts(5)]) (use assms WBegin in \<open>auto simp: worker_step_def step_begin_def\<close>)
next
  case (WComplete e j)
  show ?thesis by (rule branch_effect[OF _ recording_parts(1)]) (use assms WComplete in \<open>auto simp: worker_step_def step_complete_def\<close>)
next
  case (WRefuse reason)
  show ?thesis using assms WRefuse recording_snd[OF recording_parts(7)]
    by (auto simp: worker_step_def step_refuse_def Let_def intro!: recording_effect)
next
  case (WRetry e j)
  show ?thesis using assms WRetry recording_snd[OF recording_parts(1)]
    by (auto simp: worker_step_def Let_def intro!: recording_effect)
next
  case (WFail err)
  show ?thesis using assms WFail recording_snd[OF recording_parts(6)]
    by (auto simp: worker_step_def Let_def record_failure_def intro!: recording_effect)
next
  case WRelease
  then show ?thesis using assms by (auto simp: worker_step_def worker_effect_def holds_token_def)
qed (use assms in \<open>auto simp: worker_step_def step_capture_def step_execute_def step_late_stop_def step_cleanup_def
    Let_def intro!: recording_effect split: sum.splits prod.splits runner_outcome.splits cleanup_outcome.splits if_splits\<close>)

end
