(* ===== verification/Daemon.thy ===== *)
theory Daemon
  imports Daemon_Steps
begin

text \<open>
  The daemon as a whole: API calls, the expiry sweep and any number of workers interleave
  over the shared queue state. A worker's step runs between two await points of
  \<open>process\<close>; everything else is one call of the queue or one job of the single writer.
\<close>

section \<open>Steps\<close>

record daemon =
  dm_q :: qstate
  dm_workers :: "worker list"  \<comment> \<open>every item received so far, finished ones included\<close>

definition busy :: "worker \<Rightarrow> bool" where
  "busy w \<longleftrightarrow> wk_pc w \<noteq> WEnd"

definition taking :: "worker \<Rightarrow> bool" where
  "taking w \<longleftrightarrow> wk_pc w = WTake"

text \<open>The environment that definitions are resolved against may differ from step to step;
  a uuid is fresh.\<close>

inductive daemon_step :: "env \<Rightarrow> queue_config \<Rightarrow> daemon \<Rightarrow> daemon \<Rightarrow> bool" for E cfg where
  enqueue: "rid \<notin> known_runs (data (q_store (dm_q D))) \<Longrightarrow>
    enqueue_checked E G rid r actor expected (dm_q D) = (res, q') \<Longrightarrow> daemon_step E cfg D (D \<lparr> dm_q := q' \<rparr>)"
| request: "rid \<notin> known_runs (data (q_store (dm_q D))) \<Longrightarrow>
    request_gated_checked E G rid r t actor expected (dm_q D) = (res', q') \<Longrightarrow> daemon_step E cfg D (D \<lparr> dm_q := q' \<rparr>)"
| dispatch: "dispatch_approved E G rid (dm_q D) = (res1, q') \<Longrightarrow> daemon_step E cfg D (D \<lparr> dm_q := q' \<rparr>)"
| stop: "stop_run E rid actor (dm_q D) = (res2, q') \<Longrightarrow> daemon_step E cfg D (D \<lparr> dm_q := q' \<rparr>)"
| sweep: "daemon_step E cfg D (D \<lparr> dm_q := sweep_expired_approvals E (dm_q D) \<rparr>)"
| other_write: "forward op \<Longrightarrow> fresh_op op (data (q_store (dm_q D))) \<Longrightarrow> on_store (exec_op E op) (dm_q D) = (res3, q') \<Longrightarrow>
    daemon_step E cfg D (D \<lparr> dm_q := q' \<rparr>)"
| idle: "tick (q_store (dm_q D)) \<le> n \<Longrightarrow>
    daemon_step E cfg D (D \<lparr> dm_q := (dm_q D) \<lparr> q_store := (q_store (dm_q D)) \<lparr> tick := n \<rparr> \<rparr> \<rparr>)"
| close: "daemon_step E cfg D (D \<lparr> dm_q := (dm_q D) \<lparr> q_open := False \<rparr> \<rparr>)"
| receive: "q_channel (dm_q D) = item # rest \<Longrightarrow> length (filter busy (dm_workers D)) < max 1 (cfg_concurrency cfg) \<Longrightarrow>
    daemon_step E cfg D (D \<lparr> dm_q := (dm_q D) \<lparr> q_channel := rest \<rparr>,
      dm_workers := dm_workers D @ [\<lparr> wk_item = item, wk_pc = WTake \<rparr>] \<rparr>)"
| work: "i < length (dm_workers D) \<Longrightarrow> busy (dm_workers D ! i) \<Longrightarrow>
    worker_step E G T (dm_workers D ! i) (dm_q D) = (w', q') \<Longrightarrow>
    daemon_step E cfg D (D \<lparr> dm_q := q', dm_workers := (dm_workers D)[i := w'] \<rparr>)"

inductive_cases daemon_stepE: "daemon_step E cfg D D'"

definition boot :: "queue_config \<Rightarrow> daemon" where
  "boot cfg = \<lparr> dm_q = spawn_queue empty_store cfg, dm_workers = [] \<rparr>"

abbreviation daemon_run :: "env \<Rightarrow> queue_config \<Rightarrow> daemon \<Rightarrow> bool" where
  "daemon_run E cfg D \<equiv> (daemon_step E cfg)\<^sup>*\<^sup>* (boot cfg) D"

text \<open>A step is either a balanced change of the queue, a receipt or a worker's step.\<close>

lemma daemon_step_cases:
  assumes "daemon_step E cfg D D'"
  obtains (queue) "balanced E (dm_q D) (dm_q D')" "dm_workers D' = dm_workers D"
  | (receive) item rest where "q_channel (dm_q D) = item # rest" "dm_q D' = (dm_q D) \<lparr> q_channel := rest \<rparr>"
      "length (filter busy (dm_workers D)) < max 1 (cfg_concurrency cfg)"
      "dm_workers D' = dm_workers D @ [\<lparr> wk_item = item, wk_pc = WTake \<rparr>]"
  | (work) i G T w' where "i < length (dm_workers D)" "busy (dm_workers D ! i)"
      "worker_step E G T (dm_workers D ! i) (dm_q D) = (w', dm_q D')"
      "worker_effect E (dm_workers D ! i) w' (dm_q D) (dm_q D')" "dm_workers D' = (dm_workers D)[i := w']"
  using assms
proof (cases rule: daemon_step.cases)
  case (other_write op res3 q')
  obtain r0 t where t: "exec_op E op (q_store (dm_q D)) = (r0, t)" "q' = (dm_q D) \<lparr> q_store := t \<rparr>"
    using other_write(4) by (auto simp: on_store_eq)
  have "forward_step E (q_store (dm_q D)) t" by (rule forward_step.step[OF other_write(2,3) t(1)])
  then have "balanced E (dm_q D) (dm_q D')" using t(2) other_write(1) by (simp add: balanced_def r_into_rtranclp)
  then show ?thesis by (rule queue) (simp add: other_write(1))
next
  case (work i G T w' q')
  then show ?thesis using that(3)[of i G T w'] step_effect[OF work(4)] by (simp add: busy_def)
next
  case (enqueue rid G r actor expected res q')
  show ?thesis by (rule queue) (simp_all add: enqueue(1) enqueue_balanced[OF enqueue(3,2)])
next
  case (request rid G r t actor expected res' q')
  show ?thesis by (rule queue) (simp_all add: request(1) request_gated_balanced[OF request(3,2)])
next
  case (dispatch G rid res1 q')
  show ?thesis by (rule queue) (simp_all add: dispatch(1) dispatch_balanced[OF dispatch(2)])
next
  case (stop rid actor res2 q')
  show ?thesis by (rule queue) (simp_all add: stop(1) stop_run_balanced[OF stop(2)])
next
  case sweep
  show ?thesis by (rule queue) (simp_all add: sweep sweep_balanced)
next
  case (idle n)
  show ?thesis by (rule queue) (simp_all add: idle balanced_def)
next
  case close
  show ?thesis by (rule queue) (simp_all add: close balanced_def)
next
  case (receive item rest)
  show ?thesis by (rule that(2)[OF receive(2)]) (use receive in simp_all)
qed

section \<open>Capacity\<close>

definition capacity_ok :: "queue_config \<Rightarrow> daemon \<Rightarrow> bool" where
  "capacity_ok cfg D \<longleftrightarrow> q_permits (dm_q D) + length (q_channel (dm_q D)) + length (filter taking (dm_workers D))
     = max 1 (cfg_queue_depth cfg)"

interpretation capacity: stable_system "daemon_step E cfg" "capacity_ok cfg" for E cfg
proof unfold_locales
  fix D D'
  assume "daemon_step E cfg D D'" "capacity_ok cfg D"
  then show "capacity_ok cfg D'"
  proof (cases rule: daemon_step_cases)
    case (work i G T w')
    then show ?thesis
      using \<open>capacity_ok cfg D\<close> length_filter_update[OF work(1), of taking w']
      by (auto simp: capacity_ok_def worker_effect_def taking_def split: if_splits)
  qed (auto simp: capacity_ok_def balanced_def taking_def)
qed

lemma daemon_store_steps: "daemon_step E cfg D D' \<Longrightarrow> forward_steps E (q_store (dm_q D)) (q_store (dm_q D'))"
  by (erule daemon_step_cases) (auto simp: balanced_def worker_effect_def)

lemma daemon_reaches: "daemon_run E cfg D \<Longrightarrow> forward_steps E empty_store (q_store (dm_q D))"
  by (induction rule: rtranclp_induct)
    (auto simp: boot_def spawn_queue_def dest: daemon_store_steps intro: rtranclp_trans)

section \<open>Tokens\<close>

text \<open>A run has a registered token exactly when one worker past registration processes it, and
  never two.\<close>

definition holder :: "string \<Rightarrow> worker \<Rightarrow> bool" where
  "holder rid w \<longleftrightarrow> holds_token w \<and> wi_run (wk_item w) = rid"

definition tokens_ok :: "daemon \<Rightarrow> bool" where
  "tokens_ok D \<longleftrightarrow> (\<forall>rid. length (filter (holder rid) (dm_workers D)) = (if q_tokens (dm_q D) rid = None then 0 else 1))"

lemma tokens_ok_work:
  assumes ok: "tokens_ok D" and i: "i < length (dm_workers D)" "busy (dm_workers D ! i)"
    and eff: "worker_effect E (dm_workers D ! i) w' (dm_q D) (dm_q D')" and ws: "dm_workers D' = (dm_workers D)[i := w']"
  shows "tokens_ok D'"
  unfolding tokens_ok_def
proof
  fix rid
  let ?w = "dm_workers D ! i" and ?me = "wi_run (wk_item (dm_workers D ! i))"
  have item: "wk_item w' = wk_item ?w" using eff by (simp add: worker_effect_def)
  have one: "length (filter (holder rid) (dm_workers D)) = (if q_tokens (dm_q D) rid = None then 0 else 1)"
    using ok by (simp add: tokens_ok_def)
  have upd: "length (filter (holder rid) (dm_workers D')) + (if holder rid ?w then 1 else 0)
      = length (filter (holder rid) (dm_workers D)) + (if holder rid w' then 1 else 0)"
    unfolding ws by (rule length_filter_update[OF i(1)])
  consider (acquire) "q_tokens (dm_q D) ?me = None" "holds_token w'" "\<not> holds_token ?w"
      "q_tokens (dm_q D') = (q_tokens (dm_q D))(?me \<mapsto> False)"
    | (release) "holds_token ?w" "\<not> holds_token w'" "q_tokens (dm_q D') = (q_tokens (dm_q D))(?me := None)"
    | (keep) "holds_token w' = holds_token ?w" "q_tokens (dm_q D') = q_tokens (dm_q D)"
    using eff i(2) by (cases "wk_pc ?w") (auto simp: worker_effect_def holds_token_def busy_def split: if_splits)
  then show "length (filter (holder rid) (dm_workers D')) = (if q_tokens (dm_q D') rid = None then 0 else 1)"
  proof cases
    case acquire
    then show ?thesis using one upd by (cases "rid = ?me") (auto simp: holder_def item)
  next
    case release
    then show ?thesis using one upd by (cases "rid = ?me") (auto simp: holder_def item split: if_splits)
  next
    case keep
    then show ?thesis using one upd by (auto simp: holder_def item split: if_splits)
  qed
qed

lemma dom_eq_None: "dom m' = dom m \<Longrightarrow> m' x = None \<longleftrightarrow> m x = None"
  by (metis domIff)

interpretation tokens: stable_system "daemon_step E cfg" tokens_ok for E cfg
proof unfold_locales
  fix D D'
  assume "daemon_step E cfg D D'" and ok: "tokens_ok D"
  then show "tokens_ok D'"
  proof (cases rule: daemon_step_cases)
    case queue
    then show ?thesis using ok dom_eq_None unfolding tokens_ok_def balanced_def by (metis (no_types, lifting))
  next
    case (receive item rest)
    then show ?thesis using ok by (simp add: tokens_ok_def holder_def holds_token_def)
  next
    case (work i G T w')
    then show ?thesis using tokens_ok_work[OF ok] by blast
  qed
qed

section \<open>Executions are recorded first\<close>

definition begun_pc :: "wpc \<Rightarrow> bool" where
  "begun_pc pc \<longleftrightarrow> (case pc of WExecute e v \<Rightarrow> True | WComplete e j \<Rightarrow> True | WLateStop e j \<Rightarrow> True
     | WCleanup e j \<Rightarrow> True | WRetry e j \<Rightarrow> True | _ \<Rightarrow> False)"

definition verified_pc :: "wpc \<Rightarrow> bool" where
  "verified_pc pc \<longleftrightarrow> begun_pc pc \<or> (case pc of WClaim \<Rightarrow> True | WCapture \<Rightarrow> True | WContext p e v \<Rightarrow> True
     | WCheckToken p e v \<Rightarrow> True | WBegin p e v \<Rightarrow> True | _ \<Rightarrow> False)"

text \<open>The durable record of a started run.\<close>

definition recorded :: "db \<Rightarrow> work_item \<Rightarrow> bool" where
  "recorded d item \<longleftrightarrow> (\<exists>r \<in> set (runs d). run_id r = wi_run item \<and> run_started_at r \<noteq> None)
     \<and> (\<exists>plan. (wi_run item, plan) \<in> set (plans d))
     \<and> (\<forall>p. wi_pin item = Some p \<longrightarrow> (\<exists>rq \<in> set (requests d). rq_run rq = wi_run item \<and> rq_pin rq = p
          \<and> rq_consumed_at rq \<noteq> None))"

definition pin_checked :: "env \<Rightarrow> work_item \<Rightarrow> bool" where
  "pin_checked E item \<longleftrightarrow> (\<forall>p. wi_pin item = Some p \<longrightarrow> canonical_pin E (wi_request item) = p)"

lemma recorded_evolves:
  assumes "recorded d item" "evolves d d'"
  shows "recorded d' item"
proof -
  obtain r plan where r: "r \<in> set (runs d)" "run_id r = wi_run item" "run_started_at r \<noteq> None"
    and p: "(wi_run item, plan) \<in> set (plans d)" using assms(1) unfolding recorded_def by blast
  obtain r' where "r' \<in> set (runs d')" "run_evolves r r'"
    using assms(2) grows_in[OF _ r(1)] unfolding evolves_def by blast
  then have "\<exists>r \<in> set (runs d'). run_id r = wi_run item \<and> run_started_at r \<noteq> None"
    using r unfolding run_evolves_def by metis
  moreover have "(wi_run item, plan) \<in> set (plans d')" using p assms(2) by (auto simp: evolves_def prefix_def)
  moreover have "\<exists>rq \<in> set (requests d'). rq_run rq = wi_run item \<and> rq_pin rq = pin \<and> rq_consumed_at rq \<noteq> None"
    if pin: "wi_pin item = Some pin" for pin
  proof -
    obtain q where q: "q \<in> set (requests d)" "rq_run q = wi_run item" "rq_pin q = pin" "rq_consumed_at q \<noteq> None"
      using assms(1) pin unfolding recorded_def by blast
    obtain q' where "q' \<in> set (requests d')" "request_evolves q q'"
      using assms(2) grows_in[OF _ q(1)] unfolding evolves_def by blast
    then show ?thesis using q unfolding request_evolves_def by metis
  qed
  ultimately show ?thesis unfolding recorded_def by blast
qed

lemma begin_records:
  assumes "begin_run_execution E (wi_run item) plan (wi_pin item) s = (Inr (), s')"
  shows "recorded (data s') item"
proof -
  from begin_body_Inr[OF assms] obtain now rows where
    one: "\<forall>p. wi_pin item = Some p \<longrightarrow> length (filter (consumable (wi_run item) p now) (requests (data s))) = 1"
    and d: "plans (data s') = plans (data s) @ [(wi_run item, plan)]"
      "requests (data s') = (case wi_pin item of None \<Rightarrow> requests (data s)
          | Some p \<Rightarrow> map (\<lambda>q. if consumable (wi_run item) p now q then consumed_row now q else q) (requests (data s)))"
    by auto
  have "\<exists>rq \<in> set (requests (data s')). rq_run rq = wi_run item \<and> rq_pin rq = p \<and> rq_consumed_at rq \<noteq> None"
    if p: "wi_pin item = Some p" for p
  proof -
    obtain q where "q \<in> set (requests (data s))" "consumable (wi_run item) p now q" using one p filter_one by blast
    then show ?thesis using d(2) p
      by (intro bexI[of _ "consumed_row now q"]) (auto simp: consumed_row_def consumable_def intro!: image_eqI[of _ _ q])
  qed
  then show ?thesis using begin_marks_started[OF assms] d(1) by (auto simp: recorded_def)
qed

lemma verify_approval_pin:
  assumes "verify_approval E rid r pin q = (Inr u, q')"
  shows "\<forall>p. pin = Some p \<longrightarrow> canonical_pin E r = p"
proof (cases pin)
  case (Some p)
  then have "canonical_pin E r = p"
    using assms unfolding verify_approval_def by (auto simp: Let_def simp del: seqc_Inr bindc_Inr split: if_splits)
  then show ?thesis using Some by simp
qed simp

lemma branch_cases:
  assumes "branch w m err ok q = (w', q')"
  obtains (error) e where "m q = (Inl e, q')" "w' = w \<lparr> wk_pc := err e \<rparr>"
  | (success) x where "m q = (Inr x, q')" "w' = w \<lparr> wk_pc := ok x \<rparr>"
  using assms by (auto simp: branch_def split: prod.splits sum.splits)

lemmas step_defs = worker_step_def step_take_def step_check_state_def step_refuse_def step_capture_def
  step_execute_def step_late_stop_def step_cleanup_def

lemma step_begun:
  assumes "worker_step E G T w q = (w', q')" "begun_pc (wk_pc w')"
  shows "begun_pc (wk_pc w) \<or> recorded (data (q_store q')) (wk_item w)"
proof (cases "wk_pc w")
  case (WBegin plan e injected)
  then have "step_begin E G w plan e injected q = (w', q')" using assms(1) by (simp add: worker_step_def)
  then show ?thesis unfolding step_begin_def
  proof (cases rule: branch_cases)
    case (success x)
    then show ?thesis using begin_records[of E "wk_item w"] by auto
  qed (use assms(2) in \<open>simp add: begun_pc_def\<close>)
next
  case WVerify
  then show ?thesis using assms by (auto simp: worker_step_def step_verify_def branch_def begun_pc_def split: prod.splits sum.splits)
next
  case WClaim
  then show ?thesis using assms by (auto simp: worker_step_def step_claim_def branch_def begun_pc_def split: prod.splits sum.splits)
next
  case (WContext plan e injected)
  then show ?thesis using assms by (auto simp: worker_step_def step_context_def branch_def begun_pc_def split: prod.splits sum.splits)
qed (use assms in \<open>auto simp: step_defs begun_pc_def Let_def split: if_splits prod.splits sum.splits\<close>)

lemma step_verified:
  assumes "worker_step E G T w q = (w', q')" "verified_pc (wk_pc w')"
  shows "verified_pc (wk_pc w) \<or> pin_checked E (wk_item w)"
proof (cases "wk_pc w")
  case WVerify
  then have "step_verify E w q = (w', q')" using assms(1) by (simp add: worker_step_def)
  then show ?thesis unfolding step_verify_def
  proof (cases rule: branch_cases)
    case (success x)
    then show ?thesis using verify_approval_pin[OF success(1)] by (simp add: pin_checked_def)
  qed (use assms(2) in \<open>simp add: verified_pc_def begun_pc_def\<close>)
qed (use assms in \<open>auto simp: step_defs verified_pc_def begun_pc_def Let_def split: if_splits prod.splits sum.splits\<close>)

definition workers_ok :: "env \<Rightarrow> daemon \<Rightarrow> bool" where
  "workers_ok E D \<longleftrightarrow> (\<forall>w \<in> set (dm_workers D).
     (begun_pc (wk_pc w) \<longrightarrow> recorded (data (q_store (dm_q D))) (wk_item w))
     \<and> (verified_pc (wk_pc w) \<longrightarrow> pin_checked E (wk_item w)))"

interpretation workers: stable_system "daemon_step E cfg" "workers_ok E" for E cfg
proof unfold_locales
  fix D D'
  assume step: "daemon_step E cfg D D'" and ok: "workers_ok E D"
  have ev: "evolves (data (q_store (dm_q D))) (data (q_store (dm_q D')))"
    by (rule store_steps_evolve[OF forward_steps_are_steps[OF daemon_store_steps[OF step]]])
  have old: "(begun_pc (wk_pc w) \<longrightarrow> recorded (data (q_store (dm_q D'))) (wk_item w))
     \<and> (verified_pc (wk_pc w) \<longrightarrow> pin_checked E (wk_item w))" if "w \<in> set (dm_workers D)" for w
    using ok that recorded_evolves[OF _ ev] by (auto simp: workers_ok_def)
  from step show "workers_ok E D'"
  proof (cases rule: daemon_step_cases)
    case queue
    then show ?thesis using old by (simp add: workers_ok_def)
  next
    case (receive item rest)
    then show ?thesis using old by (auto simp: workers_ok_def begun_pc_def verified_pc_def)
  next
    case (work i G T w')
    let ?w = "dm_workers D ! i"
    have me: "?w \<in> set (dm_workers D)" using work(1) by simp
    have item: "wk_item w' = wk_item ?w" using work(4) by (simp add: worker_effect_def)
    have new: "(begun_pc (wk_pc w') \<longrightarrow> recorded (data (q_store (dm_q D'))) (wk_item w'))
       \<and> (verified_pc (wk_pc w') \<longrightarrow> pin_checked E (wk_item w'))"
      using step_begun[OF work(3)] step_verified[OF work(3)] old[OF me] item by auto
    have "set (dm_workers D') \<subseteq> insert w' (set (dm_workers D))"
      using work(5) by (simp add: set_update_subset_insert)
    then show ?thesis using old new unfolding workers_ok_def by blast
  qed
qed

section \<open>Properties of the daemon\<close>

lemma boot_ok: "capacity_ok cfg (boot cfg)" "tokens_ok (boot cfg)" "workers_ok E (boot cfg)"
  by (simp_all add: boot_def spawn_queue_def capacity_ok_def tokens_ok_def workers_ok_def)

text \<open>C5: however API calls, the expiry sweep and the workers interleave, and whichever statements
  fail, no run is ever processed by two workers at once, and a cancellation token is registered
  for a run exactly while one worker processes it.\<close>

theorem one_worker_per_run:
  assumes "daemon_run E cfg D"
  shows "length (filter (holder rid) (dm_workers D)) = (if q_tokens (dm_q D) rid = None then 0 else 1)"
  using tokens.steps_inv[OF assms boot_ok(2)] by (simp add: tokens_ok_def)


text \<open>C25: nothing executes unrecorded: whenever a worker runs an experiment, or is past running it,
  the run's start and recovery plan are durable, and if the run needed approval, the request the
  worker executes still hashes to the approved pin and the approval is consumed.\<close>

theorem executions_are_recorded:
  assumes "daemon_run E cfg D" "w \<in> set (dm_workers D)" "begun_pc (wk_pc w)"
  shows "recorded (data (q_store (dm_q D))) (wk_item w) \<and> pin_checked E (wk_item w)"
proof -
  have "workers_ok E D" using workers.steps_inv assms(1) boot_ok(3) by blast
  then show ?thesis using assms(2,3) by (simp add: workers_ok_def verified_pc_def)
qed

text \<open>The history of the store under the daemon: in every state the daemon reaches, the audit
  trail of every run verifies (on a clock that does not run backwards), ids are unique, decisions
  respect the segregation of duties, and no started run is back in a state it could start from.\<close>

theorem daemon_keeps_store_invariants:
  assumes "daemon_run E cfg D" "mono (env_clock E)"
  shows "audits_ok E (q_store (dm_q D)) \<and> keys_ok (data (q_store (dm_q D)))
    \<and> (\<forall>r \<in> set (runs (data (q_store (dm_q D)))). run_started_at r \<noteq> None \<longrightarrow>
         run_st r \<notin> {PendingApproval, Queued, Validating})"
proof -
  have fw: "forward_steps E empty_store (q_store (dm_q D))" by (rule daemon_reaches[OF assms(1)])
  have re: "reachable E (q_store (dm_q D))" by (rule forward_steps_are_steps[OF fw])
  have "audits_ok E (q_store (dm_q D))"
    using audit_system.steps_inv[OF re] audits_ok_empty assms(2) by blast
  then show ?thesis
    using reachable_keys_ok[OF re] reachable_past_start[OF fw]
    by (auto simp: list_all_iff past_start_def early_def)
qed

end
