(* ===== verification/Worker_Props.thy ===== *)
theory Worker_Props
  imports Daemon_Steps
begin

text \<open>
  One worker's pass over a work item: it ends, it releases its token, and a terminal state is
  written only after the evidence.
\<close>

section \<open>A pass ends\<close>

fun rank :: "wpc \<Rightarrow> nat" where
  "rank WTake = 14"
| "rank WCheckState = 13"
| "rank WVerify = 12"
| "rank WClaim = 11"
| "rank WCapture = 10"
| "rank (WContext p e v) = 9"
| "rank (WCheckToken p e v) = 8"
| "rank (WBegin p e v) = 7"
| "rank (WExecute e v) = 6"
| "rank (WComplete e j) = 5"
| "rank (WLateStop e j) = 4"
| "rank (WCleanup e j) = 3"
| "rank (WRetry e j) = 2"
| "rank (WFail err) = 2"
| "rank (WRefuse reason) = 2"
| "rank WRelease = 1"
| "rank WEnd = 0"

lemma rank_0 [simp]: "rank pc = 0 \<longleftrightarrow> pc = WEnd"
  by (cases pc) auto

lemma branch_rank:
  "branch w m err ok q = (w', q') \<Longrightarrow> (\<And>e. rank (err e) < n) \<Longrightarrow> (\<And>x. rank (ok x) < n) \<Longrightarrow> rank (wk_pc w') < n"
  by (auto simp: branch_def split: prod.splits sum.splits)

lemma step_rank:
  assumes "worker_step E G T w q = (w', q')" "wk_pc w \<noteq> WEnd"
  shows "rank (wk_pc w') < rank (wk_pc w)"
proof (cases "wk_pc w")
  case WVerify
  then have "branch w (verify_approval E (wi_run (wk_item w)) (wi_request (wk_item w)) (wi_pin (wk_item w)))
     WRefuse (\<lambda>_. WClaim) q = (w', q')" using assms(1) by (simp add: worker_step_def step_verify_def)
  then show ?thesis by (rule branch_rank) (simp_all add: WVerify)
next
  case WClaim
  then show ?thesis using assms(1) branch_rank[of w _ "\<lambda>_. WRelease" "\<lambda>_. WCapture" q w' q' 11]
    by (simp add: worker_step_def step_claim_def)
next
  case (WContext p e v)
  then show ?thesis using assms(1) branch_rank[of w _ WFail "\<lambda>_. WCheckToken p e v" q w' q' 9]
    by (simp add: worker_step_def step_context_def)
next
  case (WBegin p e v)
  then show ?thesis using assms(1) branch_rank[of w _ WFail "\<lambda>_. WExecute e v" q w' q' 7]
    by (simp add: worker_step_def step_begin_def)
next
  case (WComplete e j)
  then show ?thesis using assms(1) branch_rank[of w _ "\<lambda>_. WLateStop e j" "\<lambda>_. WRelease" q w' q' 5]
    by (simp add: worker_step_def step_complete_def)
qed (use assms in \<open>auto simp: worker_step_def step_take_def step_check_state_def step_refuse_def step_capture_def
  step_execute_def step_late_stop_def step_cleanup_def Let_def
  split: if_splits prod.splits sum.splits runner_outcome.splits cleanup_outcome.splits\<close>)

lemma run_worker_ends: "rank (wk_pc w) \<le> n \<Longrightarrow> run_worker n E G T w q = (w', q') \<Longrightarrow> wk_pc w' = WEnd"
proof (induction n arbitrary: w q)
  case (Suc n)
  obtain w1 q1 where s: "worker_step E G T w q = (w1, q1)" by (cases "worker_step E G T w q")
  show ?case
  proof (cases "wk_pc w = WEnd")
    case True
    then have "w1 = w" "q1 = q" using s by (simp_all add: worker_step_def)
    then show ?thesis using Suc.IH[of w q] Suc.prems True s by simp
  next
    case False
    then show ?thesis using Suc.IH[of w1 q1] Suc.prems step_rank[OF s False] s by simp
  qed
qed simp

text \<open>What a pass does to the tokens, while it runs and at its end.\<close>

definition pass_tokens :: "(string \<rightharpoonup> bool) \<Rightarrow> worker \<Rightarrow> qstate \<Rightarrow> bool" where
  "pass_tokens t0 w q \<longleftrightarrow> (let rid = wi_run (wk_item w) in
     if holds_token w then (q_tokens q)(rid := None) = t0 \<and> t0 rid = None \<and> q_tokens q rid \<noteq> None else q_tokens q = t0)"

lemma step_pass_tokens:
  assumes "worker_step E G T w q = (w', q')" "pass_tokens t0 w q"
  shows "pass_tokens t0 w' q'"
proof (cases "wk_pc w = WEnd")
  case True
  then show ?thesis using assms by (simp add: worker_step_def)
next
  case False
  from step_effect[OF assms(1) this] show ?thesis using assms(2) False
    by (cases "wk_pc w") (auto simp: worker_effect_def pass_tokens_def holds_token_def Let_def fun_upd_idem
        split: if_splits)
qed

lemma run_worker_pass_tokens: "pass_tokens t0 w q \<Longrightarrow> run_worker n E G T w q = (w', q') \<Longrightarrow> pass_tokens t0 w' q'"
  by (induction n arbitrary: w q) (auto split: prod.splits dest: step_pass_tokens)

text \<open>C38: \<open>process\<close> always returns: within its bound of steps the pass over a work item ends,
  whatever fails on the way and whatever the experiment returns, and the cancellation tokens are
  then as they were before, so that the run's own token is released and a token of another worker
  on the same run is left alone.\<close>

theorem process_ends:
  "wk_pc (fst (process E G T item q)) = WEnd \<and> q_tokens (snd (process E G T item q)) = q_tokens q"
proof -
  let ?w = "\<lparr> wk_item = item, wk_pc = WTake \<rparr>"
  obtain w' q' where r: "run_worker 17 E G T ?w q = (w', q')" by (cases "run_worker 17 E G T ?w q")
  have "wk_pc w' = WEnd" by (rule run_worker_ends[OF _ r]) simp
  moreover have "pass_tokens (q_tokens q) w' q'"
    by (rule run_worker_pass_tokens[OF _ r]) (simp add: pass_tokens_def holds_token_def)
  ultimately show ?thesis by (simp add: process_def r pass_tokens_def holds_token_def)
qed

section \<open>Evidence first\<close>

definition has_evidence :: "journal \<Rightarrow> qstate \<Rightarrow> bool" where
  "has_evidence j q \<longleftrightarrow> jr_experiment_id j \<in> jr_experiment_id ` set (q_evidence q)"

text \<open>Ingesting touches neither the run tables nor the tokens.\<close>

definition untouched :: "qstate \<Rightarrow> qstate \<Rightarrow> bool" where
  "untouched q q' \<longleftrightarrow> data (q_store q') = data (q_store q) \<and> q_tokens q' = q_tokens q"

interpretation untouched: comp_order untouched
  by unfold_locales (simp_all add: untouched_def)

lemma untouched_ingest: "obeys untouched (ingest_journal E j)"
proof -
  have st: "obeys untouched (on_store (stmt E))"
    by (rule obeys_weaken[OF reads_base(2)]) (auto simp: untouched_def dest: only_timeD)
  have add: "obeys untouched (\<lambda>q. (Inr (), q \<lparr> q_evidence := q_evidence q @ [j] \<rparr>))"
    by (auto simp: obeys_def untouched_def)
  have "obeys untouched (\<lambda>q. if jr_experiment_id j \<in> jr_experiment_id ` set (q_evidence q) then (Inr (), q)
      else seqc (on_store (stmt E)) (seqc (on_store (stmt E)) (seqc (on_store (stmt E))
        (\<lambda>q. (Inr (), q \<lparr> q_evidence := q_evidence q @ [j] \<rparr>)))) q)"
    using untouched.obeys_seqc[OF st untouched.obeys_seqc[OF st untouched.obeys_seqc[OF st add]]]
    by (auto simp: obeys_def split: if_splits)
  then show ?thesis unfolding ingest_journal_def by (rule untouched.obeys_seqc[OF st])
qed

lemma ingest_journal_Inr: "ingest_journal E j q = (Inr x, q') \<Longrightarrow> has_evidence j q'"
  by (auto simp: ingest_journal_def has_evidence_def simp del: on_store_Inr split: if_splits)

lemma ingest_journal_cases:
  assumes "ingest_journal E j q = (r, q')"
  shows "data (q_store q') = data (q_store q) \<and> q_tokens q' = q_tokens q \<and> (is_ok r \<longrightarrow> has_evidence j q')"
  using obeysD[OF untouched_ingest assms] ingest_journal_Inr[of E j q _ q'] assms
  by (auto simp: untouched_def is_ok_iff)

lemma finish_run_Inr:
  assumes "finish_run E rid st eid rb err s = (Inr (), s')"
  shows "\<exists>r \<in> set (runs (data s')). run_id r = rid \<and> run_st r = st \<and> run_ended_at r \<noteq> None"
proof -
  from finish_run_rows[OF assms] obtain now where one: "length (filter (finishable rid st) (runs (data s))) = 1"
    and rows: "runs (data s') = map (\<lambda>r. if finishable rid st r then finished_row st eid rb err now r else r) (runs (data s))"
    by blast
  from filter_one[OF one] obtain x where x: "x \<in> set (runs (data s))" "finishable rid st x" by blast
  then have "finished_row st eid rb err now x \<in> set (runs (data s'))" unfolding rows by (auto intro!: image_eqI[of _ _ x])
  then show ?thesis using x(2) by (intro bexI[of _ "finished_row st eid rb err now x"])
    (simp_all add: finished_row_def finishable_def)
qed

text \<open>C6: evidence comes before the terminal state, and a stop that was accepted comes before both:
  recording a completion changes the tables only with the journal already ingested and never for
  a cancelled run whose journal is not the interrupted one, and it succeeds only with the run
  finished in the state the journal calls for: rollback pending when a rollback failed.\<close>

theorem evidence_before_terminal:
  assumes "record_completion E rid j q = (r, q')"
  shows "(data (q_store q') \<noteq> data (q_store q) \<or> is_ok r \<longrightarrow>
        has_evidence j q' \<and> \<not> (is_cancelled rid q \<and> jr_status j \<noteq> Interrupted))
    \<and> (is_ok r \<longrightarrow> (\<exists>x \<in> set (runs (data (q_store q'))). run_id x = rid \<and> run_ended_at x \<noteq> None
        \<and> run_st x = (if 0 < jr_rollback_failures j then RollbackPending else terminal_state (jr_status j))))"
proof (cases "is_cancelled rid q \<and> jr_status j \<noteq> Interrupted")
  case True
  then show ?thesis using assms by (auto simp: record_completion_def)
next
  case False
  let ?fin = "on_store (finish_run E rid (completion_state j) (Some (jr_experiment_id j)) (Some (rollback_text j)) None)"
  have run: "seqc (ingest_journal E j) ?fin q = (r, q')" using assms False by (simp add: record_completion_def)
  show ?thesis
  proof (cases "fst (ingest_journal E j q)")
    case (Inl e)
    then obtain q1 where "ingest_journal E j q = (Inl e, q1)" by (cases "ingest_journal E j q") simp
    then show ?thesis using run ingest_journal_cases[of E j q "Inl e" q1] by (auto simp: seqc_def bindc_eq)
  next
    case (Inr x)
    then obtain q1 where q1: "ingest_journal E j q = (Inr x, q1)" by (cases "ingest_journal E j q") simp
    note ing = ingest_journal_cases[OF q1]
    obtain r0 t where t: "finish_run E rid (completion_state j) (Some (jr_experiment_id j)) (Some (rollback_text j)) None (q_store q1) = (r0, t)"
      "r = map_err store_error_str r0" "q' = q1 \<lparr> q_store := t \<rparr>"
      using run q1 by (auto simp: seqc_def bindc_eq on_store_eq)
    have ev: "has_evidence j q'" using ing t(3) by (simp add: has_evidence_def)
    have "\<exists>x \<in> set (runs (data (q_store q'))). run_id x = rid \<and> run_ended_at x \<noteq> None \<and> run_st x = completion_state j"
      if "is_ok r"
    proof -
      have "r0 = Inr ()" using that t(2) by (cases r0) (auto simp: map_err_def)
      from finish_run_Inr[OF t(1)[unfolded this]] show ?thesis unfolding t(3) by auto
    qed
    then show ?thesis using ev False by (auto simp: completion_state_def)
  qed
qed

end
