(* ===== verification/Queue_Control.thy ===== *)
theory Queue_Control
  imports Queue_Props
begin

text \<open>
  The emergency stop and the expiry sweep over many runs: neither gives up at a failing run.
\<close>

section \<open>An environment that does not fail\<close>

definition reliable :: "env \<Rightarrow> bool" where
  "reliable E \<longleftrightarrow> (\<forall>n. env_io E n = None)"

lemma reliable_stmt: "reliable E \<Longrightarrow> stmt E s = (Inr (), s \<lparr> tick := tick s + 1 \<rparr>)"
  by (simp add: stmt_def reliable_def)

lemma reliable_query: "reliable E \<Longrightarrow> query E f s = (Inr (f (data s)), s \<lparr> tick := tick s + 1 \<rparr>)"
  by (simp add: reliable_def)

lemma reliable_execute: "reliable E \<Longrightarrow>
    execute E f s = (Inr (fst (f (data s))), s \<lparr> tick := tick s + 1, data := snd (f (data s)) \<rparr>)"
  by (simp add: reliable_def)

lemma reliable_audit: "reliable E \<Longrightarrow> \<exists>t row. insert_run_audit E rid ev det act s = (Inr (), t)
    \<and> data t = data s \<lparr> audits := audits (data s) @ [row] \<rparr>"
  by (simp add: insert_run_audit_def bindc_def now_ns_def reliable_query reliable_execute Let_def) (rule exI, rule refl)

lemma reliable_with_tx: "reliable E \<Longrightarrow> f (s \<lparr> tick := tick s + 1 \<rparr>) = (Inr x, s2) \<Longrightarrow>
    with_tx E f s = (Inr x, s2 \<lparr> tick := tick s2 + 1 \<rparr>)"
  by (simp add: with_tx_def reliable_stmt)

lemma filter_distinct_one:
  "distinct (map f xs) \<Longrightarrow> x \<in> set xs \<Longrightarrow> P x \<Longrightarrow> filter (\<lambda>y. f y = f x \<and> P y) xs = [x]"
proof (induction xs)
  case (Cons y ys)
  then show ?case by (cases "x = y") (auto simp: filter_empty_conv image_iff)
qed simp

lemma reliable_stop:
  assumes "reliable E" "distinct (map run_id (runs (data s)))" "r \<in> set (runs (data s))" "stoppable (run_st r)"
  shows "is_ok (fst (request_run_stop E (run_id r) actor s))"
proof -
  let ?P = "\<lambda>x. run_id x = run_id r \<and> stoppable (run_st x)"
  let ?s1 = "s \<lparr> tick := Suc (Suc (tick s)) \<rparr>"
  define now where "now = env_clock E (Suc (tick s))"
  have one: "filter ?P (runs (data s)) = [r]" by (rule filter_distinct_one[of run_id _ r "\<lambda>x. stoppable (run_st x)"]) (use assms in simp_all)
  let ?rows = "map (\<lambda>x. if ?P x then stop_row now x else x) (runs (data s))"
  define s2 where "s2 = snd (update_runs E ?P (stop_row now) ?s1)"
  have u: "update_runs E ?P (stop_row now) ?s1 = (Inr 1, s2)" and rows: "runs (data s2) = ?rows"
    by (simp_all add: s2_def update_runs_def update_where_def reliable_execute[OF assms(1)] one)
  obtain t1 a1 where t1: "insert_run_audit E (run_id r) ''stop_requested'' None actor s2 = (Inr (), t1)"
    "data t1 = data s2 \<lparr> audits := audits (data s2) @ [a1] \<rparr>" using reliable_audit[OF assms(1)] by blast
  have "stop_row now r \<in> set ?rows" "run_id (stop_row now r) = run_id r"
    using assms(3,4) by (auto simp: stop_row_def intro!: image_eqI[of _ _ r])
  then have "find (\<lambda>x. run_id x = run_id r) (runs (data t1)) \<noteq> None"
    using rows t1(2) by (auto simp: find_None_iff)
  then obtain x where x: "find (\<lambda>x. run_id x = run_id r) (runs (data t1)) = Some x" by blast
  then have q: "query_state E (run_id r) t1 = (Inr (run_st x), t1 \<lparr> tick := tick t1 + 1 \<rparr>)"
    by (simp add: query_state_def bindc_def reliable_query[OF assms(1)] ret_def)
  obtain t2 a2 where t2: "insert_run_audit E (run_id r) (state_str (run_st x)) None actor (t1 \<lparr> tick := Suc (tick t1) \<rparr>) = (Inr (), t2)"
    using reliable_audit[OF assms(1)] by blast
  have "request_run_stop E (run_id r) actor s = (Inr (), t2 \<lparr> tick := tick t2 + 1 \<rparr>)"
    unfolding request_run_stop_def
    by (rule reliable_with_tx[OF assms(1)])
      (simp add: bindc_def seqc_def now_ns_def u[unfolded now_def] require_transition_def ensure_def ret_def t1 q t2)
  then show ?thesis by simp
qed

section \<open>The emergency stop\<close>

text \<open>What a stop may do to the rows, whether it succeeds or fails.\<close>

definition stopped_rows :: "string \<Rightarrow> int \<Rightarrow> run_row list \<Rightarrow> run_row list" where
  "stopped_rows rid now rs = map (\<lambda>r. if run_id r = rid \<and> stoppable (run_st r) then stop_row now r else r) rs"

lemma request_run_stop_rows:
  assumes "request_run_stop E rid actor s = (Inr (), t)"
  shows "\<exists>now. runs (data t) = stopped_rows rid now (runs (data s))"
proof -
  from request_run_stop_Inr[OF assms] obtain now rows where
    "data t = data s \<lparr> runs := map (\<lambda>r. if run_id r = rid \<and> stoppable (run_st r) then stop_row now r else r)
          (runs (data s)), audits := audits (data s) @ rows \<rparr>" by blast
  then show ?thesis by (intro exI[of _ now]) (simp add: stopped_rows_def)
qed

lemma read_run_state_facts:
  assumes "read_run_state E rid q = (st, q')"
  shows "only_time q q' \<and> (reliable E \<longrightarrow> st = map_option run_st (find (\<lambda>r. run_id r = rid) (runs (data (q_store q)))))"
proof -
  obtain r q1 where r: "fresh_read E (run_get E rid) q = (r, q1)" by (cases "fresh_read E (run_get E rid) q")
  have "only_time q q1" using obeysD[OF reads_base(4), of E _ q r q1] r by (simp add: run_get_def)
  moreover have "q' = q1" using assms r by (auto simp: read_run_state_def split: sum.splits option.splits)
  moreover have "st = map_option run_st (find (\<lambda>r. run_id r = rid) (runs (data (q_store q))))" if "reliable E"
  proof -
    have "r = Inr (map_option (\<lambda>x. (x, definition_name (data (q_store q)) x)) (find (\<lambda>r. run_id r = rid) (runs (data (q_store q)))))"
      using r that by (auto simp: fresh_read_def on_store_eq seqc_def bindc_def reliable_stmt reliable_query run_get_def
        map_err_def)
    then show ?thesis using assms r
      by (cases "find (\<lambda>r. run_id r = rid) (runs (data (q_store q)))") (auto simp: read_run_state_def)
  qed
  ultimately show ?thesis by simp
qed

lemma stop_run_rows:
  assumes "stop_run E rid actor q = (res, q')"
  shows "runs (data (q_store q')) = runs (data (q_store q))
    \<or> (\<exists>now. runs (data (q_store q')) = stopped_rows rid now (runs (data (q_store q))))"
proof -
  obtain st q1 where s: "read_run_state E rid q = (st, q1)" by (cases "read_run_state E rid q")
  have o: "only_time q q1" using read_run_state_facts[OF s] by simp
  have c: "q_store (cancel_token rid q1) = q_store q1" by (simp add: cancel_token_def split: option.split)
  consider "q' = q1" | r0 t where "request_run_stop E rid actor (q_store q1) = (r0, t)" "q_store q' = t"
    using assms s c by (auto simp: stop_run_def with_err_eq on_store_eq split: option.splits if_splits)
  then show ?thesis
  proof cases
    case 2
    show ?thesis
    proof (cases r0)
      case (Inl e)
      then have "data t = data (q_store q1)" using 2(1) with_tx_Inl unfolding request_run_stop_def by blast
      then show ?thesis using 2(2) only_timeD(1)[OF o] by simp
    next
      case (Inr x)
      then show ?thesis using request_run_stop_rows[of E rid actor "q_store q1" t] 2 only_timeD(1)[OF o] by simp
    qed
  qed (use only_timeD(1)[OF o] in simp)
qed

definition halted :: "string \<Rightarrow> run_row list \<Rightarrow> bool" where
  "halted rid rs \<longleftrightarrow> (\<exists>r \<in> set rs. run_id r = rid \<and> run_st r \<in> {Stopping, RAborted})"

definition haltable :: "string \<Rightarrow> run_row list \<Rightarrow> bool" where
  "haltable rid rs \<longleftrightarrow> (\<exists>r \<in> set rs. run_id r = rid \<and> run_st r \<in> insert RAborted (set haltable_states))"

lemma stop_row_facts [simp]: "run_id (stop_row now r) = run_id r"
  "run_st (stop_row now r) = (if run_started_at r = None then RAborted else Stopping)"
  by (simp_all add: stop_row_def)

lemma map_run_id_stopped [simp]: "map run_id (stopped_rows rid now rs) = map run_id rs"
  by (simp add: stopped_rows_def)

lemma stopped_rows_mem:
  assumes "r \<in> set rs"
  shows "\<exists>r' \<in> set (stopped_rows rid now rs). run_id r' = run_id r \<and> (r' = r \<or> run_st r' \<in> {Stopping, RAborted})"
proof -
  let ?r = "if run_id r = rid \<and> stoppable (run_st r) then stop_row now r else r"
  have "?r \<in> set (stopped_rows rid now rs)" using assms unfolding stopped_rows_def set_map by (rule imageI)
  then show ?thesis by (rule rev_bexI) simp
qed

lemma halted_stopped: "halted x rs \<Longrightarrow> halted x (stopped_rows rid now rs)"
  unfolding halted_def using stopped_rows_mem by metis

lemma haltable_stopped: "haltable x rs \<Longrightarrow> haltable x (stopped_rows rid now rs)"
proof -
  assume "haltable x rs"
  then obtain r where r: "r \<in> set rs" "run_id r = x" "run_st r \<in> insert RAborted (set haltable_states)"
    unfolding haltable_def by blast
  obtain r' where "r' \<in> set (stopped_rows rid now rs)" "run_id r' = x" "r' = r \<or> run_st r' \<in> {Stopping, RAborted}"
    using stopped_rows_mem[OF r(1), of rid now] r(2) by blast
  then show ?thesis using r unfolding haltable_def by (intro bexI[of _ r']) (auto simp: haltable_states_def)
qed

lemma stop_halts:
  assumes rel: "reliable E" and dis: "distinct (map run_id (runs (data (q_store q))))"
    and hal: "haltable rid (runs (data (q_store q)))" and stop: "stop_run E rid actor q = (res, q')"
  shows "halted rid (runs (data (q_store q')))"
proof -
  obtain r where r: "r \<in> set (runs (data (q_store q)))" "run_id r = rid" "run_st r \<in> insert RAborted (set haltable_states)"
    using hal unfolding haltable_def by blast
  obtain st q1 where s: "read_run_state E rid q = (st, q1)" by (cases "read_run_state E rid q")
  have o: "only_time q q1" using read_run_state_facts[OF s] by simp
  have "find (\<lambda>x. run_id x = rid) (runs (data (q_store q))) = Some r"
  proof -
    obtain y where y: "find (\<lambda>x. run_id x = rid) (runs (data (q_store q))) = Some y"
      using r by (cases "find (\<lambda>x. run_id x = rid) (runs (data (q_store q)))") (auto simp: find_None_iff)
    then have "y \<in> set (runs (data (q_store q)))" "run_id y = rid" by (auto simp: find_Some_iff)
    then show ?thesis using y distinct_key_unique[OF dis, of y r] r by simp
  qed
  then have st: "st = Some (run_st r)" using read_run_state_facts[OF s] rel by simp
  show ?thesis
  proof (cases "run_st r = RAborted")
    case True
    then have "q' = q1" using stop s st by (simp add: stop_run_def)
    then show ?thesis using r True only_timeD(1)[OF o] by (auto simp: halted_def)
  next
    case False
    then have nt: "\<not> terminal (run_st r)" "stoppable (run_st r)" using r(3) by (auto simp: haltable_states_def stoppable_def)
    have c: "q_store (cancel_token rid q1) = q_store q1" by (simp add: cancel_token_def split: option.split)
    obtain r0 t where t: "request_run_stop E rid actor (q_store q1) = (r0, t)" "q_store q' = t"
      using stop s st nt c by (auto simp: stop_run_def with_err_eq on_store_eq)
    have "is_ok r0" using reliable_stop[OF rel, of "q_store q1" r actor] dis r nt t(1) only_timeD(1)[OF o] by simp
    then have "request_run_stop E rid actor (q_store q1) = (Inr (), t)" using t(1) by (cases r0) auto
    from request_run_stop_rows[OF this] obtain now where rows: "runs (data t) = stopped_rows rid now (runs (data (q_store q)))"
      using only_timeD(1)[OF o] by auto
    have "stop_row now r \<in> set (runs (data t))" using r nt unfolding rows
      by (auto simp: stopped_rows_def intro!: image_eqI[of _ _ r])
    then show ?thesis using r t(2) unfolding halted_def by (intro bexI[of _ "stop_row now r"]) simp_all
  qed
qed

lemma halt_loop_cons: "\<exists>h' res q1. stop rid q = (res, q1) \<and> halt_loop stop (rid # ids) h q = halt_loop stop ids h' q1
    \<and> hs_requested h' = hs_requested h
    \<and> hs_stopped h' + hs_skipped h' + length (hs_failed h') = hs_stopped h + hs_skipped h + length (hs_failed h) + 1"
  by (auto split: prod.split sum.split stop_error.split)

lemma halt_loop_counts:
  "hs_requested (fst (halt_loop stop ids h q)) = hs_requested h
   \<and> hs_stopped (fst (halt_loop stop ids h q)) + hs_skipped (fst (halt_loop stop ids h q)) + length (hs_failed (fst (halt_loop stop ids h q)))
     = hs_stopped h + hs_skipped h + length (hs_failed h) + length ids"
proof (induction ids arbitrary: h q)
  case (Cons rid ids)
  from halt_loop_cons[of stop rid q ids h] obtain h' res q1 where
    e: "halt_loop stop (rid # ids) h q = halt_loop stop ids h' q1" and h': "hs_requested h' = hs_requested h"
    "hs_stopped h' + hs_skipped h' + length (hs_failed h') = hs_stopped h + hs_skipped h + length (hs_failed h) + 1" by blast
  show ?case unfolding e using Cons[of h' q1] h' by simp
qed simp

text \<open>Stop-all accounts for every run it was asked to stop: whatever the single stops return,
  each requested run is counted exactly once as stopped, skipped or failed.\<close>

theorem halt_accounts_for_all:
  "hs_requested (fst (halt_runs stop ids q)) = length ids
   \<and> hs_stopped (fst (halt_runs stop ids q)) + hs_skipped (fst (halt_runs stop ids q))
     + length (hs_failed (fst (halt_runs stop ids q))) = length ids"
  using halt_loop_counts[of stop ids _ q] by (simp add: halt_runs_def)

lemma halt_loop_halts:
  assumes "reliable E" "distinct (map run_id (runs (data (q_store q))))"
    and "(x \<in> set ids \<and> haltable x (runs (data (q_store q)))) \<or> halted x (runs (data (q_store q)))"
  shows "halted x (runs (data (q_store (snd (halt_loop (\<lambda>rid. stop_run E rid actor) ids h q)))))"
  using assms(2,3)
proof (induction ids arbitrary: h q)
  case (Cons rid ids)
  from halt_loop_cons[of "\<lambda>rid. stop_run E rid actor" rid q ids h] obtain h' res q1 where
    s: "stop_run E rid actor q = (res, q1)"
    and e: "halt_loop (\<lambda>rid. stop_run E rid actor) (rid # ids) h q = halt_loop (\<lambda>rid. stop_run E rid actor) ids h' q1" by blast
  let ?rs = "runs (data (q_store q))" and ?rs1 = "runs (data (q_store q1))"
  have rows: "?rs1 = ?rs \<or> (\<exists>now. ?rs1 = stopped_rows rid now ?rs)" by (rule stop_run_rows[OF s])
  then have d: "distinct (map run_id ?rs1)" using Cons.prems(1) by auto
  have "(x \<in> set ids \<and> haltable x ?rs1) \<or> halted x ?rs1"
  proof (cases "halted x ?rs")
    case True
    then show ?thesis using rows halted_stopped by auto
  next
    case False
    then have h: "x \<in> set (rid # ids)" "haltable x ?rs" using Cons.prems(2) by auto
    show ?thesis
    proof (cases "x = rid")
      case True
      then show ?thesis using stop_halts[OF assms(1) Cons.prems(1) _ s] h by simp
    next
      case False
      then show ?thesis using h rows haltable_stopped by auto
    qed
  qed
  then show ?case unfolding e using Cons.IH[OF d] by blast
qed simp

text \<open>C27: stop-all halts everything haltable: when the store does not fail, each listed run that was
  queued, validating, running, stopping or waiting for approval is afterwards stopping or, if it
  had not started, aborted, in whatever order the runs are visited and however often one is
  listed.\<close>

theorem halt_stops_everything:
  assumes "reliable E" "distinct (map run_id (runs (data (q_store q))))"
    and "r \<in> set (runs (data (q_store q)))" "run_id r \<in> set ids" "run_st r \<in> set haltable_states"
  shows "halted (run_id r) (runs (data (q_store (snd (halt_runs (\<lambda>rid. stop_run E rid actor) ids q)))))"
  unfolding halt_runs_def
  by (rule halt_loop_halts[OF assms(1,2)]) (use assms(3-5) in \<open>auto simp: haltable_def\<close>)

section \<open>The expiry sweep\<close>

definition expires :: "string list \<Rightarrow> run_row \<Rightarrow> run_row \<Rightarrow> bool" where
  "expires ids r r' \<longleftrightarrow> r' = r \<or> run_st r = PendingApproval \<and> run_id r \<in> set ids \<and> run_st r' = Expired
     \<and> run_id r' = run_id r \<and> run_rollback_status r' = Some ''not_needed''"

lemma list_all2_map_same: "(\<And>x. x \<in> set xs \<Longrightarrow> P x (f x)) \<Longrightarrow> list_all2 P xs (map f xs)"
  by (simp add: list_all2_conv_all_nth)

lemma list_all2_expires_refl: "list_all2 (expires ids) rs rs"
  by (simp add: list_all2_conv_all_nth expires_def)

lemma expires_trans: "expires ids r r1 \<Longrightarrow> expires ids r1 r2 \<Longrightarrow> expires ids r r2"
  by (auto simp: expires_def)

lemma expire_all_rows: "set ids \<subseteq> set all \<Longrightarrow> list_all2 (expires all) (runs (data (q_store q))) (runs (data (q_store (expire_all E ids q))))"
proof (induction ids arbitrary: q)
  case Nil
  then show ?case by (simp add: list_all2_expires_refl)
next
  case (Cons rid ids)
  let ?fin = "finish_run E rid Expired None (Some ''not_needed'') (Some ''approval TTL lapsed'')"
  obtain r t where rt: "?fin (q_store q) = (r, t)" by (cases "?fin (q_store q)")
  have "list_all2 (expires all) (runs (data (q_store q))) (runs (data t))"
  proof (cases r)
    case (Inl e)
    then have "data t = data (q_store q)" using rt unfolding finish_run_def by (auto dest: with_tx_Inl)
    then show ?thesis by (simp add: list_all2_expires_refl)
  next
    case (Inr x)
    then obtain now where "runs (data t) = map (\<lambda>r. if finishable rid Expired r
        then finished_row Expired None (Some ''not_needed'') (Some ''approval TTL lapsed'') now r else r) (runs (data (q_store q)))"
      using finish_run_rows[of E rid Expired None "Some ''not_needed''" "Some ''approval TTL lapsed''" "q_store q" t] rt by auto
    then show ?thesis using Cons.prems
      by (auto intro!: list_all2_map_same simp: expires_def finishable_def finished_row_def)
  qed
  moreover have "q_store (snd (on_store ?fin q)) = t" using rt by (simp add: on_store_def exec_write_def put_store_def)
  ultimately show ?case
    using Cons.IH[of "snd (on_store ?fin q)"] Cons.prems list_all2_trans[of "expires all" "expires all" "expires all"] expires_trans
    by (metis (no_types, lifting) expire_all.simps(2) insert_subset list.simps(15))
qed

text \<open>The sweep expires nothing but lapsed approvals: whichever of its statements fail, a run it
  changes was waiting for approval and had a request whose deadline had passed on the clock the
  sweep read, and it becomes expired with no rollback needed; every other run stays as it is.\<close>

theorem sweep_expires_only_lapsed:
  "list_all2 (\<lambda>r r'. r' = r \<or> run_st r = PendingApproval \<and> run_st r' = Expired
       \<and> run_id r' = run_id r \<and> run_rollback_status r' = Some ''not_needed''
       \<and> (\<exists>rq \<in> set (requests (data (q_store q))). rq_run rq = run_id r
            \<and> rq_expires_at rq < env_clock E (tick (q_store q) + 1)))
     (runs (data (q_store q))) (runs (data (q_store (sweep_expired_approvals E q))))"
  (is "list_all2 ?P _ _")
proof -
  let ?m = "bindc (stmt E) (\<lambda>_. bindc (now_ns E) (expired_pending_approvals E))"
  obtain r t where m: "?m (q_store q) = (r, t)" by (cases "?m (q_store q)")
  have dt: "data t = data (q_store q)"
    using m by (auto simp: bindc_eq stmt_eq now_ns_eq expired_pending_approvals_def dest: query_cases(1))
  show ?thesis
  proof (cases r)
    case (Inl e)
    then have "q_store (sweep_expired_approvals E q) = t"
      using m by (simp add: sweep_expired_approvals_def on_store_def exec_write_def put_store_def map_err_def)
    then show ?thesis using dt by (simp add: list_all2_conv_all_nth)
  next
    case (Inr ids)
    have ids: "ids = concat (map (\<lambda>r. map (\<lambda>q. run_id r) (filter (\<lambda>rq. rq_run rq = run_id r
        \<and> rq_expires_at rq < env_clock E (tick (q_store q) + 1)) (requests (data (q_store q)))))
       (filter (\<lambda>r. run_st r = PendingApproval) (runs (data (q_store q)))))"
      using m Inr by (auto simp: stmt_eq now_ns_eq expired_pending_approvals_def)
    have s: "sweep_expired_approvals E q = expire_all E ids (q \<lparr> q_store := t \<rparr>)"
      using m Inr by (simp add: sweep_expired_approvals_def on_store_def exec_write_def put_store_def map_err_def del: bindc_Inr)
    have "list_all2 (expires ids) (runs (data (q_store q))) (runs (data (q_store (sweep_expired_approvals E q))))"
      using expire_all_rows[of ids ids "q \<lparr> q_store := t \<rparr>" E] dt s by simp
    moreover have "?P r r'" if "expires ids r r'" for r r'
      using that ids by (auto simp: expires_def)
    ultimately show ?thesis by (rule list_all2_mono) auto
  qed
qed

end
