(* ===== verification/Run_Examples.thy ===== *)
theory Run_Examples
  imports Run_Invariants
begin

text \<open>
  A concrete history of the run tables: a gated run is requested, approved,
  dispatched, claimed and started, under an environment where every statement
  succeeds. It shows that the hypotheses of the properties of the run store can
  hold.
\<close>

definition calm_env :: env where
  "calm_env = \<lparr> env_io = (\<lambda>_. None), env_clock = int, env_audit_hash = (\<lambda>_. ''h''), env_pin_hash = (\<lambda>_. ''p'') \<rparr>"

text \<open>The same, but one statement, in the middle of a transaction, fails.\<close>

definition broken_env :: env where
  "broken_env = calm_env \<lparr> env_io := (\<lambda>n. if n = 4 then Some ''disk full'' else None) \<rparr>"

fun run_ops :: "env \<Rightarrow> wop list \<Rightarrow> store \<Rightarrow> store" where
  "run_ops E [] s = s"
| "run_ops E (op # ops) s = run_ops E ops (snd (exec_op E op s))"

fun fresh_ops :: "env \<Rightarrow> wop list \<Rightarrow> store \<Rightarrow> bool" where
  "fresh_ops E [] s = True"
| "fresh_ops E (op # ops) s = (fresh_op op (data s) \<and> \<not> overwrites op \<and> fresh_ops E ops (snd (exec_op E op s)))"

lemma run_ops_guarded: "fresh_ops E ops s \<Longrightarrow> (guarded_step E)\<^sup>*\<^sup>* s (run_ops E ops s)"
proof (induction ops arbitrary: s)
  case (Cons op ops)
  have "guarded_step E s (snd (exec_op E op s))"
    using Cons.prems by (intro guarded_step.step[of op]) (auto simp: prod_eq_iff)
  then show ?case using Cons by (auto intro: converse_rtranclp_into_rtranclp)
qed simp

lemma run_ops_reachable: "fresh_ops E ops empty_store \<Longrightarrow> reachable E (run_ops E ops empty_store)"
  by (rule guarded_steps_are_steps) (rule run_ops_guarded)

definition gated_run :: new_run where
  "gated_run = \<lparr> nr_id = ''r'', nr_registry_id = ''g'', nr_params_json = None, nr_queued_at = 0, nr_actor = Some ''alice'' \<rparr>"

definition gated_request :: request_row where
  "gated_request = \<lparr> rq_run = ''r'', rq_tier = ''T1'', rq_pin = ''p'', rq_env = ''dev'', rq_target = None,
    rq_quorum = 1, rq_requested_by = ''alice'', rq_requested_at = 0, rq_expires_at = 100, rq_consumed_at = None,
    rq_break_glass = False, rq_break_glass_by = None, rq_justification = None \<rparr>"

definition bobs_decision :: decision_row where
  "bobs_decision = \<lparr> dc_run = ''r'', dc_approver = ''bob'', dc_decision = Approved, dc_note = None, dc_decided_at = 1 \<rparr>"

definition sleep_registration :: registry_row where
  "sleep_registration = \<lparr> reg_id = ''g'', reg_name = ''sleep'', reg_definition_toon = ''toon'',
    reg_content_hash = ''c'', reg_registered_at = 0, reg_registered_by = None, reg_gameday = False \<rparr>"

definition requested_ops :: "wop list" where
  "requested_ops = [RegisterDef sleep_registration, InsertGated gated_run gated_request None None]"

definition claimed_ops :: "wop list" where
  "claimed_ops = requested_ops @ [DecidePending bobs_decision, SetState ''r'' Queued None None None, Claim ''r'']"

definition requested_store :: store where
  "requested_store = run_ops calm_env requested_ops empty_store"

definition claimed_store :: store where
  "claimed_store = run_ops calm_env claimed_ops empty_store"

definition started_store :: store where
  "started_store = snd (begin_run_execution calm_env ''r'' ''plan'' (Some ''p'') claimed_store)"

definition stopped_store :: store where
  "stopped_store = snd (request_run_stop calm_env ''r'' None requested_store)"

lemma requested_reachable: "reachable calm_env requested_store"
  unfolding requested_store_def by (rule run_ops_reachable) code_simp

lemma claimed_reachable: "reachable calm_env claimed_store"
  unfolding claimed_store_def by (rule run_ops_reachable) code_simp

lemma calm_mono: "mono (env_clock calm_env)"
  by (simp add: calm_env_def mono_def)

lemma calm_io: "env_io calm_env n = None"
  by (simp add: calm_env_def)

lemma fst_Inr_unit: "is_ok (fst p) \<Longrightarrow> p = (Inr (), snd p)" for p :: "(store_error + unit) \<times> store"
  by (cases p) (auto simp: is_ok_iff)

lemma started_ok: "begin_run_execution calm_env ''r'' ''plan'' (Some ''p'') claimed_store = (Inr (), started_store)"
  unfolding started_store_def by (rule fst_Inr_unit) code_simp

lemma stopped_ok: "request_run_stop calm_env ''r'' None requested_store = (Inr (), stopped_store)"
  unfolding stopped_store_def by (rule fst_Inr_unit) code_simp

theorem write_all_or_nothing_witness:
  "data (snd (exec_op broken_env (InsertGated gated_run gated_request None None) empty_store)) = empty_db"
proof -
  have "\<not> is_ok (fst (exec_op broken_env (InsertGated gated_run gated_request None None) empty_store))" by code_simp
  then obtain e where "exec_op broken_env (InsertGated gated_run gated_request None None) empty_store
      = (Inl e, snd (exec_op broken_env (InsertGated gated_run gated_request None None) empty_store))"
    by (metis is_ok.simps(2) prod.collapse sum.exhaust)
  from write_all_or_nothing[OF this] show ?thesis by (simp add: empty_store_def)
qed

theorem audit_trail_verifies_witness: "fst (verify_run_audit_chain calm_env ''r'' claimed_store) = Inr True"
  by (rule audit_trail_verifies[OF calm_mono claimed_reachable calm_io])

theorem segregation_of_duties_witness:
  "decisions (data claimed_store) = [bobs_decision] \<and>
   (\<exists>q \<in> set (requests (data claimed_store)). rq_run q = ''r'' \<and> rq_requested_by q \<noteq> ''bob'')"
proof -
  have "decisions (data claimed_store) = [bobs_decision]" by code_simp
  then show ?thesis using segregation_of_duties[OF claimed_reachable] by (simp add: bobs_decision_def)
qed

theorem execution_start_spec_witness:
  "length (filter (startable ''r'') (runs (data claimed_store))) = 1 \<and> plans (data started_store) = [(''r'', ''plan'')]"
proof -
  have "plans (data claimed_store) = []" by code_simp
  then show ?thesis using execution_start_spec[OF started_ok] by auto
qed

theorem approval_single_use_witness:
  "\<not> is_ok (fst (begin_run_execution calm_env ''r'' ''plan'' (Some ''p'') started_store))"
  by (rule approval_single_use[OF claimed_reachable started_ok]) simp

theorem stopped_before_start_never_starts_witness:
  "\<not> is_ok (fst (begin_run_execution calm_env ''r'' ''plan'' None stopped_store))"
proof (rule stopped_before_start_never_starts[OF requested_reachable stopped_ok])
  have "list_all (\<lambda>r. run_started_at r = None) (runs (data requested_store))" by code_simp
  then show "\<forall>r \<in> set (runs (data requested_store)). run_id r = ''r'' \<longrightarrow> run_started_at r = None"
    by (simp add: list_all_iff)
qed simp


definition failed_store :: store where
  "failed_store = snd (fail_run calm_env ''r'' ''boom'' started_store)"

theorem failed_started_run_is_recovered_witness:
  "\<exists>a \<in> set (active_run_rows (data failed_store)). run_id (ar_run a) = ''r'' \<and> run_st (ar_run a) = RollbackPending
     \<and> ar_definition_toon a = ''toon''"
proof -
  have f: "fail_run calm_env ''r'' ''boom'' started_store = (Inr (), failed_store)"
    unfolding failed_store_def by (rule fst_Inr_unit) code_simp
  let ?r = "runs (data started_store) ! 0"
  have r: "?r \<in> set (runs (data started_store))" by (rule nth_mem) code_simp
  have facts: "run_id ?r = ''r''" "run_st ?r = Running" "run_started_at ?r \<noteq> None" "run_registry_id ?r = ''g''"
    "registry (data started_store) = [sleep_registration]" by code_simp+
  show ?thesis
    using failed_started_run_is_recovered[OF f r, of sleep_registration] facts
    by (simp add: sleep_registration_def)
qed

text \<open>A digest without collisions, for the tampering property.\<close>

definition unary_env :: env where
  "unary_env = calm_env \<lparr> env_audit_hash := (\<lambda>x. replicate (to_nat x) (CHR ''h'')) \<rparr>"

lemma unary_inj: "inj (env_audit_hash unary_env)"
proof (rule injI)
  fix x y
  assume "env_audit_hash unary_env x = env_audit_hash unary_env y"
  then have "length (replicate (to_nat x) (CHR ''h'')) = length (replicate (to_nat y) (CHR ''h''))"
    by (simp add: unary_env_def)
  then show "x = y" by simp
qed

definition started_event :: audit_row where
  "started_event = \<lparr> au_run = ''r'', au_at = 7, au_event = ''started'', au_detail = None, au_actor = None,
     au_prev = None, au_new = Some (env_audit_hash unary_env (''r'', 7, ''started'', None, None, None)) \<rparr>"

theorem tampering_detected_witness:
  "\<not> verify_chain unary_env None [started_event \<lparr> au_event := ''rejected'' \<rparr>]"
  by (rule tampering_detected[OF unary_inj, of "[started_event]"])
    (simp_all add: started_event_def chained_def audit_hash_of_def)

text \<open>A clock that is set back between two events.\<close>

definition regressing_env :: env where
  "regressing_env = calm_env \<lparr> env_clock := (\<lambda>n. if n = 0 then 5 else 3) \<rparr>"

text \<open>The wall clock orders the trail: when it is set back between two events of a run, both
  writes succeed and nothing was tampered with, and yet the trail no longer verifies.\<close>

theorem clock_regression_breaks_trail:
  "is_ok (fst (exec_op regressing_env (Audit ''r'' ''enqueued'' None None) empty_store)) \<and>
   is_ok (fst (exec_op regressing_env (Audit ''r'' ''validating'' None None)
     (run_ops regressing_env [Audit ''r'' ''enqueued'' None None] empty_store))) \<and>
   fst (verify_run_audit_chain regressing_env ''r''
     (run_ops regressing_env [Audit ''r'' ''enqueued'' None None, Audit ''r'' ''validating'' None None] empty_store)) = Inr False"
  by (intro conjI; code_simp)

text \<open>An unguarded \<open>finish_run\<close> does leave a terminal state: a run that was stopped before it
  started is moved from aborted to passed, although terminal states are documented as final.\<close>

theorem finish_overwrites_terminal:
  "map run_st (runs (data stopped_store)) = [RAborted] \<and>
   is_ok (fst (finish_run calm_env ''r'' Passed None None None stopped_store)) \<and>
   map run_st (runs (data (snd (finish_run calm_env ''r'' Passed None None None stopped_store)))) = [Passed]"
  by (intro conjI; code_simp)

end
