(* ===== verification/Engine_Props.thy ===== *)
theory Engine_Props
  imports Run_Queue
begin

text \<open>
  What the engine's functions do: substitution against the pieces of the text, what
  validation accepts, which variables a run injects into its providers, and what a
  prepared run is therefore known to be.
\<close>

section \<open>Template substitution\<close>

datatype segment = Plain string | OneDollar | TwoDollars | Quoted string bool | Hole string bool

definition brace_end :: "bool \<Rightarrow> string" where
  "brace_end shut = (if shut then ''}'' else [])"

fun seg_source :: "segment \<Rightarrow> string" where
  "seg_source (Plain s) = s"
| "seg_source OneDollar = ''$''"
| "seg_source TwoDollars = ''$$''"
| "seg_source (Quoted nm shut) = ''$${'' @ nm @ brace_end shut"
| "seg_source (Hole nm shut) = ''${'' @ nm @ brace_end shut"

fun seg_value :: "(string \<Rightarrow> string option) \<Rightarrow> (string \<Rightarrow> string) \<Rightarrow> segment \<Rightarrow> string" where
  "seg_value look esc (Plain s) = s"
| "seg_value look esc OneDollar = ''$''"
| "seg_value look esc TwoDollars = ''$$''"
| "seg_value look esc (Quoted nm shut) = ''${'' @ nm @ brace_end shut"
| "seg_value look esc (Hole nm shut) = (case look nm of Some v \<Rightarrow> esc v | None \<Rightarrow> [])"

fun unresolved :: "(string \<Rightarrow> string option) \<Rightarrow> segment list \<Rightarrow> string list" where
  "unresolved look [] = []"
| "unresolved look (Hole nm shut # ss) =
    (if look nm = None then nm # filter (\<lambda>n. n \<noteq> nm) (unresolved look ss) else unresolved look ss)"
| "unresolved look (s # ss) = unresolved look ss"

fun well_split :: "segment list \<Rightarrow> bool" where
  "well_split [] = True"
| "well_split (s # ss) = (well_split ss \<and> (let after = concat (map seg_source ss) in case s of
      Plain t \<Rightarrow> CHR ''$'' \<notin> set t
    | OneDollar \<Rightarrow> after = [] \<or> hd after \<notin> {CHR ''$'', CHR ''{''}
    | TwoDollars \<Rightarrow> after = [] \<or> hd after \<noteq> CHR ''{''
    | Quoted nm shut \<Rightarrow> CHR ''}'' \<notin> set nm \<and> (shut \<or> after = [])
    | Hole nm shut \<Rightarrow> CHR ''}'' \<notin> set nm \<and> (shut \<or> after = [])))"

lemma to_brace_spec: "to_brace s = (inner, shut, rest) \<Longrightarrow>
    s = inner @ brace_end shut @ rest \<and> CHR ''}'' \<notin> set inner \<and> (shut \<or> rest = [])"
  by (induction s arbitrary: inner shut rest) (auto simp: brace_end_def split: if_splits prod.splits)

lemma missing_once: "n \<in> set missing \<Longrightarrow>
    filter (\<lambda>x. x \<notin> set missing) (filter (\<lambda>x. x \<noteq> n) xs) = filter (\<lambda>x. x \<notin> set missing) xs"
  by (induction xs) auto

definition opens :: "char \<Rightarrow> string \<Rightarrow> bool" where
  "opens c s \<longleftrightarrow> s \<noteq> [] \<and> hd s = c"

lemma opens_iff: "opens c s \<longleftrightarrow> (\<exists>r. s = c # r)"
  by (cases s) (auto simp: opens_def)

lemma substitute_steps:
  "c \<noteq> CHR ''$'' \<Longrightarrow> substitute_loop look esc (c # cs) out missing = substitute_loop look esc cs (out @ [c]) missing"
  "to_brace ds = (inner, shut, rest) \<Longrightarrow> substitute_loop look esc (CHR ''$'' # CHR ''$'' # CHR ''{'' # ds) out missing
     = substitute_loop look esc rest (out @ ''${'' @ inner @ brace_end shut) missing"
  "\<not> opens (CHR ''{'') ds \<Longrightarrow> substitute_loop look esc (CHR ''$'' # CHR ''$'' # ds) out missing
     = substitute_loop look esc ds (out @ ''$$'') missing"
  "to_brace ds = (inner, shut, rest) \<Longrightarrow> substitute_loop look esc (CHR ''$'' # CHR ''{'' # ds) out missing
     = (case look inner of Some v \<Rightarrow> substitute_loop look esc rest (out @ esc v) missing
        | None \<Rightarrow> substitute_loop look esc rest out (if inner \<in> set missing then missing else missing @ [inner]))"
  "\<not> opens (CHR ''$'') cs \<Longrightarrow> \<not> opens (CHR ''{'') cs \<Longrightarrow> substitute_loop look esc (CHR ''$'' # cs) out missing
     = substitute_loop look esc cs (out @ ''$'') missing"
  by (auto simp: opens_def brace_end_def)

definition splits_into ::
    "(string \<Rightarrow> string option) \<Rightarrow> (string \<Rightarrow> string) \<Rightarrow> string \<Rightarrow> string \<Rightarrow> string list \<Rightarrow> segment list \<Rightarrow> bool" where
  "splits_into look esc tx out missing ss \<longleftrightarrow> well_split ss \<and> concat (map seg_source ss) = tx
     \<and> substitute_loop look esc tx out missing =
        (out @ concat (map (seg_value look esc) ss), missing @ filter (\<lambda>n. n \<notin> set missing) (unresolved look ss))"

lemma splits_plain:
  assumes "c \<noteq> CHR ''$''" "splits_into look esc cs (out @ [c]) missing ss"
  shows "splits_into look esc (c # cs) out missing (Plain [c] # ss)"
  using assms by (simp add: splits_into_def substitute_steps(1) del: substitute_loop.simps)

lemma splits_quoted:
  assumes "to_brace ds = (inner, shut, rest)" "splits_into look esc rest (out @ ''${'' @ inner @ brace_end shut) missing ss"
  shows "splits_into look esc (CHR ''$'' # CHR ''$'' # CHR ''{'' # ds) out missing (Quoted inner shut # ss)"
  using assms(2) to_brace_spec[OF assms(1)] unfolding splits_into_def substitute_steps(2)[OF assms(1)]
  by (auto simp del: substitute_loop.simps)

lemma splits_two:
  assumes "\<not> opens (CHR ''{'') ds" "splits_into look esc ds (out @ ''$$'') missing ss"
  shows "splits_into look esc (CHR ''$'' # CHR ''$'' # ds) out missing (TwoDollars # ss)"
  using assms by (auto simp: splits_into_def substitute_steps(3) opens_def simp del: substitute_loop.simps)

lemma splits_one:
  assumes "\<not> opens (CHR ''$'') cs" "\<not> opens (CHR ''{'') cs" "splits_into look esc cs (out @ ''$'') missing ss"
  shows "splits_into look esc (CHR ''$'' # cs) out missing (OneDollar # ss)"
  using assms by (auto simp: splits_into_def substitute_steps(5) opens_def simp del: substitute_loop.simps)

lemma splits_hole_Some:
  assumes "to_brace ds = (nm, shut, rest)" "look nm = Some v" "splits_into look esc rest (out @ esc v) missing ss"
  shows "splits_into look esc (CHR ''$'' # CHR ''{'' # ds) out missing (Hole nm shut # ss)"
  using assms(2,3) to_brace_spec[OF assms(1)] unfolding splits_into_def substitute_steps(4)[OF assms(1)]
  by (auto simp del: substitute_loop.simps)

lemma splits_hole_None:
  assumes "to_brace ds = (nm, shut, rest)" "look nm = None"
    "splits_into look esc rest out (if nm \<in> set missing then missing else missing @ [nm]) ss"
  shows "splits_into look esc (CHR ''$'' # CHR ''{'' # ds) out missing (Hole nm shut # ss)"
proof -
  let ?m = "if nm \<in> set missing then missing else missing @ [nm]"
  have "?m @ filter (\<lambda>n. n \<notin> set ?m) xs = missing @ filter (\<lambda>n. n \<notin> set missing) (nm # filter (\<lambda>n. n \<noteq> nm) xs)" for xs
    using missing_once[of nm missing xs] by (auto intro: filter_cong)
  then show ?thesis
    using assms(2,3) to_brace_spec[OF assms(1)] unfolding splits_into_def substitute_steps(4)[OF assms(1)]
    by (auto simp del: substitute_loop.simps)
qed

lemma substitute_loop_segments: "\<exists>ss. splits_into look esc tx out missing ss"
proof (induction "length tx" arbitrary: tx out missing rule: less_induct)
  case less
  consider (empty) "tx = []" | (plain) c cs where "tx = c # cs" "c \<noteq> CHR ''$''"
    | (quoted) ds where "tx = CHR ''$'' # CHR ''$'' # CHR ''{'' # ds"
    | (two) ds where "tx = CHR ''$'' # CHR ''$'' # ds" "\<not> opens (CHR ''{'') ds"
    | (hole) ds where "tx = CHR ''$'' # CHR ''{'' # ds"
    | (one) cs where "tx = CHR ''$'' # cs" "\<not> opens (CHR ''$'') cs" "\<not> opens (CHR ''{'') cs"
    by (cases tx) (auto simp: opens_iff)
  then show ?case
  proof cases
    case empty
    then show ?thesis by (intro exI[of _ "[]"]) (simp add: splits_into_def)
  next
    case plain
    then obtain ss where "splits_into look esc cs (out @ [c]) missing ss" using less[of cs "out @ [c]" missing] by auto
    then show ?thesis using splits_plain[OF plain(2)] plain(1) by blast
  next
    case quoted
    obtain inner shut rest where b: "to_brace ds = (inner, shut, rest)" by (cases "to_brace ds") auto
    then have "length rest < length tx" using to_brace_length[OF b] quoted by simp
    then obtain ss where "splits_into look esc rest (out @ ''${'' @ inner @ brace_end shut) missing ss" using less by blast
    then show ?thesis using splits_quoted[OF b] quoted by blast
  next
    case two
    then obtain ss where "splits_into look esc ds (out @ ''$$'') missing ss" using less[of ds "out @ ''$$''" missing] by auto
    then show ?thesis using splits_two[OF two(2)] two(1) by blast
  next
    case hole
    obtain nm shut rest where b: "to_brace ds = (nm, shut, rest)" by (cases "to_brace ds") auto
    then have l: "length rest < length tx" using to_brace_length[OF b] hole by simp
    show ?thesis
    proof (cases "look nm")
      case None
      obtain ss where "splits_into look esc rest out (if nm \<in> set missing then missing else missing @ [nm]) ss"
        using less[OF l] by blast
      then show ?thesis using splits_hole_None[where look = look, OF b None] hole by blast
    next
      case (Some v)
      obtain ss where "splits_into look esc rest (out @ esc v) missing ss" using less[OF l] by blast
      then show ?thesis using splits_hole_Some[where look = look, OF b Some] hole by blast
    qed
  next
    case one
    then obtain ss where "splits_into look esc cs (out @ ''$'') missing ss" using less[of cs "out @ ''$''" missing] by auto
    then show ?thesis using splits_one[OF one(2,3)] one(1) by blast
  qed
qed

definition template_value :: "(string \<Rightarrow> string option) \<Rightarrow> (string \<Rightarrow> string) \<Rightarrow> segment list \<Rightarrow> (engine_error, string) result" where
  "template_value look esc ss = (if unresolved look ss = [] then Inr (concat (map (seg_value look esc) ss))
     else Inl (UndefinedVars (intersperse_str '', '' (map (\<lambda>n. ''${'' @ n @ ''}'') (unresolved look ss)))))"

text \<open>C37: a text splits into plain text, dollars, quoted placeholders and placeholders, losing no
  character, and substitution is the value of the pieces: every placeholder is replaced by its escaped
  value, a quoted one is copied, nothing inserted is scanned again, and when names are missing the
  error lists each of them once, in the order of the text.\<close>

theorem substitution_is_by_segments:
  "\<exists>ss. well_split ss \<and> concat (map seg_source ss) = tx
     \<and> substitute_vars esc tx vs config secrets = template_value (lookup_var vs config secrets) esc ss
     \<and> distinct (unresolved (lookup_var vs config secrets) ss)"
proof -
  let ?look = "lookup_var vs config secrets"
  obtain ss where ss: "splits_into ?look esc tx [] [] ss" using substitute_loop_segments by blast
  have "distinct (unresolved ?look xs)" for xs
    by (induction ?look xs rule: unresolved.induct) auto
  then show ?thesis
    using ss by (intro exI[of _ ss]) (simp add: splits_into_def substitute_vars_def template_value_def)
qed

section \<open>Validation\<close>

lemma for_each_Inr [simp]: "for_each f xs = Inr () \<longleftrightarrow> (\<forall>x \<in> set xs. f x = Inr ())"
  by (induction xs) auto

definition tolerance_ok :: "regex_engine \<Rightarrow> tolerance option \<Rightarrow> bool" where
  "tolerance_ok re t = (case t of Some (Regex p) \<Rightarrow> re p [] \<noteq> None | Some (Range lo hi) \<Rightarrow> \<not> f64_lt hi lo | _ \<Rightarrow> True)"

lemma validate_tolerance_Inr [simp]: "validate_tolerance re nm t = Inr () \<longleftrightarrow> tolerance_ok re t"
  by (auto simp: validate_tolerance_def tolerance_ok_def split: option.splits tolerance.splits)

definition script_name_ok :: "string \<Rightarrow> bool" where
  "script_name_ok s \<longleftrightarrow> s \<noteq> [] \<and> CHR ''/'' \<notin> set s \<and> CHR 0x5C \<notin> set s \<and> \<not> contains_str s ''..''
     \<and> CHR 0x00 \<notin> set s \<and> (\<forall>c \<in> set s. \<not> is_ws c)"

lemma validate_script_name_Inr [simp]: "validate_script_name a f s = Inr () \<longleftrightarrow> script_name_ok s"
  by (auto simp: validate_script_name_def script_name_ok_def Let_def list_ex_iff)

definition provider_ok :: "provider \<Rightarrow> bool" where
  "provider_ok p = (case p of Script plugin function _ _ \<Rightarrow> script_name_ok plugin \<and> script_name_ok function | _ \<Rightarrow> True)"

lemma validate_activity_Inr [simp]: "validate_activity re a = Inr () \<longleftrightarrow>
    tolerance_ok re (act_tolerance a) \<and> provider_ok (act_provider a)"
  by (auto simp: validate_activity_def provider_ok_def split: provider.splits)

lemma validate_guard_Inr [simp]: "validate_guard re g = Inr () \<longleftrightarrow>
    0 < guard_min_breaches g \<and> act_tolerance (guard_probe g) \<noteq> None \<and> tolerance_ok re (act_tolerance (guard_probe g))"
  by (auto simp: validate_guard_def)

definition valid_experiment :: "regex_engine \<Rightarrow> chaos_experiment \<Rightarrow> bool" where
  "valid_experiment re x \<longleftrightarrow> exp_version x = ''v1'' \<and> exp_method x \<noteq> [] \<and> exp_max_concurrent_faults x \<noteq> Some 0
     \<and> (\<forall>h. exp_hypothesis x = Some h \<longrightarrow> hyp_probes h \<noteq> [])
     \<and> (\<forall>g \<in> set (exp_guards x). 0 < guard_min_breaches g \<and> act_tolerance (guard_probe g) \<noteq> None
          \<and> tolerance_ok re (act_tolerance (guard_probe g)))
     \<and> (\<forall>a \<in> set (all_activities x). tolerance_ok re (act_tolerance a) \<and> provider_ok (act_provider a))"

lemma validate_experiment_Inr [simp]: "validate_experiment re x = Inr () \<longleftrightarrow> valid_experiment re x"
  by (auto simp: validate_experiment_def valid_experiment_def validate_hypothesis_def split: option.splits)

section \<open>Injected environment variables\<close>

definition exports :: "vars \<Rightarrow> char option \<Rightarrow> string \<Rightarrow> bool" where
  "exports values sep key \<longleftrightarrow> key \<in> dom values \<and> is_valid_env_identifier (env_name sep key)
     \<and> (\<forall>k \<in> dom values. env_name sep k = env_name sep key \<longrightarrow> key \<le> k)"

definition named :: "string \<Rightarrow> char option \<Rightarrow> string \<Rightarrow> string \<Rightarrow> bool" where
  "named pre sep n k \<longleftrightarrow> is_valid_env_identifier (env_name sep k) \<and> n = pre @ env_name sep k"

lemma prefixed_loop_env:
  assumes "prefixed_loop values pre sep keys env skipped = (env', skipped')" "set keys \<subseteq> dom values"
  shows "env' n = (case env n of Some v \<Rightarrow> Some v
     | None \<Rightarrow> (case find (named pre sep n) keys of Some k \<Rightarrow> values k | None \<Rightarrow> None))"
  using assms
  by (induction keys arbitrary: env skipped) (auto simp: named_def Let_def split: if_splits option.splits)

lemma prefixed_loop_skipped:
  assumes "prefixed_loop values pre sep keys env skipped = (env', skipped')" "set keys \<subseteq> dom values" "distinct keys"
  shows "set skipped' = set skipped \<union> {k \<in> set keys. \<not> is_valid_env_identifier (env_name sep k)
      \<or> env (pre @ env_name sep k) \<noteq> None \<or> find (named pre sep (pre @ env_name sep k)) keys \<noteq> Some k}"
  using assms
proof (induction keys arbitrary: env skipped)
  case (Cons key keys)
  have d: "values key \<noteq> None" "set keys \<subseteq> dom values" "distinct keys" "key \<notin> set keys" using Cons.prems by auto
  have f: "find (named pre sep n) (key # keys) = Some k \<longleftrightarrow> (if named pre sep n key then k = key else find (named pre sep n) keys = Some k)" for n k
    by auto
  show ?case
  proof (cases "is_valid_env_identifier (env_name sep key) \<and> env (pre @ env_name sep key) = None")
    case True
    then have r: "prefixed_loop values pre sep keys (env(pre @ env_name sep key := values key)) skipped = (env', skipped')"
      using Cons.prems(1) by (simp add: Let_def)
    show ?thesis using True d unfolding Cons.IH[OF r d(2,3)] f by (auto simp: named_def)
  next
    case False
    then have r: "prefixed_loop values pre sep keys env (skipped @ [key]) = (env', skipped')"
      using Cons.prems(1) by (auto simp: Let_def split: if_splits)
    show ?thesis using False d unfolding Cons.IH[OF r d(2,3)] f by (auto simp: named_def)
  qed
qed simp

lemma find_sorted_least:
  assumes "sorted_wrt (<) xs"
  shows "find P xs = Some k \<longleftrightarrow> k \<in> set xs \<and> P k \<and> (\<forall>j \<in> set xs. P j \<longrightarrow> k \<le> (j :: 'a :: linorder))"
  using assms by (induction xs) (auto split: if_splits)

text \<open>The variables a run passes to its providers: a value is exported under its prefixed upper-case
  name exactly when the name is an identifier and no smaller key has the same name, and every other
  key is reported as skipped.\<close>

theorem prefixed_env_spec:
  assumes "finite (dom values)" "build_prefixed_env values pre sep = (env, skipped)"
  shows "(\<forall>n v. env n = Some v \<longleftrightarrow> (\<exists>k. exports values sep k \<and> n = pre @ env_name sep k \<and> values k = Some v))
    \<and> set skipped = {k \<in> dom values. \<not> exports values sep k}"
proof -
  let ?keys = "sorted_list_of_set (dom values)"
  have k: "set ?keys = dom values" "distinct ?keys" "sorted_wrt (<) ?keys"
    using assms(1) by (auto simp: strict_sorted_list_of_set)
  have l: "prefixed_loop values pre sep ?keys Map.empty [] = (env, skipped)" using assms(2) by (simp add: build_prefixed_env_def)
  have least: "find (named pre sep n) ?keys = Some k \<longleftrightarrow> exports values sep k \<and> n = pre @ env_name sep k" for n k
    unfolding find_sorted_least[OF k(3)] k(1) exports_def named_def by (metis append_same_eq same_append_eq)
  have "env n = Some v \<longleftrightarrow> (\<exists>k. exports values sep k \<and> n = pre @ env_name sep k \<and> values k = Some v)" for n v
  proof (cases "find (named pre sep n) ?keys")
    case None
    then show ?thesis using prefixed_loop_env[OF l, of n] k(1) least[of n] by auto
  next
    case (Some j)
    then have "env n = values j" using prefixed_loop_env[OF l, of n] k(1) by simp
    moreover have "exports values sep i \<and> n = pre @ env_name sep i \<longleftrightarrow> i = j" for i
      using least[of n i] Some by auto
    ultimately show ?thesis by metis
  qed
  moreover have "set skipped = {k \<in> dom values. \<not> exports values sep k}"
    using prefixed_loop_skipped[OF l _ k(2)] k(1) least by (auto simp: exports_def)
  ultimately show ?thesis by blast
qed

theorem prefixed_env_spec_witness:
  "fst (build_prefixed_env [''foo'' \<mapsto> ''lower'', ''FOO'' \<mapsto> ''upper'', ''db-host'' \<mapsto> ''x''] ''TUMULT_CONFIG_'' None) ''TUMULT_CONFIG_FOO''
     = Some ''upper''
   \<and> ''db-host'' \<in> set (snd (build_prefixed_env [''foo'' \<mapsto> ''lower'', ''FOO'' \<mapsto> ''upper'', ''db-host'' \<mapsto> ''x''] ''TUMULT_CONFIG_'' None))"
proof -
  let ?m = "[''foo'' \<mapsto> ''lower'', ''FOO'' \<mapsto> ''upper'', ''db-host'' \<mapsto> ''x'']"
  obtain env skipped where b: "build_prefixed_env ?m ''TUMULT_CONFIG_'' None = (env, skipped)" by fastforce
  have n: "env_name None ''foo'' = ''FOO''" "env_name None ''FOO'' = ''FOO''" "env_name None ''db-host'' = ''DB-HOST''"
    "is_valid_env_identifier ''FOO''" "\<not> is_valid_env_identifier ''DB-HOST''" "''FOO'' \<le> ''foo''" "\<not> ''foo'' \<le> ''FOO''" by code_simp+
  have ex: "exports ?m None ''FOO''" "\<not> exports ?m None ''db-host''" using n by (auto simp: exports_def)
  have v: "?m ''FOO'' = Some ''upper''" by simp
  have "''TUMULT_CONFIG_FOO'' = ''TUMULT_CONFIG_'' @ env_name None ''FOO''" unfolding n by code_simp
  then have "\<exists>k. exports ?m None k \<and> ''TUMULT_CONFIG_FOO'' = ''TUMULT_CONFIG_'' @ env_name None k \<and> ?m k = Some ''upper''"
    using ex(1) v by blast
  moreover have "''db-host'' \<in> {k \<in> dom ?m. \<not> exports ?m None k}" using ex(2) by (intro CollectI conjI domI) simp_all
  moreover have f: "finite (dom ?m)" by simp
  note prefixed_env_spec[OF f b]
  ultimately show ?thesis unfolding b fst_conv snd_conv by (metis (no_types, lifting))
qed

lemma resolve_config_finite: "resolve_config H config = Inr r \<Longrightarrow> finite (dom r)"
proof -
  have "resolve_config_loop H cs acc = Inr r \<Longrightarrow> finite (dom acc) \<Longrightarrow> finite (dom r)" for cs acc
    by (induction H cs acc rule: resolve_config_loop.induct) (auto split: option.splits)
  then show "resolve_config H config = Inr r \<Longrightarrow> finite (dom r)" by (simp add: resolve_config_def)
qed

lemma flatten_secrets_finite: "finite (dom (flatten_secrets ks secrets))"
  by (induction ks rule: rev_induct) (auto simp: flatten_secrets_def split: option.splits)

definition provider_variable :: "string \<Rightarrow> bool" where
  "provider_variable n \<longleftrightarrow> (\<exists>rest. is_valid_env_identifier rest
     \<and> (n = ''TUMULT_CONFIG_'' @ rest \<or> n = ''TUMULT_SECRET_'' @ rest))"

lemma prefixed_env_names:
  assumes "finite (dom values)" "fst (build_prefixed_env values pre sep) n = Some v"
  shows "\<exists>rest. is_valid_env_identifier rest \<and> n = pre @ rest"
proof -
  obtain env skipped where b: "build_prefixed_env values pre sep = (env, skipped)" by fastforce
  then show ?thesis using prefixed_env_spec[OF assms(1) b] assms(2) by (auto simp: exports_def)
qed

text \<open>A run that passes preparation is statically valid (known version, a method, no cap of zero, probes
  under a hypothesis, guards with a safe condition and a positive debounce, compilable patterns, ordered
  ranges, script names that cannot leave the plugin directories), and the variables it injects into
  provider processes all carry one of the two reserved prefixes, so neither configuration nor secrets
  can set a variable such as the search path of the process.\<close>

theorem prepared_run_is_valid:
  assumes "prepare_run G toon vs = Inr (x, injected)"
  shows "valid_experiment (eng_regex G) x \<and> (\<forall>n \<in> dom injected. provider_variable n)"
proof -
  obtain config secrets where c: "finite (dom config)" and s: "finite (dom secrets)"
      and v: "eng_validate G x = Inr ()"
      and i: "injected = fst (build_config_env config) ++ fst (build_secret_env secrets)"
    using assms
    by (auto simp: prepare_run_def prepare_definition_def eng_resolve_config_def eng_resolve_secrets_def engine_msg_def
        dest!: resolve_config_finite intro: that[OF _ flatten_secrets_finite])
  have "valid_experiment (eng_regex G) x" using v by (simp add: eng_validate_def engine_msg_def)
  moreover have "provider_variable n" if "injected n = Some y" for n y
    using that prefixed_env_names[OF c, of "''TUMULT_CONFIG_''" None n] prefixed_env_names[OF s, of "''TUMULT_SECRET_''" "Some CHR ''.''" n]
    unfolding i build_config_env_def build_secret_env_def provider_variable_def by (auto simp: map_add_Some_iff)
  ultimately show ?thesis by auto
qed

definition guarded_by :: "provider \<Rightarrow> chaos_experiment" where
  "guarded_by p = experiment_default \<lparr> exp_method := [activity_default],
     exp_guards := [\<lparr> guard_name = ''g'', guard_probe = activity_default \<lparr> act_provider := p, act_tolerance := Some (Exact JNull) \<rparr>,
       guard_min_breaches = 1 \<rparr>] \<rparr>"

text \<open>A guard's probe is the one activity whose script provider validation never looks at: a guard that
  names a plugin outside the plugin directories is accepted, although the same provider in the method is
  refused.\<close>

theorem guard_scripts_unchecked:
  "validate_experiment re (guarded_by (Script ''../../tmp/x'' ''run'' Map.empty None)) = Inr ()
   \<and> validate_experiment re (experiment_default \<lparr> exp_method := [activity_default \<lparr> act_provider := Script ''../../tmp/x'' ''run'' Map.empty None \<rparr>] \<rparr>)
      \<noteq> Inr ()"
proof -
  have "\<not> script_name_ok ''../../tmp/x''" by code_simp
  then show ?thesis
    by (simp add: valid_experiment_def guarded_by_def experiment_default_def activity_default_def all_activities_def
        tolerance_ok_def provider_ok_def)
qed

definition clashing_secrets :: "string \<rightharpoonup> vars" where
  "clashing_secrets = [''a'' \<mapsto> [''b.c'' \<mapsto> ''one''], ''a.b'' \<mapsto> [''c'' \<mapsto> ''two'']]"

text \<open>Two secrets whose joined names coincide are flattened to one, and which of the two values it carries
  depends on the order in which the hash map happens to be walked.\<close>

theorem clashing_secrets_depend_on_order:
  "flatten_secrets [(''a'', ''b.c''), (''a.b'', ''c'')] clashing_secrets ''a.b.c'' = Some ''two''
   \<and> flatten_secrets [(''a.b'', ''c''), (''a'', ''b.c'')] clashing_secrets ''a.b.c'' = Some ''one''"
  by (simp add: flatten_secrets_def clashing_secrets_def)

end
