(* ===== verification/Daemon_Examples.thy ===== *)
theory Daemon_Examples
  imports Daemon Worker_Props Queue_Control Run_Examples Engine_Props
begin

text \<open>
  Concrete histories of the daemon: a run approved by a second person is dispatched; an
  in-process run is enqueued, received and started. They show that the hypotheses of the
  queue's and the daemon's properties can hold together.
\<close>

definition open_lake :: auth_lake where
  "open_lake = \<lparr> lake_opens = True, lake_real_users = Some False, lake_user = (\<lambda>_. None), lake_scopes = (\<lambda>_. None) \<rparr>"

definition calm_codec :: codec where
  "calm_codec = \<lparr> toon_encode = (\<lambda>_. Inr ''toon''), toon_decode = (\<lambda>_. Inr sleep_experiment), toon_escape = (\<lambda>s. s) \<rparr>"

definition calm_engine :: engine where
  "calm_engine = \<lparr> eng_host = \<lparr> host_env = (\<lambda>_. None), host_exists = (\<lambda>_. False), host_read = (\<lambda>_. None) \<rparr>,
     eng_codec = calm_codec, eng_regex = (\<lambda>_ _. None), eng_show_f64 = (\<lambda>_. []), eng_secret_order = (\<lambda>_. []),
     eng_config_hash = (\<lambda>_. ''c''),
     eng_execution_hash = (\<lambda>_ _. Inr ''x''), eng_bindings = Inr [], eng_users = open_lake,
     eng_params_text = (\<lambda>_. ''{}''), eng_params_parse = (\<lambda>_. Inr Map.empty), eng_params_object = (\<lambda>_. Map.empty),
     eng_context_text = (\<lambda>_ _. ''context''), eng_plan_text = (\<lambda>_. ''plan''), eng_plan_parse = (\<lambda>_. Inl ''none'') \<rparr>"

text \<open>Any engine with the codec and the validation rules of the calm one prepares the experiment.\<close>

lemma sleep_fields: "exp_configuration sleep_experiment = []" "exp_secrets sleep_experiment = []"
  by (simp_all add: sleep_experiment_def experiment_default_def)

lemma sleep_validates: "eng_validate G sleep_experiment = Inr ()"
  by (simp add: eng_validate_def engine_msg_def validate_experiment_def sleep_experiment_def experiment_default_def
      validate_hypothesis_def all_activities_def validate_activity_def validate_tolerance_def activity_default_def)

lemma sleep_resolves: "eng_resolve_config G [] = Inr Map.empty" "eng_resolve_secrets G [] = Inr Map.empty"
proof -
  have "flatten_secrets ks Map.empty = Map.empty" for ks
    by (induction ks rule: rev_induct) (auto simp: flatten_secrets_def)
  then show "eng_resolve_config G [] = Inr Map.empty" "eng_resolve_secrets G [] = Inr Map.empty"
    by (simp_all add: eng_resolve_config_def eng_resolve_secrets_def engine_msg_def resolve_config_def resolve_secrets_def)
qed

lemma calm_parse: "eng_codec G = calm_codec \<Longrightarrow> eng_parse G toon = Inr sleep_experiment"
  by (simp add: eng_parse_def engine_msg_def parse_experiment_def calm_codec_def)

lemma no_env: "fst (build_config_env Map.empty) = Map.empty" "fst (build_secret_env Map.empty) = Map.empty"
  by (simp_all add: build_config_env_def build_secret_env_def build_prefixed_env_def)

lemmas sleep_prepares = sleep_fields sleep_validates sleep_resolves calm_parse no_env

lemma calm_prepare: "prepare_run calm_engine toon Map.empty = Inr (sleep_experiment, Map.empty)"
proof -
  have "eng_codec calm_engine = calm_codec" by (simp add: calm_engine_def)
  then show ?thesis by (simp add: prepare_run_def prepare_definition_def sleep_prepares)
qed

theorem prepared_run_is_valid_witness: "valid_experiment (eng_regex calm_engine) sleep_experiment"
  using prepared_run_is_valid[OF calm_prepare] by simp

lemma fst_Inr: "is_ok (fst p) \<Longrightarrow> \<exists>x. p = (Inr x, snd p)"
  by (cases p) (auto simp: is_ok_iff)

lemma fst_Inr_any: "is_ok (fst p) \<Longrightarrow> p = (Inr (), snd p)" for p :: "('e + unit) \<times> 's"
  by (cases p) (auto simp: is_ok_iff)

section \<open>Approved and dispatched\<close>

definition approved_ops :: "wop list" where
  "approved_ops = requested_ops @ [DecidePending bobs_decision]"

definition approved_queue :: qstate where
  "approved_queue = spawn_queue (run_ops calm_env approved_ops empty_store) queue_config_default"

definition dispatched_queue :: qstate where
  "dispatched_queue = snd (dispatch_approved calm_env calm_engine ''r'' approved_queue)"

lemma approved_reachable: "reachable calm_env (q_store approved_queue)"
proof -
  have "reachable calm_env (run_ops calm_env approved_ops empty_store)" by (rule run_ops_reachable) code_simp
  then show ?thesis by (simp add: approved_queue_def spawn_queue_def)
qed

lemma dispatch_ok: "dispatch_approved calm_env calm_engine ''r'' approved_queue = (Inr (), dispatched_queue)"
  unfolding dispatched_queue_def by (rule fst_Inr_any) code_simp


theorem dispatch_four_eyes_witness:
  "\<exists>rq \<in> set (requests (data (q_store approved_queue))). rq_run rq = ''r'' \<and> rq_quorum rq \<le> 1 \<and> rq_requested_by rq \<noteq> ''bob''"
proof -
  have "list_all (\<lambda>rq. \<not> rq_break_glass rq) (requests (data (q_store approved_queue)))" by code_simp
  then have b: "\<forall>rq \<in> set (requests (data (q_store approved_queue))). rq_run rq = ''r'' \<longrightarrow> \<not> rq_break_glass rq"
    by (simp add: list_all_iff)
  have d: "decisions (data (q_store approved_queue)) = [bobs_decision]" by code_simp
  have a: "{x. x = bobs_decision \<and> dc_run x = ''r'' \<and> dc_decision x = Approved} = {bobs_decision}" "dc_approver bobs_decision = ''bob''"
    by (auto simp: bobs_decision_def)
  show ?thesis using dispatch_four_eyes[OF approved_reachable dispatch_ok b] by (auto simp: d a)
qed

section \<open>Enqueued and executed\<close>

definition calm_request :: run_request where
  "calm_request = \<lparr> req_registry_id = ''g'', req_definition_toon = ''toon'', req_vars = Map.empty, req_env = ''dev'', req_target = None \<rparr>"

definition calm_item :: work_item where
  "calm_item = \<lparr> wi_run = ''r'', wi_request = calm_request, wi_pin = None \<rparr>"

definition inserted_store :: store where
  "inserted_store = snd (insert_run_with_context calm_env
     \<lparr> nr_id = ''r'', nr_registry_id = ''g'', nr_params_json = None, nr_queued_at = 0, nr_actor = None \<rparr>
     (Some (ContextObject (PinString ''x'') ''context'')) (empty_store \<lparr> tick := 1 \<rparr>))"

definition boot_queue :: qstate where
  "boot_queue = spawn_queue empty_store queue_config_default"

definition waiting_queue :: qstate where
  "waiting_queue = boot_queue \<lparr> q_permits := 31, q_store := inserted_store, q_channel := [calm_item] \<rparr>"

lemma no_params: "params_of G Map.empty = None"
  by (simp add: params_of_def)

lemma inserted_ok: "insert_run_with_context calm_env
    \<lparr> nr_id = ''r'', nr_registry_id = ''g'', nr_params_json = None, nr_queued_at = 0, nr_actor = None \<rparr>
    (Some (ContextObject (PinString ''x'') ''context'')) (empty_store \<lparr> tick := 1 \<rparr>) = (Inr (), inserted_store)"
  unfolding inserted_store_def by (rule fst_Inr_any) code_simp

lemma enqueue_ok: "enqueue_checked calm_env calm_engine ''r'' calm_request None None boot_queue = (Inr ''r'', waiting_queue)"
proof -
  have b: "q_permits boot_queue = 32" "q_store boot_queue = empty_store" "q_channel boot_queue = []" "q_open boot_queue"
    by (simp_all add: boot_queue_def spawn_queue_def queue_config_default_def)
  have t: "tick empty_store = 0" "env_clock calm_env 0 = 0" by (simp_all add: empty_store_def calm_env_def)
  have r: "req_definition_toon calm_request = ''toon''" "req_vars calm_request = Map.empty" "req_registry_id calm_request = ''g''"
    by (simp_all add: calm_request_def)
  have h: "eng_execution_hash calm_engine = (\<lambda>_ _. Inr ''x'')" "request_context calm_engine calm_request ''x'' = ContextObject (PinString ''x'') ''context''"
    by (simp_all add: calm_engine_def request_context_def)
  show ?thesis
    using inserted_ok
    by (simp add: enqueue_checked_def holding_permit_def enqueue_body_def b t r h calm_prepare no_params bindc_def seqc_def
        on_store_def exec_write_def put_store_def now_ns_def from_result_def map_err_def check_expected_def
        waiting_queue_def calm_item_def)
qed

theorem enqueue_is_durable_witness:
  "pins (data (q_store waiting_queue)) = [(''r'', ''x'')] \<and> q_channel waiting_queue = [calm_item]"
proof -
  have "pins (data (q_store boot_queue)) = []" "q_channel boot_queue = []" by code_simp+
  moreover have "\<And>x v h. prepare_run calm_engine (req_definition_toon calm_request) (req_vars calm_request) = Inr (x, v) \<Longrightarrow>
      eng_execution_hash calm_engine x v = Inr h \<Longrightarrow> h = ''x''" by (simp add: calm_engine_def)
  ultimately show ?thesis using enqueue_is_durable[OF enqueue_ok] by (auto simp: calm_item_def)
qed

text \<open>The same request, gated at T3: the engine knows no binding for it.\<close>

definition parked_queue :: qstate where
  "parked_queue = snd (request_gated_checked calm_env calm_engine ''r'' calm_request T3 None None boot_queue)"

lemma calm_tier: "classify_execution (eng_execution_hash calm_engine) (eng_bindings calm_engine) x v ''dev'' None False = Inr T3"
proof -
  have "trim ''dev'' \<noteq> []" by code_simp
  then show ?thesis by (simp add: classify_execution_def classify_bound_def calm_engine_def)
qed

lemma reliable_gated_insert:
  assumes rel: "reliable E"
  shows "\<exists>t. insert_gated_run_with_context E nr rq det (Some (ContextObject (PinString h) rest)) s = (Inr (), t)"
proof -
  let ?s = "s \<lparr> tick := Suc (tick s) \<rparr>"
  obtain s1 where s1: "insert_row E nr PendingApproval ?s = (Inr (), s1)"
    by (simp add: insert_row_def reliable_execute[OF rel])
  obtain s2 where s2: "insert_approval_request E rq s1 = (Inr (), s2)"
    by (simp add: insert_approval_request_def reliable_execute[OF rel])
  obtain s3 where s3: "insert_run_audit E (nr_id nr) ''requested'' det (nr_actor nr) s2 = (Inr (), s3)"
    using reliable_audit[OF rel] by blast
  obtain s4 where s4: "execute E (\<lambda>d. ((), d \<lparr> pins := pins d @ [(nr_id nr, h)] \<rparr>)) s3 = (Inr (), s4)"
    by (simp add: reliable_execute[OF rel])
  obtain s5 where s5: "insert_run_audit E (nr_id nr) ''requested_context'' (Some rest) (nr_actor nr) s4 = (Inr (), s5)"
    using reliable_audit[OF rel] by blast
  have "insert_gated_run_with_context E nr rq det (Some (ContextObject (PinString h) rest)) s = (Inr (), s5 \<lparr> tick := tick s5 + 1 \<rparr>)"
    unfolding insert_gated_run_with_context_def
    by (rule reliable_with_tx[OF rel])
      (simp add: seqc_def bindc_def s1 s2 s3 insert_run_context_def s4 s5 del: execute_Inr)
  then show ?thesis by blast
qed

lemma calm_reliable: "reliable calm_env"
  by (simp add: reliable_def calm_io)

lemma parked_ok: "request_gated_checked calm_env calm_engine ''r'' calm_request T3 None None boot_queue = (Inr ''r'', parked_queue)"
proof -
  obtain t where ins: "insert_gated_run_with_context calm_env
    \<lparr> nr_id = ''r'', nr_registry_id = ''g'', nr_params_json = None, nr_queued_at = 0, nr_actor = None \<rparr>
    (approval_row calm_env ''r'' calm_request T3 None 0) (Some (requested_detail T3 ''p''))
    (Some (ContextObject (PinString ''x'') ''context'')) (empty_store \<lparr> tick := 1 \<rparr>) = (Inr (), t)"
    using reliable_gated_insert[OF calm_reliable] by blast
  have b: "q_store boot_queue = empty_store" by (simp add: boot_queue_def spawn_queue_def)
  have t: "tick empty_store = 0" "env_clock calm_env 0 = 0" "canonical_pin calm_env calm_request = ''p''"
    by (simp_all add: empty_store_def calm_env_def canonical_pin_def)
  have r: "req_definition_toon calm_request = ''toon''" "req_vars calm_request = Map.empty" "req_registry_id calm_request = ''g''"
    "req_env calm_request = ''dev''" "req_target calm_request = None"
    by (simp_all add: calm_request_def)
  have h: "eng_execution_hash calm_engine x v = Inr ''x''" "request_context calm_engine calm_request ''x'' = ContextObject (PinString ''x'') ''context''"
    for x v by (simp_all add: calm_engine_def request_context_def)
  have "fst (request_gated_checked calm_env calm_engine ''r'' calm_request T3 None None boot_queue) = Inr ''r''"
    using ins
    by (simp add: request_gated_checked_def b t r h calm_tier calm_prepare no_params bindc_def seqc_def with_err_def
        on_store_def exec_write_def put_store_def now_ns_def from_result_def map_err_def check_expected_def ensure_def ret_def)
  then show ?thesis unfolding parked_queue_def by (metis prod.collapse)
qed

theorem request_gated_parks_witness:
  "\<exists>rq. requests (data (q_store parked_queue)) = [rq] \<and> rq_pin rq = ''p'' \<and> rq_quorum rq = 2 \<and> rq_tier rq = ''T3''
    \<and> q_channel parked_queue = []"
proof -
  have "requests (data (q_store boot_queue)) = []" "q_channel boot_queue = []" by code_simp+
  moreover have "canonical_pin calm_env calm_request = ''p''" by (simp add: calm_env_def canonical_pin_def)
  ultimately show ?thesis using request_gated_parks[OF parked_ok] by (auto simp: approval_row_def)
qed

section \<open>A worker's pass\<close>

definition no_results :: task_results where
  "no_results = \<lparr> tr_runner = RunnerPanic ''none'', tr_cleanup = CleanupPanic ''none'' \<rparr>"

definition taken_queue :: qstate where
  "taken_queue = waiting_queue \<lparr> q_channel := [], q_permits := 32, q_tokens := [''r'' \<mapsto> False] \<rparr>"

definition checked_queue :: qstate where
  "checked_queue = snd (read_run_state calm_env ''r'' taken_queue)"

definition claimed_queue :: qstate where
  "claimed_queue = snd (on_store (claim_run calm_env ''r'') checked_queue)"

definition calm_plan :: recovery_plan where
  "calm_plan = \<lparr> rp_definition = sleep_experiment, rp_vars = Map.empty, rp_config_hash = ''c'' \<rparr>"

definition context_queue :: qstate where
  "context_queue = snd (validate_dispatch_context calm_env calm_engine ''r'' calm_request sleep_experiment Map.empty claimed_queue)"

definition begun_queue :: qstate where
  "begun_queue = snd (on_store (begin_run_execution calm_env ''r'' ''plan'' None) context_queue)"

abbreviation calm_worker :: "wpc \<Rightarrow> worker" where
  "calm_worker pc \<equiv> \<lparr> wk_item = calm_item, wk_pc = pc \<rparr>"

abbreviation calm_step :: "worker \<Rightarrow> qstate \<Rightarrow> worker \<times> qstate" where
  "calm_step \<equiv> worker_step calm_env calm_engine no_results"

lemma calm_step_take: "calm_step (calm_worker WTake) (waiting_queue \<lparr> q_channel := [] \<rparr>) = (calm_worker WCheckState, taken_queue)"
  by (simp add: worker_step_def step_take_def Let_def taken_queue_def waiting_queue_def calm_item_def
      boot_queue_def spawn_queue_def)

lemma calm_step_check: "calm_step (calm_worker WCheckState) taken_queue = (calm_worker WVerify, checked_queue)"
proof -
  have "fst (read_run_state calm_env ''r'' taken_queue) = Some Queued" by code_simp
  then have "read_run_state calm_env ''r'' taken_queue = (Some Queued, checked_queue)"
    by (simp add: checked_queue_def prod_eq_iff)
  then show ?thesis by (simp add: worker_step_def step_check_state_def calm_item_def)
qed

lemma calm_step_verify: "calm_step (calm_worker WVerify) checked_queue = (calm_worker WClaim, checked_queue)"
  by (simp add: worker_step_def step_verify_def verify_approval_def calm_item_def branch_def ret_def)

lemma calm_step_claim: "calm_step (calm_worker WClaim) checked_queue = (calm_worker WCapture, claimed_queue)"
proof -
  have c: "on_store (claim_run calm_env ''r'') checked_queue = (Inr (), claimed_queue)"
    unfolding claimed_queue_def by (rule fst_Inr_any) code_simp
  show ?thesis by (simp add: worker_step_def step_claim_def calm_item_def branch_def c del: on_store_Inr)
qed

lemma calm_step_capture: "calm_step (calm_worker WCapture) claimed_queue = (calm_worker (WContext calm_plan sleep_experiment Map.empty), claimed_queue)"
proof -
  have "eng_codec calm_engine = calm_codec" "\<And>v. eng_config_hash calm_engine v = ''c''" by (simp_all add: calm_engine_def)
  then show ?thesis
    by (simp add: worker_step_def step_capture_def Let_def calm_item_def calm_request_def plan_capture_def plan_prepare_def
        prepare_definition_def sleep_prepares calm_plan_def)
qed

lemma calm_step_context: "calm_step (calm_worker (WContext calm_plan sleep_experiment Map.empty)) claimed_queue
    = (calm_worker (WCheckToken calm_plan sleep_experiment Map.empty), context_queue)"
proof -
  have c: "validate_dispatch_context calm_env calm_engine ''r'' calm_request sleep_experiment Map.empty claimed_queue = (Inr (), context_queue)"
    unfolding context_queue_def by (rule fst_Inr_any) code_simp
  show ?thesis by (simp add: worker_step_def step_context_def calm_item_def branch_def c)
qed

lemma calm_step_token: "calm_step (calm_worker (WCheckToken calm_plan sleep_experiment Map.empty)) context_queue
    = (calm_worker (WBegin calm_plan sleep_experiment Map.empty), context_queue)"
proof -
  have "\<not> is_cancelled ''r'' context_queue" by code_simp
  then show ?thesis by (simp add: worker_step_def calm_item_def)
qed

lemma calm_step_begin: "calm_step (calm_worker (WBegin calm_plan sleep_experiment Map.empty)) context_queue
    = (calm_worker (WExecute sleep_experiment Map.empty), begun_queue)"
proof -
  have c: "on_store (begin_run_execution calm_env ''r'' ''plan'' None) context_queue = (Inr (), begun_queue)"
    unfolding begun_queue_def by (rule fst_Inr_any) code_simp
  have p: "eng_plan_text calm_engine calm_plan = ''plan''" by (simp add: calm_engine_def)
  show ?thesis by (simp add: worker_step_def step_begin_def calm_item_def branch_def c p del: on_store_Inr)
qed

lemma work_on:
  assumes "daemon_run E cfg \<lparr> dm_q = q, dm_workers = [w] \<rparr>" "worker_step E G T w q = (w', q')" "wk_pc w \<noteq> WEnd"
  shows "daemon_run E cfg \<lparr> dm_q = q', dm_workers = [w'] \<rparr>"
proof -
  have "daemon_step E cfg \<lparr> dm_q = q, dm_workers = [w] \<rparr> \<lparr> dm_q = q', dm_workers = [w'] \<rparr>"
    using daemon_step.work[of 0 "\<lparr> dm_q = q, dm_workers = [w] \<rparr>" E G T w' q' cfg] assms(2,3) by (simp add: busy_def)
  then show ?thesis using assms(1) by (rule rtranclp.rtrancl_into_rtrancl[rotated])
qed

definition started_daemon :: daemon where
  "started_daemon = \<lparr> dm_q = begun_queue, dm_workers = [calm_worker (WExecute sleep_experiment Map.empty)] \<rparr>"

lemma received_run: "daemon_run calm_env queue_config_default \<lparr> dm_q = waiting_queue \<lparr> q_channel := [] \<rparr>, dm_workers = [calm_worker WTake] \<rparr>"
proof -
  have fresh: "''r'' \<notin> known_runs (data (q_store boot_queue))"
    by (simp add: known_runs_def boot_queue_def spawn_queue_def empty_store_def empty_db_def)
  have s1: "daemon_step calm_env queue_config_default (boot queue_config_default) \<lparr> dm_q = waiting_queue, dm_workers = [] \<rparr>"
    using daemon_step.enqueue[of "''r''" "boot queue_config_default" calm_env calm_engine calm_request None None "Inr ''r''" waiting_queue queue_config_default]
      enqueue_ok fresh by (simp add: boot_def boot_queue_def)
  have s2: "daemon_step calm_env queue_config_default \<lparr> dm_q = waiting_queue, dm_workers = [] \<rparr>
      \<lparr> dm_q = waiting_queue \<lparr> q_channel := [] \<rparr>, dm_workers = [calm_worker WTake] \<rparr>"
    using daemon_step.receive[of "\<lparr> dm_q = waiting_queue, dm_workers = [] \<rparr>" calm_item "[]" queue_config_default calm_env]
    by (simp add: waiting_queue_def)
  show ?thesis using s1 s2 by (meson rtranclp.rtrancl_into_rtrancl rtranclp.rtrancl_refl)
qed

lemma started_run: "daemon_run calm_env queue_config_default started_daemon"
  unfolding started_daemon_def
  by (rule work_on[OF work_on[OF work_on[OF work_on[OF work_on[OF work_on[OF work_on[OF work_on[OF received_run
      calm_step_take] calm_step_check] calm_step_verify] calm_step_claim] calm_step_capture] calm_step_context]
      calm_step_token] calm_step_begin]) simp_all

theorem one_worker_per_run_witness:
  "length (filter (holder ''r'') (dm_workers started_daemon)) = 1 \<and> q_tokens (dm_q started_daemon) ''r'' \<noteq> None"
proof -
  have h: "length (filter (holder ''r'') (dm_workers started_daemon)) = 1"
    by (simp add: started_daemon_def holder_def holds_token_def calm_item_def)
  have "q_tokens (dm_q started_daemon) ''r'' \<noteq> None"
  proof
    assume "q_tokens (dm_q started_daemon) ''r'' = None"
    then show False using one_worker_per_run[OF started_run, of "''r''"] unfolding h by simp
  qed
  then show ?thesis using h by (rule conjI[rotated])
qed


theorem executions_are_recorded_witness:
  "\<exists>r \<in> set (runs (data (q_store begun_queue))). run_id r = ''r'' \<and> run_started_at r \<noteq> None"
  using executions_are_recorded[OF started_run, of "calm_worker (WExecute sleep_experiment Map.empty)"]
  by (simp add: started_daemon_def begun_pc_def recorded_def calm_item_def)

theorem daemon_keeps_store_invariants_witness: "audits_ok calm_env (q_store begun_queue)"
  using daemon_keeps_store_invariants[OF started_run calm_mono] by (simp add: started_daemon_def)

section \<open>Preparation, recovery and halting\<close>

theorem preparation_errors_are_fixed_witness:
  "plan_capture (calm_engine \<lparr> eng_codec := calm_codec \<lparr> toon_decode := (\<lambda>_. Inl ''line 3: password hunter2'') \<rparr> \<rparr>) ''toon'' Map.empty = Inl (preparation_error ''parse'')
   \<and> preparation_error ''parse'' \<in> preparation_errors"
proof -
  have c: "plan_capture (calm_engine \<lparr> eng_codec := calm_codec \<lparr> toon_decode := (\<lambda>_. Inl ''line 3: password hunter2'') \<rparr> \<rparr>) ''toon'' Map.empty = Inl (preparation_error ''parse'')"
    by (simp add: plan_capture_def eng_parse_def engine_msg_def parse_experiment_def map_err_def)
  then show ?thesis
    using preparation_errors_are_fixed[of "calm_engine \<lparr> eng_codec := calm_codec \<lparr> toon_decode := (\<lambda>_. Inl ''line 3: password hunter2'') \<rparr> \<rparr>" "''toon''" Map.empty]
    by blast
qed

theorem plan_resolves_as_run_witness: "plan_prepare calm_engine calm_plan = Inr (sleep_experiment, Map.empty)"
proof -
  have "eng_codec calm_engine = calm_codec" "\<And>v. eng_config_hash calm_engine v = ''c''" by (simp_all add: calm_engine_def)
  then have "plan_capture calm_engine ''toon'' Map.empty = Inr calm_plan"
    by (simp add: plan_capture_def sleep_prepares calm_plan_def)
  from plan_resolves_as_run[OF this] show ?thesis by (simp add: calm_prepare map_err_def)
qed

lemma run_ops_forward:
  "list_all forward ops \<Longrightarrow> fresh_ops E ops s \<Longrightarrow> forward_steps E s (run_ops E ops s)"
proof (induction ops arbitrary: s)
  case (Cons op ops)
  have "forward_step E s (snd (exec_op E op s))"
    using Cons.prems by (intro forward_step.step[of op]) (auto simp: prod_eq_iff)
  then show ?case using Cons by (auto intro: converse_rtranclp_into_rtranclp)
qed simp

theorem executes_at_most_once_witness:
  "\<not> is_ok (fst (begin_run_execution calm_env ''r'' ''plan'' None started_store))"
proof -
  have "forward_steps calm_env empty_store claimed_store"
    unfolding claimed_store_def by (rule run_ops_forward) code_simp+
  then show ?thesis by (rule executes_at_most_once[OF _ started_ok]) simp
qed

definition running_queue :: qstate where
  "running_queue = spawn_queue started_store queue_config_default"

definition calm_journal :: journal where
  "calm_journal = journal_for sleep_experiment ''e'' Completed 0"

theorem evidence_before_terminal_witness:
  "\<exists>q'. record_completion calm_env ''r'' calm_journal running_queue = (Inr (), q') \<and> has_evidence calm_journal q'
    \<and> (\<exists>x \<in> set (runs (data (q_store q'))). run_id x = ''r'' \<and> run_st x = Passed)"
proof -
  let ?q = "snd (record_completion calm_env ''r'' calm_journal running_queue)"
  have ok: "record_completion calm_env ''r'' calm_journal running_queue = (Inr (), ?q)"
    by (rule fst_Inr_any) code_simp
  have "jr_status calm_journal = Completed" "jr_rollback_failures calm_journal = 0"
    by (simp_all add: calm_journal_def journal_for_def)
  then show ?thesis using ok evidence_before_terminal[OF ok] by (intro exI[of _ ?q]) auto
qed

definition requested_queue :: qstate where
  "requested_queue = spawn_queue requested_store queue_config_default"

theorem halt_stops_everything_witness:
  "halted ''r'' (runs (data (q_store (snd (halt_runs (\<lambda>rid. stop_run calm_env rid (Some ''root'')) [''q'', ''r'', ''r''] requested_queue)))))"
proof -
  let ?r = "new_row gated_run PendingApproval"
  have rs: "runs (data (q_store requested_queue)) = [?r]" by code_simp
  have "run_id ?r = ''r''" "run_st ?r \<in> set haltable_states" by code_simp+
  then show ?thesis
    using halt_stops_everything[OF calm_reliable, of requested_queue ?r "[''q'', ''r'', ''r'']" "Some ''root''"] rs by simp
qed

definition recovering_engine :: engine where
  "recovering_engine = calm_engine \<lparr> eng_plan_parse := (\<lambda>_. Inr calm_plan) \<rparr>"

theorem reconcile_always_rolls_back_witness:
  "fst (snd (reconcile_orphans calm_env recovering_engine (\<lambda>_. CleanupPanic ''boom'') running_queue)) = [(''r'', sleep_experiment)]"
proof -
  have a: "\<exists>x. active_run_rows (data (q_store running_queue)) = [x] \<and> ar_plan_json x = Some ''plan''
      \<and> run_id (ar_run x) = ''r'' \<and> execution_started (ar_run x)"
  proof -
    have "length (active_run_rows (data (q_store running_queue))) = 1" by code_simp
    then obtain x where x: "active_run_rows (data (q_store running_queue)) = [x]" by (auto simp: length_Suc_conv)
    have "list_all (\<lambda>x. ar_plan_json x = Some ''plan'' \<and> run_id (ar_run x) = ''r'' \<and> execution_started (ar_run x))
      (active_run_rows (data (q_store running_queue)))" by code_simp
    then show ?thesis using x by simp
  qed
  have "plan_prepare recovering_engine calm_plan = Inr (sleep_experiment, Map.empty)"
    by (simp add: plan_prepare_def prepare_definition_def sleep_prepares recovering_engine_def calm_engine_def calm_plan_def)
  then have "prepare_orphan recovering_engine x = Inr (sleep_experiment, Map.empty)" if "ar_plan_json x = Some ''plan''" for x
    using that by (simp add: prepare_orphan_def recovering_engine_def map_err_def)
  then show ?thesis
    using reconcile_always_rolls_back[of calm_env running_queue recovering_engine "\<lambda>_. CleanupPanic ''boom''"] a
    by (auto simp: calm_io due_rollback_def)
qed

end
