(* ===== verification/Float_Arith.thy ===== *)
theory Float_Arith
  imports Float64
begin

text \<open>
  \<open>f64\<close> arithmetic on the values of \<open>Float64\<close>: sum, product and quotient rounded to
  the nearest 53-bit value (ties to even, gradual underflow, overflow to infinity),
  \<open>max\<close> and \<open>min\<close> as Rust has them (a NaN operand is ignored), and the conversions
  from and to integers. Rounding is monotone, so are the operations built on it.
\<close>

section \<open>Rounding\<close>

fun scale_up :: "nat \<Rightarrow> rat \<Rightarrow> nat \<Rightarrow> nat" where
  "scale_up 0 a k = k"
| "scale_up (Suc f) a k = (if a < 2 ^ (53 + k) then k else scale_up f a (Suc k))"

definition round_pos :: "rat \<Rightarrow> rat" where
  "round_pos a = (if a = 0 then 0
     else if a < 2 ^ 53 then (let e = scale_of 1074 a 0 in of_int (round_even (a * 2 ^ e)) / 2 ^ e)
     else (let k = scale_up 971 a 0 in of_int (round_even (a / 2 ^ k)) * 2 ^ k))"

definition f64_limit :: rat where
  "f64_limit = 2 ^ 1024"

definition to_f64 :: "rat \<Rightarrow> f64" where
  "to_f64 x = (let r = round_pos \<bar>x\<bar> in
     if f64_limit \<le> r then Inf (0 < x) else Fin (if x < 0 then - r else r))"

section \<open>Operations\<close>

fun f64_add :: "f64 \<Rightarrow> f64 \<Rightarrow> f64" where
  "f64_add NaN _ = NaN"
| "f64_add _ NaN = NaN"
| "f64_add (Inf p) (Inf q) = (if p = q then Inf p else NaN)"
| "f64_add (Inf p) (Fin _) = Inf p"
| "f64_add (Fin _) (Inf q) = Inf q"
| "f64_add (Fin x) (Fin y) = to_f64 (x + y)"

fun f64_neg :: "f64 \<Rightarrow> f64" where
  "f64_neg NaN = NaN"
| "f64_neg (Inf p) = Inf (\<not> p)"
| "f64_neg (Fin x) = Fin (- x)"

definition f64_sub :: "f64 \<Rightarrow> f64 \<Rightarrow> f64" where
  "f64_sub x y = f64_add x (f64_neg y)"

fun f64_mul :: "f64 \<Rightarrow> f64 \<Rightarrow> f64" where
  "f64_mul NaN _ = NaN"
| "f64_mul _ NaN = NaN"
| "f64_mul (Inf p) (Inf q) = Inf (p = q)"
| "f64_mul (Inf p) (Fin y) = (if y = 0 then NaN else Inf (p = (0 < y)))"
| "f64_mul (Fin x) (Inf q) = (if x = 0 then NaN else Inf (q = (0 < x)))"
| "f64_mul (Fin x) (Fin y) = to_f64 (x * y)"

text \<open>The program divides by values it knows not to be zero.\<close>

fun f64_div :: "f64 \<Rightarrow> f64 \<Rightarrow> f64" where
  "f64_div NaN _ = NaN"
| "f64_div _ NaN = NaN"
| "f64_div (Inf p) (Inf q) = NaN"
| "f64_div (Inf p) (Fin y) = Inf (p = (0 \<le> y))"
| "f64_div (Fin x) (Inf q) = Fin 0"
| "f64_div (Fin x) (Fin y) = (if y = 0 then (if x = 0 then NaN else Inf (0 < x)) else to_f64 (x / y))"

definition f64_max :: "f64 \<Rightarrow> f64 \<Rightarrow> f64" where
  "f64_max x y = (if x = NaN then y else if y = NaN then x else if f64_le x y then y else x)"

definition f64_min :: "f64 \<Rightarrow> f64 \<Rightarrow> f64" where
  "f64_min x y = (if x = NaN then y else if y = NaN then x else if f64_le x y then x else y)"

definition f64_of_int :: "int \<Rightarrow> f64" where
  "f64_of_int i = to_f64 (of_int i)"

text \<open>\<open>x as usize\<close> saturates.\<close>

fun f64_to_usize :: "f64 \<Rightarrow> nat" where
  "f64_to_usize NaN = 0"
| "f64_to_usize (Inf p) = (if p then 2 ^ 64 - 1 else 0)"
| "f64_to_usize (Fin x) = min (2 ^ 64 - 1) (nat \<lfloor>x\<rfloor>)"

text \<open>\<open>Duration::as_secs_f64\<close>.\<close>

definition as_secs_f64 :: "nat \<Rightarrow> f64" where
  "as_secs_f64 ns = f64_add (f64_of_nat (ns div 1000000000)) (f64_div (f64_of_nat (ns mod 1000000000)) (Fin 1000000000))"

definition f64_sum :: "f64 list \<Rightarrow> f64" where
  "f64_sum xs = foldl f64_add (Fin 0) xs"

section \<open>Monotonicity\<close>

lemma scale_of_stop: "scale_of f x e < e + f \<Longrightarrow> 2 ^ 52 \<le> x * 2 ^ scale_of f x e"
  by (induction f x e rule: scale_of.induct) (auto split: if_splits)

lemma scale_of_le: "scale_of f x e \<le> e + f"
  by (induction f x e rule: scale_of.induct) auto

lemma round_pos_zero [simp]: "round_pos 0 = 0"
  by (simp add: round_pos_def)

lemma round_pos_nonneg: "0 \<le> a \<Longrightarrow> 0 \<le> round_pos a"
  using round_even_ge[of 0] by (auto simp: round_pos_def Let_def)

lemma scale_up_ge: "k \<le> scale_up f a k"
  by (induction f a k rule: scale_up.induct) auto

lemma scale_up_le: "scale_up f a k \<le> k + f"
  by (induction f a k rule: scale_up.induct) auto

lemma scale_up_stop: "scale_up f a k < k + f \<Longrightarrow> a < 2 ^ (53 + scale_up f a k)"
  by (induction f a k rule: scale_up.induct) (auto split: if_splits)

lemma scale_up_low: "2 ^ (52 + k) \<le> a \<Longrightarrow> 2 ^ (52 + scale_up f a k) \<le> a"
  by (induction f a k rule: scale_up.induct) auto

lemma scale_up_mono: "a \<le> b \<Longrightarrow> scale_up f a k \<le> scale_up f b k"
proof (induction f arbitrary: k)
  case (Suc f)
  then show ?case using scale_up_ge[of "Suc k" f b] by (auto split: if_splits intro: order.trans)
qed simp

lemma round_even_lt: "x < of_int n \<Longrightarrow> round_even x \<le> n"
  using round_even_le[of x n] by simp

lemma round_small_le: "0 < a \<Longrightarrow> a < 2 ^ 53 \<Longrightarrow> round_pos a \<le> 2 ^ 53 / 2 ^ scale_of 1074 a 0"
proof -
  assume a: "0 < a" "a < 2 ^ 53"
  have "a * 2 ^ scale_of 1074 a 0 < 2 ^ 53" by (rule scale_of_tight) (use a in simp_all)
  then have "round_even (a * 2 ^ scale_of 1074 a 0) \<le> 2 ^ 53" by (intro round_even_lt) simp
  then have "of_int (round_even (a * 2 ^ scale_of 1074 a 0)) \<le> (of_int (2 ^ 53) :: rat)" by (simp only: of_int_le_iff)
  then show ?thesis using a by (auto simp: round_pos_def Let_def intro!: divide_right_mono)
qed

lemma round_mono_small:
  assumes "0 < a" "a \<le> b" "b < 2 ^ 53"
  shows "round_pos a \<le> round_pos b"
proof -
  define e where "e = scale_of 1074 a 0"
  define g where "g = scale_of 1074 b 0"
  have ra: "round_pos a = of_int (round_even (a * 2 ^ e)) / 2 ^ e"
    and rb: "round_pos b = of_int (round_even (b * 2 ^ g)) / 2 ^ g"
    using assms by (auto simp: round_pos_def Let_def e_def g_def)
  have ge: "g \<le> e" unfolding e_def g_def by (rule scale_of_mono) (use assms in auto)
  show ?thesis
  proof (cases "g = e")
    case True
    have "round_even (a * 2 ^ e) \<le> round_even (b * 2 ^ e)" using assms by (intro round_even_mono) simp
    then show ?thesis using True by (simp add: ra rb divide_right_mono)
  next
    case False
    then have "g < 1074" using ge scale_of_le[of 1074 a 0] unfolding e_def by linarith
    then have "2 ^ 52 \<le> b * 2 ^ g" unfolding g_def using scale_of_stop[of 1074 b 0] by simp
    then have "of_int (2 ^ 52) \<le> (of_int (round_even (b * 2 ^ g)) :: rat)"
      unfolding of_int_le_iff by (intro round_even_ge) simp
    then have up: "(2 ^ 52 :: rat) / 2 ^ g \<le> round_pos b" unfolding rb by (intro divide_right_mono) simp_all
    obtain k where k: "e = g + Suc k" using False ge less_imp_Suc_add by (metis le_neq_implies_less add_Suc_right)
    have "round_pos a \<le> 2 ^ 53 / 2 ^ e" using round_small_le[of a] assms unfolding e_def by simp
    also have "\<dots> \<le> 2 ^ 52 / 2 ^ g" by (simp add: k power_add field_simps)
    finally show ?thesis using up by (rule order.trans)
  qed
qed

lemma round_large_ge: "2 ^ 53 \<le> b \<Longrightarrow> 2 ^ (52 + scale_up 971 b 0) \<le> round_pos b"
proof -
  assume b: "2 ^ 53 \<le> b"
  let ?k = "scale_up 971 b 0"
  have "(2 :: rat) ^ (52 + 0) \<le> b" using b by simp
  then have "2 ^ (52 + ?k) \<le> b" by (rule scale_up_low)
  then have "2 ^ 52 \<le> b / 2 ^ ?k" by (simp add: power_add field_simps)
  then have "of_int (2 ^ 52) \<le> (of_int (round_even (b / 2 ^ ?k)) :: rat)"
    unfolding of_int_le_iff by (intro round_even_ge) simp
  then have "2 ^ 52 * 2 ^ ?k \<le> (of_int (round_even (b / 2 ^ ?k)) :: rat) * 2 ^ ?k" by (intro mult_right_mono) simp_all
  then show ?thesis using b by (auto simp: round_pos_def Let_def power_add)
qed

lemma round_mono_large:
  assumes "2 ^ 53 \<le> a" "a \<le> b"
  shows "round_pos a \<le> round_pos b"
proof -
  define k where "k = scale_up 971 a 0"
  define j where "j = scale_up 971 b 0"
  have ra: "round_pos a = of_int (round_even (a / 2 ^ k)) * 2 ^ k"
    and rb: "round_pos b = of_int (round_even (b / 2 ^ j)) * 2 ^ j"
    using assms by (auto simp: round_pos_def Let_def k_def j_def)
  have le: "k \<le> j" unfolding k_def j_def using assms by (intro scale_up_mono)
  show ?thesis
  proof (cases "k = j")
    case True
    have "round_even (a / 2 ^ k) \<le> round_even (b / 2 ^ k)" using assms by (intro round_even_mono divide_right_mono) simp_all
    then show ?thesis using True by (simp add: ra rb)
  next
    case False
    then have "k < 971" using le scale_up_le[of 971 b 0] unfolding j_def by linarith
    then have "a < 2 ^ (53 + k)" unfolding k_def using scale_up_stop[of 971 a 0] by simp
    then have "a / 2 ^ k \<le> 2 ^ 53" by (simp add: power_add field_simps)
    then have "of_int (round_even (a / 2 ^ k)) \<le> (of_int (2 ^ 53) :: rat)"
      unfolding of_int_le_iff by (intro round_even_le) simp
    then have "round_pos a \<le> 2 ^ 53 * 2 ^ k" unfolding ra by (intro mult_right_mono) simp_all
    also have "\<dots> \<le> 2 ^ (52 + j)"
    proof -
      have "(2 :: rat) ^ (53 + k) \<le> 2 ^ (52 + j)" using False le by (intro power_increasing) simp_all
      then show ?thesis by (simp add: power_add)
    qed
    also have "\<dots> \<le> round_pos b" unfolding j_def using round_large_ge[of b] assms by simp
    finally show ?thesis .
  qed
qed

lemma round_pos_mono:
  assumes "0 \<le> a" "a \<le> b"
  shows "round_pos a \<le> round_pos b"
proof -
  consider (zero) "a = 0" | (small) "0 < a" "b < 2 ^ 53" | (large) "2 ^ 53 \<le> a" | (mixed) "0 < a" "a < 2 ^ 53" "2 ^ 53 \<le> b"
    using assms by linarith
  then show ?thesis
  proof cases
    case zero
    then show ?thesis using assms round_pos_nonneg[of b] by simp
  next
    case small
    then show ?thesis using assms by (intro round_mono_small)
  next
    case large
    then show ?thesis using assms by (intro round_mono_large)
  next
    case mixed
    have "(2 :: rat) ^ 53 / 2 ^ scale_of 1074 a 0 \<le> 2 ^ 53" by (simp add: field_simps)
    then have "round_pos a \<le> 2 ^ 53" using round_small_le[OF mixed(1,2)] by linarith
    moreover have "round_pos (2 ^ 53) \<le> round_pos b" by (rule round_mono_large) (use mixed in simp_all)
    moreover have "round_pos (2 ^ 53) = 2 ^ 53"
    proof -
      have "scale_up (Suc (Suc 969)) (2 ^ 53) 0 = Suc 0" by (simp only: scale_up.simps) simp
      then have k: "scale_up 971 (2 ^ 53) 0 = Suc 0" by simp
      have "round_even ((2 :: rat) ^ 53 / 2 ^ Suc 0) = 2 ^ 52" using round_even_of_int[of "2 ^ 52"] by simp
      then show ?thesis unfolding round_pos_def Let_def k by simp
    qed
    ultimately show ?thesis by simp
  qed
qed

lemma f64_limit_pos: "0 < f64_limit"
  by (simp add: f64_limit_def)

lemma to_f64_mono:
  assumes "x \<le> y"
  shows "f64_le (to_f64 x) (to_f64 y)"
proof -
  consider "0 \<le> x" | "y \<le> 0" | "x < 0" "0 < y" by linarith
  then show ?thesis
  proof cases
    case 1
    then have "round_pos \<bar>x\<bar> \<le> round_pos \<bar>y\<bar>" using assms by (intro round_pos_mono) auto
    then show ?thesis using 1 assms f64_limit_pos by (cases "y = 0") (auto simp: to_f64_def Let_def)
  next
    case 2
    then have "round_pos \<bar>y\<bar> \<le> round_pos \<bar>x\<bar>" using assms by (intro round_pos_mono) auto
    then show ?thesis using 2 assms f64_limit_pos by (cases "x = 0") (auto simp: to_f64_def Let_def)
  next
    case 3
    then show ?thesis using round_pos_nonneg[of "\<bar>x\<bar>"] round_pos_nonneg[of "\<bar>y\<bar>"] by (auto simp: to_f64_def Let_def)
  qed
qed

lemma f64_add_mono: "f64_le x x' \<Longrightarrow> f64_le y y' \<Longrightarrow> is_finite x \<Longrightarrow> is_finite y \<Longrightarrow>
    is_finite x' \<Longrightarrow> is_finite y' \<Longrightarrow> f64_le (f64_add x y) (f64_add x' y')"
  by (cases x; cases y; cases x'; cases y') (auto intro: to_f64_mono)

lemma f64_mul_mono: "f64_le x x' \<Longrightarrow> is_finite x \<Longrightarrow> is_finite x' \<Longrightarrow> 0 \<le> w \<Longrightarrow> f64_le (f64_mul x (Fin w)) (f64_mul x' (Fin w))"
  by (cases x; cases x') (auto intro: to_f64_mono mult_right_mono)

section \<open>Ranges\<close>

definition between :: "rat \<Rightarrow> rat \<Rightarrow> f64 \<Rightarrow> bool" where
  "between a b x \<longleftrightarrow> (\<exists>r. x = Fin r \<and> a \<le> r \<and> r \<le> b)"

lemma between_le: "between a b x \<longleftrightarrow> f64_le (Fin a) x \<and> f64_le x (Fin b)"
  by (cases x) (auto simp: between_def)

lemma between_Fin [simp]: "between a b (Fin r) \<longleftrightarrow> a \<le> r \<and> r \<le> b"
  by (simp add: between_def)

lemma to_f64_0: "to_f64 0 = Fin 0"
  by (simp add: to_f64_def f64_limit_def)

section \<open>Exact values\<close>

lemma scale_of_at:
  assumes "2 ^ 52 \<le> x * 2 ^ k" "x * 2 ^ k < 2 ^ 53" "0 < x"
  shows "e \<le> k \<Longrightarrow> k \<le> e + f \<Longrightarrow> scale_of f x e = k"
proof (induction f arbitrary: e)
  case (Suc f)
  show ?case
  proof (cases "e = k")
    case False
    then have "2 * 2 ^ e \<le> (2 :: rat) ^ k" using Suc.prems(1) by (metis Suc_leI le_neq_implies_less one_le_numeral power_Suc power_increasing)
    then have "2 * (x * 2 ^ e) \<le> x * 2 ^ k" using assms(3) by simp
    then have "\<not> 2 ^ 52 \<le> x * 2 ^ e" using assms(2) by simp
    then show ?thesis using Suc False by simp
  qed (use assms(1) in simp)
qed simp

lemma round_even_near:
  assumes "\<bar>x - of_int n\<bar> \<le> 1 / 2" "\<bar>x - of_int n\<bar> = 1 / 2 \<longrightarrow> even n"
  shows "round_even x = n"
proof (cases "of_int n \<le> x")
  case True
  then have "\<lfloor>x\<rfloor> = n" using assms(1) by (intro floor_unique) auto
  then show ?thesis using assms True by (auto simp: round_even_def Let_def)
next
  case False
  then have "\<lfloor>x\<rfloor> = n - 1" using assms(1) by (intro floor_unique) auto
  then show ?thesis using assms False by (auto simp: round_even_def Let_def)
qed

text \<open>The value of a rounding whose scale is known.\<close>

lemma to_f64_at:
  assumes "2 ^ 52 \<le> x * 2 ^ k" "x * 2 ^ k < 2 ^ 53" "0 < x" "k \<le> 1074" "x < 2 ^ 53"
    "\<bar>x * 2 ^ k - of_int n\<bar> \<le> 1 / 2" "\<bar>x * 2 ^ k - of_int n\<bar> = 1 / 2 \<longrightarrow> even n"
    "of_int n / 2 ^ k = r" "r < f64_limit"
  shows "to_f64 x = Fin r"
  using scale_of_at[OF assms(1-3), of 0 1074] round_even_near[OF assms(6,7)] assms(3-5,8,9)
  by (simp add: to_f64_def round_pos_def Let_def)

lemma to_f64_1: "to_f64 1 = Fin 1"
  by (rule to_f64_at[where k = 52 and n = "2 ^ 52"]) (simp_all add: f64_limit_def)

lemma round_pos_int: "0 \<le> n \<Longrightarrow> n < 2 ^ 53 \<Longrightarrow> round_pos (of_int n) = of_int n"
proof -
  assume n: "0 \<le> n" "n < 2 ^ 53"
  then have "(of_int n :: rat) < 2 ^ 53" by (metis of_int_less_iff of_int_numeral of_int_power)
  moreover have "round_even (of_int n * 2 ^ e) = n * 2 ^ e" for e
    using round_even_of_int[of "n * 2 ^ e"] by simp
  ultimately show ?thesis by (simp add: round_pos_def Let_def)
qed

lemma to_f64_int: "\<bar>n\<bar> < 2 ^ 53 \<Longrightarrow> to_f64 (of_int n) = Fin (of_int n)"
proof -
  assume n: "\<bar>n\<bar> < 2 ^ 53"
  have r: "round_pos \<bar>of_int n\<bar> = of_int \<bar>n\<bar>" using round_pos_int[of "\<bar>n\<bar>"] n by simp
  have "(of_int \<bar>n\<bar> :: rat) < 2 ^ 53" using n by (metis of_int_less_iff of_int_numeral of_int_power)
  then have "(of_int \<bar>n\<bar> :: rat) < f64_limit"
    by (rule less_trans) (simp add: f64_limit_def)
  then show ?thesis using r by (auto simp: to_f64_def Let_def)
qed

text \<open>Small integers need no search when a value is computed.\<close>

lemma to_f64_nat: "n < 2 ^ 53 \<Longrightarrow> to_f64 (of_nat n) = Fin (of_nat n)"
  using to_f64_int[of "int n"] by simp

lemma to_f64_code [code]: "to_f64 x = (case quotient_of x of (n, d) \<Rightarrow>
    if d = 1 \<and> \<bar>n\<bar> < 2 ^ 53 then Fin x
    else (let r = round_pos \<bar>x\<bar> in if f64_limit \<le> r then Inf (0 < x) else Fin (if x < 0 then - r else r)))"
proof -
  obtain n d where q: "quotient_of x = (n, d)" by fastforce
  show ?thesis
  proof (cases "d = 1 \<and> \<bar>n\<bar> < 2 ^ 53")
    case True
    then have "x = of_int n" using quotient_of_div[OF q] by simp
    then show ?thesis using q True to_f64_int[of n] by simp
  qed (use q in \<open>auto simp: to_f64_def\<close>)
qed

lemma as_secs_f64_code [code]: "as_secs_f64 ns = (let n = int ns in
    f64_add (Fin (of_int (n div 1000000000))) (f64_div (Fin (of_int (n mod 1000000000))) (Fin 1000000000)))"
proof -
  have "(of_nat (ns div 1000000000) :: rat) = of_int (int ns div 1000000000)"
    "(of_nat (ns mod 1000000000) :: rat) = of_int (int ns mod 1000000000)"
    by (metis of_int_of_nat_eq of_nat_numeral zdiv_int, metis of_int_of_nat_eq of_nat_numeral zmod_int)
  then show ?thesis by (simp add: as_secs_f64_def f64_of_nat_def Let_def)
qed

end
