(* ===== verification/Runner_Env.thy ===== *)
theory Runner_Env
  imports Experiment_Engine Float_Arith
begin

text \<open>
  What the experiment runner of \<open>tumult-core/src/runner\<close> runs in: its configuration and
  errors (\<open>mod.rs\<close>, \<open>execution.rs\<close>), the lifecycle events and control handlers of
  \<open>controls.rs\<close>, and the execution of one activity (\<open>activity.rs\<close>).

  The world is a counter of observations and the trace of what the runner did. What the
  runner cannot control is the record \<open>renv\<close>, indexed by the counter: what a provider
  answers (a panic included), whether the caller's cancellation token is set, what the two
  clocks show, how many polls a pause lasts, in which order a hash map is walked.
  \<open>rv_rounds\<close> is how many rounds the model lets the recovery loop take. Spans, metrics and log lines are not modelled.
\<close>

section \<open>Configuration\<close>

datatype rollback_strategy = RbAlways | RbOnDeviation | RbNever

fun should_rollback :: "rollback_strategy \<Rightarrow> bool \<Rightarrow> bool" where
  "should_rollback RbAlways needs = True"
| "should_rollback RbOnDeviation needs = needs"
| "should_rollback RbNever needs = False"

datatype baseline_mode = ModeFull | ModeSkip | ModeOnly

datatype runner_error = RunnerEmptyMethod | MissingBaselineProbes | MissingLoadExecutor
  | LoadStart string | ExperimentCountMismatch nat nat

text \<open>Durations are nanoseconds.\<close>

record sampling_config =
  sm_interval :: nat
  sm_max_during :: nat
  sm_recovery_timeout :: nat

definition sampling_default :: sampling_config where
  "sampling_default = \<lparr> sm_interval = 1000000000, sm_max_during = 300, sm_recovery_timeout = 30 * 1000000000 \<rparr>"

record outcome =
  oc_success :: bool
  oc_output :: "string option"
  oc_error :: "string option"
  oc_duration_ms :: nat

text \<open>A load executor: \<open>start\<close> gives a handle, \<open>stop\<close> takes it; both may fail.\<close>

record load_executor =
  lx_start :: "nat \<Rightarrow> load_config \<Rightarrow> (string, nat) result"
  lx_stop :: "nat \<Rightarrow> nat \<Rightarrow> (string, load_result) result"

record run_config =
  rc_mode :: baseline_mode
  rc_strategy :: rollback_strategy
  rc_token :: bool  \<comment> \<open>whether the caller passes a cancellation token\<close>
  rc_load :: "load_executor option"
  rc_max_faults :: "nat option"

definition run_config_default :: run_config where
  "run_config_default = \<lparr> rc_mode = ModeFull, rc_strategy = RbOnDeviation, rc_token = False, rc_load = None,
     rc_max_faults = None \<rparr>"

section \<open>Lifecycle events and controls\<close>

datatype lifecycle_event = BeforeExperiment | AfterExperiment | BeforeMethod | AfterMethod
  | BeforeActivity string | AfterActivity string | BeforeRollback | AfterRollback
  | BeforeHypothesis | AfterHypothesis

fun event_name :: "lifecycle_event \<Rightarrow> string" where
  "event_name BeforeExperiment = ''before_experiment''"
| "event_name AfterExperiment = ''after_experiment''"
| "event_name BeforeMethod = ''before_method''"
| "event_name AfterMethod = ''after_method''"
| "event_name (BeforeActivity _) = ''before_activity''"
| "event_name (AfterActivity _) = ''after_activity''"
| "event_name BeforeRollback = ''before_rollback''"
| "event_name AfterRollback = ''after_rollback''"
| "event_name BeforeHypothesis = ''before_hypothesis''"
| "event_name AfterHypothesis = ''after_hypothesis''"

fun activity_name :: "lifecycle_event \<Rightarrow> string option" where
  "activity_name (BeforeActivity nm) = Some nm"
| "activity_name (AfterActivity nm) = Some nm"
| "activity_name _ = None"

text \<open>\<open>entry(key).or_insert_with(value)\<close>.\<close>

definition or_insert :: "string \<Rightarrow> 'a \<Rightarrow> (string \<rightharpoonup> 'a) \<Rightarrow> (string \<rightharpoonup> 'a)" where
  "or_insert k v m = (if m k = None then m(k \<mapsto> v) else m)"

definition inject_event :: "string \<Rightarrow> string \<Rightarrow> (string \<Rightarrow> 'a) \<Rightarrow> lifecycle_event \<Rightarrow> (string \<rightharpoonup> 'a) \<Rightarrow> (string \<rightharpoonup> 'a)" where
  "inject_event event_key activity_key val ev m =
    (let m1 = or_insert event_key (val (event_name ev)) m
     in case activity_name ev of Some nm \<Rightarrow> or_insert activity_key (val nm) m1 | None \<Rightarrow> m1)"

fun inject_provider :: "lifecycle_event \<Rightarrow> provider \<Rightarrow> provider" where
  "inject_provider ev (Process path args env timeout) =
    Process path args (inject_event ''TUMULT_CONTROL_EVENT'' ''TUMULT_CONTROL_ACTIVITY'' id ev env) timeout"
| "inject_provider ev (Script plugin function args timeout) =
    Script plugin function (inject_event ''control_event'' ''control_activity'' JString ev args) timeout"
| "inject_provider ev (Native plugin function args) =
    Native plugin function (inject_event ''control_event'' ''control_activity'' JString ev args)"

definition invocation :: "control \<Rightarrow> lifecycle_event \<Rightarrow> activity" where
  "invocation c ev = \<lparr> act_name = ''control:'' @ control_name c, act_type = Action,
     act_provider = inject_provider ev (control_provider c), act_tolerance = None,
     act_pause_before = None, act_pause_after = None, act_background = False, act_label_selector = None \<rparr>"

text \<open>A registered handler: one declared by the experiment, or one written in Rust, of
  which only the name is known.\<close>

datatype handler = Declared control | Custom string

section \<open>The world\<close>

datatype origin = ByMethod | ByRollback | ByHypothesis | BySampler | ByGuard | ByControl

datatype obs = Emitted lifecycle_event | Called origin activity | LoadStarted | LoadStopped
  | GuardSeen nat bool

record world =
  w_tick :: nat
  w_obs :: "obs list"
  w_slept :: nat

datatype reply = Replied outcome | Panicked string

record renv =
  rv_reply :: "nat \<Rightarrow> activity \<Rightarrow> reply"
  rv_cancelled :: "nat \<Rightarrow> bool"
  rv_clock :: "nat \<Rightarrow> int"
  rv_mono :: "nat \<Rightarrow> nat"
  rv_trace :: "nat \<Rightarrow> string"
  rv_span :: "nat \<Rightarrow> string"
  rv_uuid :: "nat \<Rightarrow> string"
  rv_polls :: "nat \<Rightarrow> nat"
  rv_json :: "string \<Rightarrow> json option"
  rv_show_json :: "json \<Rightarrow> string"
  rv_show_f64 :: "f64 \<Rightarrow> string"
  rv_regex :: regex_engine
  rv_rounds :: nat
  rv_order :: "(string \<times> activity_result list) list \<Rightarrow> (string \<times> activity_result list) list"

text \<open>How a run ends without a journal: refused, unwound by a panic, or (in the model only) out
  of the rounds the model allows the recovery loop.\<close>

datatype run_stop = Refused runner_error | Unwinds string | OutOfRounds

fun panic_text :: "run_stop \<Rightarrow> string" where
  "panic_text (Unwinds msg) = msg"
| "panic_text _ = []"

type_synonym 'a wcomp = "(world, run_stop, 'a) comp"

definition advance :: "obs list \<Rightarrow> world \<Rightarrow> world" where
  "advance os w = \<lparr> w_tick = Suc (w_tick w), w_obs = w_obs w @ os, w_slept = w_slept w \<rparr>"

text \<open>One observation of the environment.\<close>

definition observe :: "(nat \<Rightarrow> 'a) \<Rightarrow> 'a wcomp" where
  "observe f = (\<lambda>w. (Inr (f (w_tick w)), advance [] w))"

text \<open>\<open>Instant::now\<close> and \<open>thread::sleep\<close>: a sleep lasts at least as long as asked.\<close>

definition instant_now :: "renv \<Rightarrow> nat wcomp" where
  "instant_now R = (\<lambda>w. (Inr (rv_mono R (w_tick w) + w_slept w), advance [] w))"

definition sleep_for :: "nat \<Rightarrow> unit wcomp" where
  "sleep_for d = (\<lambda>w. (Inr (), advance [] w \<lparr> w_slept := w_slept w + d \<rparr>))"

text \<open>A call of the executor; a panicking provider unwinds its caller.\<close>

definition call_provider :: "renv \<Rightarrow> origin \<Rightarrow> activity \<Rightarrow> outcome wcomp" where
  "call_provider R og a = (\<lambda>w. (case rv_reply R (w_tick w) a of
     Replied oc \<Rightarrow> (Inr oc, advance [Called og a] w)
   | Panicked msg \<Rightarrow> (Inl (Unwinds msg), advance [Called og a] w)))"

text \<open>\<open>ControlRegistry::emit\<close>: every handler gets the event; a failing or panicking one is
  logged.\<close>

fun handle_event :: "renv \<Rightarrow> lifecycle_event \<Rightarrow> handler \<Rightarrow> world \<Rightarrow> world" where
  "handle_event R ev (Declared c) w = snd (call_provider R ByControl (invocation c ev) w)"
| "handle_event R ev (Custom nm) w = advance [] w"

definition emit :: "renv \<Rightarrow> handler list \<Rightarrow> lifecycle_event \<Rightarrow> world \<Rightarrow> world" where
  "emit R hs ev w = foldl (\<lambda>w h. handle_event R ev h w) (advance [Emitted ev] w) hs"

definition emits :: "renv \<Rightarrow> handler list \<Rightarrow> lifecycle_event \<Rightarrow> unit wcomp" where
  "emits R hs ev = (\<lambda>w. (Inr (), emit R hs ev w))"

text \<open>The caller's token.\<close>

definition caller_cancelled :: "renv \<Rightarrow> run_config \<Rightarrow> nat \<Rightarrow> bool" where
  "caller_cancelled R cfg t \<longleftrightarrow> rc_token cfg \<and> rv_cancelled R t"

end
