(* ===== verification/Runner_Activity.thy ===== *)
theory Runner_Activity
  imports Runner_Env
begin

text \<open>
  \<open>runner/activity.rs\<close>, the sequential part: one activity, the probes of a hypothesis,
  the rollbacks; with what each of them adds to the trace. The method's activities run on
  several threads and are in \<open>Runner_Method\<close>, from the same pieces.
\<close>

section \<open>Results\<close>

definition make_result :: "activity \<Rightarrow> int \<Rightarrow> outcome \<Rightarrow> string \<Rightarrow> string \<Rightarrow> activity_result" where
  "make_result a started oc trace_id span_id = \<lparr> res_name = act_name a, res_type = act_type a,
     res_status = (if oc_success oc then ActSucceeded else ActFailed), res_started_at = started,
     res_duration_ms = oc_duration_ms oc, res_output = oc_output oc, res_error = oc_error oc,
     res_trace_id = trace_id, res_span_id = span_id \<rparr>"

definition skipped_result :: "activity \<Rightarrow> int \<Rightarrow> string \<Rightarrow> string \<Rightarrow> activity_result" where
  "skipped_result a started trace_id span_id = \<lparr> res_name = act_name a, res_type = act_type a,
     res_status = ActSkipped, res_started_at = started, res_duration_ms = 0, res_output = None,
     res_error = Some ''cancelled before provider dispatch'', res_trace_id = trace_id, res_span_id = span_id \<rparr>"

definition panicked_result :: "activity \<Rightarrow> int \<Rightarrow> string \<Rightarrow> string \<Rightarrow> activity_result" where
  "panicked_result a now msg trace_id = \<lparr> res_name = act_name a, res_type = act_type a,
     res_status = ActFailed, res_started_at = now, res_duration_ms = 0, res_output = None,
     res_error = Some (''activity panicked: '' @ msg), res_trace_id = trace_id, res_span_id = [] \<rparr>"

definition all_succeeded :: "activity_result list \<Rightarrow> bool" where
  "all_succeeded rs \<longleftrightarrow> rs \<noteq> [] \<and> list_all (\<lambda>r. res_status r = ActSucceeded) rs"

definition count_by_type :: "activity list \<Rightarrow> activity_type \<Rightarrow> nat" where
  "count_by_type as ty = length (filter (\<lambda>a. act_type a = ty) as)"

fun partition_loop :: "activity list \<Rightarrow> activity list \<Rightarrow> activity list \<Rightarrow> activity list \<times> activity list" where
  "partition_loop [] sequential background = (sequential, background)"
| "partition_loop (a # as) sequential background =
    (if act_background a then partition_loop as sequential (background @ [a])
     else partition_loop as (sequential @ [a]) background)"

definition partition_background :: "activity list \<Rightarrow> activity list \<times> activity list" where
  "partition_background as = partition_loop as [] []"

lemma partition_loop_eq: "partition_loop as ss bs =
    (ss @ filter (\<lambda>a. \<not> act_background a) as, bs @ filter act_background as)"
  by (induction as arbitrary: ss bs) auto

lemma partition_background_eq:
  "partition_background as = (filter (\<lambda>a. \<not> act_background a) as, filter act_background as)"
  by (simp add: partition_background_def partition_loop_eq)

section \<open>Probes\<close>

definition probe_outcome_ok :: "renv \<Rightarrow> activity \<Rightarrow> bool \<Rightarrow> string option \<Rightarrow> bool" where
  "probe_outcome_ok R probe success output =
    (if \<not> success then False
     else (case act_tolerance probe of
         None \<Rightarrow> success
       | Some tolerance \<Rightarrow> (case output of
           None \<Rightarrow> False
         | Some txt0 \<Rightarrow>
             (let value = (case rv_json R txt0 of Some v \<Rightarrow> v | None \<Rightarrow> JString txt0)
              in evaluate_tolerance (rv_regex R) (rv_show_json R) value tolerance))))"

section \<open>One activity\<close>

text \<open>Without a token, as for probes and rollbacks.\<close>

definition execute_single_activity :: "renv \<Rightarrow> handler list \<Rightarrow> origin \<Rightarrow> activity \<Rightarrow> activity_result wcomp" where
  "execute_single_activity R hs og a =
    seqc (emits R hs (BeforeActivity (act_name a)))
   (bindc (observe (rv_clock R)) (\<lambda>started.
    bindc (call_provider R og a) (\<lambda>oc.
    bindc (observe (\<lambda>t. make_result a started oc (rv_trace R t) (rv_span R t))) (\<lambda>r.
    seqc (emits R hs (AfterActivity (act_name a))) (ret r)))))"

definition execute_foreground_activity :: "renv \<Rightarrow> handler list \<Rightarrow> origin \<Rightarrow> activity \<Rightarrow> activity_result wcomp" where
  "execute_foreground_activity R hs og a = (\<lambda>w. (case execute_single_activity R hs og a w of
     (Inr r, w') \<Rightarrow> (Inr r, w')
   | (Inl e, w') \<Rightarrow> observe (\<lambda>t. panicked_result a (rv_clock R t) (panic_text e) (rv_trace R t)) w'))"

section \<open>Hypothesis and rollbacks\<close>

fun run_probes :: "renv \<Rightarrow> handler list \<Rightarrow> activity list \<Rightarrow> (activity_result list \<times> bool) wcomp" where
  "run_probes R hs [] = ret ([], True)"
| "run_probes R hs (p # ps) =
    bindc (execute_single_activity R hs ByHypothesis p) (\<lambda>r.
    bindc (run_probes R hs ps) (\<lambda>(rs, met).
      ret (r # rs, probe_outcome_ok R p (res_status r = ActSucceeded) (res_output r) \<and> met)))"

definition evaluate_hypothesis :: "renv \<Rightarrow> handler list \<Rightarrow> hypothesis \<Rightarrow> hypothesis_result wcomp" where
  "evaluate_hypothesis R hs h =
    bindc (run_probes R hs (hyp_probes h)) (\<lambda>(rs, met).
      ret \<lparr> hr_title = hyp_title h, hr_met = met, hr_probe_results = rs \<rparr>)"

fun execute_rollback_activities :: "renv \<Rightarrow> handler list \<Rightarrow> activity list \<Rightarrow> (activity_result list) wcomp" where
  "execute_rollback_activities R hs [] = ret []"
| "execute_rollback_activities R hs (a # as) =
    bindc (execute_foreground_activity R hs ByRollback a) (\<lambda>r.
    bindc (execute_rollback_activities R hs as) (\<lambda>rs. ret (r # rs)))"

definition run_rollbacks ::
    "renv \<Rightarrow> handler list \<Rightarrow> chaos_experiment \<Rightarrow> rollback_strategy \<Rightarrow> bool \<Rightarrow> (activity_result list) wcomp" where
  "run_rollbacks R hs x strategy needs =
    (if exp_rollbacks x = [] \<or> \<not> should_rollback strategy needs then ret []
     else seqc (emits R hs BeforeRollback)
         (bindc (execute_rollback_activities R hs (exp_rollbacks x)) (\<lambda>rs.
          seqc (emits R hs AfterRollback) (ret rs))))"

section \<open>What is added to the trace\<close>

definition extends :: "(obs \<Rightarrow> bool) \<Rightarrow> world \<Rightarrow> world \<Rightarrow> bool" where
  "extends P w w' \<longleftrightarrow> w_tick w \<le> w_tick w' \<and> w_slept w \<le> w_slept w' \<and> (\<exists>os. w_obs w' = w_obs w @ os \<and> (\<forall>x \<in> set os. P x))"

interpretation tracing: comp_order "extends P" for P
proof
  show "extends P w w" for w by (simp add: extends_def)
  show "extends P u w" if "extends P u v" "extends P v w" for u v w
    using that unfolding extends_def by (metis append_assoc Un_iff order.trans set_append)
qed

lemma extends_weaken: "extends P w w' \<Longrightarrow> (\<And>x. P x \<Longrightarrow> Q x) \<Longrightarrow> extends Q w w'"
  unfolding extends_def by blast

lemma extends_obs: "extends P w w' \<Longrightarrow> x \<in> set (w_obs w) \<Longrightarrow> x \<in> set (w_obs w')"
  by (auto simp: extends_def)

lemma extends_new: "extends P w w' \<Longrightarrow> x \<in> set (w_obs w') \<Longrightarrow> x \<in> set (w_obs w) \<or> P x"
  by (auto simp: extends_def)

lemma extends_tick: "extends P w w' \<Longrightarrow> w_tick w \<le> w_tick w'"
  by (simp add: extends_def)

lemma extends_slept: "extends P w w' \<Longrightarrow> w_slept w \<le> w_slept w'"
  by (simp add: extends_def)

lemma extends_advance: "(\<And>x. x \<in> set os \<Longrightarrow> P x) \<Longrightarrow> extends P w (advance os w)"
  by (auto simp: extends_def advance_def)

text \<open>What handlers do: events, and the calls of declared controls.\<close>

fun control_obs :: "obs \<Rightarrow> bool" where
  "control_obs (Emitted _) = True"
| "control_obs (Called ByControl _) = True"
| "control_obs _ = False"

lemma observe_obeys [simp, intro]: "obeys (extends P) (observe f)"
  by (auto simp: obeys_def observe_def intro!: extends_advance)

lemma clock_obeys [simp, intro]: "obeys (extends P) (instant_now R)" "obeys (extends P) (sleep_for d)"
  by (auto simp: obeys_def instant_now_def sleep_for_def extends_def advance_def)

lemma call_obeys: "P (Called og a) \<Longrightarrow> obeys (extends P) (call_provider R og a)"
  by (auto simp: obeys_def call_provider_def split: reply.splits intro!: extends_advance)

lemma handle_extends: "(\<And>c. P (Called ByControl c)) \<Longrightarrow> extends P w (handle_event R ev h w)"
  by (cases h) (auto simp: call_provider_def split: reply.splits intro!: extends_advance)

lemma emit_event_extends:
  assumes "P (Emitted ev)" "\<And>c. hs \<noteq> [] \<Longrightarrow> P (Called ByControl c)"
  shows "extends P w (emit R hs ev w)"
proof -
  have "extends P v (foldl (\<lambda>w h. handle_event R ev h w) v hs)" for v
    using assms(2)
  proof (induction hs arbitrary: v)
    case (Cons h hs)
    then show ?case
      using tracing.le_trans[OF handle_extends[of P v R ev h] Cons.IH] by simp
  qed simp
  moreover have "extends P w (advance [Emitted ev] w)" using assms(1) by (intro extends_advance) simp
  ultimately show ?thesis unfolding emit_def by (blast intro: tracing.le_trans)
qed

lemma emit_extends: "(\<And>x. control_obs x \<Longrightarrow> P x) \<Longrightarrow> extends P w (emit R hs ev w)"
  by (rule emit_event_extends) simp_all

lemma emits_event_obeys: "P (Emitted ev) \<Longrightarrow> (\<And>c. hs \<noteq> [] \<Longrightarrow> P (Called ByControl c)) \<Longrightarrow> obeys (extends P) (emits R hs ev)"
  by (auto simp: obeys_def emits_def intro: emit_event_extends)

lemma emits_obeys: "(\<And>x. control_obs x \<Longrightarrow> P x) \<Longrightarrow> obeys (extends P) (emits R hs ev)"
  by (rule emits_event_obeys) simp_all

text \<open>The part of it that belongs to one activity.\<close>

fun activity_obs :: "handler list \<Rightarrow> obs \<Rightarrow> bool" where
  "activity_obs hs (Emitted ev) = (activity_name ev \<noteq> None)"
| "activity_obs hs (Called ByControl _) = (hs \<noteq> [])"
| "activity_obs hs _ = False"

lemma activity_control: "activity_obs hs x \<Longrightarrow> control_obs x"
  by (cases "(hs, x)" rule: activity_obs.cases) auto

lemma single_obeys:
  "(\<And>x. activity_obs hs x \<Longrightarrow> P x) \<Longrightarrow> P (Called og a) \<Longrightarrow> obeys (extends P) (execute_single_activity R hs og a)"
  unfolding execute_single_activity_def
  by (intro tracing.obeys_rules emits_event_obeys call_obeys observe_obeys) simp_all

lemma foreground_obeys:
  "(\<And>x. activity_obs hs x \<Longrightarrow> P x) \<Longrightarrow> P (Called og a) \<Longrightarrow> obeys (extends P) (execute_foreground_activity R hs og a)"
proof -
  assume p: "\<And>x. activity_obs hs x \<Longrightarrow> P x" "P (Called og a)"
  show ?thesis
    unfolding obeys_def execute_foreground_activity_def
    using obeysD[OF single_obeys[of hs P og a R], OF p] obeysD[OF observe_obeys]
    by (auto split: prod.splits sum.splits) (blast intro: tracing.le_trans)
qed

lemma run_probes_obeys:
  assumes "\<And>x. activity_obs hs x \<Longrightarrow> P x"
  shows "(\<And>p. p \<in> set ps \<Longrightarrow> P (Called ByHypothesis p)) \<Longrightarrow> obeys (extends P) (run_probes R hs ps)"
proof (induction ps)
  case (Cons p ps)
  show ?case unfolding run_probes.simps
    by (intro tracing.obeys_rules single_obeys Cons.IH assms Cons.prems) (simp_all add: Cons.prems)
qed simp

lemma evaluate_obeys:
  "(\<And>x. activity_obs hs x \<Longrightarrow> P x) \<Longrightarrow> (\<And>p. p \<in> set (hyp_probes h) \<Longrightarrow> P (Called ByHypothesis p)) \<Longrightarrow>
    obeys (extends P) (evaluate_hypothesis R hs h)"
  unfolding evaluate_hypothesis_def by (intro tracing.obeys_rules run_probes_obeys)

lemma rollback_each_obeys:
  assumes "\<And>x. activity_obs hs x \<Longrightarrow> P x"
  shows "(\<And>a. a \<in> set as \<Longrightarrow> P (Called ByRollback a)) \<Longrightarrow> obeys (extends P) (execute_rollback_activities R hs as)"
proof (induction as)
  case (Cons a as)
  show ?case unfolding execute_rollback_activities.simps
    by (intro tracing.obeys_rules foreground_obeys Cons.IH assms Cons.prems) (simp_all add: Cons.prems)
qed simp

lemma run_rollbacks_obeys:
  "(\<And>x. control_obs x \<Longrightarrow> P x) \<Longrightarrow> (\<And>a. a \<in> set (exp_rollbacks x) \<Longrightarrow> P (Called ByRollback a)) \<Longrightarrow>
    obeys (extends P) (run_rollbacks R hs x strategy needs)"
  unfolding run_rollbacks_def by (intro tracing.obeys_rules rollback_each_obeys emits_obeys) (auto dest: activity_control)

section \<open>Rollbacks do not stop\<close>

lemma execute_foreground_total: "\<exists>r w'. execute_foreground_activity R hs og a w = (Inr r, w')
    \<and> res_name r = act_name a \<and> res_type r = act_type a \<and> Called og a \<in> set (w_obs w')"
proof -
  define w1 where "w1 = advance [] (emit R hs (BeforeActivity (act_name a)) w)"
  have c: "Called og a \<in> set (w_obs (emit R hs ev (advance os (advance [Called og a] w1))))" for ev os
    by (rule extends_obs[OF emit_extends]) (auto simp: advance_def intro: extends_obs)
  show ?thesis
    using c[of _ "[]"]
    by (cases "rv_reply R (w_tick w1) a")
       (auto simp: execute_foreground_activity_def execute_single_activity_def seqc_def bindc_def emits_def observe_def
          call_provider_def ret_def w1_def make_result_def panicked_result_def advance_def split: prod.splits reply.splits)
qed

lemma execute_rollback_total: "\<exists>rs w'. execute_rollback_activities R hs as w = (Inr rs, w')
    \<and> map res_name rs = map act_name as \<and> (\<forall>a \<in> set as. Called ByRollback a \<in> set (w_obs w'))"
proof (induction as arbitrary: w)
  case (Cons a as)
  obtain r w1 where r: "execute_foreground_activity R hs ByRollback a w = (Inr r, w1)" "res_name r = act_name a"
    "Called ByRollback a \<in> set (w_obs w1)"
    using execute_foreground_total[of R hs ByRollback a w] by blast
  obtain rs w2 where rs: "execute_rollback_activities R hs as w1 = (Inr rs, w2)" "map res_name rs = map act_name as"
    "\<forall>a \<in> set as. Called ByRollback a \<in> set (w_obs w2)"
    using Cons.IH by blast
  have "extends (\<lambda>_. True) w1 w2" using rollback_each_obeys[of hs "\<lambda>_. True" as R] rs(1) by (auto intro: obeysD)
  then have "Called ByRollback a \<in> set (w_obs w2)" using r(3) by (rule extends_obs)
  then show ?case using r(1,2) rs by (intro exI[of _ "r # rs"] exI[of _ w2]) (simp add: bindc_def ret_def)
qed (auto simp: ret_def)

lemma run_rollbacks_total: "\<exists>rs w'. run_rollbacks R hs x strategy needs w = (Inr rs, w')
    \<and> (should_rollback strategy needs \<longrightarrow> map res_name rs = map act_name (exp_rollbacks x)
         \<and> (\<forall>a \<in> set (exp_rollbacks x). Called ByRollback a \<in> set (w_obs w')))
    \<and> (\<not> should_rollback strategy needs \<longrightarrow> rs = [] \<and> w' = w)"
proof (cases "exp_rollbacks x = [] \<or> \<not> should_rollback strategy needs")
  case True
  then show ?thesis by (auto simp: run_rollbacks_def ret_def)
next
  case False
  obtain rs w1 where e: "execute_rollback_activities R hs (exp_rollbacks x) (emit R hs BeforeRollback w) = (Inr rs, w1)"
    "map res_name rs = map act_name (exp_rollbacks x)" "\<forall>a \<in> set (exp_rollbacks x). Called ByRollback a \<in> set (w_obs w1)"
    using execute_rollback_total by blast
  have "\<forall>a \<in> set (exp_rollbacks x). Called ByRollback a \<in> set (w_obs (emit R hs AfterRollback w1))"
    using e(3) extends_obs[OF emit_extends[of "\<lambda>_. True"]] by blast
  then show ?thesis using False e
    by (intro exI[of _ rs] exI[of _ "emit R hs AfterRollback w1"])
       (simp add: run_rollbacks_def seqc_def bindc_def emits_def ret_def)
qed

end
