(* ===== verification/Runner_Phases.thy ===== *)
theory Runner_Phases
  imports Runner_Activity
begin

text \<open>
  \<open>runner/phases.rs\<close>: the analysis, one round of probe samples, the recovery loop of the
  post phase, and the during and post results computed from the samples. The samples of a
  probe are kept under its name, in the order taken; the order in which the names come out
  of the hash map is \<open>rv_order\<close>.
\<close>

section \<open>Analysis\<close>

definition compute_analysis :: "chaos_experiment \<Rightarrow> experiment_status \<Rightarrow> analysis_result option" where
  "compute_analysis x st = (case exp_estimate x of
     None \<Rightarrow> None
   | Some e \<Rightarrow>
       (let actual_recovered = (st = Completed); estimated_recovered = (est_outcome e = ExpRecovered)
        in Some \<lparr> an_accuracy = (if actual_recovered = estimated_recovered then Some (Fin 1) else Some (Fin 0)),
             an_recovery_delta = None, an_trend = None,
             an_score = (if actual_recovered then Some (Fin 1) else Some (Fin 0)) \<rparr>))"

section \<open>Samples\<close>

type_synonym samples = "(string \<times> activity_result list) list"

definition sample_probe :: "renv \<Rightarrow> origin \<Rightarrow> activity \<Rightarrow> (activity_result \<times> bool) wcomp" where
  "sample_probe R og p =
    bindc (instant_now R) (\<lambda>start.
    bindc (observe (rv_clock R)) (\<lambda>started.
    bindc (call_provider R og p) (\<lambda>oc.
    bindc (observe (\<lambda>t. (rv_trace R t, rv_span R t))) (\<lambda>(trace_id, span_id).
    bindc (instant_now R) (\<lambda>now.
      (let ok = probe_outcome_ok R p (oc_success oc) (oc_output oc)
       in ret (\<lparr> res_name = act_name p, res_type = Probe, res_status = (if ok then ActSucceeded else ActFailed),
              res_started_at = started, res_duration_ms = (now - start) div 1000000, res_output = oc_output oc,
              res_error = oc_error oc, res_trace_id = trace_id, res_span_id = span_id \<rparr>, ok)))))))"

fun sample_probe_round :: "renv \<Rightarrow> origin \<Rightarrow> activity list \<Rightarrow> (activity_result list \<times> bool) wcomp" where
  "sample_probe_round R og [] = ret ([], True)"
| "sample_probe_round R og (p # ps) =
    bindc (sample_probe R og p) (\<lambda>(r, ok).
    bindc (sample_probe_round R og ps) (\<lambda>(rs, oks). ret (r # rs, ok \<and> oks)))"

fun append_sample :: "activity_result \<Rightarrow> samples \<Rightarrow> samples" where
  "append_sample r [] = [(res_name r, [r])]"
| "append_sample r ((nm, rs) # m) = (if nm = res_name r then (nm, rs @ [r]) # m else (nm, rs) # append_sample r m)"

definition append_round :: "samples \<Rightarrow> activity_result list \<Rightarrow> samples" where
  "append_round m rs = foldl (\<lambda>m r. append_sample r m) m rs"

section \<open>The recovery loop\<close>

fun post_rounds :: "nat \<Rightarrow> renv \<Rightarrow> run_config \<Rightarrow> activity list \<Rightarrow> nat \<Rightarrow> nat \<Rightarrow> samples \<Rightarrow> samples wcomp" where
  "post_rounds 0 R cfg probes interval deadline m = fail OutOfRounds"
| "post_rounds (Suc n) R cfg probes interval deadline m =
    bindc (sample_probe_round R BySampler probes) (\<lambda>(rs, recovered).
    bindc (observe (caller_cancelled R cfg)) (\<lambda>cancelled.
    bindc (instant_now R) (\<lambda>now.
      if recovered \<or> cancelled \<or> deadline < now + interval then ret (append_round m rs)
      else seqc (sleep_for interval) (post_rounds n R cfg probes interval deadline (append_round m rs)))))"

definition collect_post_samples :: "renv \<Rightarrow> run_config \<Rightarrow> sampling_config \<Rightarrow> hypothesis \<Rightarrow> samples wcomp" where
  "collect_post_samples R cfg sm h =
    bindc (instant_now R) (\<lambda>now.
    bindc (post_rounds (rv_rounds R) R cfg (hyp_probes h) (sm_interval sm) (now + sm_recovery_timeout sm) []) (\<lambda>m.
      ret (rv_order R m)))"

section \<open>Statistics\<close>

definition u32_of :: "nat \<Rightarrow> nat" where
  "u32_of n = n mod 2 ^ 32"

definition f64_of_duration :: "nat \<Rightarrow> f64" where
  "f64_of_duration ms = Fin (f64_of_u64 ms)"

definition is_failed :: "activity_result \<Rightarrow> bool" where
  "is_failed r \<longleftrightarrow> res_status r = ActFailed"

definition mean_of :: "f64 list \<Rightarrow> f64" where
  "mean_of xs = (if xs = [] then Fin 0 else f64_div (f64_sum xs) (f64_of_nat (length xs)))"

definition seconds_between :: "int \<Rightarrow> int \<Rightarrow> f64" where
  "seconds_between start stop = f64_div (f64_of_int (stop - start)) (Fin 1000000000)"

definition probe_during_of :: "string \<times> activity_result list \<Rightarrow> probe_during" where
  "probe_during_of p = (case p of (nm, samples) \<Rightarrow>
    (let total = u32_of (length samples); failed = u32_of (length (filter is_failed samples));
         durations = map (\<lambda>s. f64_of_duration (res_duration_ms s)) samples
     in \<lparr> pd_name = nm, pd_samples = total, pd_mean = mean_of durations,
          pd_max = foldl f64_max NaN durations, pd_min = foldl f64_min NaN durations,
          pd_error_rate = (if 0 < total then f64_div (f64_of_nat failed) (f64_of_nat total) else Fin 0),
          pd_breached_at = map_option res_started_at (find is_failed samples), pd_breach_count = failed \<rparr>))"

definition build_during_result :: "int \<Rightarrow> int \<Rightarrow> f64 \<Rightarrow> samples \<Rightarrow> during_result option" where
  "build_during_result started ended interval_s m = (if m = [] then None
     else Some \<lparr> du_started_at = started, du_ended_at = ended, du_fault_active_s = seconds_between started ended,
        du_interval_s = interval_s, du_probes = map probe_during_of m, du_onset_s = None, du_peak_s = None,
        du_magnitude = None, du_graceful = None \<rparr>)"

text \<open>The greatest index of a failed sample.\<close>

fun last_failure :: "activity_result list \<Rightarrow> nat option" where
  "last_failure [] = None"
| "last_failure (s # ss) = (case last_failure ss of Some i \<Rightarrow> Some (Suc i)
     | None \<Rightarrow> if is_failed s then Some 0 else None)"

definition f64_095 :: f64 where
  "f64_095 = to_f64 (95 / 100)"

definition f64_key :: "f64 \<Rightarrow> rat" where
  "f64_key x = (case x of Fin r \<Rightarrow> r | _ \<Rightarrow> 0)"

definition p95_of :: "f64 list \<Rightarrow> f64" where
  "p95_of xs = (let srt = sort_key f64_key xs in if srt = [] then Fin 0
     else srt ! min (f64_to_usize (f64_mul (f64_of_nat (length srt)) f64_095)) (length srt - 1))"

definition recovery_time_of :: "int \<Rightarrow> activity_result list \<Rightarrow> f64" where
  "recovery_time_of started samples =
    (if length (filter is_failed samples) = 0 then Fin 0
     else (let i = (case last_failure samples of Some i \<Rightarrow> i | None \<Rightarrow> 0);
               marker = (if Suc i < length samples then res_started_at (samples ! Suc i) else res_started_at (samples ! i))
           in seconds_between started marker))"

definition probe_post_of :: "int \<Rightarrow> string \<times> activity_result list \<Rightarrow> probe_post" where
  "probe_post_of started p = (case p of (nm, samples) \<Rightarrow>
    (let sample_ms = map (\<lambda>s. f64_of_duration (res_duration_ms s)) samples; failed = length (filter is_failed samples)
     in \<lparr> pp_name = nm, pp_mean = mean_of sample_ms, pp_p95 = p95_of sample_ms,
          pp_error_rate = (if samples = [] then Fin 0 else f64_div (f64_of_nat failed) (f64_of_nat (length samples))),
          pp_returned = (samples \<noteq> [] \<and> res_status (last samples) = ActSucceeded),
          pp_recovery_s = recovery_time_of started samples \<rparr>))"

definition build_post_result :: "int \<Rightarrow> int \<Rightarrow> samples \<Rightarrow> post_result option" where
  "build_post_result started ended m = (if m = [] then None
     else (let probes = map (probe_post_of started) m; full_recovery = list_all pp_returned probes;
               recovery_time = foldl f64_max (Fin 0) (map pp_recovery_s probes)
           in Some \<lparr> po_started_at = started, po_ended_at = ended, po_duration_s = seconds_between started ended,
                po_samples = u32_of (sum_list (map (\<lambda>p. length (snd p)) m)), po_probes = probes,
                po_recovery_s = recovery_time, po_full_recovery = full_recovery, po_residual = None,
                po_integrity = None, po_data_loss = None,
                po_mttr_s = (if full_recovery then Some recovery_time else None) \<rparr>))"

section \<open>What is added to the trace\<close>

lemma sample_probe_obeys: "P (Called og p) \<Longrightarrow> obeys (extends P) (sample_probe R og p)"
  unfolding sample_probe_def Let_def by (intro tracing.obeys_rules call_obeys observe_obeys clock_obeys)

lemma sample_round_obeys: "(\<And>p. p \<in> set ps \<Longrightarrow> P (Called og p)) \<Longrightarrow> obeys (extends P) (sample_probe_round R og ps)"
proof (induction ps)
  case (Cons p ps)
  show ?case unfolding sample_probe_round.simps
    by (intro tracing.obeys_rules sample_probe_obeys Cons.IH Cons.prems) (simp_all add: Cons.prems)
qed simp

lemma post_rounds_obeys:
  "(\<And>p. p \<in> set ps \<Longrightarrow> P (Called BySampler p)) \<Longrightarrow> obeys (extends P) (post_rounds n R cfg ps interval deadline m)"
proof (induction n arbitrary: m)
  case (Suc n)
  show ?case unfolding post_rounds.simps
    by (intro tracing.obeys_rules sample_round_obeys clock_obeys observe_obeys Suc.IH Suc.prems)
qed simp

lemma collect_post_obeys:
  "(\<And>p. p \<in> set (hyp_probes h) \<Longrightarrow> P (Called BySampler p)) \<Longrightarrow> obeys (extends P) (collect_post_samples R cfg sm h)"
  unfolding collect_post_samples_def by (intro tracing.obeys_rules post_rounds_obeys clock_obeys)

end
