(* ===== verification/Runner_Method.thy ===== *)
theory Runner_Method
  imports Runner_Phases
begin

text \<open>
  The method phase: \<open>execute_activities\<close> and the fault gate of \<open>runner/activity.rs\<close>, the
  guard monitor of \<open>runner/guard.rs\<close> and the during-phase sampler of \<open>runner/sampler.rs\<close>.

  Four kinds of threads run at once: the foreground, one thread per background activity
  behind the fault gate, the guard monitor, and the sampler. A step moves one thread to its
  next observable point; every order of steps is possible. The method token is a child of the
  caller's token which the guard monitor may cancel.
\<close>

section \<open>The fault gate\<close>

record gate =
  gate_active :: nat
  gate_peak :: nat

definition gate_new :: gate where
  "gate_new = \<lparr> gate_active = 0, gate_peak = 0 \<rparr>"

definition gate_full :: "nat option \<Rightarrow> gate \<Rightarrow> bool" where
  "gate_full cap g = (case cap of None \<Rightarrow> False | Some c \<Rightarrow> c \<le> gate_active g)"

definition gate_take :: "gate \<Rightarrow> gate" where
  "gate_take g = (let active = gate_active g + 1 in
     \<lparr> gate_active = active, gate_peak = max (gate_peak g) (u32_of active) \<rparr>)"

definition gate_release :: "gate \<Rightarrow> gate" where
  "gate_release g = g \<lparr> gate_active := gate_active g - 1 \<rparr>"

section \<open>One activity of the method\<close>

text \<open>The points of \<open>execute_pending_activity\<close>; the numbers of the two pauses are the polls
  of the token that are left.\<close>

datatype stage = Queueing | PauseBefore nat | Entering | Checking int | Calling int | Returning int outcome
  | PauseAfter nat activity_result | Ended "activity_result option" | Crashed string

text \<open>\<open>wait_pause\<close>: no pause when the seconds are missing, not positive or not finite; a number
  of seconds that does not fit a \<open>Duration\<close> panics.\<close>

definition pause_seconds :: "f64 option \<Rightarrow> rat option" where
  "pause_seconds s = (case s of Some (Fin r) \<Rightarrow> if 0 < r then Some r else None | _ \<Rightarrow> None)"

definition pause_polls :: "renv \<Rightarrow> f64 option \<Rightarrow> nat \<Rightarrow> nat option" where
  "pause_polls R s t = (case pause_seconds s of
     None \<Rightarrow> Some 0 | Some r \<Rightarrow> if 2 ^ 64 \<le> r then None else Some (rv_polls R t))"

definition duration_panic :: string where
  "duration_panic = ''cannot convert float seconds to Duration: value is either too big or NaN''"

definition start_stage :: "renv \<Rightarrow> activity \<Rightarrow> nat \<Rightarrow> stage" where
  "start_stage R a t = (case pause_polls R (act_pause_before a) t of Some k \<Rightarrow> PauseBefore k | None \<Rightarrow> Crashed duration_panic)"

definition after_stage :: "renv \<Rightarrow> activity \<Rightarrow> activity_result \<Rightarrow> nat \<Rightarrow> stage" where
  "after_stage R a r t = (case pause_polls R (act_pause_after a) t of Some k \<Rightarrow> PauseAfter k r | None \<Rightarrow> Crashed duration_panic)"

text \<open>One step of an activity; \<open>tok t\<close> is whether the method token is cancelled at the
  observation \<open>t\<close>. A provider's panic is caught and becomes a failed result.\<close>

fun activity_step :: "renv \<Rightarrow> handler list \<Rightarrow> (nat \<Rightarrow> bool) \<Rightarrow> activity \<Rightarrow> stage \<Rightarrow> world \<Rightarrow> stage \<times> world" where
  "activity_step R hs tok a (PauseBefore k) w =
    (if tok (w_tick w) then Ended None else if k = 0 then Entering else PauseBefore (k - 1), advance [] w)"
| "activity_step R hs tok a Entering w =
    (let w1 = emit R hs (BeforeActivity (act_name a)) w in (Checking (rv_clock R (w_tick w1)), advance [] w1))"
| "activity_step R hs tok a (Checking started) w =
    (let t = w_tick w in
     if tok t then (after_stage R a (skipped_result a started (rv_trace R t) (rv_span R t)) t, advance [] w)
     else (Calling started, advance [] w))"
| "activity_step R hs tok a (Calling started) w =
    (let t = w_tick w in
     (case rv_reply R t a of
        Replied oc \<Rightarrow> Returning started oc
      | Panicked msg \<Rightarrow> after_stage R a (panicked_result a (rv_clock R t) msg (rv_trace R t)) t,
      advance [Called ByMethod a] w))"
| "activity_step R hs tok a (Returning started oc) w =
    (let r = make_result a started oc (rv_trace R (w_tick w)) (rv_span R (w_tick w));
         w1 = emit R hs (AfterActivity (act_name a)) w
     in (after_stage R a r (w_tick w1), advance [] w1))"
| "activity_step R hs tok a (PauseAfter k r) w =
    (if tok (w_tick w) \<or> k = 0 then Ended (Some r) else PauseAfter (k - 1) r, advance [] w)"
| "activity_step R hs tok a st w = (st, w)"

fun over :: "stage \<Rightarrow> bool" where
  "over (Ended _) = True"
| "over (Crashed _) = True"
| "over _ = False"

section \<open>The guard monitor\<close>

datatype monitor_status = GuardsOff | Watching | Pulled halt_record | MonitorQuit | MonitorPanicked

record monitor =
  gm_idx :: nat
  gm_counts :: "nat list"
  gm_status :: monitor_status

definition describe_safe_condition :: "renv \<Rightarrow> tolerance option \<Rightarrow> string" where
  "describe_safe_condition R t = (case t of
     Some (Range lo hi) \<Rightarrow> ''range ['' @ rv_show_f64 R lo @ '', '' @ rv_show_f64 R hi @ '']''
   | Some (Exact v) \<Rightarrow> ''exact '' @ rv_show_json R v
   | Some (Regex p) \<Rightarrow> ''regex /'' @ p @ ''/''
   | None \<Rightarrow> ''probe success'')"

definition monitor_new :: "guard list \<Rightarrow> monitor" where
  "monitor_new gs = \<lparr> gm_idx = 0, gm_counts = replicate (length gs) 0,
     gm_status = (if gs = [] then GuardsOff else Watching) \<rparr>"

text \<open>The evaluation of the guard the monitor is at; \<open>m0\<close> is the instant the method started.\<close>

definition guard_eval :: "renv \<Rightarrow> guard list \<Rightarrow> nat \<Rightarrow> monitor \<Rightarrow> world \<Rightarrow> monitor \<times> world" where
  "guard_eval R gs m0 m w =
    (let i = gm_idx m; g = gs ! i; t = w_tick w in
     case rv_reply R t (guard_probe g) of
       Panicked msg \<Rightarrow> (m \<lparr> gm_status := MonitorPanicked \<rparr>, advance [Called ByGuard (guard_probe g)] w)
     | Replied oc \<Rightarrow>
         (let safe = probe_outcome_ok R (guard_probe g) (oc_success oc) (oc_output oc);
              w1 = advance [Called ByGuard (guard_probe g), GuardSeen i safe] w;
              n = gm_counts m ! i + 1
          in if safe then (m \<lparr> gm_idx := Suc i, gm_counts := (gm_counts m)[i := 0] \<rparr>, w1)
             else if guard_min_breaches g \<le> n then
               (m \<lparr> gm_counts := (gm_counts m)[i := n], gm_status := Pulled
                  \<lparr> halt_guard = guard_name g, halt_observed = oc_output oc,
                    halt_safe_condition = describe_safe_condition R (act_tolerance (guard_probe g)),
                    halt_breach_count = n, halt_breached_at = rv_clock R t,
                    halt_time_to_halt_ms = (rv_mono R t + w_slept w - m0) div 1000000, halt_rollback_ms = 0 \<rparr> \<rparr>, w1)
             else (m \<lparr> gm_idx := Suc i, gm_counts := (gm_counts m)[i := n] \<rparr>, w1)))"

section \<open>The during-phase sampler\<close>

datatype sampler_status = SamplerOff | Sampling | SampleWait | SamplerEnded int

record sampler =
  sa_round :: nat
  sa_todo :: "activity list"
  sa_cur :: "activity_result list"
  sa_map :: samples
  sa_status :: sampler_status

definition sampled_probes :: "chaos_experiment \<Rightarrow> activity list" where
  "sampled_probes x = (case exp_hypothesis x of None \<Rightarrow> [] | Some h \<Rightarrow> hyp_probes h)"

definition sampler_new :: "renv \<Rightarrow> chaos_experiment \<Rightarrow> sampling_config \<Rightarrow> nat \<Rightarrow> sampler" where
  "sampler_new R x sm t = \<lparr> sa_round = 0, sa_todo = sampled_probes x, sa_cur = [], sa_map = [],
     sa_status = (if sampled_probes x = [] then SamplerOff
        else if sm_max_during sm = 0 then SamplerEnded (rv_clock R t) else Sampling) \<rparr>"

definition sampler_probe :: "renv \<Rightarrow> sampler \<Rightarrow> world \<Rightarrow> sampler \<times> world" where
  "sampler_probe R sa w = (case sample_probe R BySampler (hd (sa_todo sa)) w of
     (Inr (r, ok), w') \<Rightarrow> (sa \<lparr> sa_todo := tl (sa_todo sa), sa_cur := sa_cur sa @ [r] \<rparr>, w')
   | (Inl e, w') \<Rightarrow> (sa \<lparr> sa_status := SamplerEnded (rv_clock R (w_tick w')) \<rparr>, w'))"

definition sampler_round :: "renv \<Rightarrow> sampling_config \<Rightarrow> sampler \<Rightarrow> nat \<Rightarrow> sampler" where
  "sampler_round R sm sa t = sa \<lparr> sa_map := append_round (sa_map sa) (sa_cur sa), sa_cur := [],
     sa_status := (if sa_round sa + 1 = sm_max_during sm then SamplerEnded (rv_clock R t) else SampleWait) \<rparr>"

section \<open>The state of the phase\<close>

record mctx =
  mx_env :: renv
  mx_handlers :: "handler list"
  mx_config :: run_config
  mx_sampling :: sampling_config
  mx_experiment :: chaos_experiment
  mx_started :: nat

definition effective_cap :: "run_config \<Rightarrow> chaos_experiment \<Rightarrow> nat option" where
  "effective_cap cfg x = (case rc_max_faults cfg of Some c \<Rightarrow> Some c | None \<Rightarrow> exp_max_concurrent_faults x)"

abbreviation mx_cap :: "mctx \<Rightarrow> nat option" where
  "mx_cap X \<equiv> effective_cap (mx_config X) (mx_experiment X)"

abbreviation mx_guards :: "mctx \<Rightarrow> guard list" where
  "mx_guards X \<equiv> exp_guards (mx_experiment X)"

record mstate =
  ms_world :: world
  ms_todo :: "activity list"
  ms_cur :: "(activity \<times> stage) option"
  ms_results :: "activity_result list"
  ms_crash :: "string option"
  ms_bg :: "(activity \<times> stage) list"
  ms_gate :: gate
  ms_monitor :: monitor
  ms_sampler :: sampler
  ms_joined :: bool  \<comment> \<open>\<open>execute_activities\<close> returned and the sampler was told to stop\<close>
  ms_closed :: bool  \<comment> \<open>the guard monitor was told to stop\<close>

fun pulled :: "monitor_status \<Rightarrow> bool" where
  "pulled (Pulled _) = True"
| "pulled _ = False"

definition method_token :: "mctx \<Rightarrow> mstate \<Rightarrow> nat \<Rightarrow> bool" where
  "method_token X s t \<longleftrightarrow> pulled (gm_status (ms_monitor s)) \<or> caller_cancelled (mx_env X) (mx_config X) t"

definition method_start :: "mctx \<Rightarrow> world \<Rightarrow> mstate" where
  "method_start X w = (case partition_background (exp_method (mx_experiment X)) of (foreground, background) \<Rightarrow>
     \<lparr> ms_world = w, ms_todo = foreground, ms_cur = None, ms_results = [], ms_crash = None,
       ms_bg = map (\<lambda>a. (a, Queueing)) background, ms_gate = gate_new,
       ms_monitor = monitor_new (mx_guards X),
       ms_sampler = sampler_new (mx_env X) (mx_experiment X) (mx_sampling X) (w_tick w),
       ms_joined = False, ms_closed = False \<rparr>)"

definition activities_over :: "mstate \<Rightarrow> bool" where
  "activities_over s \<longleftrightarrow> ms_todo s = [] \<and> ms_cur s = None \<and> list_all (\<lambda>(a, st). over st) (ms_bg s)"

fun sampler_over :: "sampler_status \<Rightarrow> bool" where
  "sampler_over SamplerOff = True"
| "sampler_over (SamplerEnded _) = True"
| "sampler_over _ = False"

definition set_bg :: "mstate \<Rightarrow> nat \<Rightarrow> activity \<Rightarrow> stage \<Rightarrow> gate \<Rightarrow> world \<Rightarrow> mstate" where
  "set_bg s i a st g w = s \<lparr> ms_world := w, ms_bg := (ms_bg s)[i := (a, st)],
     ms_gate := (if over st then gate_release g else g) \<rparr>"

section \<open>Steps\<close>

inductive method_step :: "mctx \<Rightarrow> mstate \<Rightarrow> mstate \<Rightarrow> bool" for X where
  fg_start: "ms_cur s = None \<Longrightarrow> ms_todo s = a # as \<Longrightarrow> w = ms_world s \<Longrightarrow>
    method_step X s (s \<lparr> ms_world := advance [] w, ms_todo := as,
       ms_cur := Some (a, start_stage (mx_env X) a (w_tick w)) \<rparr>)"
| fg_step: "ms_cur s = Some (a, st) \<Longrightarrow> \<not> over st \<Longrightarrow>
    activity_step (mx_env X) (mx_handlers X) (method_token X s) a st (ms_world s) = (st', w') \<Longrightarrow>
    method_step X s (s \<lparr> ms_world := w', ms_cur := Some (a, st') \<rparr>)"
| fg_done: "ms_cur s = Some (a, Ended (Some r)) \<Longrightarrow>
    method_step X s (s \<lparr> ms_cur := None, ms_results := ms_results s @ [r] \<rparr>)"
| fg_break: "ms_cur s = Some (a, Ended None) \<Longrightarrow>
    method_step X s (s \<lparr> ms_cur := None, ms_todo := [] \<rparr>)"
| fg_crash: "ms_cur s = Some (a, Crashed msg) \<Longrightarrow>
    method_step X s (s \<lparr> ms_cur := None, ms_todo := [], ms_crash := Some msg \<rparr>)"
| bg_refused: "i < length (ms_bg s) \<Longrightarrow> ms_bg s ! i = (a, Queueing) \<Longrightarrow> w = ms_world s \<Longrightarrow>
    method_token X s (w_tick w) \<Longrightarrow>
    method_step X s (s \<lparr> ms_world := advance [] w, ms_bg := (ms_bg s)[i := (a, Ended None)] \<rparr>)"
| bg_waits: "i < length (ms_bg s) \<Longrightarrow> ms_bg s ! i = (a, Queueing) \<Longrightarrow> w = ms_world s \<Longrightarrow>
    gate_full (mx_cap X) (ms_gate s) \<Longrightarrow> \<not> method_token X s (w_tick w) \<Longrightarrow>
    method_step X s (s \<lparr> ms_world := advance [] w \<rparr>)"
| bg_enters: "i < length (ms_bg s) \<Longrightarrow> ms_bg s ! i = (a, Queueing) \<Longrightarrow> w = ms_world s \<Longrightarrow>
    \<not> gate_full (mx_cap X) (ms_gate s) \<Longrightarrow> \<not> method_token X s (w_tick w) \<Longrightarrow>
    method_step X s (set_bg s i a (start_stage (mx_env X) a (w_tick w)) (gate_take (ms_gate s)) (advance [] w))"
| bg_step: "i < length (ms_bg s) \<Longrightarrow> ms_bg s ! i = (a, st) \<Longrightarrow> st \<noteq> Queueing \<Longrightarrow> \<not> over st \<Longrightarrow>
    activity_step (mx_env X) (mx_handlers X) (method_token X s) a st (ms_world s) = (st', w') \<Longrightarrow>
    method_step X s (set_bg s i a st' (ms_gate s) w')"
| guard_evaluates: "gm_status (ms_monitor s) = Watching \<Longrightarrow> gm_idx (ms_monitor s) < length (mx_guards X) \<Longrightarrow>
    guard_eval (mx_env X) (mx_guards X) (mx_started X) (ms_monitor s) (ms_world s) = (m', w') \<Longrightarrow>
    method_step X s (s \<lparr> ms_world := w', ms_monitor := m' \<rparr>)"
| guard_again: "gm_status (ms_monitor s) = Watching \<Longrightarrow> gm_idx (ms_monitor s) = length (mx_guards X) \<Longrightarrow>
    \<not> ms_closed s \<Longrightarrow>
    method_step X s (s \<lparr> ms_world := advance [] (ms_world s), ms_monitor := (ms_monitor s) \<lparr> gm_idx := 0 \<rparr> \<rparr>)"
| guard_quits: "gm_status (ms_monitor s) = Watching \<Longrightarrow> gm_idx (ms_monitor s) = length (mx_guards X) \<Longrightarrow>
    ms_closed s \<Longrightarrow>
    method_step X s (s \<lparr> ms_monitor := (ms_monitor s) \<lparr> gm_status := MonitorQuit \<rparr> \<rparr>)"
| sampler_probes: "sa_status (ms_sampler s) = Sampling \<Longrightarrow> sa_todo (ms_sampler s) \<noteq> [] \<Longrightarrow>
    sampler_probe (mx_env X) (ms_sampler s) (ms_world s) = (sa', w') \<Longrightarrow>
    method_step X s (s \<lparr> ms_world := w', ms_sampler := sa' \<rparr>)"
| sampler_rounds: "sa_status (ms_sampler s) = Sampling \<Longrightarrow> sa_todo (ms_sampler s) = [] \<Longrightarrow>
    method_step X s (s \<lparr> ms_world := advance [] (ms_world s),
       ms_sampler := sampler_round (mx_env X) (mx_sampling X) (ms_sampler s) (w_tick (ms_world s)) \<rparr>)"
| sampler_again: "sa_status (ms_sampler s) = SampleWait \<Longrightarrow> \<not> ms_joined s \<Longrightarrow>
    method_step X s (s \<lparr> ms_world := advance [] (ms_world s), ms_sampler := (ms_sampler s) \<lparr> sa_status := Sampling,
       sa_round := sa_round (ms_sampler s) + 1, sa_todo := sampled_probes (mx_experiment X) \<rparr> \<rparr>)"
| sampler_stops: "sa_status (ms_sampler s) = SampleWait \<Longrightarrow> ms_joined s \<Longrightarrow>
    method_step X s (s \<lparr> ms_world := advance [] (ms_world s), ms_sampler := (ms_sampler s)
       \<lparr> sa_status := SamplerEnded (rv_clock (mx_env X) (w_tick (ms_world s))) \<rparr> \<rparr>)"
| joins: "activities_over s \<Longrightarrow> ms_crash s = None \<Longrightarrow> \<not> ms_joined s \<Longrightarrow>
    method_step X s (s \<lparr> ms_world := emit (mx_env X) (mx_handlers X) AfterMethod (ms_world s), ms_joined := True \<rparr>)"
| closes: "ms_joined s \<Longrightarrow> sampler_over (sa_status (ms_sampler s)) \<Longrightarrow> \<not> ms_closed s \<Longrightarrow>
    method_step X s (s \<lparr> ms_closed := True \<rparr>)"

inductive_cases method_stepE: "method_step X s s'"

definition method_steps :: "mctx \<Rightarrow> mstate \<Rightarrow> mstate \<Rightarrow> bool" where
  "method_steps X = (method_step X)\<^sup>*\<^sup>*"

text \<open>The phase is over when the monitor was joined, or when the foreground unwound and the
  background threads were joined.\<close>

definition method_over :: "mstate \<Rightarrow> bool" where
  "method_over s \<longleftrightarrow> (ms_closed s \<and> gm_status (ms_monitor s) \<noteq> Watching)
     \<or> (activities_over s \<and> ms_crash s \<noteq> None)"

text \<open>What the phase hands to the runner.\<close>

definition bg_panic_result :: "renv \<Rightarrow> activity \<Rightarrow> nat \<Rightarrow> activity_result" where
  "bg_panic_result R a t = \<lparr> res_name = act_name a, res_type = act_type a, res_status = ActFailed,
     res_started_at = rv_clock R t, res_duration_ms = 0, res_output = None,
     res_error = Some ''background activity panicked'', res_trace_id = [], res_span_id = [] \<rparr>"

definition bg_result :: "renv \<Rightarrow> nat \<Rightarrow> activity \<times> stage \<Rightarrow> activity_result list" where
  "bg_result R t p = (case p of
     (a, Ended (Some r)) \<Rightarrow> [r]
   | (a, Crashed msg) \<Rightarrow> [bg_panic_result R a t]
   | _ \<Rightarrow> [])"

definition method_results :: "renv \<Rightarrow> mstate \<Rightarrow> activity_result list" where
  "method_results R s = ms_results s @ concat (map (bg_result R (w_tick (ms_world s))) (ms_bg s))"

definition method_halt :: "mstate \<Rightarrow> halt_record option" where
  "method_halt s = (case gm_status (ms_monitor s) of Pulled h \<Rightarrow> Some h | _ \<Rightarrow> None)"

definition method_during :: "mctx \<Rightarrow> int \<Rightarrow> mstate \<Rightarrow> during_result option" where
  "method_during X started s = (case sa_status (ms_sampler s) of
     SamplerEnded ended \<Rightarrow> build_during_result started ended
        (as_secs_f64 (sm_interval (mx_sampling X))) (rv_order (mx_env X) (sa_map (ms_sampler s)))
   | _ \<Rightarrow> None)"

end
