(* ===== verification/Runner_Experiment.thy ===== *)
theory Runner_Experiment
  imports Runner_Method
begin

text \<open>
  \<open>runner/experiment.rs\<close> and \<open>runner/load.rs\<close>: the whole run of an experiment. The
  threads of the method phase are interleaved by the argument \<open>sched\<close>, which gives the
  state the phase ends in; properties assume that it is a state the steps of
  \<open>Runner_Method\<close> lead to (\<open>schedules\<close>). An \<open>Err\<close> of the code is
  \<open>Refused\<close>, a panic that reaches the caller \<open>Unwinds\<close>.
\<close>

section \<open>Pieces\<close>

definition run_orphan_rollback :: "renv \<Rightarrow> handler list \<Rightarrow> chaos_experiment \<Rightarrow> (activity_result list) wcomp" where
  "run_orphan_rollback R hs x = run_rollbacks R hs x RbAlways True"

definition run_hypothesis_phase :: "renv \<Rightarrow> handler list \<Rightarrow> chaos_experiment \<Rightarrow> (hypothesis_result option) wcomp" where
  "run_hypothesis_phase R hs x = (case exp_hypothesis x of
     None \<Rightarrow> ret None
   | Some h \<Rightarrow> seqc (emits R hs BeforeHypothesis)
       (bindc (evaluate_hypothesis R hs h) (\<lambda>r.
        seqc (emits R hs AfterHypothesis) (ret (Some r)))))"

definition build_blast_radius :: "string option \<Rightarrow> nat option \<Rightarrow> nat \<Rightarrow> blast_radius_record option" where
  "build_blast_radius note cap peak = (if note = None \<and> cap = None \<and> peak = 0 then None
     else Some \<lparr> blast_note = note, blast_cap = cap, blast_peak = peak \<rparr>)"

definition rollback_failures :: "activity_result list \<Rightarrow> nat" where
  "rollback_failures rs = u32_of (length (filter is_failed rs))"

text \<open>\<open>as_millis() as u64\<close>.\<close>

definition elapsed_ms :: "renv \<Rightarrow> nat \<Rightarrow> nat wcomp" where
  "elapsed_ms R start = bindc (instant_now R) (\<lambda>now. ret ((now - start) div 1000000 mod 2 ^ 64))"

definition cancelled_now :: "renv \<Rightarrow> run_config \<Rightarrow> bool wcomp" where
  "cancelled_now R cfg = observe (caller_cancelled R cfg)"

definition make_interrupted_journal :: "renv \<Rightarrow> chaos_experiment \<Rightarrow> int \<Rightarrow> journal wcomp" where
  "make_interrupted_journal R x now = bindc (observe (rv_uuid R)) (\<lambda>eid. ret (journal_for x eid Interrupted now))"

section \<open>Load\<close>

definition start_load :: "chaos_experiment \<Rightarrow> run_config \<Rightarrow> (nat option) wcomp" where
  "start_load x cfg = (case exp_load x of
     None \<Rightarrow> ret None
   | Some lc \<Rightarrow> (case rc_load cfg of
       None \<Rightarrow> ret None
     | Some lx \<Rightarrow> (\<lambda>w. (case lx_start lx (w_tick w) lc of
         Inr handle \<Rightarrow> (Inr (Some handle), advance [LoadStarted] w)
       | Inl e \<Rightarrow> (Inl (Refused (LoadStart e)), advance [] w)))))"

definition stop_load :: "run_config \<Rightarrow> nat option \<Rightarrow> (load_result option) wcomp" where
  "stop_load cfg handle = (case handle of
     None \<Rightarrow> ret None
   | Some hd0 \<Rightarrow> (case rc_load cfg of
       None \<Rightarrow> ret None
     | Some lx \<Rightarrow> (\<lambda>w. (Inr (case lx_stop lx (w_tick w) hd0 of Inr r \<Rightarrow> Some r | Inl e \<Rightarrow> None),
         advance [LoadStopped] w))))"

section \<open>A run that has started\<close>

text \<open>What is fixed when a run starts: its identity, the two clocks, and its method token's context.\<close>

record run_start =
  st_id :: string
  st_instant :: nat
  st_at :: int

definition begin_run :: "renv \<Rightarrow> run_start wcomp" where
  "begin_run R = bindc (instant_now R) (\<lambda>started. bindc (observe (rv_clock R)) (\<lambda>at0.
     bindc (observe (rv_uuid R)) (\<lambda>eid. ret \<lparr> st_id = eid, st_instant = started, st_at = at0 \<rparr>)))"

text \<open>\<open>ended_at_ns\<close> and \<open>duration_ms\<close>.\<close>

definition end_stamp :: "renv \<Rightarrow> run_start \<Rightarrow> (int \<times> nat) wcomp" where
  "end_stamp R st = bindc (observe (rv_clock R)) (\<lambda>ended. bindc (elapsed_ms R (st_instant st)) (\<lambda>ms. ret (ended, ms)))"

text \<open>The journal of every path that ended after the run started.\<close>

definition stamped :: "chaos_experiment \<Rightarrow> run_start \<Rightarrow> experiment_status \<Rightarrow> int \<times> nat \<Rightarrow> hypothesis_result option \<Rightarrow>
    activity_result list \<Rightarrow> journal" where
  "stamped x st status stamp before rollbacks = (journal_for x (st_id st) status (st_at st))
     \<lparr> jr_ended_at := fst stamp, jr_duration_ms := snd stamp, jr_before := before,
       jr_rollback := rollbacks, jr_rollback_failures := rollback_failures rollbacks \<rparr>"

definition abort_run :: "renv \<Rightarrow> handler list \<Rightarrow> run_config \<Rightarrow> chaos_experiment \<Rightarrow> run_start \<Rightarrow>
    hypothesis_result option \<Rightarrow> journal wcomp" where
  "abort_run R hs cfg x st before =
    bindc (end_stamp R st) (\<lambda>stamp.
    bindc (run_rollbacks R hs x (rc_strategy cfg) True) (\<lambda>rbs.
    seqc (emits R hs AfterExperiment) (ret (stamped x st Aborted stamp before rbs))))"

definition cancel_run :: "renv \<Rightarrow> handler list \<Rightarrow> chaos_experiment \<Rightarrow> run_start \<Rightarrow> hypothesis_result option \<Rightarrow> journal wcomp" where
  "cancel_run R hs x st before =
    bindc (end_stamp R st) (\<lambda>stamp.
    seqc (emits R hs AfterExperiment) (ret (stamped x st Interrupted stamp before [])))"

section \<open>The method phase\<close>

definition method_ctx :: "renv \<Rightarrow> handler list \<Rightarrow> run_config \<Rightarrow> sampling_config \<Rightarrow> chaos_experiment \<Rightarrow> nat \<Rightarrow> mctx" where
  "method_ctx R hs cfg sm x started = \<lparr> mx_env = R, mx_handlers = hs, mx_config = cfg, mx_sampling = sm,
     mx_experiment = x, mx_started = started \<rparr>"

definition schedules :: "(mctx \<Rightarrow> world \<Rightarrow> mstate) \<Rightarrow> mctx \<Rightarrow> bool" where
  "schedules sched X \<longleftrightarrow> (\<forall>w. method_steps X (method_start X w) (sched X w) \<and> method_over (sched X w))"

definition run_method :: "(mctx \<Rightarrow> world \<Rightarrow> mstate) \<Rightarrow> mctx \<Rightarrow> mstate wcomp" where
  "run_method sched X = (\<lambda>w. let s = sched X w in
     (case ms_crash s of Some msg \<Rightarrow> Inl (Unwinds msg) | None \<Rightarrow> Inr s, ms_world s))"

text \<open>What the method left, for the journal.\<close>

record method_report =
  mr_results :: "activity_result list"
  mr_during :: "during_result option"
  mr_blast :: "blast_radius_record option"

definition report_of :: "mctx \<Rightarrow> int \<Rightarrow> mstate \<Rightarrow> method_report" where
  "report_of X during_at s = \<lparr> mr_results = method_results (mx_env X) s, mr_during = method_during X during_at s,
     mr_blast = build_blast_radius (exp_blast_radius (mx_experiment X)) (mx_cap X) (gate_peak (ms_gate s)) \<rparr>"

definition with_report :: "journal \<Rightarrow> method_report \<Rightarrow> load_result option \<Rightarrow> analysis_result option \<Rightarrow> journal" where
  "with_report j mr load analysis = j \<lparr> jr_method := mr_results mr, jr_during := mr_during mr,
     jr_blast_radius := mr_blast mr, jr_load := load, jr_analysis := analysis \<rparr>"

section \<open>The ends of a run whose method ran\<close>

definition halt_run :: "renv \<Rightarrow> handler list \<Rightarrow> run_config \<Rightarrow> chaos_experiment \<Rightarrow> run_start \<Rightarrow> hypothesis_result option \<Rightarrow>
    nat option \<Rightarrow> method_report \<Rightarrow> halt_record \<Rightarrow> journal wcomp" where
  "halt_run R hs cfg x st before handle mr h =
    bindc (stop_load cfg handle) (\<lambda>load.
    bindc (instant_now R) (\<lambda>rollback_started.
    bindc (run_rollbacks R hs x (rc_strategy cfg) True) (\<lambda>rbs.
    bindc (elapsed_ms R rollback_started) (\<lambda>rollback_ms.
    bindc (end_stamp R st) (\<lambda>stamp.
    seqc (emits R hs AfterExperiment)
      (ret (with_report (stamped x st Halted stamp before rbs) mr load (compute_analysis x Halted)
         \<lparr> jr_halt := Some (h \<lparr> halt_rollback_ms := rollback_ms \<rparr>) \<rparr>)))))))"

definition interrupt_run :: "renv \<Rightarrow> handler list \<Rightarrow> run_config \<Rightarrow> chaos_experiment \<Rightarrow> run_start \<Rightarrow> hypothesis_result option \<Rightarrow>
    nat option \<Rightarrow> method_report \<Rightarrow> journal wcomp" where
  "interrupt_run R hs cfg x st before handle mr =
    bindc (stop_load cfg handle) (\<lambda>load.
    bindc (run_rollbacks R hs x (rc_strategy cfg) True) (\<lambda>rbs.
    bindc (end_stamp R st) (\<lambda>stamp.
    seqc (emits R hs AfterExperiment)
      (ret (with_report (stamped x st Interrupted stamp before rbs) mr load (compute_analysis x Interrupted))))))"

definition measure_recovery :: "renv \<Rightarrow> run_config \<Rightarrow> sampling_config \<Rightarrow> chaos_experiment \<Rightarrow> (post_result option) wcomp" where
  "measure_recovery R cfg sm x = (case exp_hypothesis x of
     None \<Rightarrow> ret None
   | Some h \<Rightarrow>
       if hyp_probes h = [] then ret None
       else bindc (observe (rv_clock R)) (\<lambda>started.
            bindc (collect_post_samples R cfg sm h) (\<lambda>samples.
            bindc (observe (rv_clock R)) (\<lambda>ended. ret (build_post_result started ended samples)))))"

definition hypothesis_after :: "renv \<Rightarrow> handler list \<Rightarrow> run_config \<Rightarrow> chaos_experiment \<Rightarrow> (hypothesis_result option) wcomp" where
  "hypothesis_after R hs cfg x = bindc (cancelled_now R cfg) (\<lambda>c. if c then ret None else run_hypothesis_phase R hs x)"

definition fault_started :: "activity_result list \<Rightarrow> bool" where
  "fault_started rs \<longleftrightarrow> list_ex (\<lambda>r. res_type r = Action) rs"

definition needs_rollback :: "experiment_status \<Rightarrow> activity_result list \<Rightarrow> bool" where
  "needs_rollback status rs \<longleftrightarrow> status = Deviated \<or> (status \<in> {Failed, Interrupted} \<and> fault_started rs)"

definition conclude_run :: "renv \<Rightarrow> handler list \<Rightarrow> run_config \<Rightarrow> chaos_experiment \<Rightarrow> run_start \<Rightarrow> hypothesis_result option \<Rightarrow>
    method_report \<Rightarrow> post_result option \<Rightarrow> load_result option \<Rightarrow> hypothesis_result option \<Rightarrow> journal wcomp" where
  "conclude_run R hs cfg x st before mr post load after =
    bindc (cancelled_now R cfg) (\<lambda>c.
    let status0 = (if c then Interrupted else determine_status (map_option hr_met before) (map_option hr_met after)
          (all_succeeded (mr_results mr) \<and> (exp_load x = None \<or> load \<noteq> None))) in
    bindc (run_rollbacks R hs x (rc_strategy cfg) (needs_rollback status0 (mr_results mr))) (\<lambda>rbs.
    bindc (cancelled_now R cfg) (\<lambda>c2.
    let status = (if c2 then Interrupted else status0) in
    bindc (end_stamp R st) (\<lambda>stamp.
    seqc (emits R hs AfterExperiment)
      (ret (with_report (stamped x st status stamp before rbs) mr load (compute_analysis x status)
         \<lparr> jr_after := after, jr_post := post \<rparr>))))))"

definition complete_run :: "renv \<Rightarrow> handler list \<Rightarrow> run_config \<Rightarrow> sampling_config \<Rightarrow> chaos_experiment \<Rightarrow> run_start \<Rightarrow>
    hypothesis_result option \<Rightarrow> nat option \<Rightarrow> method_report \<Rightarrow> journal wcomp" where
  "complete_run R hs cfg sm x st before handle mr =
    bindc (measure_recovery R cfg sm x) (\<lambda>post.
    bindc (stop_load cfg handle) (\<lambda>load.
    bindc (hypothesis_after R hs cfg x) (\<lambda>after.
      conclude_run R hs cfg x st before mr post load after)))"

definition end_run :: "renv \<Rightarrow> handler list \<Rightarrow> run_config \<Rightarrow> sampling_config \<Rightarrow> chaos_experiment \<Rightarrow> run_start \<Rightarrow>
    hypothesis_result option \<Rightarrow> nat option \<Rightarrow> mctx \<Rightarrow> mstate \<Rightarrow> method_report \<Rightarrow> journal wcomp" where
  "end_run R hs cfg sm x st before handle X s mr = (case method_halt s of
     Some h \<Rightarrow> halt_run R hs cfg x st before handle mr h
   | None \<Rightarrow> bindc (observe (method_token X s)) (\<lambda>c.
       if c then interrupt_run R hs cfg x st before handle mr
       else complete_run R hs cfg sm x st before handle mr))"

section \<open>The run\<close>

definition inject_faults :: "renv \<Rightarrow> (mctx \<Rightarrow> world \<Rightarrow> mstate) \<Rightarrow> handler list \<Rightarrow> run_config \<Rightarrow> sampling_config \<Rightarrow>
    chaos_experiment \<Rightarrow> run_start \<Rightarrow> hypothesis_result option \<Rightarrow> journal wcomp" where
  "inject_faults R sched hs cfg sm x st before =
    bindc (start_load x cfg) (\<lambda>handle.
    seqc (emits R hs BeforeMethod)
   (bindc (observe (rv_clock R)) (\<lambda>during_at.
    bindc (instant_now R) (\<lambda>method_started.
    let X = method_ctx R hs cfg sm x method_started in
    bindc (run_method sched X) (\<lambda>s.
      end_run R hs cfg sm x st before handle X s (report_of X during_at s))))))"

definition live_run :: "renv \<Rightarrow> (mctx \<Rightarrow> world \<Rightarrow> mstate) \<Rightarrow> handler list \<Rightarrow> run_config \<Rightarrow> sampling_config \<Rightarrow>
    chaos_experiment \<Rightarrow> journal wcomp" where
  "live_run R sched hs cfg sm x =
    bindc (begin_run R) (\<lambda>st.
    seqc (emits R hs BeforeExperiment)
   (bindc (run_hypothesis_phase R hs x) (\<lambda>before.
    if map_option hr_met before = Some False then abort_run R hs cfg x st before
    else bindc (cancelled_now R cfg) (\<lambda>c.
      if c then cancel_run R hs x st before
      else inject_faults R sched hs cfg sm x st before))))"

text \<open>Every probe must be one, and only they run: no handler is registered.\<close>

definition run_probe_only :: "renv \<Rightarrow> run_config \<Rightarrow> chaos_experiment \<Rightarrow> journal wcomp" where
  "run_probe_only R cfg x = (case exp_hypothesis x of
     None \<Rightarrow> fail (Refused MissingBaselineProbes)
   | Some h \<Rightarrow>
       if hyp_probes h = [] \<or> \<not> list_all (\<lambda>p. act_type p = Probe) (hyp_probes h) then fail (Refused MissingBaselineProbes)
       else bindc (instant_now R) (\<lambda>started.
         bindc (observe (rv_clock R)) (\<lambda>now.
         bindc (cancelled_now R cfg) (\<lambda>c.
         if c then make_interrupted_journal R x now
         else bindc (evaluate_hypothesis R [] h) (\<lambda>r.
           bindc (cancelled_now R cfg) (\<lambda>c2.
           let status = (if c2 then Interrupted else if hr_met r then Completed else Aborted) in
           bindc (observe (rv_uuid R)) (\<lambda>eid.
           bindc (observe (rv_clock R)) (\<lambda>ended.
           bindc (instant_now R) (\<lambda>stop.
             ret (journal_for x eid status now \<lparr> jr_title := exp_title x @ '' [baseline-only observation]'',
                jr_ended_at := ended, jr_duration_ms := min ((stop - started) div 1000000) (2 ^ 64 - 1),
                jr_before := Some r \<rparr>))))))))))"

definition run_experiment_with_sampling :: "renv \<Rightarrow> (mctx \<Rightarrow> world \<Rightarrow> mstate) \<Rightarrow> handler list \<Rightarrow> run_config \<Rightarrow>
    sampling_config \<Rightarrow> chaos_experiment \<Rightarrow> journal wcomp" where
  "run_experiment_with_sampling R sched hs cfg sm x =
    (if rc_mode cfg = ModeOnly then run_probe_only R cfg x
     else if exp_load x \<noteq> None \<and> rc_load cfg = None then fail (Refused MissingLoadExecutor)
     else if exp_method x = [] then fail (Refused RunnerEmptyMethod)
     else bindc (cancelled_now R cfg) (\<lambda>c.
       if c then bindc (observe (rv_clock R)) (\<lambda>now. make_interrupted_journal R x now)
       else live_run R sched hs cfg sm x))"

definition run_experiment :: "renv \<Rightarrow> (mctx \<Rightarrow> world \<Rightarrow> mstate) \<Rightarrow> handler list \<Rightarrow> run_config \<Rightarrow> chaos_experiment \<Rightarrow> journal wcomp" where
  "run_experiment R sched hs cfg x = run_experiment_with_sampling R sched hs cfg sampling_default x"

end
