(* ===== verification/Method_Safety.thy ===== *)
theory Method_Safety
  imports Runner_Method
begin

text \<open>
  The method phase under every interleaving of its threads: the cap on concurrent faults,
  what a cancellation stops, when a guard pulls the plug, and that every dispatched activity
  is reported.
\<close>

section \<open>The trace of the phase\<close>

fun method_call :: "obs \<Rightarrow> bool" where
  "method_call (Called ByMethod _) = True"
| "method_call _ = False"

section \<open>The cap on concurrent faults\<close>

definition inside :: "activity \<times> stage \<Rightarrow> bool" where
  "inside p \<longleftrightarrow> snd p \<noteq> Queueing \<and> \<not> over (snd p)"

definition gate_ok :: "mctx \<Rightarrow> mstate \<Rightarrow> bool" where
  "gate_ok X s \<longleftrightarrow> gate_active (ms_gate s) = length (filter inside (ms_bg s))
     \<and> gate_peak (ms_gate s) \<le> length (ms_bg s)
     \<and> (\<forall>c. mx_cap X = Some c \<longrightarrow> gate_active (ms_gate s) \<le> c \<and> gate_peak (ms_gate s) \<le> c)"

lemma u32_of_le: "u32_of n \<le> n"
  by (simp add: u32_of_def)

lemma inside_count: "i < length xs \<Longrightarrow>
    length (filter inside (xs[i := y])) + (if inside (xs ! i) then 1 else 0)
      = length (filter inside xs) + (if inside y then 1 else 0)"
  using length_filter_update[of i xs inside y] by simp

lemma activity_step_stage: "activity_step R hs tok a st w = (st', w') \<Longrightarrow> st \<noteq> Queueing \<Longrightarrow> st' \<noteq> Queueing"
  by (cases st) (auto simp: after_stage_def Let_def split: if_splits option.splits reply.splits)

lemma gate_step:
  assumes "method_step X s s'" "gate_ok X s"
  shows "gate_ok X s'"
  using assms
proof (cases rule: method_step.cases)
  case (bg_refused i a w)
  then show ?thesis
    using assms(2) inside_count[OF bg_refused(2), of "(a, Ended None)"] by (auto simp: gate_ok_def inside_def)
next
  case (bg_enters i a w)
  have c: "length (filter inside (ms_bg s)) < length (ms_bg s)"
    using bg_enters(2,3) by (metis inside_def length_filter_less nth_mem snd_conv)
  have u: "\<not> inside (ms_bg s ! i)" using bg_enters by (simp add: inside_def)
  let ?st = "start_stage (mx_env X) a (w_tick w)"
  have "?st \<noteq> Queueing" by (simp add: start_stage_def split: option.splits)
  then have n: "inside (a, ?st) \<longleftrightarrow> \<not> over ?st" by (simp add: inside_def)
  show ?thesis
    using assms(2) c inside_count[OF bg_enters(2), of "(a, ?st)"] u n bg_enters(5) u32_of_le[of "gate_active (ms_gate s) + 1"]
    unfolding bg_enters(1) by (auto simp: gate_ok_def set_bg_def gate_take_def gate_release_def gate_full_def Let_def)
next
  case (bg_step i a st st' w')
  have u: "inside (ms_bg s ! i)" using bg_step by (simp add: inside_def)
  have "st' \<noteq> Queueing" using activity_step_stage[OF bg_step(6)] bg_step(4) by blast
  then have n: "inside (a, st') \<longleftrightarrow> \<not> over st'" by (simp add: inside_def)
  show ?thesis
    using assms(2) inside_count[OF bg_step(2), of "(a, st')"] u n
    unfolding bg_step(1) by (auto simp: gate_ok_def set_bg_def gate_release_def)
qed (auto simp: gate_ok_def)

interpretation gating: stable_system "method_step X" "gate_ok X" for X
  by unfold_locales (rule gate_step)

lemma step_bg_length: "method_step X s s' \<Longrightarrow> length (ms_bg s') = length (ms_bg s)"
  by (cases rule: method_step.cases) (auto simp: set_bg_def)

lemma steps_bg_length: "method_steps X s s' \<Longrightarrow> length (ms_bg s') = length (ms_bg s)"
  unfolding method_steps_def by (induction rule: rtranclp_induct) (auto dest: step_bg_length)

lemma method_start_fields:
  "ms_bg (method_start X w) = map (\<lambda>a. (a, Queueing)) (filter act_background (exp_method (mx_experiment X)))"
  "ms_todo (method_start X w) = filter (\<lambda>a. \<not> act_background a) (exp_method (mx_experiment X))"
  "ms_gate (method_start X w) = gate_new" "ms_cur (method_start X w) = None" "ms_results (method_start X w) = []"
  "ms_crash (method_start X w) = None" "ms_world (method_start X w) = w"
  "ms_monitor (method_start X w) = monitor_new (mx_guards X)" "\<not> ms_joined (method_start X w)" "\<not> ms_closed (method_start X w)"
  by (simp_all add: method_start_def partition_background_eq)

lemma gate_ok_start: "gate_ok X (method_start X w)"
  by (simp add: gate_ok_def method_start_fields gate_new_def inside_def)

text \<open>C20: at every moment of the method phase the gate counts exactly the background activities past it, and
  with a cap there are never more than the cap, nor does the recorded peak exceed the cap or the number
  of background activities.\<close>

theorem faults_capped:
  assumes "method_steps X (method_start X w) s"
  shows "gate_active (ms_gate s) = length (filter inside (ms_bg s))
    \<and> (\<forall>c. mx_cap X = Some c \<longrightarrow> length (filter inside (ms_bg s)) \<le> c \<and> gate_peak (ms_gate s) \<le> c)
    \<and> gate_peak (ms_gate s) \<le> length (filter act_background (exp_method (mx_experiment X)))"
  using gating.steps_inv[OF assms[unfolded method_steps_def] gate_ok_start] steps_bg_length[OF assms]
  by (auto simp: gate_ok_def method_start_fields)

section \<open>Nothing new after the token is cancelled\<close>

definition method_calls :: "world \<Rightarrow> nat" where
  "method_calls w = length (filter method_call (w_obs w))"

fun calling :: "stage \<Rightarrow> bool" where
  "calling (Calling _) = True"
| "calling _ = False"

definition committed :: "mstate \<Rightarrow> nat" where
  "committed s = length (filter (\<lambda>p. calling (snd p)) (ms_bg s))
     + (case ms_cur s of Some (a, st) \<Rightarrow> if calling st then 1 else 0 | None \<Rightarrow> 0)"

lemma method_calls_extends: "extends (\<lambda>x. \<not> method_call x) w w' \<Longrightarrow> method_calls w' = method_calls w"
  by (auto simp: extends_def method_calls_def filter_empty_conv)

lemma method_calls_advance: "method_calls (advance os w) = method_calls w + length (filter method_call os)"
  by (simp add: method_calls_def advance_def)

lemma control_not_method: "control_obs x \<Longrightarrow> \<not> method_call x"
  by (cases x rule: control_obs.cases) auto

lemma method_calls_emit: "method_calls (emit R hs ev w) = method_calls w"
  by (rule method_calls_extends[OF emit_extends]) (rule control_not_method)

lemma tick_emit: "w_tick w \<le> w_tick (emit R hs ev w)"
  using emit_extends[of "\<lambda>_. True" w R hs ev] by (simp add: extends_def)

lemma after_not_calling: "\<not> calling (after_stage R a r t)" "\<not> calling (start_stage R a t)"
  by (auto simp: after_stage_def start_stage_def split: option.splits)

lemma activity_step_calls:
  "activity_step R hs tok a st w = (st', w') \<Longrightarrow> method_calls w' = method_calls w + (if calling st then 1 else 0)"
  by (cases st) (auto simp: Let_def method_calls_advance method_calls_emit split: if_splits)

lemma activity_step_calling: "activity_step R hs tok a st w = (st', w') \<Longrightarrow> calling st' \<Longrightarrow> \<not> tok (w_tick w)"
  by (cases st) (auto simp: Let_def after_not_calling split: if_splits reply.splits)

lemma tick_advance: "w_tick (advance os w) = Suc (w_tick w)"
  by (simp add: advance_def)

lemma activity_step_tick: "activity_step R hs tok a st w = (st', w') \<Longrightarrow> w_tick w \<le> w_tick w'"
  using tick_emit[of w R hs] by (cases st) (auto simp: Let_def tick_advance le_SucI split: if_splits)

definition stopping :: "mctx \<Rightarrow> mstate \<Rightarrow> bool" where
  "stopping X s \<longleftrightarrow> (\<forall>t \<ge> w_tick (ms_world s). method_token X s t)"

lemma guard_eval_world: "guard_eval R gs m0 m w = (m', w') \<Longrightarrow> w_tick w' = Suc (w_tick w) \<and> method_calls w' = method_calls w"
  by (auto simp: guard_eval_def Let_def tick_advance method_calls_advance split: reply.splits if_splits)

lemma sampler_probe_world: "sampler_probe R sa w = (sa', w') \<Longrightarrow> w_tick w \<le> w_tick w' \<and> method_calls w' = method_calls w"
proof -
  assume a: "sampler_probe R sa w = (sa', w')"
  obtain r w1 where s: "sample_probe R BySampler (hd (sa_todo sa)) w = (r, w1)" by fastforce
  have "extends (\<lambda>x. \<not> method_call x) w w1"
    using obeysD[OF sample_probe_obeys[of "\<lambda>x. \<not> method_call x" BySampler] s] by simp
  moreover have "w' = w1" using a s by (auto simp: sampler_probe_def split: sum.splits prod.splits)
  ultimately show ?thesis by (auto dest: extends_tick method_calls_extends)
qed

lemma step_tick: "method_step X s s' \<Longrightarrow> w_tick (ms_world s) \<le> w_tick (ms_world s')"
  by (cases rule: method_step.cases)
     (auto simp: set_bg_def tick_advance tick_emit dest: activity_step_tick guard_eval_world sampler_probe_world)

lemma step_pulled: "method_step X s s' \<Longrightarrow> pulled (gm_status (ms_monitor s)) \<Longrightarrow> ms_monitor s' = ms_monitor s"
  by (cases rule: method_step.cases) (auto simp: set_bg_def)

lemma stopping_step: "method_step X s s' \<Longrightarrow> stopping X s \<Longrightarrow> stopping X s'"
  using step_tick[of X s s'] step_pulled[of X s s'] unfolding stopping_def method_token_def by (metis order.trans)

lemma committed_bg: "i < length (ms_bg s) \<Longrightarrow> ms_bg s ! i = (a, st) \<Longrightarrow>
    committed (set_bg s i a st' g w) + (if calling st then 1 else 0) = committed s + (if calling st' then 1 else 0)"
  using length_filter_update[of i "ms_bg s" "\<lambda>p. calling (snd p)" "(a, st')"]
  by (simp add: committed_def set_bg_def split: option.split prod.split)

definition spent :: "mstate \<Rightarrow> nat" where
  "spent s = method_calls (ms_world s) + committed s"

lemma spent_step:
  assumes "method_step X s s'" "stopping X s"
  shows "spent s' \<le> spent s"
proof -
  have tok: "method_token X s (w_tick (ms_world s))" using assms(2) by (simp add: stopping_def)
  show ?thesis
    using assms(1)
  proof (cases rule: method_step.cases)
    case (fg_step a st st' w')
    show ?thesis
      using fg_step activity_step_calls[OF fg_step(4)] activity_step_calling[OF fg_step(4)] tok
      by (auto simp: spent_def committed_def)
  next
    case (bg_refused i a w)
    then show ?thesis using length_filter_update[of i "ms_bg s" "\<lambda>p. calling (snd p)" "(a, Ended None)"]
      by (auto simp: spent_def committed_def method_calls_advance split: option.split)
  next
    case (bg_enters i a w)
    then show ?thesis using tok by simp
  next
    case (bg_step i a st st' w')
    have "method_calls (ms_world s') = method_calls (ms_world s) + (if calling st then 1 else 0)"
      using activity_step_calls[OF bg_step(6)] bg_step(1) by (simp add: set_bg_def)
    moreover have "\<not> calling st'" using activity_step_calling[OF bg_step(6)] tok by blast
    ultimately show ?thesis
      using committed_bg[OF bg_step(2,3), of st' "ms_gate s" w'] bg_step(1) by (simp add: spent_def)
  qed (use tok in \<open>auto simp: spent_def committed_def method_calls_advance method_calls_emit after_not_calling
        dest: guard_eval_world sampler_probe_world\<close>)
qed

text \<open>Once the method token is cancelled for good, by the caller or by a breached guard, the phase
  dispatches to providers only the activities that had passed their last check of the token, at most one
  per thread.\<close>

theorem no_dispatch_after_cancel:
  assumes "method_steps X s s'" "\<forall>t \<ge> w_tick (ms_world s). method_token X s t"
  shows "method_calls (ms_world s') \<le> method_calls (ms_world s) + committed s \<and> committed s \<le> length (ms_bg s) + 1"
proof -
  have "stopping X s' \<and> spent s' \<le> spent s"
    using assms(1)[unfolded method_steps_def]
  proof (induction rule: rtranclp_induct)
    case base
    then show ?case using assms(2) by (simp add: stopping_def)
  next
    case (step t u)
    then show ?case using stopping_step[OF step(2)] spent_step[OF step(2)] by auto
  qed
  moreover have "length (filter (\<lambda>p. calling (snd p)) (ms_bg s)) \<le> length (ms_bg s)" by simp
  then have "committed s \<le> length (ms_bg s) + 1"
    unfolding committed_def by (cases "ms_cur s") (auto split: prod.splits intro: le_SucI)
  ultimately show ?thesis by (simp add: spent_def)
qed

section \<open>The auto-halt guards\<close>

text \<open>What the monitor saw of a guard, oldest first, and how many of the last sights in a row were unsafe.\<close>

fun sights :: "nat \<Rightarrow> obs list \<Rightarrow> bool list" where
  "sights i [] = []"
| "sights i (GuardSeen j safe # os) = (if i = j then safe # sights i os else sights i os)"
| "sights i (_ # os) = sights i os"

definition streak :: "nat \<Rightarrow> world \<Rightarrow> nat" where
  "streak i w = length (takeWhile (\<lambda>safe. \<not> safe) (rev (sights i (w_obs w))))"

lemma sights_append: "sights i (xs @ ys) = sights i xs @ sights i ys"
  by (induction i xs rule: sights.induct) auto

fun guard_sight :: "obs \<Rightarrow> bool" where
  "guard_sight (GuardSeen _ _) = True"
| "guard_sight _ = False"

lemma no_sights: "(\<And>x. x \<in> set os \<Longrightarrow> \<not> guard_sight x) \<Longrightarrow> sights i os = []"
  by (induction i os rule: sights.induct) (auto, metis guard_sight.simps(1))

lemma streak_extends: "extends (\<lambda>x. \<not> guard_sight x) w w' \<Longrightarrow> streak i w' = streak i w"
  by (auto simp: extends_def streak_def sights_append no_sights)

lemma streak_advance: "streak i (advance [] w) = streak i w" "streak i (advance [Called og a] w) = streak i w"
  by (simp_all add: streak_def advance_def sights_append)

lemma streak_emit: "streak i (emit R hs ev w) = streak i w"
proof (rule streak_extends[OF emit_extends])
  show "control_obs x \<Longrightarrow> \<not> guard_sight x" for x by (cases x) auto
qed

lemma streak_seen: "streak i (advance [Called ByGuard p, GuardSeen j safe] w) =
    (if i = j then (if safe then 0 else streak i w + 1) else streak i w)"
  by (auto simp: streak_def advance_def sights_append)

lemma activity_step_streak: "activity_step R hs tok a st w = (st', w') \<Longrightarrow> streak i w' = streak i w"
  by (cases st) (auto simp: Let_def streak_advance streak_emit split: if_splits)

lemma sampler_probe_streak: "sampler_probe R sa w = (sa', w') \<Longrightarrow> streak i w' = streak i w"
proof -
  assume a: "sampler_probe R sa w = (sa', w')"
  obtain r w1 where s: "sample_probe R BySampler (hd (sa_todo sa)) w = (r, w1)" by fastforce
  have "extends (\<lambda>x. \<not> guard_sight x) w w1"
    using obeysD[OF sample_probe_obeys[of "\<lambda>x. \<not> guard_sight x" BySampler] s] by simp
  moreover have "w' = w1" using a s by (auto simp: sampler_probe_def split: sum.splits prod.splits)
  ultimately show ?thesis by (simp add: streak_extends)
qed

definition guards_ok :: "guard list \<Rightarrow> monitor \<Rightarrow> world \<Rightarrow> bool" where
  "guards_ok gs m w \<longleftrightarrow> length (gm_counts m) = length gs \<and> gm_idx m \<le> length gs
    \<and> (\<forall>i < length gs. gm_counts m ! i = streak i w)
    \<and> (case gm_status m of
        Pulled h \<Rightarrow> \<exists>i < length gs. halt_guard h = guard_name (gs ! i) \<and> halt_breach_count h = streak i w
          \<and> streak i w = max 1 (guard_min_breaches (gs ! i))
          \<and> (\<forall>j < length gs. j \<noteq> i \<longrightarrow> streak j w = 0 \<or> streak j w < guard_min_breaches (gs ! j))
      | _ \<Rightarrow> \<forall>i < length gs. streak i w = 0 \<or> streak i w < guard_min_breaches (gs ! i))"

lemma guards_ok_move: "guards_ok gs m w \<Longrightarrow> (\<And>i. streak i w' = streak i w) \<Longrightarrow> guards_ok gs m w'"
  by (simp add: guards_ok_def split: monitor_status.splits)

lemma guard_eval_ok:
  assumes "guard_eval R gs m0 m w = (m', w')" "guards_ok gs m w" "gm_status m = Watching" "gm_idx m < length gs"
  shows "guards_ok gs m' w'"
proof (cases "rv_reply R (w_tick w) (guard_probe (gs ! gm_idx m))")
  case (Panicked msg)
  then show ?thesis using assms by (auto simp: guard_eval_def guards_ok_def streak_advance)
next
  case (Replied oc)
  have "streak (gm_idx m) w = 0 \<or> streak (gm_idx m) w < guard_min_breaches (gs ! gm_idx m)"
    using assms(2-4) by (auto simp: guards_ok_def)
  then have "guard_min_breaches (gs ! gm_idx m) \<le> streak (gm_idx m) w + 1 \<Longrightarrow>
      streak (gm_idx m) w + 1 = max 1 (guard_min_breaches (gs ! gm_idx m))" by auto
  then show ?thesis using assms Replied
    by (auto simp: guard_eval_def guards_ok_def Let_def streak_seen nth_list_update split: if_splits)
qed

lemma guards_step:
  assumes "method_step X s s'" "guards_ok (mx_guards X) (ms_monitor s) (ms_world s)"
  shows "guards_ok (mx_guards X) (ms_monitor s') (ms_world s')"
  using assms
proof (cases rule: method_step.cases)
  case (guard_evaluates m' w')
  then show ?thesis using guard_eval_ok[OF guard_evaluates(4)] assms(2) by simp
next
  case guard_again
  have "streak i (ms_world s') = streak i (ms_world s)" for i unfolding guard_again(1) by (simp add: streak_advance)
  then show ?thesis using assms(2) guard_again by (simp add: guards_ok_def)
next
  case guard_quits
  then show ?thesis using assms(2) by (simp add: guards_ok_def)
next
  case (bg_step i a st st' w')
  then show ?thesis using guards_ok_move[OF assms(2) activity_step_streak[OF bg_step(6)]] by (simp add: set_bg_def)
next
  case (fg_step a st st' w')
  then show ?thesis using guards_ok_move[OF assms(2) activity_step_streak[OF fg_step(4)]] by simp
next
  case (sampler_probes sa' w')
  then show ?thesis using guards_ok_move[OF assms(2) sampler_probe_streak[OF sampler_probes(4)]] by simp
qed (use assms(2) in \<open>auto simp: set_bg_def streak_advance streak_emit intro: guards_ok_move[OF assms(2)]\<close>)

interpretation guarding: stable_system "method_step X" "\<lambda>s. guards_ok (mx_guards X) (ms_monitor s) (ms_world s)" for X
  by unfold_locales (rule guards_step)

text \<open>C21: the monitor pulls the plug exactly when a guard has been unsafe the required number of times in a
  row: while it watches, no guard has reached its number of consecutive breaches, and when it has halted
  the method there is a guard that just did, whose name and count the halt record carries, and no
  other has.\<close>

theorem guard_halts_on_streak:
  assumes "method_steps X (method_start X w) s" "\<forall>x \<in> set (w_obs w). \<not> guard_sight x"
  shows "case gm_status (ms_monitor s) of
      Pulled h \<Rightarrow> \<exists>i < length (mx_guards X). halt_guard h = guard_name (mx_guards X ! i)
          \<and> halt_breach_count h = streak i (ms_world s)
          \<and> streak i (ms_world s) = max 1 (guard_min_breaches (mx_guards X ! i))
          \<and> (\<forall>j < length (mx_guards X). j \<noteq> i \<longrightarrow> streak j (ms_world s) = 0
               \<or> streak j (ms_world s) < guard_min_breaches (mx_guards X ! j))
    | _ \<Rightarrow> \<forall>i < length (mx_guards X). streak i (ms_world s) = 0
               \<or> streak i (ms_world s) < guard_min_breaches (mx_guards X ! i)"
proof -
  have "streak i w = 0" for i using assms(2) by (simp add: streak_def no_sights)
  then have "guards_ok (mx_guards X) (monitor_new (mx_guards X)) w"
    by (simp add: guards_ok_def monitor_new_def)
  then show ?thesis
    using guarding.steps_inv[OF assms(1)[unfolded method_steps_def]]
    by (simp add: method_start_fields guards_ok_def)
qed

section \<open>Joining\<close>

definition join_ok :: "mstate \<Rightarrow> bool" where
  "join_ok s \<longleftrightarrow> (ms_joined s \<longrightarrow> activities_over s \<and> ms_crash s = None) \<and> (ms_closed s \<longrightarrow> ms_joined s)"

lemma over_bg: "activities_over s \<Longrightarrow> i < length (ms_bg s) \<Longrightarrow> ms_bg s ! i = (a, st) \<Longrightarrow> over st"
  by (auto simp: activities_over_def list_all_length)

lemma join_step:
  assumes "method_step X s s'" "join_ok s"
  shows "join_ok s'"
  using assms by (cases rule: method_step.cases) (auto simp: join_ok_def activities_over_def set_bg_def list_all_length nth_list_update split: prod.splits)

interpretation joining: stable_system "method_step X" join_ok for X
  by unfold_locales (rule join_step)

lemma join_ok_start: "join_ok (method_start X w)"
  by (simp add: join_ok_def method_start_fields)

lemma method_over_activities:
  assumes "method_steps X (method_start X w) s" "method_over s"
  shows "activities_over s"
  using joining.steps_inv[OF assms(1)[unfolded method_steps_def] join_ok_start] assms(2)
  by (auto simp: join_ok_def method_over_def)

section \<open>Every dispatched activity is reported\<close>

fun past :: "stage \<Rightarrow> bool" where
  "past (Returning _ _) = True"
| "past (PauseAfter _ _) = True"
| "past (Ended (Some _)) = True"
| "past (Crashed _) = True"
| "past _ = False"

definition describes :: "activity_result \<Rightarrow> activity \<Rightarrow> bool" where
  "describes r a \<longleftrightarrow> res_name r = act_name a \<and> res_type r = act_type a"

fun fits :: "activity \<Rightarrow> stage \<Rightarrow> bool" where
  "fits a (PauseAfter _ r) = describes r a"
| "fits a (Ended (Some r)) = describes r a"
| "fits a _ = True"

definition reported :: "mstate \<Rightarrow> activity \<Rightarrow> bool" where
  "reported s a \<longleftrightarrow> (\<exists>r \<in> set (ms_results s). describes r a) \<or> (\<exists>st. ms_cur s = Some (a, st) \<and> past st)
     \<or> (\<exists>st. (a, st) \<in> set (ms_bg s) \<and> past st) \<or> ms_crash s \<noteq> None"

definition fits_all :: "mstate \<Rightarrow> bool" where
  "fits_all s \<longleftrightarrow> (\<forall>a st. ms_cur s = Some (a, st) \<longrightarrow> fits a st) \<and> (\<forall>p \<in> set (ms_bg s). fits (fst p) (snd p))"

definition calls_ok :: "mstate \<Rightarrow> bool" where
  "calls_ok s \<longleftrightarrow> fits_all s \<and> (\<forall>a. Called ByMethod a \<in> set (w_obs (ms_world s)) \<longrightarrow> reported s a)"

lemma describes_results: "describes (make_result a t oc x y) a" "describes (skipped_result a t x y) a"
    "describes (panicked_result a t m x) a"
  by (simp_all add: describes_def make_result_def skipped_result_def panicked_result_def)

lemma after_stage_facts: "describes r a \<Longrightarrow> fits a (after_stage R a r t)" "past (after_stage R a r t)"
    "fits a (start_stage R a t)"
  by (auto simp: after_stage_def start_stage_def split: option.splits)

lemma activity_step_fits: "activity_step R hs tok a st w = (st', w') \<Longrightarrow> fits a st \<Longrightarrow> fits a st'"
  by (cases st) (auto simp: Let_def after_stage_facts describes_results split: if_splits reply.splits)

lemma activity_step_past: "activity_step R hs tok a st w = (st', w') \<Longrightarrow> past st \<Longrightarrow> past st'"
  by (cases st) (auto simp: Let_def after_stage_facts split: if_splits)

lemma emit_obs: "Called ByMethod b \<in> set (w_obs (emit R hs ev w)) \<longleftrightarrow> Called ByMethod b \<in> set (w_obs w)"
  using extends_new[OF emit_extends[of control_obs w R hs ev], of "Called ByMethod b"] extends_obs[OF emit_extends[of "\<lambda>_. True" w R hs ev]]
  by auto

lemma activity_step_called: "activity_step R hs tok a st w = (st', w') \<Longrightarrow>
    Called ByMethod b \<in> set (w_obs w') \<Longrightarrow> Called ByMethod b \<in> set (w_obs w) \<or> (b = a \<and> past st')"
  by (cases st) (auto simp: Let_def emit_obs advance_def after_stage_facts split: if_splits reply.splits)

lemma guard_eval_called: "guard_eval R gs m0 m w = (m', w') \<Longrightarrow>
    Called ByMethod b \<in> set (w_obs w') \<Longrightarrow> Called ByMethod b \<in> set (w_obs w)"
  by (auto simp: guard_eval_def Let_def advance_def split: reply.splits if_splits)

lemma sampler_probe_called:
  assumes "sampler_probe R sa w = (sa', w')" "Called ByMethod b \<in> set (w_obs w')"
  shows "Called ByMethod b \<in> set (w_obs w)"
proof -
  obtain r w1 where s: "sample_probe R BySampler (hd (sa_todo sa)) w = (r, w1)" by fastforce
  have "extends (\<lambda>x. \<not> method_call x) w w1"
    using obeysD[OF sample_probe_obeys[of "\<lambda>x. \<not> method_call x" BySampler] s] by simp
  moreover have "w' = w1" using assms(1) s by (auto simp: sampler_probe_def split: sum.splits prod.splits)
  ultimately show ?thesis using extends_new assms(2) by fastforce
qed

lemma set_update_keep: "x \<in> set xs \<Longrightarrow> x \<in> set (xs[i := y]) \<or> x = xs ! i"
  by (metis in_set_conv_nth length_list_update nth_list_update_neq nth_mem)

lemma reported_bg:
  assumes "reported s b" "i < length (ms_bg s)" "ms_bg s ! i = (a, st)" "past st \<Longrightarrow> past st'"
    "ms_bg s' = (ms_bg s)[i := (a, st')]" "ms_results s' = ms_results s" "ms_cur s' = ms_cur s" "ms_crash s' = ms_crash s"
  shows "reported s' b"
proof -
  have "(a, st') \<in> set ((ms_bg s)[i := (a, st')])" using assms(2) by (simp add: set_update_memI)
  then show ?thesis
    using assms(1,3-8) set_update_keep[of _ "ms_bg s" i "(a, st')"] unfolding reported_def by (metis prod.inject)
qed

lemma fits_bg: "fits_all s \<Longrightarrow> fits a st' \<Longrightarrow> ms_bg s' = (ms_bg s)[i := (a, st')] \<Longrightarrow> ms_cur s' = ms_cur s \<Longrightarrow> fits_all s'"
  using set_update_subset_insert[of "ms_bg s" i "(a, st')"] unfolding fits_all_def by fastforce

lemma calls_step:
  assumes "method_step X s s'" "calls_ok s"
  shows "calls_ok s'"
proof -
  have f: "fits_all s" and r: "\<And>b. Called ByMethod b \<in> set (w_obs (ms_world s)) \<Longrightarrow> reported s b"
    using assms(2) by (auto simp: calls_ok_def)
  show ?thesis
    using assms(1)
  proof (cases rule: method_step.cases)
    case (fg_step a st st' w')
    have "fits a st" using f fg_step(2) by (simp add: fits_all_def)
    then have "fits_all s'" using f activity_step_fits[OF fg_step(4)] fg_step(1) by (simp add: fits_all_def)
    moreover have "reported s' b" if "Called ByMethod b \<in> set (w_obs w')" for b
      using activity_step_called[OF fg_step(4) that] r[of b] activity_step_past[OF fg_step(4)] fg_step(1,2)
      by (auto simp: reported_def)
    ultimately show ?thesis using fg_step(1) by (simp add: calls_ok_def)
  next
    case (bg_refused i a w)
    have "fits_all s'" by (rule fits_bg[OF f, of a "Ended None" _ i]) (use bg_refused in simp_all)
    moreover have "reported s' b" if "Called ByMethod b \<in> set (w_obs (ms_world s'))" for b
      by (rule reported_bg[OF r bg_refused(2,3), of b "Ended None"]) (use that bg_refused in \<open>auto simp: advance_def\<close>)
    ultimately show ?thesis by (simp add: calls_ok_def)
  next
    case (bg_enters i a w)
    let ?st = "start_stage (mx_env X) a (w_tick w)"
    have "fits_all s'" by (rule fits_bg[OF f, of a ?st _ i]) (use bg_enters after_stage_facts(3) in \<open>simp_all add: set_bg_def\<close>)
    moreover have "reported s' b" if "Called ByMethod b \<in> set (w_obs (ms_world s'))" for b
      by (rule reported_bg[OF r bg_enters(2,3), of b ?st]) (use that bg_enters in \<open>auto simp: advance_def set_bg_def\<close>)
    ultimately show ?thesis by (simp add: calls_ok_def)
  next
    case (bg_step i a st st' w')
    have "fits a st" using f bg_step(2,3) nth_mem[OF bg_step(2)] by (auto simp: fits_all_def)
    then have "fits_all s'"
      by (intro fits_bg[OF f activity_step_fits[OF bg_step(6)], of _ i]) (use bg_step in \<open>simp_all add: set_bg_def\<close>)
    moreover have "reported s' b" if c: "Called ByMethod b \<in> set (w_obs (ms_world s'))" for b
    proof -
      consider "Called ByMethod b \<in> set (w_obs (ms_world s))" | "b = a" "past st'"
        using activity_step_called[OF bg_step(6), of b] c bg_step(1) by (auto simp: set_bg_def)
      then show ?thesis
      proof cases
        case 1
        show ?thesis
          by (rule reported_bg[OF r[OF 1] bg_step(2,3) activity_step_past[OF bg_step(6)]]) (use bg_step(1) in \<open>simp_all add: set_bg_def\<close>)
      next
        case 2
        then have "(b, st') \<in> set (ms_bg s')" using bg_step(1,2) by (simp add: set_bg_def set_update_memI)
        then show ?thesis using 2 by (auto simp: reported_def)
      qed
    qed
    ultimately show ?thesis by (simp add: calls_ok_def)
  next
    case (fg_done a r')
    have "describes r' a" using f fg_done(2) by (auto simp: fits_all_def)
    then show ?thesis using fg_done f r by (auto simp: calls_ok_def fits_all_def reported_def)
  next
    case (fg_break a)
    then show ?thesis using f r by (auto simp: calls_ok_def fits_all_def reported_def)
  next
    case (fg_crash a msg)
    then show ?thesis using f r by (auto simp: calls_ok_def fits_all_def reported_def)
  next
    case (fg_start a as w)
    then show ?thesis using f r after_stage_facts(3) by (auto simp: calls_ok_def fits_all_def reported_def advance_def)
  next
    case (guard_evaluates m' w')
    then show ?thesis using f r guard_eval_called[OF guard_evaluates(4)] by (auto simp: calls_ok_def fits_all_def reported_def)
  next
    case (sampler_probes sa' w')
    then show ?thesis using f r sampler_probe_called[OF sampler_probes(4)] by (auto simp: calls_ok_def fits_all_def reported_def)
  qed (use f r in \<open>auto simp: calls_ok_def fits_all_def reported_def advance_def emit_obs\<close>)
qed

interpretation reporting: stable_system "method_step X" calls_ok for X
  by unfold_locales (rule calls_step)

lemma method_reports_calls:
  assumes "method_steps X (method_start X w) s" "method_over s" "ms_crash s = None"
    "\<forall>x \<in> set (w_obs w). \<not> method_call x" "Called ByMethod a \<in> set (w_obs (ms_world s))"
  shows "\<exists>r \<in> set (method_results (mx_env X) s). res_name r = act_name a \<and> res_type r = act_type a"
proof -
  have "calls_ok (method_start X w)"
    using assms(4) by (auto simp: calls_ok_def fits_all_def method_start_fields dest: bspec[of _ _ "Called ByMethod _"])
  then have ok: "calls_ok s" using reporting.steps_inv[OF assms(1)[unfolded method_steps_def]] by blast
  have over: "activities_over s" using assms(1,2) by (rule method_over_activities)
  have "reported s a" using ok assms(5) by (simp add: calls_ok_def)
  then consider r where "r \<in> set (ms_results s)" "describes r a" | st where "(a, st) \<in> set (ms_bg s)" "past st"
    using over assms(3) by (auto simp: reported_def activities_over_def)
  then show ?thesis
  proof cases
    case 1
    then show ?thesis by (auto simp: method_results_def describes_def)
  next
    case (2 st)
    have "over st" using over 2(1) by (auto simp: activities_over_def list_all_iff)
    moreover have "fits a st" using ok 2(1) by (auto simp: calls_ok_def fits_all_def)
    ultimately have "\<exists>r \<in> set (bg_result (mx_env X) (w_tick (ms_world s)) (a, st)). describes r a"
      using 2(2) by (cases st rule: past.cases) (auto simp: bg_result_def bg_panic_result_def describes_def)
    then show ?thesis using 2(1) by (force simp: method_results_def describes_def)
  qed
qed

text \<open>Every activity whose provider was called appears in the results of the phase under its name and
  type, also when its thread panicked, so a fault that started is always seen as one.\<close>

theorem dispatched_is_reported:
  assumes "method_steps X (method_start X w) s" "method_over s" "ms_crash s = None"
    "\<forall>x \<in> set (w_obs w). \<not> method_call x" "Called ByMethod a \<in> set (w_obs (ms_world s))"
  shows "\<exists>r \<in> set (method_results (mx_env X) s). res_name r = act_name a \<and> res_type r = act_type a"
  using assms by (rule method_reports_calls)

end
