(* ===== verification/Runner_Outcomes.thy ===== *)
theory Runner_Outcomes
  imports Runner_Experiment Method_Safety
begin

text \<open>
  What a run hands back: every journal is well formed, and a fault that was started in a run
  that did not end well is followed by the rollbacks.
\<close>

section \<open>How a run ends\<close>

lemma bindc_InrE: "bindc m f s = (Inr y, s') \<Longrightarrow> (\<And>x t. m s = (Inr x, t) \<Longrightarrow> f x t = (Inr y, s') \<Longrightarrow> Q) \<Longrightarrow> Q"
  by auto

lemma observe_Inr [simp]: "observe f w = (r, w') \<longleftrightarrow> r = Inr (f (w_tick w)) \<and> w' = advance [] w"
  by (auto simp: observe_def)

lemma emits_Inr [simp]: "emits R hs ev w = (r, w') \<longleftrightarrow> r = Inr () \<and> w' = emit R hs ev w"
  by (auto simp: emits_def)

abbreviation later :: "world \<Rightarrow> world \<Rightarrow> bool" where
  "later \<equiv> extends (\<lambda>_. True)"

lemma later_emit: "later w (emit R hs ev w)"
  by (rule emit_extends) simp

lemma start_load_obeys: "P LoadStarted \<Longrightarrow> obeys (extends P) (start_load x cfg)"
  by (auto simp: start_load_def obeys_def ret_def split: option.splits sum.splits intro!: extends_advance)

lemma stop_load_obeys: "P LoadStopped \<Longrightarrow> obeys (extends P) (stop_load cfg handle)"
  by (auto simp: stop_load_def obeys_def ret_def split: option.splits intro!: extends_advance)

lemma elapsed_obeys: "obeys (extends P) (elapsed_ms R t)" "obeys (extends P) (end_stamp R st)"
    "obeys (extends P) (begin_run R)" "obeys (extends P) (cancelled_now R cfg)"
  unfolding elapsed_ms_def end_stamp_def begin_run_def cancelled_now_def
  by (intro tracing.obeys_rules clock_obeys observe_obeys)+

lemma hypothesis_phase_obeys:
  "(\<And>x. control_obs x \<Longrightarrow> P x) \<Longrightarrow> (\<And>h p. exp_hypothesis x = Some h \<Longrightarrow> p \<in> set (hyp_probes h) \<Longrightarrow> P (Called ByHypothesis p)) \<Longrightarrow>
    obeys (extends P) (run_hypothesis_phase R hs x)"
  unfolding run_hypothesis_phase_def
  by (cases "exp_hypothesis x") (auto intro!: tracing.obeys_rules evaluate_obeys emits_obeys dest: activity_control)

lemma cancel_obeys: "(\<And>x. control_obs x \<Longrightarrow> P x) \<Longrightarrow> obeys (extends P) (cancel_run R hs x st before)"
  unfolding cancel_run_def by (intro tracing.obeys_rules elapsed_obeys emits_obeys)

text \<open>What every path of a run that started hands back: the journal with the rollbacks that were run on the way.\<close>

definition rolled_back :: "renv \<Rightarrow> handler list \<Rightarrow> run_config \<Rightarrow> chaos_experiment \<Rightarrow> bool \<Rightarrow> world \<Rightarrow> activity_result list \<Rightarrow> world \<Rightarrow> bool" where
  "rolled_back R hs cfg x needs w rbs w' \<longleftrightarrow>
    (\<exists>w1 w2. later w w1 \<and> run_rollbacks R hs x (rc_strategy cfg) needs w1 = (Inr rbs, w2) \<and> later w2 w')"

lemma rolled_back_all:
  assumes "rolled_back R hs cfg x needs w rbs w'" "should_rollback (rc_strategy cfg) needs"
  shows "map res_name rbs = map act_name (exp_rollbacks x) \<and> (\<forall>a \<in> set (exp_rollbacks x). Called ByRollback a \<in> set (w_obs w'))"
proof -
  obtain w1 w2 where r: "run_rollbacks R hs x (rc_strategy cfg) needs w1 = (Inr rbs, w2)" "later w2 w'"
    using assms(1) unfolding rolled_back_def by blast
  show ?thesis using run_rollbacks_total[of R hs x "rc_strategy cfg" needs w1] r assms(2)
    by (auto intro: extends_obs)
qed

lemma rolled_back_names:
  assumes "rolled_back R hs cfg x needs w rbs w'"
  shows "rbs = [] \<or> map res_name rbs = map act_name (exp_rollbacks x)"
  using assms run_rollbacks_total[of R hs x "rc_strategy cfg" needs] unfolding rolled_back_def
  by (metis Pair_inject sum.inject(2))

lemma rolled_back_later:
  assumes "later w v" "rolled_back R hs cfg x needs v rbs w'"
  shows "rolled_back R hs cfg x needs w rbs w'"
proof -
  obtain w1 w2 where r: "later v w1" "run_rollbacks R hs x (rc_strategy cfg) needs w1 = (Inr rbs, w2)" "later w2 w'"
    using assms(2) unfolding rolled_back_def by blast
  show ?thesis using tracing.le_trans[OF assms(1) r(1)] r(2,3) unfolding rolled_back_def by blast
qed

lemma abort_spec:
  assumes "abort_run R hs cfg x st before w = (Inr j, w')"
  shows "\<exists>stamp rbs. j = stamped x st Aborted stamp before rbs \<and> rolled_back R hs cfg x True w rbs w'"
proof -
  obtain stamp w1 rbs w2 where s: "end_stamp R st w = (Inr stamp, w1)"
    "run_rollbacks R hs x (rc_strategy cfg) True w1 = (Inr rbs, w2)" "j = stamped x st Aborted stamp before rbs"
    "w' = emit R hs AfterExperiment w2"
    using assms by (auto simp: abort_run_def seqc_def ret_def)
  have "later w w1" by (rule obeysD[OF elapsed_obeys(2) s(1)])
  then show ?thesis using s later_emit unfolding rolled_back_def by blast
qed

lemma halt_spec:
  assumes "halt_run R hs cfg x st before handle mr h w = (Inr j, w')"
  shows "\<exists>load rbs ms stamp. rolled_back R hs cfg x True w rbs w' \<and> (load \<noteq> None \<longrightarrow> handle \<noteq> None)
    \<and> j = with_report (stamped x st Halted stamp before rbs) mr load (compute_analysis x Halted)
         \<lparr> jr_halt := Some (h \<lparr> halt_rollback_ms := ms \<rparr>) \<rparr>"
proof -
  obtain load w1 t w2 rbs w3 ms w4 stamp w5 where s: "stop_load cfg handle w = (Inr load, w1)"
    "instant_now R w1 = (Inr t, w2)" "run_rollbacks R hs x (rc_strategy cfg) True w2 = (Inr rbs, w3)"
    "elapsed_ms R t w3 = (Inr ms, w4)" "end_stamp R st w4 = (Inr stamp, w5)" "w' = emit R hs AfterExperiment w5"
    "j = with_report (stamped x st Halted stamp before rbs) mr load (compute_analysis x Halted)
         \<lparr> jr_halt := Some (h \<lparr> halt_rollback_ms := ms \<rparr>) \<rparr>"
    using assms by (auto simp: halt_run_def seqc_def ret_def)
  have "later w w1" "later w1 w2"
    using obeysD[OF stop_load_obeys s(1)] obeysD[OF clock_obeys(1) s(2)] by auto
  moreover have "later w3 w4" "later w4 w5"
    using obeysD[OF elapsed_obeys(1) s(4)] obeysD[OF elapsed_obeys(2) s(5)] by auto
  ultimately have "rolled_back R hs cfg x True w rbs w'"
    using s(3,6) later_emit unfolding rolled_back_def by (blast intro: tracing.le_trans)
  moreover have "load \<noteq> None \<longrightarrow> handle \<noteq> None" using s(1) by (auto simp: stop_load_def ret_def split: option.splits)
  ultimately show ?thesis using s(7) by blast
qed

lemma interrupt_spec:
  assumes "interrupt_run R hs cfg x st before handle mr w = (Inr j, w')"
  shows "\<exists>load rbs stamp. rolled_back R hs cfg x True w rbs w' \<and> (load \<noteq> None \<longrightarrow> handle \<noteq> None)
    \<and> j = with_report (stamped x st Interrupted stamp before rbs) mr load (compute_analysis x Interrupted)"
proof -
  obtain load w1 rbs w3 stamp w5 where s: "stop_load cfg handle w = (Inr load, w1)"
    "run_rollbacks R hs x (rc_strategy cfg) True w1 = (Inr rbs, w3)"
    "end_stamp R st w3 = (Inr stamp, w5)" "w' = emit R hs AfterExperiment w5"
    "j = with_report (stamped x st Interrupted stamp before rbs) mr load (compute_analysis x Interrupted)"
    using assms by (auto simp: interrupt_run_def seqc_def ret_def)
  have "later w w1" "later w3 w5"
    using obeysD[OF stop_load_obeys s(1)] obeysD[OF elapsed_obeys(2) s(3)] by auto
  then have "rolled_back R hs cfg x True w rbs w'"
    using s(2,4) later_emit unfolding rolled_back_def by (blast intro: tracing.le_trans)
  moreover have "load \<noteq> None \<longrightarrow> handle \<noteq> None" using s(1) by (auto simp: stop_load_def ret_def split: option.splits)
  ultimately show ?thesis using s(5) by blast
qed

text \<open>The status decided before the rollbacks, and the one reported after them.\<close>

definition decided :: "chaos_experiment \<Rightarrow> hypothesis_result option \<Rightarrow> hypothesis_result option \<Rightarrow> method_report \<Rightarrow>
    load_result option \<Rightarrow> experiment_status \<Rightarrow> bool" where
  "decided x before after mr load status \<longleftrightarrow> status = Interrupted
     \<or> status = determine_status (map_option hr_met before) (map_option hr_met after)
          (all_succeeded (mr_results mr) \<and> (exp_load x = None \<or> load \<noteq> None))"

lemma conclude_spec:
  assumes "conclude_run R hs cfg x st before mr post load after w = (Inr j, w')"
  shows "\<exists>status0 status rbs stamp. rolled_back R hs cfg x (needs_rollback status0 (mr_results mr)) w rbs w'
    \<and> decided x before after mr load status0 \<and> status \<in> {status0, Interrupted}
    \<and> j = with_report (stamped x st status stamp before rbs) mr load (compute_analysis x status)
         \<lparr> jr_after := after, jr_post := post \<rparr>"
proof -
  define status0 where "status0 = (if caller_cancelled R cfg (w_tick w) then Interrupted
    else determine_status (map_option hr_met before) (map_option hr_met after)
          (all_succeeded (mr_results mr) \<and> (exp_load x = None \<or> load \<noteq> None)))"
  obtain rbs w1 w2 c2 stamp w3 where s:
    "run_rollbacks R hs x (rc_strategy cfg) (needs_rollback status0 (mr_results mr)) (advance [] w) = (Inr rbs, w1)"
    "cancelled_now R cfg w1 = (Inr c2, w2)" "end_stamp R st w2 = (Inr stamp, w3)" "w' = emit R hs AfterExperiment w3"
    "j = (let status = (if c2 then Interrupted else status0) in
        with_report (stamped x st status stamp before rbs) mr load (compute_analysis x status) \<lparr> jr_after := after, jr_post := post \<rparr>)"
    using assms by (auto simp: conclude_run_def seqc_def ret_def cancelled_now_def status0_def Let_def)
  have "later w (advance [] w)" by (rule extends_advance) simp
  moreover have "later w1 w2" "later w2 w3"
    using obeysD[OF elapsed_obeys(4) s(2)] obeysD[OF elapsed_obeys(2) s(3)] by auto
  ultimately have "rolled_back R hs cfg x (needs_rollback status0 (mr_results mr)) w rbs w'"
    using s(1,4) later_emit unfolding rolled_back_def by (blast intro: tracing.le_trans)
  moreover have "decided x before after mr load status0" by (simp add: decided_def status0_def)
  ultimately show ?thesis
    using s(5) by (intro exI[of _ status0] exI[of _ "if c2 then Interrupted else status0"] exI[of _ rbs] exI[of _ stamp])
      (auto simp: Let_def)
qed

lemma recovery_obeys:
  "(\<And>h p. exp_hypothesis x = Some h \<Longrightarrow> p \<in> set (hyp_probes h) \<Longrightarrow> P (Called BySampler p)) \<Longrightarrow>
    obeys (extends P) (measure_recovery R cfg sm x)"
  unfolding measure_recovery_def
  by (cases "exp_hypothesis x") (auto intro!: tracing.obeys_rules collect_post_obeys observe_obeys)

lemma hypothesis_after_obeys:
  "(\<And>x. control_obs x \<Longrightarrow> P x) \<Longrightarrow> (\<And>h p. exp_hypothesis x = Some h \<Longrightarrow> p \<in> set (hyp_probes h) \<Longrightarrow> P (Called ByHypothesis p)) \<Longrightarrow>
    obeys (extends P) (hypothesis_after R hs cfg x)"
  unfolding hypothesis_after_def by (intro tracing.obeys_rules hypothesis_phase_obeys elapsed_obeys)

lemma complete_spec:
  assumes "complete_run R hs cfg sm x st before handle mr w = (Inr j, w')"
  shows "\<exists>post load after status0 status rbs stamp. rolled_back R hs cfg x (needs_rollback status0 (mr_results mr)) w rbs w'
    \<and> decided x before after mr load status0 \<and> status \<in> {status0, Interrupted} \<and> (load \<noteq> None \<longrightarrow> handle \<noteq> None)
    \<and> j = with_report (stamped x st status stamp before rbs) mr load (compute_analysis x status)
         \<lparr> jr_after := after, jr_post := post \<rparr>"
proof -
  obtain post w1 load w2 after w3 where s: "measure_recovery R cfg sm x w = (Inr post, w1)"
    "stop_load cfg handle w1 = (Inr load, w2)" "hypothesis_after R hs cfg x w2 = (Inr after, w3)"
    "conclude_run R hs cfg x st before mr post load after w3 = (Inr j, w')"
    using assms by (auto simp: complete_run_def)
  have "later w w1" "later w1 w2" "later w2 w3"
    using obeysD[OF recovery_obeys s(1)] obeysD[OF stop_load_obeys s(2)] obeysD[OF hypothesis_after_obeys s(3)] by auto
  then have e: "later w w3" by (blast intro: tracing.le_trans)
  have l: "load \<noteq> None \<longrightarrow> handle \<noteq> None" using s(2) by (auto simp: stop_load_def ret_def split: option.splits)
  obtain status0 status rbs stamp where c:
    "rolled_back R hs cfg x (needs_rollback status0 (mr_results mr)) w3 rbs w'" "decided x before after mr load status0"
    "status \<in> {status0, Interrupted}" "j = with_report (stamped x st status stamp before rbs) mr load (compute_analysis x status)
         \<lparr> jr_after := after, jr_post := post \<rparr>"
    using conclude_spec[OF s(4)] by blast
  have "rolled_back R hs cfg x (needs_rollback status0 (mr_results mr)) w rbs w'"
    using e c(1) by (rule rolled_back_later)
  from this c(2,3) l c(4) show ?thesis
    by (intro exI[of _ post] exI[of _ load] exI[of _ after] exI[of _ status0] exI[of _ status] exI[of _ rbs] exI[of _ stamp] conjI)
qed

section \<open>The paths of a run\<close>

datatype path = ProbesOnly | NeverStarted | HypothesisUnmet | CancelledEarly | MethodRan

text \<open>The path a run that returned took, with the state the method ended in on the last of them.\<close>

lemma run_cases:
  assumes "run_experiment_with_sampling R sched hs cfg sm x w = (Inr j, w')"
  obtains (probes) "rc_mode cfg = ModeOnly" "run_probe_only R cfg x w = (Inr j, w')"
  | (unstarted) eid now where "rc_mode cfg \<noteq> ModeOnly" "j = journal_for x eid Interrupted now" "extends (\<lambda>_. False) w w'"
  | (aborted) st h w1 where "rc_mode cfg \<noteq> ModeOnly" "\<not> hr_met h" "abort_run R hs cfg x st (Some h) w1 = (Inr j, w')"
      "extends (\<lambda>x. control_obs x \<or> (\<exists>p. x = Called ByHypothesis p)) w w1"
  | (cancelled) st before w1 where "rc_mode cfg \<noteq> ModeOnly" "map_option hr_met before \<noteq> Some False"
      "cancel_run R hs x st before w1 = (Inr j, w')"
      "extends (\<lambda>x. control_obs x \<or> (\<exists>p. x = Called ByHypothesis p)) w w1"
  | (ran) st before handle during_at t w1 s where "rc_mode cfg \<noteq> ModeOnly" "map_option hr_met before \<noteq> Some False"
      "handle \<noteq> None \<longrightarrow> exp_load x \<noteq> None" "s = sched (method_ctx R hs cfg sm x t) w1" "ms_crash s = None"
      "end_run R hs cfg sm x st before handle (method_ctx R hs cfg sm x t) s (report_of (method_ctx R hs cfg sm x t) during_at s)
         (ms_world s) = (Inr j, w')"
      "extends (\<lambda>x. control_obs x \<or> (\<exists>p. x = Called ByHypothesis p) \<or> x = LoadStarted) w w1"
proof (cases "rc_mode cfg = ModeOnly")
  case True
  then show ?thesis using probes assms by (simp add: run_experiment_with_sampling_def)
next
  case False
  have init: "extends P v (advance [] v)" for P v by (rule extends_advance) simp
  show ?thesis
  proof (cases "caller_cancelled R cfg (w_tick w)")
    case True
    have "extends (\<lambda>_. False) w (advance [] (advance [] (advance [] w)))"
      by (rule tracing.le_trans[OF init tracing.le_trans[OF init init]])
    then show ?thesis using True False assms unstarted
      by (auto simp: run_experiment_with_sampling_def make_interrupted_journal_def cancelled_now_def ret_def fail_def split: if_splits)
  next
    case live: False
    have "live_run R sched hs cfg sm x (advance [] w) = (Inr j, w')"
      using live False assms
      by (auto simp: run_experiment_with_sampling_def cancelled_now_def fail_def split: if_splits)
    then obtain st w1 before w2 where s: "begin_run R (advance [] w) = (Inr st, w1)"
      "run_hypothesis_phase R hs x (emit R hs BeforeExperiment w1) = (Inr before, w2)"
      and k: "(if map_option hr_met before = Some False then abort_run R hs cfg x st before
        else bindc (cancelled_now R cfg) (\<lambda>c. if c then cancel_run R hs x st before
          else inject_faults R sched hs cfg sm x st before)) w2 = (Inr j, w')"
      unfolding live_run_def seqc_def bindc_Inr emits_Inr by blast
    let ?P = "\<lambda>x. control_obs x \<or> (\<exists>p. x = Called ByHypothesis p)"
    have e: "extends ?P w w2"
      using init[of ?P] obeysD[OF elapsed_obeys(3) s(1), of ?P] emit_extends[of ?P w1 R hs BeforeExperiment]
        obeysD[OF hypothesis_phase_obeys s(2), of ?P] by (blast intro: tracing.le_trans)
    show ?thesis
    proof (cases "map_option hr_met before = Some False")
      case True
      then obtain h where "before = Some h" "\<not> hr_met h" by auto
      then show ?thesis using aborted[OF False] k e by simp
    next
      case met: False
      have k2: "(if caller_cancelled R cfg (w_tick w2) then cancel_run R hs x st before
          else inject_faults R sched hs cfg sm x st before) (advance [] w2) = (Inr j, w')"
        using k unfolding if_not_P[OF met] cancelled_now_def by (elim bindc_InrE) simp
      have e2: "extends ?P w (advance [] w2)" using e extends_advance[of "[]" ?P w2] by (auto intro: tracing.le_trans)
      show ?thesis
      proof (cases "caller_cancelled R cfg (w_tick w2)")
        case True
        then show ?thesis using cancelled[OF False met _ e2] k2 unfolding if_P[OF True] by blast
      next
        case no: False
        then have "inject_faults R sched hs cfg sm x st before (advance [] w2) = (Inr j, w')"
          using k2 unfolding if_not_P[OF no] by blast
        then obtain handle w3 w4 d t w5 s w6 where i: "start_load x cfg (advance [] w2) = (Inr handle, w3)"
          "w4 = advance [] (emit R hs BeforeMethod w3)" "instant_now R w4 = (Inr t, w5)"
          and m: "run_method sched (method_ctx R hs cfg sm x t) w5 = (Inr s, w6)"
          and e0: "end_run R hs cfg sm x st before handle (method_ctx R hs cfg sm x t) s
             (report_of (method_ctx R hs cfg sm x t) d s) w6 = (Inr j, w')"
          unfolding inject_faults_def seqc_def Let_def bindc_Inr emits_Inr observe_Inr by blast
        have sc: "s = sched (method_ctx R hs cfg sm x t) w5" "ms_crash s = None" "w6 = ms_world s"
          using m by (auto simp: run_method_def Let_def split: option.splits)
        note e1 = e0[unfolded sc(3)]
        let ?Q = "\<lambda>x. control_obs x \<or> (\<exists>p. x = Called ByHypothesis p) \<or> x = LoadStarted"
        have "extends ?Q (advance [] w2) w3" by (rule obeysD[OF start_load_obeys i(1)]) simp
        moreover have "extends ?Q w3 (emit R hs BeforeMethod w3)" by (rule emit_extends) simp
        moreover have "extends ?Q (emit R hs BeforeMethod w3) w4" unfolding i(2) by (rule extends_advance) simp
        moreover have "extends ?Q w4 w5" by (rule obeysD[OF clock_obeys(1) i(3)])
        moreover have "extends ?Q w (advance [] w2)" using e2 by (rule extends_weaken) auto
        ultimately have "extends ?Q w w5" by (blast intro: tracing.le_trans)
        moreover have "handle \<noteq> None \<longrightarrow> exp_load x \<noteq> None" using i(1) by (auto simp: start_load_def ret_def split: option.splits)
        ultimately show ?thesis using ran[OF False met _ sc(1,2) e1] by blast
      qed
    qed
  qed
qed

lemma end_run_cases:
  assumes "end_run R hs cfg sm x st before handle X s mr w = (Inr j, w')"
  obtains (halted) h load rbs ms stamp where "method_halt s = Some h" "rolled_back R hs cfg x True w rbs w'"
      "load \<noteq> None \<longrightarrow> handle \<noteq> None"
      "j = with_report (stamped x st Halted stamp before rbs) mr load (compute_analysis x Halted)
         \<lparr> jr_halt := Some (h \<lparr> halt_rollback_ms := ms \<rparr>) \<rparr>"
  | (interrupted) load rbs stamp where "rolled_back R hs cfg x True w rbs w'" "load \<noteq> None \<longrightarrow> handle \<noteq> None"
      "j = with_report (stamped x st Interrupted stamp before rbs) mr load (compute_analysis x Interrupted)"
  | (completed) post load after status0 status rbs stamp where
      "rolled_back R hs cfg x (needs_rollback status0 (mr_results mr)) w rbs w'"
      "decided x before after mr load status0" "status \<in> {status0, Interrupted}" "load \<noteq> None \<longrightarrow> handle \<noteq> None"
      "j = with_report (stamped x st status stamp before rbs) mr load (compute_analysis x status)
         \<lparr> jr_after := after, jr_post := post \<rparr>"
proof (cases "method_halt s")
  case (Some h)
  then show ?thesis using halted[OF Some] halt_spec[of R hs cfg x st before handle mr h w j w'] assms
    by (simp add: end_run_def) blast
next
  case None
  have e: "later w (advance [] w)" by (rule extends_advance) simp
  show ?thesis
  proof (cases "method_token X s (w_tick w)")
    case True
    then have "interrupt_run R hs cfg x st before handle mr (advance [] w) = (Inr j, w')"
      using assms None unfolding end_run_def by (auto elim!: bindc_InrE simp del: bindc_Inr)
    from interrupt_spec[OF this] obtain load rbs stamp where
      i: "rolled_back R hs cfg x True (advance [] w) rbs w'" "load \<noteq> None \<longrightarrow> handle \<noteq> None"
      "j = with_report (stamped x st Interrupted stamp before rbs) mr load (compute_analysis x Interrupted)" by blast
    show ?thesis by (rule interrupted[OF rolled_back_later[OF e i(1)] i(2,3)])
  next
    case False
    then have "complete_run R hs cfg sm x st before handle mr (advance [] w) = (Inr j, w')"
      using assms None unfolding end_run_def by (auto elim!: bindc_InrE simp del: bindc_Inr)
    from complete_spec[OF this] obtain post load after status0 status rbs stamp where
      c: "rolled_back R hs cfg x (needs_rollback status0 (mr_results mr)) (advance [] w) rbs w'"
      "decided x before after mr load status0" "status \<in> {status0, Interrupted}" "load \<noteq> None \<longrightarrow> handle \<noteq> None"
      "j = with_report (stamped x st status stamp before rbs) mr load (compute_analysis x status)
         \<lparr> jr_after := after, jr_post := post \<rparr>"
      by (elim exE conjE)
    show ?thesis by (rule completed[OF rolled_back_later[OF e c(1)] c(2-5)])
  qed
qed

section \<open>Well-formed journals\<close>

definition unmet :: "hypothesis_result option \<Rightarrow> bool" where
  "unmet h \<longleftrightarrow> map_option hr_met h = Some False"

text \<open>What the status of a journal says of its sections.\<close>

definition status_ok :: "chaos_experiment \<Rightarrow> run_config \<Rightarrow> journal \<Rightarrow> bool" where
  "status_ok x cfg j = (case jr_status j of
     Completed \<Rightarrow> \<not> unmet (jr_before j) \<and> \<not> unmet (jr_after j)
       \<and> (rc_mode cfg \<noteq> ModeOnly \<longrightarrow> all_succeeded (jr_method j) \<and> (exp_load x \<noteq> None \<longrightarrow> jr_load j \<noteq> None))
   | Deviated \<Rightarrow> \<not> unmet (jr_before j) \<and> unmet (jr_after j) \<and> all_succeeded (jr_method j)
   | Failed \<Rightarrow> \<not> unmet (jr_before j) \<and> \<not> (all_succeeded (jr_method j) \<and> (exp_load x \<noteq> None \<longrightarrow> jr_load j \<noteq> None))
   | Aborted \<Rightarrow> unmet (jr_before j) \<and> jr_method j = [] \<and> jr_load j = None
   | Interrupted \<Rightarrow> True
   | Halted \<Rightarrow> \<not> unmet (jr_before j) \<and> jr_after j = None \<and> jr_post j = None)"

definition journal_ok :: "chaos_experiment \<Rightarrow> run_config \<Rightarrow> journal \<Rightarrow> bool" where
  "journal_ok x cfg j \<longleftrightarrow> status_ok x cfg j \<and> (jr_halt j \<noteq> None \<longleftrightarrow> jr_status j = Halted)
     \<and> (rc_mode cfg \<noteq> ModeOnly \<longrightarrow> jr_title j = exp_title x) \<and> jr_estimate j = exp_estimate x \<and> jr_regulatory j = exp_regulatory x \<and> jr_baseline j = None
     \<and> (jr_rollback j = [] \<or> map res_name (jr_rollback j) = map act_name (exp_rollbacks x))
     \<and> jr_rollback_failures j = rollback_failures (jr_rollback j)
     \<and> (jr_load j \<noteq> None \<longrightarrow> exp_load x \<noteq> None)
     \<and> (rc_mode cfg = ModeOnly \<longrightarrow> jr_method j = [] \<and> jr_rollback j = [] \<and> jr_status j \<in> {Completed, Aborted, Interrupted})
     \<and> (case jr_blast_radius j of None \<Rightarrow> True | Some b \<Rightarrow> blast_cap b = effective_cap cfg x
          \<and> blast_peak b \<le> length (filter act_background (exp_method x)) \<and> (\<forall>c. blast_cap b = Some c \<longrightarrow> blast_peak b \<le> c))"

lemmas journal_defs = journal_ok_def status_ok_def unmet_def stamped_def journal_for_def with_report_def

lemma rollback_failures_Nil [simp]: "rollback_failures [] = 0"
  by (simp add: rollback_failures_def u32_of_def)

lemma blast_ok:
  assumes "method_steps X (method_start X w) s" "mr_blast (report_of X d s) = Some b"
  shows "blast_cap b = mx_cap X \<and> blast_peak b \<le> length (filter act_background (exp_method (mx_experiment X)))
    \<and> (\<forall>c. blast_cap b = Some c \<longrightarrow> blast_peak b \<le> c)"
  using gating.steps_inv[OF assms(1)[unfolded method_steps_def] gate_ok_start] steps_bg_length[OF assms(1)] assms(2)
  by (auto simp: report_of_def build_blast_radius_def gate_ok_def method_start_fields split: if_splits)

lemma method_ctx_fields [simp]: "mx_env (method_ctx R hs cfg sm x t) = R" "mx_config (method_ctx R hs cfg sm x t) = cfg"
    "mx_experiment (method_ctx R hs cfg sm x t) = x" "mx_sampling (method_ctx R hs cfg sm x t) = sm"
    "mx_handlers (method_ctx R hs cfg sm x t) = hs"
  by (simp_all add: method_ctx_def)

lemma determine_status_met:
  "\<not> unmet before \<Longrightarrow> determine_status (map_option hr_met before) (map_option hr_met after) ok =
    (if \<not> ok then Failed else if unmet after then Deviated else Completed)"
  unfolding determine_status_def unmet_def by (simp only: if_False)

lemma end_run_journal_ok:
  assumes "end_run R hs cfg sm x st before handle X s mr w = (Inr j, w')" "\<not> unmet before" "rc_mode cfg \<noteq> ModeOnly"
    "handle \<noteq> None \<longrightarrow> exp_load x \<noteq> None"
    "case mr_blast mr of None \<Rightarrow> True | Some b \<Rightarrow> blast_cap b = effective_cap cfg x
          \<and> blast_peak b \<le> length (filter act_background (exp_method x)) \<and> (\<forall>c. blast_cap b = Some c \<longrightarrow> blast_peak b \<le> c)"
  shows "journal_ok x cfg j"
  using assms(1)
proof (cases rule: end_run_cases)
  case (halted h load rbs ms stamp)
  then show ?thesis using assms(2-5) rolled_back_names[OF halted(2)] by (auto simp: journal_defs)
next
  case (interrupted load rbs stamp)
  then show ?thesis using assms(2-5) rolled_back_names[OF interrupted(1)] by (auto simp: journal_defs)
next
  case (completed post load after status0 status rbs stamp)
  have base: "journal_ok x cfg j \<longleftrightarrow> status_ok x cfg j \<and> status \<noteq> Halted"
    using completed assms(3-5) rolled_back_names[OF completed(1)] by (auto simp: journal_defs)
  show ?thesis
  proof (cases "status = Interrupted")
    case True
    then show ?thesis using base completed(5) by (simp add: journal_defs)
  next
    case False
    then have "status = (if \<not> (all_succeeded (mr_results mr) \<and> (exp_load x = None \<or> load \<noteq> None)) then Failed
        else if unmet after then Deviated else Completed)"
      using completed(2,3) unfolding decided_def determine_status_met[OF assms(2)] by blast
    then show ?thesis unfolding base using completed(5) assms(2) by (auto simp: journal_defs)
  qed
qed

lemma probe_only_spec:
  assumes "run_probe_only R cfg x w = (Inr j, w')"
  shows "(\<exists>eid now. j = journal_for x eid Interrupted now)
    \<or> (\<exists>eid now r ended ms status. j = journal_for x eid status now \<lparr> jr_title := exp_title x @ '' [baseline-only observation]'',
          jr_ended_at := ended, jr_duration_ms := ms, jr_before := Some r \<rparr>
        \<and> status \<in> {Interrupted, if hr_met r then Completed else Aborted})"
proof -
  obtain h where h: "exp_hypothesis x = Some h"
    using assms by (cases "exp_hypothesis x") (auto simp: run_probe_only_def fail_def)
  have ok: "\<not> (hyp_probes h = [] \<or> \<not> list_all (\<lambda>p. act_type p = Probe) (hyp_probes h))"
    using assms h by (auto simp: run_probe_only_def fail_def split: if_splits)
  obtain w1 w2 started now c where r: "(if c then make_interrupted_journal R x now
      else bindc (evaluate_hypothesis R [] h) (\<lambda>r.
           bindc (cancelled_now R cfg) (\<lambda>c2.
           let status = (if c2 then Interrupted else if hr_met r then Completed else Aborted) in
           bindc (observe (rv_uuid R)) (\<lambda>eid.
           bindc (observe (rv_clock R)) (\<lambda>ended.
           bindc (instant_now R) (\<lambda>stop.
             ret (journal_for x eid status now \<lparr> jr_title := exp_title x @ '' [baseline-only observation]'',
                jr_ended_at := ended, jr_duration_ms := min ((stop - started) div 1000000) (2 ^ 64 - 1),
                jr_before := Some r \<rparr>))))))) w1 = (Inr j, w2)"
    using assms unfolding run_probe_only_def h option.case if_not_P[OF ok] by (elim bindc_InrE) (simp only:)
  show ?thesis
  proof (cases c)
    case True
    then show ?thesis using r by (auto simp: make_interrupted_journal_def ret_def)
  next
    case False
    obtain r0 c2 eid ended ms where "j = journal_for x eid (if c2 then Interrupted else if hr_met r0 then Completed else Aborted) now
        \<lparr> jr_title := exp_title x @ '' [baseline-only observation]'', jr_ended_at := ended, jr_duration_ms := ms,
          jr_before := Some r0 \<rparr>"
      using r unfolding if_not_P[OF False] Let_def by (elim bindc_InrE) (simp only: ret_def prod.inject sum.inject, blast)
    then show ?thesis
      by (intro disjI2 exI[of _ eid] exI[of _ now] exI[of _ r0] exI[of _ ended] exI[of _ ms]
          exI[of _ "if c2 then Interrupted else if hr_met r0 then Completed else Aborted"]) simp
  qed
qed

lemma probe_only_journal_ok: "rc_mode cfg = ModeOnly \<Longrightarrow> run_probe_only R cfg x w = (Inr j, w') \<Longrightarrow> journal_ok x cfg j"
  using probe_only_spec[of R cfg x w j w'] by (auto simp: journal_defs split: if_splits)

lemma returned_journal_ok:
  assumes "\<forall>t. schedules sched (method_ctx R hs cfg sm x t)"
    "run_experiment_with_sampling R sched hs cfg sm x w = (Inr j, w')"
  shows "journal_ok x cfg j"
  using assms(2)
proof (cases rule: run_cases)
  case probes
  then show ?thesis by (simp add: probe_only_journal_ok)
next
  case (unstarted eid now)
  then show ?thesis by (simp add: journal_defs)
next
  case (aborted st h w1)
  obtain stamp rbs where s: "j = stamped x st Aborted stamp (Some h) rbs" "rolled_back R hs cfg x True w1 rbs w'"
    using abort_spec[OF aborted(3)] by blast
  then show ?thesis using aborted(1,2) rolled_back_names[OF s(2)] by (auto simp: journal_defs)
next
  case (cancelled st before w1)
  then obtain stamp where "j = stamped x st Interrupted stamp before []"
    by (auto simp: cancel_run_def seqc_def ret_def)
  then show ?thesis using cancelled(1) by (simp add: journal_defs)
next
  case (ran st before handle d t w1 s)
  let ?X = "method_ctx R hs cfg sm x t"
  have "method_steps ?X (method_start ?X w1) s" using assms(1) ran(4) by (simp add: schedules_def)
  then show ?thesis
    using end_run_journal_ok[OF ran(6) _ ran(1,3)] ran(2) blast_ok[of ?X w1 s d]
    by (auto simp: unmet_def split: option.splits)
qed

text \<open>C22: whatever the providers, the load tool and the schedule of the threads do, a journal the runner returns is
  well formed: its status agrees with the hypothesis and method sections, a halt record is there exactly
  in a halted run, the rollback results are none or one per rollback in order with their failures
  counted, and the recorded peak of concurrent faults respects the cap in force.\<close>

theorem journals_are_well_formed:
  assumes "\<forall>t. schedules sched (method_ctx R hs cfg sm x t)"
    "run_experiment_with_sampling R sched hs cfg sm x w = (Inr j, w')"
  shows "journal_ok x cfg j"
  using assms by (rule returned_journal_ok)

section \<open>Rollbacks of started faults\<close>

lemma run_rollbacks_obeys':
  "(\<And>x. control_obs x \<Longrightarrow> P x) \<Longrightarrow> (\<And>a. P (Called ByRollback a)) \<Longrightarrow> obeys (extends P) (run_rollbacks R hs x strategy needs)"
  by (rule run_rollbacks_obeys)

lemma abort_obeys:
  "(\<And>x. control_obs x \<Longrightarrow> P x) \<Longrightarrow> (\<And>a. P (Called ByRollback a)) \<Longrightarrow> obeys (extends P) (abort_run R hs cfg x st before)"
  unfolding abort_run_def by (intro tracing.obeys_rules elapsed_obeys emits_obeys run_rollbacks_obeys')

lemma end_run_obeys:
  assumes "\<And>x. control_obs x \<Longrightarrow> P x" "\<And>og a. og \<in> {ByRollback, BySampler, ByHypothesis} \<Longrightarrow> P (Called og a)" "P LoadStopped"
  shows "obeys (extends P) (end_run R hs cfg sm x st before handle X s mr)"
proof -
  have 1: "obeys (extends P) (halt_run R hs cfg x st before handle mr h)" for h
    unfolding halt_run_def
    by (intro tracing.obeys_rules elapsed_obeys emits_obeys run_rollbacks_obeys' stop_load_obeys clock_obeys assms) simp_all
  have 2: "obeys (extends P) (interrupt_run R hs cfg x st before handle mr)"
    unfolding interrupt_run_def
    by (intro tracing.obeys_rules elapsed_obeys emits_obeys run_rollbacks_obeys' stop_load_obeys assms) simp_all
  have 3: "obeys (extends P) (conclude_run R hs cfg x st before mr post load after)" for post load after
    unfolding conclude_run_def Let_def
    by (intro tracing.obeys_rules elapsed_obeys emits_obeys run_rollbacks_obeys' assms) simp_all
  have 4: "obeys (extends P) (complete_run R hs cfg sm x st before handle mr)"
    unfolding complete_run_def
    by (intro tracing.obeys_rules 3 stop_load_obeys recovery_obeys hypothesis_after_obeys assms) simp_all
  show ?thesis unfolding end_run_def by (intro tracing.obeys_rules 1 2 4 observe_obeys)
qed

lemma needs_rollback_of:
  assumes "decided x before after mr load status0" "status \<in> {status0, Interrupted}" "status \<in> {Failed, Deviated, Halted}"
    "fault_started (mr_results mr)"
  shows "needs_rollback status0 (mr_results mr)"
  using assms by (auto simp: decided_def determine_status_def needs_rollback_def split: if_splits)

text \<open>The paths on which nothing of the method was dispatched.\<close>

lemma no_new_method_call:
  assumes "extends (\<lambda>x. \<not> method_call x) w w'" "\<forall>x \<in> set (w_obs w). \<not> method_call x" "Called ByMethod a \<in> set (w_obs w')"
  shows False
  using extends_new[OF assms(1,3)] assms(2) by auto

lemma probe_only_obeys:
  assumes "\<And>x. control_obs x \<Longrightarrow> P x" "\<And>a. P (Called ByHypothesis a)"
  shows "obeys (extends P) (run_probe_only R cfg x)"
proof (cases "exp_hypothesis x")
  case (Some h)
  then show ?thesis unfolding run_probe_only_def make_interrupted_journal_def Let_def option.case
    by (auto intro!: tracing.obeys_rules clock_obeys observe_obeys elapsed_obeys evaluate_obeys assms dest: activity_control)
qed (simp add: run_probe_only_def)

lemma end_run_rolls_back:
  assumes "end_run R hs cfg sm x st before handle X s mr w = (Inr j, w')" "fault_started (mr_results mr)"
    "(jr_status j \<in> {Failed, Deviated, Halted} \<and> rc_strategy cfg \<noteq> RbNever) \<or> rc_strategy cfg = RbAlways"
  shows "map res_name (jr_rollback j) = map act_name (exp_rollbacks x)
    \<and> (\<forall>b \<in> set (exp_rollbacks x). Called ByRollback b \<in> set (w_obs w'))"
proof -
  have "\<exists>needs. rolled_back R hs cfg x needs w (jr_rollback j) w' \<and> (jr_status j \<in> {Failed, Deviated, Halted} \<longrightarrow> needs)"
    using assms(1)
  proof (cases rule: end_run_cases)
    case (halted h load rbs ms stamp)
    then show ?thesis by (auto simp: with_report_def stamped_def)
  next
    case (interrupted load rbs stamp)
    then show ?thesis by (auto simp: with_report_def stamped_def)
  next
    case (completed post load after status0 status rbs stamp)
    then show ?thesis using needs_rollback_of[OF completed(2,3) _ assms(2)]
      by (auto simp: with_report_def stamped_def journal_for_def)
  qed
  then obtain needs where n: "rolled_back R hs cfg x needs w (jr_rollback j) w'"
    "jr_status j \<in> {Failed, Deviated, Halted} \<longrightarrow> needs" by blast
  have "should_rollback (rc_strategy cfg) needs" using assms(3) n(2) by (cases "rc_strategy cfg") auto
  then show ?thesis using rolled_back_all[OF n(1)] by blast
qed

text \<open>C2: no started fault is left behind: when a provider was called for an action of the method and the run
  then failed, deviated or was halted, every rollback of the experiment was called and has its result
  in the journal, unless the strategy is never to roll back; under the strategy that always rolls back
  this holds for every status.\<close>

theorem started_fault_is_rolled_back:
  assumes "\<forall>t. schedules sched (method_ctx R hs cfg sm x t)"
    "run_experiment_with_sampling R sched hs cfg sm x w = (Inr j, w')" "\<forall>x \<in> set (w_obs w). \<not> method_call x"
    "Called ByMethod a \<in> set (w_obs w')" "act_type a = Action"
    "(jr_status j \<in> {Failed, Deviated, Halted} \<and> rc_strategy cfg \<noteq> RbNever) \<or> rc_strategy cfg = RbAlways"
  shows "map res_name (jr_rollback j) = map act_name (exp_rollbacks x)
    \<and> (\<forall>b \<in> set (exp_rollbacks x). Called ByRollback b \<in> set (w_obs w'))"
  using assms(2)
proof (cases rule: run_cases)
  case probes
  have "extends (\<lambda>x. \<not> method_call x) w w'"
    by (rule obeysD[OF probe_only_obeys probes(2)]) (auto dest: control_not_method)
  from no_new_method_call[OF this assms(3,4)] show ?thesis by blast
next
  case (unstarted eid now)
  have "extends (\<lambda>x. \<not> method_call x) w w'" by (rule extends_weaken[OF unstarted(3)]) simp
  from no_new_method_call[OF this assms(3,4)] show ?thesis by blast
next
  case (aborted st h w1)
  have "extends (\<lambda>x. \<not> method_call x) w1 w'"
    by (rule obeysD[OF abort_obeys aborted(3)]) (auto dest: control_not_method)
  moreover have "extends (\<lambda>x. \<not> method_call x) w w1"
    by (rule extends_weaken[OF aborted(4)]) (auto dest: control_not_method)
  ultimately have "extends (\<lambda>x. \<not> method_call x) w w'" by (rule tracing.le_trans[rotated])
  from no_new_method_call[OF this assms(3,4)] show ?thesis by blast
next
  case (cancelled st before w1)
  have "extends (\<lambda>x. \<not> method_call x) w1 w'"
    by (rule obeysD[OF cancel_obeys cancelled(3)]) (auto dest: control_not_method)
  moreover have "extends (\<lambda>x. \<not> method_call x) w w1"
    by (rule extends_weaken[OF cancelled(4)]) (auto dest: control_not_method)
  ultimately have "extends (\<lambda>x. \<not> method_call x) w w'" by (rule tracing.le_trans[rotated])
  from no_new_method_call[OF this assms(3,4)] show ?thesis by blast
next
  case (ran st before handle d t w1 s)
  let ?X = "method_ctx R hs cfg sm x t"
  have s: "method_steps ?X (method_start ?X w1) s" "method_over s" using assms(1) ran(4) by (simp_all add: schedules_def)
  have "extends (\<lambda>x. \<not> method_call x) w w1"
    by (rule extends_weaken[OF ran(7)]) (auto dest: control_not_method)
  then have fresh: "\<forall>x \<in> set (w_obs w1). \<not> method_call x" using extends_new assms(3) by blast
  have "extends (\<lambda>x. \<not> method_call x) (ms_world s) w'"
    by (rule obeysD[OF end_run_obeys ran(6)]) (auto dest: control_not_method)
  from extends_new[OF this assms(4)] have "Called ByMethod a \<in> set (w_obs (ms_world s))" by simp
  from method_reports_calls[OF s ran(5) fresh this]
  have "fault_started (mr_results (report_of ?X d s))" using assms(5) by (auto simp: fault_started_def list_ex_iff report_of_def)
  then show ?thesis using end_run_rolls_back[OF ran(6)] assms(6) by blast
qed

end
