(* ===== verification/Gameday.thy ===== *)
theory Gameday
  imports Runner_Outcomes
begin

text \<open>
  Coordinated campaigns: \<open>types/gameday.rs\<close> and \<open>runner/gameday.rs\<close> of tumult-core.
  The experiments of a campaign run one after the other under a shared load, each with the
  executor and controls its wiring selects; the journals are scored. The interleavings of the
  method phases are again the argument \<open>sched\<close>. A \<open>HashSet\<close> of articles is a list
  without duplicates, of which only the length and the elements matter.
\<close>

section \<open>Types\<close>

record gameday_experiment =
  ge_path :: string
  ge_maps :: "string list"

record scoring_config =
  sc_pass_threshold :: f64
  sc_mttr_target :: f64
  sc_recovery_required :: bool

definition scoring_default :: scoring_config where
  "scoring_default = \<lparr> sc_pass_threshold = Fin (3 / 4), sc_mttr_target = Fin 30, sc_recovery_required = False \<rparr>"

record gameday =
  gd_title :: string
  gd_description :: "string option"
  gd_tags :: "string list"
  gd_regulatory :: "regulatory_mapping option"
  gd_load :: "load_config option"
  gd_experiments :: "gameday_experiment list"
  gd_scoring :: scoring_config

record resilience_score =
  rs_pass_rate :: f64
  rs_recovery :: f64
  rs_load_impact :: f64
  rs_compliance :: f64
  rs_overall :: f64

record gameday_journal =
  gj_id :: string
  gj_title :: string
  gj_started_at :: int
  gj_ended_at :: int
  gj_duration_s :: f64
  gj_journals :: "journal list"
  gj_load :: "load_result option"
  gj_score :: resilience_score
  gj_status :: string
  gj_regulatory :: "regulatory_mapping option"

section \<open>Scoring\<close>

definition weight_030 :: rat where "weight_030 = (case to_f64 (3 / 10) of Fin r \<Rightarrow> r | _ \<Rightarrow> 0)"
definition weight_020 :: rat where "weight_020 = (case to_f64 (1 / 5) of Fin r \<Rightarrow> r | _ \<Rightarrow> 0)"

definition score_compute :: "f64 \<Rightarrow> f64 \<Rightarrow> f64 \<Rightarrow> f64 \<Rightarrow> resilience_score" where
  "score_compute pass recovery load compliance =
    (let overall = f64_add (f64_add (f64_add (f64_mul pass (Fin weight_030)) (f64_mul recovery (Fin (1 / 4))))
           (f64_mul load (Fin (1 / 4)))) (f64_mul compliance (Fin weight_020))
     in \<lparr> rs_pass_rate = pass, rs_recovery = recovery, rs_load_impact = load, rs_compliance = compliance,
          rs_overall = overall \<rparr>)"

definition score_status :: "resilience_score \<Rightarrow> string" where
  "score_status s = (if f64_ge (rs_overall s) (to_f64 (9 / 10)) then ''COMPLIANT''
     else if f64_ge (rs_overall s) (Fin (3 / 4)) then ''PARTIAL'' else ''NON-COMPLIANT'')"

definition f64_fraction :: "nat \<Rightarrow> nat \<Rightarrow> f64" where
  "f64_fraction a b = f64_div (Fin (f64_of_u64 a)) (Fin (f64_of_u64 b))"

definition pass_rate_of :: "journal list \<Rightarrow> f64" where
  "pass_rate_of js = (if 0 < length js then f64_fraction (length (filter (\<lambda>j. jr_status j = Completed) js)) (length js) else Fin 0)"

fun recovery_counts :: "f64 \<Rightarrow> journal list \<Rightarrow> nat \<Rightarrow> nat \<Rightarrow> nat \<times> nat" where
  "recovery_counts target [] measured compliant = (measured, compliant)"
| "recovery_counts target (j # js) measured compliant = (case jr_post j of
     None \<Rightarrow> recovery_counts target js measured compliant
   | Some post \<Rightarrow> recovery_counts target js (measured + 1)
       (if f64_le (po_recovery_s post) target \<and> po_full_recovery post then compliant + 1 else compliant))"

definition compute_recovery_compliance :: "journal list \<Rightarrow> f64 \<Rightarrow> f64" where
  "compute_recovery_compliance js target = (case recovery_counts target js 0 0 of (measured, compliant) \<Rightarrow>
     if measured = 0 then Fin 1 else f64_fraction compliant measured)"

definition load_impact_of :: "load_result option \<Rightarrow> f64" where
  "load_impact_of load = (case load of None \<Rightarrow> Fin 1 | Some lr \<Rightarrow> f64_max (f64_sub (Fin 1) (lr_error_rate lr)) (Fin 0))"

definition all_articles :: "(gameday_experiment \<times> journal) list \<Rightarrow> string list" where
  "all_articles pairs = remdups (concat (map (ge_maps \<circ> fst) pairs))"

definition article_met :: "(gameday_experiment \<times> journal) list \<Rightarrow> string \<Rightarrow> bool" where
  "article_met pairs a \<longleftrightarrow> list_ex (\<lambda>(e, j). a \<in> set (ge_maps e) \<and> jr_status j = Completed) pairs"

definition compute_compliance_coverage :: "(gameday_experiment \<times> journal) list \<Rightarrow> f64" where
  "compute_compliance_coverage pairs = (let articles = all_articles pairs in
     if articles = [] then Fin 1 else f64_fraction (length (filter (article_met pairs) articles)) (length articles))"

definition score_of :: "gameday \<Rightarrow> journal list \<Rightarrow> load_result option \<Rightarrow> resilience_score" where
  "score_of gd js load = score_compute (pass_rate_of js)
     (compute_recovery_compliance js (sc_mttr_target (gd_scoring gd))) (load_impact_of load)
     (compute_compliance_coverage (zip (gd_experiments gd) js))"

section \<open>The campaign\<close>

text \<open>The executor and the controls of one experiment.\<close>

record wiring =
  wr_reply :: "nat \<Rightarrow> activity \<Rightarrow> reply"
  wr_handlers :: "handler list"

definition start_shared_load :: "gameday \<Rightarrow> run_config \<Rightarrow> (nat option) wcomp" where
  "start_shared_load gd cfg = (case gd_load gd of
     None \<Rightarrow> ret None
   | Some lc \<Rightarrow> (case rc_load cfg of
       None \<Rightarrow> ret None
     | Some lx \<Rightarrow> (\<lambda>w. (case lx_start lx (w_tick w) lc of
         Inr handle \<Rightarrow> (Inr (Some handle), advance [LoadStarted] w)
       | Inl e \<Rightarrow> (Inr None, advance [] w)))))"

text \<open>The guard stops the load when the campaign unwinds; what \<open>stop\<close> answers is dropped.\<close>

definition load_guarded :: "run_config \<Rightarrow> nat option \<Rightarrow> 'a wcomp \<Rightarrow> 'a wcomp" where
  "load_guarded cfg handle m = (\<lambda>w. (case m w of
     (Inr x, w') \<Rightarrow> (Inr x, w')
   | (Inl e, w') \<Rightarrow> (Inl e, snd (stop_load cfg handle w'))))"

definition campaign_config :: "run_config \<Rightarrow> run_config" where
  "campaign_config cfg = \<lparr> rc_mode = ModeFull, rc_strategy = rc_strategy cfg, rc_token = rc_token cfg,
     rc_load = None, rc_max_faults = rc_max_faults cfg \<rparr>"

text \<open>A refused experiment ends the campaign, with the journals so far; a panic unwinds it.\<close>

fun run_campaign :: "renv \<Rightarrow> (mctx \<Rightarrow> world \<Rightarrow> mstate) \<Rightarrow> (nat \<Rightarrow> chaos_experiment \<Rightarrow> wiring) \<Rightarrow> run_config \<Rightarrow> nat \<Rightarrow>
    chaos_experiment list \<Rightarrow> (journal list) wcomp" where
  "run_campaign R sched wiring cfg i [] = ret []"
| "run_campaign R sched wiring cfg i (x # xs) =
    bindc (cancelled_now R cfg) (\<lambda>c.
      if c then ret []
      else (\<lambda>w. (case run_experiment (R \<lparr> rv_reply := wr_reply (wiring i x) \<rparr>) sched (wr_handlers (wiring i x))
                  (campaign_config cfg) x w of
          (Inr j, w') \<Rightarrow> bindc (run_campaign R sched wiring cfg (Suc i) xs) (\<lambda>js. ret (j # js)) w'
        | (Inl (Refused e), w') \<Rightarrow> (Inr [], w')
        | (Inl e, w') \<Rightarrow> (Inl e, w'))))"

definition run_gameday_with_wiring :: "renv \<Rightarrow> (mctx \<Rightarrow> world \<Rightarrow> mstate) \<Rightarrow> gameday \<Rightarrow> chaos_experiment list \<Rightarrow>
    (nat \<Rightarrow> chaos_experiment \<Rightarrow> wiring) \<Rightarrow> run_config \<Rightarrow> gameday_journal wcomp" where
  "run_gameday_with_wiring R sched gd xs wiring cfg =
    (if length (gd_experiments gd) \<noteq> length xs
     then fail (Refused (ExperimentCountMismatch (length (gd_experiments gd)) (length xs)))
     else bindc (observe (rv_uuid R)) (\<lambda>gid.
       bindc (instant_now R) (\<lambda>started.
       bindc (observe (rv_clock R)) (\<lambda>started_at.
       bindc (start_shared_load gd cfg) (\<lambda>handle.
       bindc (load_guarded cfg handle (run_campaign R sched wiring cfg 0 xs)) (\<lambda>js.
       bindc (stop_load cfg handle) (\<lambda>load.
       let score = score_of gd js load in
       bindc (observe (rv_clock R)) (\<lambda>ended_at.
       bindc (instant_now R) (\<lambda>now.
         ret \<lparr> gj_id = gid, gj_title = gd_title gd, gj_started_at = started_at, gj_ended_at = ended_at,
            gj_duration_s = as_secs_f64 (now - started), gj_journals = js, gj_load = load, gj_score = score,
            gj_status = score_status score, gj_regulatory = gd_regulatory gd \<rparr>)))))))))"

definition run_gameday :: "renv \<Rightarrow> (mctx \<Rightarrow> world \<Rightarrow> mstate) \<Rightarrow> gameday \<Rightarrow> chaos_experiment list \<Rightarrow> handler list \<Rightarrow>
    run_config \<Rightarrow> gameday_journal wcomp" where
  "run_gameday R sched gd xs hs cfg =
    run_gameday_with_wiring R sched gd xs (\<lambda>i x. \<lparr> wr_reply = rv_reply R, wr_handlers = hs \<rparr>) cfg"

section \<open>The scaffold\<close>

text \<open>\<open>gameday create\<close>; paths and numbers are given as their texts.\<close>

record template_spec =
  ts_name :: string
  ts_experiments :: "string list"
  ts_load_tool :: "load_tool option"
  ts_load_script :: "string option"
  ts_load_vus :: "nat option"
  ts_framework :: "string option"

definition line_of :: "string \<Rightarrow> string" where
  "line_of s = s @ [CHR 0x0A]"

definition load_tool_text :: "load_tool \<Rightarrow> string" where
  "load_tool_text t = (case t of K6 \<Rightarrow> ''k6'' | Jmeter \<Rightarrow> ''jmeter'')"

definition gameday_toon_template :: "(nat \<Rightarrow> string) \<Rightarrow> template_spec \<Rightarrow> string" where
  "gameday_toon_template show_nat spec =
    line_of (''title: '' @ ts_name spec) @ line_of (line_of ''description: GameDay campaign'') @ line_of (line_of ''tags[1]: gameday'')
    @ (case ts_load_tool spec of None \<Rightarrow> []
       | Some tool \<Rightarrow> line_of ''load:'' @ line_of (''  tool: '' @ load_tool_text tool)
          @ (case ts_load_script spec of None \<Rightarrow> [] | Some script \<Rightarrow> line_of (''  script: '' @ script))
          @ (case ts_load_vus spec of None \<Rightarrow> [] | Some vus \<Rightarrow> line_of (''  vus: '' @ show_nat vus))
          @ line_of (line_of ''  duration_s: 120.0''))
    @ (case ts_framework spec of None \<Rightarrow> []
       | Some fw \<Rightarrow> line_of ''regulatory:'' @ line_of (''  frameworks[1]: '' @ fw) @ line_of (line_of ''  requirements[0]:''))
    @ line_of (''experiments['' @ show_nat (length (ts_experiments spec)) @ '']:'')
    @ concat (map (\<lambda>p. line_of (''  - path: '' @ p) @ line_of ''    compliance_maps[0]:'') (ts_experiments spec))
    @ line_of (CHR 0x0A # ''scoring:'') @ line_of ''  pass_threshold: 0.75'' @ line_of ''  mttr_target_s: 30.0''
    @ line_of ''  recovery_required: true''"

end
