(* ===== verification/Gameday_Props.thy ===== *)
theory Gameday_Props
  imports Gameday
begin

text \<open>
  What a campaign promises: scores between 0 and 1, a shared load that is stopped on every way
  out, and journals that are those of its first experiments, each well formed.
\<close>

section \<open>Scores\<close>

lemma fraction_unit: "a \<le> b \<Longrightarrow> 0 < b \<Longrightarrow> b < 2 ^ 53 \<Longrightarrow> between 0 1 (f64_fraction a b)"
proof -
  assume a: "a \<le> b" "0 < b" "b < 2 ^ 53"
  then have "f64_fraction a b = to_f64 (of_nat a / of_nat b)" by (simp add: f64_fraction_def)
  moreover have "0 \<le> (of_nat a / of_nat b :: rat)" "(of_nat a / of_nat b :: rat) \<le> 1" using a by simp_all
  ultimately show ?thesis
    using to_f64_mono[of 0 "of_nat a / of_nat b"] to_f64_mono[of "of_nat a / of_nat b" 1]
    by (simp add: between_le to_f64_0 to_f64_1)
qed

lemma between_finite: "between a b x \<Longrightarrow> is_finite x"
  by (auto simp: between_def)

lemma between_mul:
  "between 0 1 x \<Longrightarrow> 0 \<le> w \<Longrightarrow> f64_mul (Fin 1) (Fin w) = Fin c \<Longrightarrow> between 0 c (f64_mul x (Fin w))"
  using f64_mul_mono[of "Fin 0" x w] f64_mul_mono[of x "Fin 1" w] between_finite[of 0 1 x]
  by (simp add: between_le to_f64_0)

lemma between_add:
  "between 0 a x \<Longrightarrow> between 0 b y \<Longrightarrow> f64_add (Fin a) (Fin b) = Fin c \<Longrightarrow> between 0 c (f64_add x y)"
  using f64_add_mono[of "Fin 0" x "Fin 0" y] f64_add_mono[of x "Fin a" y "Fin b"] between_finite[of 0 a x] between_finite[of 0 b y]
  by (simp add: between_le to_f64_0)

lemma rounded:
  "to_f64 (3 / 10) = Fin (5404319552844595 / 18014398509481984)"
  "to_f64 (1 / 5) = Fin (3602879701896397 / 18014398509481984)"
  "to_f64 (5404319552844595 / 18014398509481984) = Fin (5404319552844595 / 18014398509481984)"
  "to_f64 (3602879701896397 / 18014398509481984) = Fin (3602879701896397 / 18014398509481984)"
  "to_f64 (1 / 4) = Fin (1 / 4)"
  by (rule to_f64_at[where k = 54 and n = 5404319552844595] to_f64_at[where k = 55 and n = 7205759403792794]
      to_f64_at[where k = 54 and n = "2 ^ 52"]; simp add: f64_limit_def; fail)+

lemma rounded_sums:
  "to_f64 (9907919180215091 / 18014398509481984) = Fin (4953959590107546 / 9007199254740992)"
  "to_f64 (7205759403792794 / 9007199254740992) = Fin (7205759403792794 / 9007199254740992)"
  "to_f64 (18014398509481985 / 18014398509481984) = Fin 1"
  by (rule to_f64_at[where k = 53 and n = 4953959590107546] to_f64_at[where k = 53 and n = 7205759403792794]
      to_f64_at[where k = 52 and n = "2 ^ 52"]; simp add: f64_limit_def; fail)+

lemma weights:
  "weight_030 = 5404319552844595 / 18014398509481984" "weight_020 = 3602879701896397 / 18014398509481984"
  by (simp_all only: weight_030_def weight_020_def rounded f64.case)

lemma ones:
  "f64_mul (Fin 1) (Fin weight_030) = Fin weight_030" "f64_mul (Fin 1) (Fin (1 / 4)) = Fin (1 / 4)"
  "f64_mul (Fin 1) (Fin weight_020) = Fin weight_020"
  "f64_add (Fin weight_030) (Fin (1 / 4)) = Fin (4953959590107546 / 9007199254740992)"
  "f64_add (Fin (4953959590107546 / 9007199254740992)) (Fin (1 / 4)) = Fin (7205759403792794 / 9007199254740992)"
  "f64_add (Fin (7205759403792794 / 9007199254740992)) (Fin weight_020) = Fin 1"
  using rounded rounded_sums by (simp_all add: weights)

lemma overall_unit:
  assumes "between 0 1 p" "between 0 1 r" "between 0 1 l" "between 0 1 c"
  shows "between 0 1 (rs_overall (score_compute p r l c))"
proof -
  have w: "0 \<le> weight_030" "0 \<le> weight_020" by (simp_all add: weights)
  have "between 0 (1 / 4) (f64_mul r (Fin (1 / 4)))" "between 0 (1 / 4) (f64_mul l (Fin (1 / 4)))"
    by (rule between_mul[OF assms(2) _ ones(2)] between_mul[OF assms(3) _ ones(2)], simp)+
  then show ?thesis
    using between_add[OF between_add[OF between_add[OF between_mul[OF assms(1) w(1) ones(1)] _ ones(4)] _ ones(5)]
        between_mul[OF assms(4) w(2) ones(3)] ones(6)]
    by (simp add: score_compute_def)
qed

lemma recovery_counts_le: "recovery_counts target js m c = (m', c') \<Longrightarrow> c \<le> m \<Longrightarrow> c' \<le> m' \<and> m' \<le> m + length js"
  by (induction js arbitrary: m c) (fastforce split: option.splits if_splits)+

lemma load_impact_unit:
  assumes "\<And>lr. load = Some lr \<Longrightarrow> lr_error_rate lr = NaN \<or> f64_le (Fin 0) (lr_error_rate lr)"
  shows "between 0 1 (load_impact_of load)"
proof (cases load)
  case (Some lr)
  show ?thesis
  proof (cases "lr_error_rate lr")
    case (Fin r)
    then have "f64_le (to_f64 (1 - r)) (Fin 1)" using assms[OF Some] to_f64_mono[of "1 - r" 1] by (simp add: to_f64_1)
    then show ?thesis using Some Fin
      by (cases "to_f64 (1 - r)") (auto simp: load_impact_of_def f64_sub_def f64_max_def)
  qed (use Some assms[OF Some] in \<open>auto simp: load_impact_of_def f64_sub_def f64_max_def\<close>)
qed (simp add: load_impact_of_def)

text \<open>Every component of a campaign's score and the score itself is a number between 0 and 1, for any
  journals and any load result whose error rate is not negative (not a number included).\<close>

theorem scores_are_fractions:
  assumes "length js < 2 ^ 53" "length (concat (map ge_maps (gd_experiments gd))) < 2 ^ 53"
    "\<And>lr. load = Some lr \<Longrightarrow> lr_error_rate lr = NaN \<or> f64_le (Fin 0) (lr_error_rate lr)"
    "s = score_of gd js load"
  shows "between 0 1 (rs_pass_rate s) \<and> between 0 1 (rs_recovery s) \<and> between 0 1 (rs_load_impact s)
    \<and> between 0 1 (rs_compliance s) \<and> between 0 1 (rs_overall s)"
proof -
  have p: "between 0 1 (pass_rate_of js)"
    using fraction_unit[OF length_filter_le _ assms(1)] by (simp add: pass_rate_of_def)
  obtain m c where rc: "recovery_counts (sc_mttr_target (gd_scoring gd)) js 0 0 = (m, c)" by fastforce
  have r: "between 0 1 (compute_recovery_compliance js (sc_mttr_target (gd_scoring gd)))"
    using recovery_counts_le[OF rc] assms(1) by (auto simp: compute_recovery_compliance_def rc intro!: fraction_unit)
  let ?ps = "zip (gd_experiments gd) js"
  have "length (concat (map ge_maps (take n es))) \<le> length (concat (map ge_maps es))" for n es
    by (metis append_take_drop_id concat_append le_add1 length_append map_append)
  moreover have "map (ge_maps \<circ> fst) ?ps = map ge_maps (take (length js) (gd_experiments gd))"
    by (simp add: map_fst_zip_take flip: map_map) (simp add: min_def)
  ultimately have "length (all_articles ?ps) < 2 ^ 53"
    using assms(2) length_remdups_leq[of "concat (map (ge_maps \<circ> fst) ?ps)"] unfolding all_articles_def
    by (metis le_less_trans)
  then have c: "between 0 1 (compute_compliance_coverage ?ps)"
    using fraction_unit[OF length_filter_le, of "all_articles ?ps"] by (simp add: compute_compliance_coverage_def Let_def)
  note l = load_impact_unit[OF assms(3)]
  show ?thesis unfolding assms(4) score_of_def
    using overall_unit[OF p r l c] p r l c by (simp add: score_compute_def Let_def)
qed

text \<open>Articles of experiments that were not run do not count: a campaign cut short after its first of two
  experiments scores full coverage.\<close>

definition half_campaign :: gameday where
  "half_campaign = \<lparr> gd_title = [], gd_description = None, gd_tags = [], gd_regulatory = None, gd_load = None,
     gd_experiments = [\<lparr> ge_path = ''a'', ge_maps = [''A''] \<rparr>, \<lparr> ge_path = ''b'', ge_maps = [''B''] \<rparr>],
     gd_scoring = scoring_default \<rparr>"

theorem campaign_cut_short_is_compliant:
  "score_status (score_of half_campaign [journal_for experiment_default [] Completed 0] None) = ''COMPLIANT''"
proof -
  have "pass_rate_of [journal_for experiment_default [] Completed 0] = Fin 1"
    by (simp add: pass_rate_of_def journal_for_def f64_fraction_def to_f64_1)
  moreover have "compute_compliance_coverage (zip (gd_experiments half_campaign) [journal_for experiment_default [] Completed 0]) = Fin 1"
    by (simp add: half_campaign_def compute_compliance_coverage_def all_articles_def article_met_def journal_for_def
        f64_fraction_def to_f64_1 Let_def)
  moreover have "compute_recovery_compliance [journal_for experiment_default [] Completed 0] t = Fin 1" for t
    by (simp add: compute_recovery_compliance_def journal_for_def)
  moreover have "rs_overall (score_compute (Fin 1) (Fin 1) (Fin 1) (Fin 1)) = Fin 1"
    unfolding score_compute_def Let_def resilience_score.simps ones ..
  moreover have "f64_ge (Fin 1) (to_f64 (9 / 10))"
    using to_f64_mono[of "9 / 10" 1] by (simp add: to_f64_1 f64_ge_def)
  ultimately show ?thesis by (simp add: score_of_def score_status_def load_impact_of_def)
qed

section \<open>The shared load\<close>

fun load_obs :: "obs \<Rightarrow> bool" where
  "load_obs LoadStarted = True"
| "load_obs LoadStopped = True"
| "load_obs _ = False"

definition loads :: "world \<Rightarrow> obs list" where
  "loads w = filter load_obs (w_obs w)"

abbreviation no_load :: "world \<Rightarrow> world \<Rightarrow> bool" where
  "no_load \<equiv> extends (\<lambda>x. \<not> load_obs x)"

lemma no_load_loads: "no_load w w' \<Longrightarrow> loads w' = loads w"
  by (auto simp: extends_def loads_def filter_empty_conv)

lemma loads_advance: "loads (advance os w) = loads w @ filter load_obs os"
  by (simp add: loads_def advance_def)

lemma control_no_load: "control_obs x \<Longrightarrow> \<not> load_obs x"
  by (cases x) auto

lemma advance_no_load: "list_all (\<lambda>x. \<not> load_obs x) os \<Longrightarrow> no_load w (advance os w)"
  by (rule extends_advance) (auto simp: list_all_iff)

lemma emit_no_load: "no_load w (emit R hs ev w)"
  by (rule emit_extends) (rule control_no_load)

lemma emit_then_advance: "no_load w (advance [] (emit R hs ev w))"
  by (rule tracing.le_trans[OF emit_no_load advance_no_load]) simp

lemma activity_step_no_load: "activity_step R hs tok a st w = (st', w') \<Longrightarrow> no_load w w'"
  by (cases st) (auto simp: Let_def advance_no_load emit_then_advance split: if_splits)

lemma sampler_probe_no_load: "sampler_probe R sa w = (sa', w') \<Longrightarrow> no_load w w'"
proof -
  assume a: "sampler_probe R sa w = (sa', w')"
  obtain r w1 where s: "sample_probe R BySampler (hd (sa_todo sa)) w = (r, w1)" by fastforce
  have "no_load w w1" by (rule obeysD[OF sample_probe_obeys s]) simp
  moreover have "w' = w1" using a s by (auto simp: sampler_probe_def split: sum.splits prod.splits)
  ultimately show ?thesis by simp
qed

lemma guard_eval_no_load: "guard_eval R gs m0 m w = (m', w') \<Longrightarrow> no_load w w'"
  by (auto simp: guard_eval_def Let_def advance_no_load split: reply.splits if_splits)

lemma method_step_no_load: "method_step X s s' \<Longrightarrow> no_load (ms_world s) (ms_world s')"
  by (cases rule: method_step.cases)
     (auto simp: set_bg_def advance_no_load emit_no_load dest: activity_step_no_load sampler_probe_no_load guard_eval_no_load)

lemma run_method_no_load:
  assumes "schedules sched X"
  shows "obeys no_load (run_method sched X)"
proof -
  have "no_load w (ms_world (sched X w))" for w
  proof -
    have "method_steps X (method_start X w) (sched X w)" using assms by (simp add: schedules_def)
    then have "(\<lambda>s s'. no_load (ms_world s) (ms_world s')) (method_start X w) (sched X w)"
      unfolding method_steps_def
      by (induction rule: rtranclp_induct) (auto dest!: method_step_no_load intro: tracing.le_trans)
    then show ?thesis by (simp add: method_start_fields)
  qed
  then show ?thesis by (auto simp: obeys_def run_method_def Let_def)
qed

lemma run_experiment_no_load:
  assumes "rc_load cfg = None" "rc_mode cfg \<noteq> ModeOnly" "\<forall>t. schedules sched (method_ctx R hs cfg sampling_default x t)"
  shows "obeys no_load (run_experiment R sched hs cfg x)"
proof -
  have s: "obeys no_load (stop_load cfg handle)" "obeys no_load (start_load x cfg)" for handle
    using assms(1) by (auto simp: stop_load_def start_load_def split: option.splits)
  note q = run_rollbacks_obeys'[of "\<lambda>x. \<not> load_obs x"] recovery_obeys[of x "\<lambda>x. \<not> load_obs x"]
    hypothesis_after_obeys[of "\<lambda>x. \<not> load_obs x"] hypothesis_phase_obeys[of "\<lambda>x. \<not> load_obs x"] emits_obeys[of "\<lambda>x. \<not> load_obs x"]
  have e: "obeys no_load (end_run R hs cfg sampling_default x st before handle X s mr)" for st before handle X s mr
    unfolding end_run_def halt_run_def interrupt_run_def complete_run_def conclude_run_def Let_def
    by (intro tracing.obeys_rules elapsed_obeys clock_obeys observe_obeys s q) (auto dest: control_no_load)
  have i: "obeys no_load (inject_faults R sched hs cfg sampling_default x st before)" for st before
    unfolding inject_faults_def Let_def
    by (intro tracing.obeys_rules clock_obeys observe_obeys s e q run_method_no_load) (use assms(3) in \<open>auto dest: control_no_load\<close>)
  have "obeys no_load (live_run R sched hs cfg sampling_default x)"
    unfolding live_run_def abort_run_def cancel_run_def
    by (intro tracing.obeys_rules elapsed_obeys q i) (auto dest: control_no_load)
  then show ?thesis
    unfolding run_experiment_def run_experiment_with_sampling_def make_interrupted_journal_def
    using assms(2) by (auto intro!: tracing.obeys_rules elapsed_obeys observe_obeys)
qed

text \<open>What is assumed of the interleavings of a campaign.\<close>

definition campaign_scheduled :: "renv \<Rightarrow> (mctx \<Rightarrow> world \<Rightarrow> mstate) \<Rightarrow> (nat \<Rightarrow> chaos_experiment \<Rightarrow> wiring) \<Rightarrow> run_config \<Rightarrow>
    chaos_experiment list \<Rightarrow> bool" where
  "campaign_scheduled R sched wiring cfg xs \<longleftrightarrow> (\<forall>x \<in> set xs. \<forall>i t.
     schedules sched (method_ctx (R \<lparr> rv_reply := wr_reply (wiring i x) \<rparr>) (wr_handlers (wiring i x)) (campaign_config cfg) sampling_default x t))"

lemma campaign_no_load:
  "campaign_scheduled R sched wiring cfg xs \<Longrightarrow> obeys no_load (run_campaign R sched wiring cfg i xs)"
proof (induction xs arbitrary: i)
  case (Cons x xs)
  have tail: "obeys no_load (run_campaign R sched wiring cfg (Suc i) xs)"
    using Cons by (simp add: campaign_scheduled_def)
  have rest: "obeys no_load (bindc (run_campaign R sched wiring cfg (Suc i) xs) (\<lambda>js. ret (j # js)))" for j
    by (intro tracing.obeys_rules tail)
  have one: "obeys no_load (run_experiment (R \<lparr> rv_reply := wr_reply (wiring i x) \<rparr>) sched (wr_handlers (wiring i x)) (campaign_config cfg) x)"
    using Cons.prems by (intro run_experiment_no_load) (simp_all add: campaign_scheduled_def campaign_config_def)
  have "obeys no_load (\<lambda>w. (case run_experiment (R \<lparr> rv_reply := wr_reply (wiring i x) \<rparr>) sched (wr_handlers (wiring i x)) (campaign_config cfg) x w of
          (Inr j, w') \<Rightarrow> bindc (run_campaign R sched wiring cfg (Suc i) xs) (\<lambda>js. ret (j # js)) w'
        | (Inl (Refused e), w') \<Rightarrow> (Inr [], w')
        | (Inl e, w') \<Rightarrow> (Inl e, w')))"
    unfolding obeys_def
  proof (intro allI impI)
    fix w r w'
    assume c: "(case run_experiment (R \<lparr> rv_reply := wr_reply (wiring i x) \<rparr>) sched (wr_handlers (wiring i x)) (campaign_config cfg) x w of
          (Inr j, w') \<Rightarrow> bindc (run_campaign R sched wiring cfg (Suc i) xs) (\<lambda>js. ret (j # js)) w'
        | (Inl (Refused e), w') \<Rightarrow> (Inr [], w')
        | (Inl e, w') \<Rightarrow> (Inl e, w')) = (r, w')"
    obtain r1 w1 where o1: "run_experiment (R \<lparr> rv_reply := wr_reply (wiring i x) \<rparr>) sched (wr_handlers (wiring i x)) (campaign_config cfg) x w = (r1, w1)"
      by fastforce
    have n1: "no_load w w1" by (rule obeysD[OF one o1])
    show "no_load w w'"
    proof (cases r1)
      case (Inl e)
      then show ?thesis using c o1 n1 by (cases e) auto
    next
      case (Inr j)
      then have "bindc (run_campaign R sched wiring cfg (Suc i) xs) (\<lambda>js. ret (j # js)) w1 = (r, w')" using c o1 by simp
      from obeysD[OF rest this] n1 show ?thesis by (blast intro: tracing.le_trans)
    qed
  qed
  then show ?case unfolding run_campaign.simps by (intro tracing.obeys_rules elapsed_obeys)
qed simp

lemma stop_load_loads: "stop_load cfg handle w = (r, w') \<Longrightarrow> (handle \<noteq> None \<longrightarrow> rc_load cfg \<noteq> None) \<Longrightarrow>
    (\<exists>x. r = Inr x) \<and> loads w' = loads w @ (if handle = None then [] else [LoadStopped])"
  by (auto simp: stop_load_def ret_def loads_advance split: option.splits)

lemma start_load_loads: "start_shared_load gd cfg w = (r, w') \<Longrightarrow> \<exists>handle. r = Inr handle \<and> (handle \<noteq> None \<longrightarrow> rc_load cfg \<noteq> None)
    \<and> loads w' = loads w @ (if handle = None then [] else [LoadStarted])"
proof -
  assume s: "start_shared_load gd cfg w = (r, w')"
  show ?thesis
  proof (cases "gd_load gd")
    case (Some lc)
    show ?thesis
    proof (cases "rc_load cfg")
      case (Some lx)
      note some = \<open>gd_load gd = Some lc\<close> Some
      show ?thesis
      proof (cases "lx_start lx (w_tick w) lc")
        case (Inl e)
        then have "r = Inr None" "w' = advance [] w" using s some by (simp_all add: start_shared_load_def)
        then show ?thesis by (simp add: loads_advance)
      next
        case (Inr handle)
        then have "r = Inr (Some handle)" "w' = advance [LoadStarted] w" using s some by (simp_all add: start_shared_load_def)
        then show ?thesis using Some by (simp add: loads_advance)
      qed
    qed (use s Some in \<open>auto simp: start_shared_load_def ret_def\<close>)
  qed (use s in \<open>auto simp: start_shared_load_def ret_def\<close>)
qed

text \<open>The whole run after the load was started, on both ways out of the campaign.\<close>

lemma guarded_loads:
  assumes "campaign_scheduled R sched wiring cfg xs" "handle \<noteq> None \<longrightarrow> rc_load cfg \<noteq> None"
    "load_guarded cfg handle (run_campaign R sched wiring cfg i xs) w = (r, w')"
  shows "loads w' = loads w @ (if is_ok r \<or> handle = None then [] else [LoadStopped])"
proof -
  obtain r1 w1 where c: "run_campaign R sched wiring cfg i xs w = (r1, w1)" by fastforce
  have l: "loads w1 = loads w" by (rule no_load_loads[OF obeysD[OF campaign_no_load[OF assms(1)] c]])
  show ?thesis
  proof (cases r1)
    case (Inl e)
    obtain r2 w2 where s: "stop_load cfg handle w1 = (r2, w2)" by fastforce
    have "r = Inl e" "w' = w2" using assms(3) c Inl s by (simp_all add: load_guarded_def)
    then show ?thesis using stop_load_loads[OF s assms(2)] l by simp
  next
    case (Inr js)
    have "r = Inr js" "w' = w1" using assms(3) c Inr by (simp_all add: load_guarded_def)
    then show ?thesis using l by simp
  qed
qed

text \<open>C32: a campaign never leaves its shared load running: on every way out, also when an experiment is refused or
  a panic unwinds the campaign, the load was never started or was started once and then stopped once.\<close>

theorem shared_load_is_stopped:
  assumes "campaign_scheduled R sched wiring cfg xs" "run_gameday_with_wiring R sched gd xs wiring cfg w = (r, w')"
  shows "loads w' = loads w \<or> loads w' = loads w @ [LoadStarted, LoadStopped]"
proof (cases "length (gd_experiments gd) = length xs")
  case False
  then show ?thesis using assms(2) by (simp add: run_gameday_with_wiring_def fail_def)
next
  case True
  obtain t w1 where i: "instant_now R (advance [] w) = (Inr t, w1)" by (simp add: instant_now_def)
  have 1: "loads w1 = loads w" using i by (auto simp: instant_now_def loads_advance)
  obtain r2 w2 where st: "start_shared_load gd cfg (advance [] w1) = (r2, w2)" by fastforce
  obtain handle where h: "r2 = Inr handle" "handle \<noteq> None \<longrightarrow> rc_load cfg \<noteq> None"
    "loads w2 = loads w @ (if handle = None then [] else [LoadStarted])"
    using start_load_loads[OF st] 1 by (auto simp: loads_advance)
  obtain r3 w3 where g: "load_guarded cfg handle (run_campaign R sched wiring cfg 0 xs) w2 = (r3, w3)" by fastforce
  note l3 = guarded_loads[OF assms(1) h(2) g]
  show ?thesis
  proof (cases r3)
    case (Inl e)
    then have "w' = w3" using assms(2) True i st h(1) g
      by (simp add: run_gameday_with_wiring_def bindc_def observe_def)
    then show ?thesis using l3 Inl h(3) by simp
  next
    case (Inr js)
    obtain r4 w4 where s: "stop_load cfg handle w3 = (r4, w4)" by fastforce
    note l4 = stop_load_loads[OF s h(2)]
    then obtain load where "r4 = Inr load" by blast
    then have "loads w' = loads w4" using assms(2) True i st h(1) g Inr s
      by (auto simp: run_gameday_with_wiring_def bindc_def observe_def instant_now_def ret_def Let_def loads_advance)
    then show ?thesis using l3 l4 Inr h(3) by simp
  qed
qed

section \<open>The journals of a campaign\<close>

lemma campaign_Cons: "run_campaign R sched wiring cfg i (x # xs) w = (if caller_cancelled R cfg (w_tick w) then (Inr [], advance [] w)
    else (case run_experiment (R \<lparr> rv_reply := wr_reply (wiring i x) \<rparr>) sched (wr_handlers (wiring i x)) (campaign_config cfg) x
         (advance [] w) of
          (Inr j, w') \<Rightarrow> bindc (run_campaign R sched wiring cfg (Suc i) xs) (\<lambda>js. ret (j # js)) w'
        | (Inl (Refused e), w') \<Rightarrow> (Inr [], w')
        | (Inl e, w') \<Rightarrow> (Inl e, w')))"
  by (simp add: bindc_def cancelled_now_def observe_def ret_def)

lemma campaign_journals:
  "campaign_scheduled R sched wiring cfg xs \<Longrightarrow> run_campaign R sched wiring cfg i xs w = (Inr js, w') \<Longrightarrow>
    length js \<le> length xs \<and> list_all2 (\<lambda>x j. journal_ok x (campaign_config cfg) j) (take (length js) xs) js"
proof (induction xs arbitrary: i w js)
  case (Cons x xs)
  let ?R = "R \<lparr> rv_reply := wr_reply (wiring i x) \<rparr>"
  obtain r1 w1 where o1: "run_experiment ?R sched (wr_handlers (wiring i x)) (campaign_config cfg) x (advance [] w) = (r1, w1)"
    by fastforce
  show ?case
  proof (cases "caller_cancelled R cfg (w_tick w)")
    case True
    then show ?thesis using Cons.prems(2) unfolding campaign_Cons by simp
  next
    case False
    show ?thesis
    proof (cases r1)
      case (Inl e)
      then show ?thesis using Cons.prems(2) False o1 unfolding campaign_Cons by (cases e) simp_all
    next
      case (Inr j)
      then obtain js' where b: "run_campaign R sched wiring cfg (Suc i) xs w1 = (Inr js', w')" "js = j # js'"
        using Cons.prems(2) False o1 unfolding campaign_Cons by (auto simp: ret_def)
      have sc: "\<forall>t. schedules sched (method_ctx ?R (wr_handlers (wiring i x)) (campaign_config cfg) sampling_default x t)"
        "campaign_scheduled R sched wiring cfg xs" using Cons.prems(1) by (simp_all add: campaign_scheduled_def)
      have "journal_ok x (campaign_config cfg) j"
        using returned_journal_ok[OF sc(1)] o1 Inr by (simp add: run_experiment_def)
      then show ?thesis using Cons.IH[OF sc(2) b(1)] b(2) by simp
    qed
  qed
qed (simp add: ret_def)

text \<open>The journals of a campaign are those of its first experiments in the declared order, one for each, every
  one well formed under the configuration of the campaign; none is lost when the campaign stops early.\<close>

theorem campaign_keeps_its_journals:
  assumes "campaign_scheduled R sched wiring cfg xs" "run_gameday_with_wiring R sched gd xs wiring cfg w = (Inr g, w')"
  shows "length (gj_journals g) \<le> length (gd_experiments gd)
    \<and> list_all2 (\<lambda>x j. journal_ok x (campaign_config cfg) j) (take (length (gj_journals g)) xs) (gj_journals g)
    \<and> map jr_title (gj_journals g) = map exp_title (take (length (gj_journals g)) xs)"
proof -
  have len: "length (gd_experiments gd) = length xs"
    using assms(2) by (auto simp: run_gameday_with_wiring_def fail_def split: if_splits)
  then have len': "\<not> length (gd_experiments gd) \<noteq> length xs" by simp
  obtain handle w2 js w3 where "load_guarded cfg handle (run_campaign R sched wiring cfg 0 xs) w2 = (Inr js, w3)" "gj_journals g = js"
    using assms(2) unfolding run_gameday_with_wiring_def if_not_P[OF len'] Let_def
    by (elim bindc_InrE) (auto simp: ret_def)
  then have c: "run_campaign R sched wiring cfg 0 xs w2 = (Inr (gj_journals g), w3)"
    by (auto simp: load_guarded_def split: prod.splits sum.splits)
  note j = campaign_journals[OF assms(1) c]
  have "map jr_title (gj_journals g) = map exp_title (take (length (gj_journals g)) xs)"
    using j by (intro nth_equalityI) (auto simp: list_all2_conv_all_nth journal_ok_def campaign_config_def)
  then show ?thesis using j len by simp
qed

end
