(* ===== verification/Runner_Lifecycle.thy ===== *)
theory Runner_Lifecycle
  imports Runner_Outcomes
begin

text \<open>
  The life cycle of a run as an abstract protocol, and the proof that the runner follows it:
  which phase comes after which, what may be called in it, and that a load that was started
  is stopped before anything is verified or rolled back. The proof is compositional, by
  triples of a precondition, a computation and its postconditions.
\<close>

section \<open>The protocol\<close>

text \<open>The flag of the method's phases is whether the load runs.\<close>

datatype lc = Idle | Begun | Verifying | Verified | Loaded | Injecting bool | Injected bool
  | Reverifying | Reverified | Undoing | Undone | RunOver

fun lc_event :: "lc \<Rightarrow> lifecycle_event \<Rightarrow> lc option" where
  "lc_event p (BeforeActivity _) = (if p \<in> {Verifying, Reverifying, Undoing, Injecting False, Injecting True} then Some p else None)"
| "lc_event p (AfterActivity _) = (if p \<in> {Verifying, Reverifying, Undoing, Injecting False, Injecting True} then Some p else None)"
| "lc_event p BeforeExperiment = (if p = Idle then Some Begun else None)"
| "lc_event p BeforeHypothesis = (if p = Begun then Some Verifying else if p = Injected False then Some Reverifying else None)"
| "lc_event p AfterHypothesis = (if p = Verifying then Some Verified else if p = Reverifying then Some Reverified else None)"
| "lc_event p BeforeMethod = (if p \<in> {Begun, Verified} then Some (Injecting False)
     else if p = Loaded then Some (Injecting True) else None)"
| "lc_event p AfterMethod = (case p of Injecting l \<Rightarrow> Some (Injected l) | _ \<Rightarrow> None)"
| "lc_event p BeforeRollback = (if p \<in> {Verified, Injected False, Reverified} then Some Undoing else None)"
| "lc_event p AfterRollback = (if p = Undoing then Some Undone else None)"
| "lc_event p AfterExperiment = (if p \<in> {Begun, Verified, Injected False, Reverified, Undone} then Some RunOver else None)"

text \<open>Which calls a phase allows. Handlers are called in all of them.\<close>

fun may_call :: "lc \<Rightarrow> origin \<Rightarrow> bool" where
  "may_call p ByControl = (p \<noteq> Idle)"
| "may_call p ByMethod = (case p of Injecting _ \<Rightarrow> True | _ \<Rightarrow> False)"
| "may_call p ByRollback = (p = Undoing)"
| "may_call p ByHypothesis = (p \<in> {Verifying, Reverifying})"
| "may_call p BySampler = (case p of Injecting _ \<Rightarrow> True | Injected _ \<Rightarrow> True | _ \<Rightarrow> False)"
| "may_call p ByGuard = (case p of Injecting _ \<Rightarrow> True | Injected _ \<Rightarrow> True | _ \<Rightarrow> False)"

fun lc_step :: "lc \<Rightarrow> obs \<Rightarrow> lc option" where
  "lc_step p (Emitted ev) = lc_event p ev"
| "lc_step p (Called og a) = (if may_call p og then Some p else None)"
| "lc_step p (GuardSeen i safe) = (if may_call p ByGuard then Some p else None)"
| "lc_step p LoadStarted = (if p \<in> {Begun, Verified} then Some Loaded else None)"
| "lc_step p LoadStopped = (if p = Injected True then Some (Injected False) else None)"

definition protocol :: "obs list \<Rightarrow> lc option" where
  "protocol os = foldl (\<lambda>p x. case p of None \<Rightarrow> None | Some q \<Rightarrow> lc_step q x) (Some Idle) os"

definition at_any :: "lc set \<Rightarrow> world \<Rightarrow> bool" where
  "at_any S w \<longleftrightarrow> (\<exists>p \<in> S. protocol (w_obs w) = Some p)"

abbreviation legal :: "world \<Rightarrow> bool" where
  "legal \<equiv> at_any UNIV"

lemma at_any_mono: "at_any S w \<Longrightarrow> S \<subseteq> T \<Longrightarrow> at_any T w"
  unfolding at_any_def by blast

lemma at_any_legal: "at_any S w \<Longrightarrow> legal w"
  by (rule at_any_mono) simp_all

lemma at_any_Un: "at_any (S \<union> T) w \<longleftrightarrow> at_any S w \<or> at_any T w"
  unfolding at_any_def by blast

lemma protocol_append: "protocol (os @ ps) = foldl (\<lambda>p x. case p of None \<Rightarrow> None | Some q \<Rightarrow> lc_step q x) (protocol os) ps"
  by (simp add: protocol_def)

text \<open>What a phase may show without moving on.\<close>

definition stays :: "lc set \<Rightarrow> obs \<Rightarrow> bool" where
  "stays S x \<longleftrightarrow> (\<forall>p \<in> S. lc_step p x = Some p)"

lemma stays_foldl: "\<forall>x \<in> set os. lc_step p x = Some p \<Longrightarrow>
    foldl (\<lambda>p x. case p of None \<Rightarrow> None | Some q \<Rightarrow> lc_step q x) (Some p) os = Some p"
  by (induction os) auto

lemma at_any_stays: "at_any S w \<Longrightarrow> extends (stays S) w w' \<Longrightarrow> at_any S w'"
  by (auto simp: at_any_def extends_def protocol_append stays_def stays_foldl)

lemma at_any_advance: "at_any S w \<Longrightarrow> \<forall>p \<in> S. \<exists>q \<in> T. lc_step p x = Some q \<Longrightarrow> at_any T (advance [x] w)"
  by (auto simp: at_any_def advance_def protocol_append)

lemma at_any_advance_Nil: "at_any S w \<Longrightarrow> at_any S (advance [] w)"
  by (simp add: at_any_def advance_def)

lemma activity_stays:
  assumes "activity_obs hs x" "p \<in> {Verifying, Reverifying, Undoing, Injecting False, Injecting True}"
  shows "lc_step p x = Some p"
proof -
  have "lc_event p ev = Some p" if "activity_name ev = Some nm" for ev nm
    using that assms(2) by (cases ev) auto
  then show ?thesis using assms by (cases "(hs, x)" rule: activity_obs.cases) auto
qed

text \<open>An event moves the phase, then the handlers are called.\<close>

lemma at_any_emit:
  assumes "at_any S w" "\<forall>p \<in> S. \<exists>q \<in> T. lc_event p ev = Some q" "Idle \<notin> T"
  shows "at_any T (emit R hs ev w)"
proof -
  have "at_any T (foldl (\<lambda>w h. handle_event R ev h w) v hs)" if "at_any T v" for v
    using that
  proof (induction hs arbitrary: v)
    case (Cons h hs)
    have "extends (stays T) v (handle_event R ev h v)"
      using assms(3) by (intro handle_extends) (auto simp: stays_def)
    then show ?case using Cons by (simp add: at_any_stays)
  qed simp
  then show ?thesis using at_any_advance[OF assms(1), of T "Emitted ev"] assms(2) by (simp add: emit_def)
qed

section \<open>Triples\<close>

definition triple :: "('s \<Rightarrow> bool) \<Rightarrow> ('s, 'e, 'a) comp \<Rightarrow> ('a \<Rightarrow> 's \<Rightarrow> bool) \<Rightarrow> ('s \<Rightarrow> bool) \<Rightarrow> bool" where
  "triple P m Q E \<longleftrightarrow> (\<forall>s r s'. P s \<longrightarrow> m s = (r, s') \<longrightarrow> (case r of Inr x \<Rightarrow> Q x s' | Inl e \<Rightarrow> E s'))"

lemma tripleD: "triple P m Q E \<Longrightarrow> P s \<Longrightarrow> m s = (r, s') \<Longrightarrow> (case r of Inr x \<Rightarrow> Q x s' | Inl e \<Rightarrow> E s')"
  unfolding triple_def by blast

lemma triple_ret: "(\<And>s. P s \<Longrightarrow> Q x s) \<Longrightarrow> triple P (ret x) Q E"
  by (auto simp: triple_def ret_def)

lemma triple_bindc:
  assumes "triple P m Q E" "\<And>x. triple (Q x) (f x) S E"
  shows "triple P (bindc m f) S E"
  unfolding triple_def
proof (intro allI impI)
  fix s r s'
  assume p: "P s" and b: "bindc m f s = (r, s')"
  obtain r1 s1 where m: "m s = (r1, s1)" by fastforce
  show "case r of Inr x \<Rightarrow> S x s' | Inl e \<Rightarrow> E s'"
  proof (cases r1)
    case (Inl e)
    then have "r = Inl e" "s' = s1" using b m by (auto simp: bindc_def)
    then show ?thesis using tripleD[OF assms(1) p m] Inl by simp
  next
    case (Inr x)
    then have "f x s1 = (r, s')" "Q x s1" using b m tripleD[OF assms(1) p m] by (auto simp: bindc_def)
    then show ?thesis using tripleD[OF assms(2)] by blast
  qed
qed

lemma triple_seqc: "triple P m (\<lambda>_. Q) E \<Longrightarrow> triple Q n S E \<Longrightarrow> triple P (seqc m n) S E"
  unfolding seqc_def by (rule triple_bindc)

lemma triple_if: "(c \<Longrightarrow> triple P m Q E) \<Longrightarrow> (\<not> c \<Longrightarrow> triple P n Q E) \<Longrightarrow> triple P (if c then m else n) Q E"
  by simp

lemma triple_conseq: "triple P m Q E \<Longrightarrow> (\<And>s. P' s \<Longrightarrow> P s) \<Longrightarrow> (\<And>x s. Q x s \<Longrightarrow> Q' x s) \<Longrightarrow> triple P' m Q' E"
  unfolding triple_def by (fastforce split: sum.splits)

lemma triple_pre: "(\<And>s. P s \<Longrightarrow> c) \<Longrightarrow> (c \<Longrightarrow> triple P m Q E) \<Longrightarrow> triple P m Q E"
  unfolding triple_def by blast

lemma triple_stays: "obeys (extends (stays S)) m \<Longrightarrow> triple (at_any S) m (\<lambda>_. at_any S) legal"
proof -
  assume m: "obeys (extends (stays S)) m"
  have "at_any S s'" if "at_any S s" "m s = (r, s')" for s r s'
    by (rule at_any_stays[OF that(1) obeysD[OF m that(2)]])
  then show ?thesis unfolding triple_def by (auto split: sum.splits intro: at_any_mono)
qed

lemma triple_emits: "\<forall>p \<in> S. \<exists>q \<in> T. lc_event p ev = Some q \<Longrightarrow> Idle \<notin> T \<Longrightarrow>
    triple (at_any S) (emits R hs ev) (\<lambda>_. at_any T) legal"
  unfolding triple_def by (auto simp: at_any_emit)

lemma triple_silent:
  assumes "\<And>P. obeys (extends P) m"
  shows "triple (at_any S) m (\<lambda>_. at_any S) legal"
  by (rule triple_stays) (rule assms)

section \<open>The phases\<close>

lemma rollbacks_triple:
  assumes "S \<subseteq> {Verified, Injected False, Reverified}"
  shows "triple (at_any S) (run_rollbacks R hs x strategy needs) (\<lambda>_. at_any (insert Undone S)) legal"
proof -
  have "triple (at_any {Undoing}) (execute_rollback_activities R hs (exp_rollbacks x)) (\<lambda>_. at_any {Undoing}) legal"
    by (rule triple_stays[OF rollback_each_obeys]) (auto simp: stays_def activity_stays)
  moreover have "triple (at_any S) (emits R hs BeforeRollback) (\<lambda>_. at_any {Undoing}) legal"
    using assms by (intro triple_emits) auto
  moreover have "triple (at_any {Undoing}) (emits R hs AfterRollback) (\<lambda>_. at_any (insert Undone S)) legal"
    using assms by (intro triple_emits) auto
  ultimately show ?thesis unfolding run_rollbacks_def
    by (intro triple_if triple_seqc triple_bindc triple_ret) (auto intro: at_any_mono)
qed

lemma hypothesis_triple:
  assumes "lc_event p BeforeHypothesis = Some q" "lc_event q AfterHypothesis = Some q'"
  shows "triple (at_any {p}) (run_hypothesis_phase R hs x)
    (\<lambda>h. at_any (case h of None \<Rightarrow> {p} | Some _ \<Rightarrow> {q'})) legal"
proof (cases "exp_hypothesis x")
  case None
  then show ?thesis unfolding run_hypothesis_phase_def by (simp add: triple_ret)
next
  case (Some h)
  have q: "q = Verifying \<or> q = Reverifying" using assms(1) by (auto split: if_splits)
  have "triple (at_any {q}) (evaluate_hypothesis R hs h) (\<lambda>_. at_any {q}) legal"
    by (rule triple_stays[OF evaluate_obeys]) (use q in \<open>auto simp: stays_def activity_stays\<close>)
  moreover have "triple (at_any {p}) (emits R hs BeforeHypothesis) (\<lambda>_. at_any {q}) legal"
    using assms(1) q by (intro triple_emits) auto
  moreover have "triple (at_any {q}) (emits R hs AfterHypothesis) (\<lambda>_. at_any {q'}) legal"
    using assms(2) q by (intro triple_emits) auto
  ultimately show ?thesis unfolding run_hypothesis_phase_def Some option.case
    by (intro triple_seqc triple_bindc triple_ret) auto
qed

lemma finish_triple: "S \<subseteq> {Begun, Verified, Injected False, Reverified, Undone} \<Longrightarrow>
    triple (at_any S) (seqc (emits R hs AfterExperiment) (ret j)) (\<lambda>_. at_any {RunOver}) legal"
  by (rule triple_seqc[OF triple_emits triple_ret]) auto

lemma stamp_triple: "triple (at_any S) (end_stamp R st) (\<lambda>_. at_any S) legal"
    "triple (at_any S) (elapsed_ms R t) (\<lambda>_. at_any S) legal"
    "triple (at_any S) (cancelled_now R cfg) (\<lambda>_. at_any S) legal"
    "triple (at_any S) (instant_now R) (\<lambda>_. at_any S) legal"
    "triple (at_any S) (observe f) (\<lambda>_. at_any S) legal"
    "triple (at_any S) (begin_run R) (\<lambda>_. at_any S) legal"
  by (rule triple_silent, rule elapsed_obeys clock_obeys observe_obeys)+

lemma load_triples:
  "triple (at_any {Begun, Verified}) (start_load x cfg)
     (\<lambda>h w. (h \<noteq> None \<longrightarrow> rc_load cfg \<noteq> None) \<and> at_any (if h = None then {Begun, Verified} else {Loaded}) w) legal"
  "handle \<noteq> None \<longrightarrow> rc_load cfg \<noteq> None \<Longrightarrow>
     triple (at_any {Injected (handle \<noteq> None)}) (stop_load cfg handle) (\<lambda>_. at_any {Injected False}) legal"
  by (auto simp: triple_def start_load_def stop_load_def ret_def at_any_def advance_def protocol_append
      split: option.splits sum.splits)

section \<open>The method phase\<close>

lemma activity_step_at:
  assumes "activity_step R hs tok a st w = (st', w')" "at_any {Injecting l} w"
  shows "at_any {Injecting l} w'"
proof -
  have e: "at_any {Injecting l} (emit R hs ev w)" if "activity_name ev \<noteq> None" for ev
    using that by (intro at_any_emit[OF assms(2)], (cases l; cases ev; auto), simp)
  have c: "at_any {Injecting l} (advance [Called ByMethod a] w)" by (rule at_any_advance[OF assms(2)]) simp
  show ?thesis
    using assms at_any_advance_Nil[OF e[of "BeforeActivity (act_name a)"]] at_any_advance_Nil[OF e[of "AfterActivity (act_name a)"]] c
    by (cases st) (auto simp: Let_def at_any_advance_Nil split: if_splits)
qed

lemma monitor_at:
  assumes "at_any {p} w" "p = Injecting l \<or> p = Injected l"
  shows "guard_eval R gs m0 m w = (m', w') \<Longrightarrow> at_any {p} w'" "sampler_probe R sa w = (sa', v') \<Longrightarrow> at_any {p} v'"
proof -
  have "extends (stays {p}) w (advance os w)" if "set os \<subseteq> {x. (\<exists>a. x = Called ByGuard a) \<or> (\<exists>i safe. x = GuardSeen i safe)}" for os
    using that assms(2) by (intro extends_advance) (auto simp: stays_def)
  then have g: "at_any {p} (advance os w)" if "set os \<subseteq> {x. (\<exists>a. x = Called ByGuard a) \<or> (\<exists>i safe. x = GuardSeen i safe)}" for os
    using that at_any_stays[OF assms(1)] by blast
  show "guard_eval R gs m0 m w = (m', w') \<Longrightarrow> at_any {p} w'"
    by (auto simp: guard_eval_def Let_def split: reply.splits if_splits intro!: g)
  assume a: "sampler_probe R sa w = (sa', v')"
  obtain r w1 where s: "sample_probe R BySampler (hd (sa_todo sa)) w = (r, w1)" by fastforce
  have "extends (stays {p}) w w1"
    by (rule obeysD[OF sample_probe_obeys s]) (use assms(2) in \<open>auto simp: stays_def\<close>)
  moreover have "v' = w1" using a s by (auto simp: sampler_probe_def split: sum.splits prod.splits)
  ultimately show "at_any {p} v'" using at_any_stays[OF assms(1)] by simp
qed

definition phase_of :: "bool \<Rightarrow> mstate \<Rightarrow> lc" where
  "phase_of l s = (if ms_joined s then Injected l else Injecting l)"

lemma phase_step:
  assumes "method_step X s s'" "join_ok s" "at_any {phase_of l s} (ms_world s)"
  shows "at_any {phase_of l s'} (ms_world s')"
  using assms(1)
proof (cases rule: method_step.cases)
  case (fg_step a st st' w')
  have "\<not> ms_joined s" using assms(2) fg_step(2) by (auto simp: join_ok_def activities_over_def)
  then show ?thesis using activity_step_at[OF fg_step(4)] assms(3) fg_step(1) by (simp add: phase_of_def)
next
  case (bg_step i a st st' w')
  have "\<not> ms_joined s" using assms(2) bg_step(2-5) by (auto simp: join_ok_def dest: over_bg)
  then show ?thesis using activity_step_at[OF bg_step(6)] assms(3) bg_step(1) by (simp add: phase_of_def set_bg_def)
next
  case (guard_evaluates m' w')
  have "at_any {phase_of l s} w'" by (rule monitor_at(1)[OF assms(3) _ guard_evaluates(4)]) (simp add: phase_of_def)
  then show ?thesis using guard_evaluates(1) by (simp add: phase_of_def)
next
  case (sampler_probes sa' w')
  have "at_any {phase_of l s} w'" by (rule monitor_at(2)[OF assms(3) _ sampler_probes(4)]) (simp add: phase_of_def)
  then show ?thesis using sampler_probes(1) by (simp add: phase_of_def)
next
  case joins
  then show ?thesis using at_any_emit[OF assms(3), of "{Injected l}" AfterMethod] by (simp add: phase_of_def)
qed (use assms(3) in \<open>simp_all add: phase_of_def set_bg_def at_any_advance_Nil\<close>)

interpretation phasing: stable_system "method_step X" "\<lambda>s. join_ok s \<and> at_any {phase_of l s} (ms_world s)" for X l
  by unfold_locales (blast intro: phase_step join_step)

lemma method_triple:
  assumes "schedules sched X"
  shows "triple (at_any {Injecting l}) (run_method sched X) (\<lambda>s w. at_any {Injected l} w) legal"
  unfolding triple_def
proof (intro allI impI)
  fix w r w'
  assume w: "at_any {Injecting l} w" and r: "run_method sched X w = (r, w')"
  let ?s = "sched X w"
  have m: "method_steps X (method_start X w) ?s" "method_over ?s" using assms by (auto simp: schedules_def)
  have i: "join_ok ?s \<and> at_any {phase_of l ?s} (ms_world ?s)"
    by (rule phasing.steps_inv[OF m(1)[unfolded method_steps_def]])
       (simp add: join_ok_start phase_of_def method_start_fields w)
  show "case r of Inr s \<Rightarrow> at_any {Injected l} w' | Inl e \<Rightarrow> legal w'"
  proof (cases "ms_crash ?s")
    case None
    then have "ms_joined ?s" using m(2) i by (auto simp: method_over_def join_ok_def)
    then show ?thesis using r i None by (auto simp: run_method_def Let_def phase_of_def)
  next
    case (Some msg)
    then show ?thesis using r i at_any_legal by (auto simp: run_method_def Let_def)
  qed
qed

section \<open>The run\<close>

lemma abort_triple: "triple (at_any {Verified}) (abort_run R hs cfg x st before) (\<lambda>_. at_any {RunOver}) legal"
  unfolding abort_run_def
  by (rule triple_bindc[OF stamp_triple(1) triple_bindc[OF rollbacks_triple finish_triple]]) simp_all

lemma cancel_triple: "S \<subseteq> {Begun, Verified} \<Longrightarrow> triple (at_any S) (cancel_run R hs x st before) (\<lambda>_. at_any {RunOver}) legal"
  unfolding cancel_run_def by (rule triple_bindc[OF stamp_triple(1) finish_triple]) auto

lemma halt_triple:
  "handle \<noteq> None \<longrightarrow> rc_load cfg \<noteq> None \<Longrightarrow>
    triple (at_any {Injected (handle \<noteq> None)}) (halt_run R hs cfg x st before handle mr h) (\<lambda>_. at_any {RunOver}) legal"
  unfolding halt_run_def
  by (rule triple_bindc[OF load_triples(2) triple_bindc[OF stamp_triple(4) triple_bindc[OF rollbacks_triple
        triple_bindc[OF stamp_triple(2) triple_bindc[OF stamp_triple(1) finish_triple]]]]]) simp_all

lemma interrupt_triple:
  "handle \<noteq> None \<longrightarrow> rc_load cfg \<noteq> None \<Longrightarrow>
    triple (at_any {Injected (handle \<noteq> None)}) (interrupt_run R hs cfg x st before handle mr) (\<lambda>_. at_any {RunOver}) legal"
  unfolding interrupt_run_def
  by (rule triple_bindc[OF load_triples(2) triple_bindc[OF rollbacks_triple
        triple_bindc[OF stamp_triple(1) finish_triple]]]) simp_all

lemma conclude_triple:
  assumes "S \<subseteq> {Injected False, Reverified}"
  shows "triple (at_any S) (conclude_run R hs cfg x st before mr post load after) (\<lambda>_. at_any {RunOver}) legal"
proof -
  have 1: "S \<subseteq> {Verified, Injected False, Reverified}" using assms by auto
  have 2: "insert Undone S \<subseteq> {Begun, Verified, Injected False, Reverified, Undone}" using assms by auto
  show ?thesis unfolding conclude_run_def Let_def
    by (rule triple_bindc[OF stamp_triple(3) triple_bindc[OF rollbacks_triple[OF 1]
        triple_bindc[OF stamp_triple(3) triple_bindc[OF stamp_triple(1) finish_triple[OF 2]]]]])
qed

lemma hypothesis_after_triple:
  "triple (at_any {Injected False}) (hypothesis_after R hs cfg x) (\<lambda>_. at_any {Injected False, Reverified}) legal"
proof -
  have "triple (at_any {Injected False}) (run_hypothesis_phase R hs x) (\<lambda>_. at_any {Injected False, Reverified}) legal"
    by (rule triple_conseq[OF hypothesis_triple[of "Injected False" Reverifying Reverified]])
       (auto intro: at_any_mono split: option.splits)
  moreover have "triple (at_any {Injected False}) (ret None) (\<lambda>_. at_any {Injected False, Reverified}) legal"
    by (rule triple_ret) (rule at_any_mono, auto)
  ultimately show ?thesis unfolding hypothesis_after_def by (intro triple_bindc[OF stamp_triple(3)] triple_if)
qed

lemma recovery_triple: "triple (at_any {Injected l}) (measure_recovery R cfg sm x) (\<lambda>_. at_any {Injected l}) legal"
  by (rule triple_stays[OF recovery_obeys]) (simp add: stays_def)

lemma end_run_triple:
  assumes "handle \<noteq> None \<longrightarrow> rc_load cfg \<noteq> None"
  shows "triple (at_any {Injected (handle \<noteq> None)}) (end_run R hs cfg sm x st before handle X s mr) (\<lambda>_. at_any {RunOver}) legal"
proof -
  have "triple (at_any {Injected (handle \<noteq> None)}) (complete_run R hs cfg sm x st before handle mr) (\<lambda>_. at_any {RunOver}) legal"
    unfolding complete_run_def
    by (rule triple_bindc[OF recovery_triple triple_bindc[OF load_triples(2)[OF assms]
          triple_bindc[OF hypothesis_after_triple conclude_triple]]]) simp
  note complete = this
  show ?thesis
  proof (cases "method_halt s")
    case None
    show ?thesis unfolding end_run_def None option.case
      by (intro triple_bindc[OF stamp_triple(5)] triple_if interrupt_triple[OF assms] complete)
  next
    case (Some h)
    show ?thesis unfolding end_run_def Some option.case by (rule halt_triple[OF assms])
  qed
qed

lemma inject_triple:
  assumes "\<forall>t. schedules sched (method_ctx R hs cfg sm x t)" "S \<subseteq> {Begun, Verified}"
  shows "triple (at_any S) (inject_faults R sched hs cfg sm x st before) (\<lambda>_. at_any {RunOver}) legal"
proof -
  let ?S = "\<lambda>h :: nat option. if h = None then {Begun, Verified} else {Loaded}"
  have body: "triple (\<lambda>w. (handle \<noteq> None \<longrightarrow> rc_load cfg \<noteq> None) \<and> at_any (?S handle) w)
      (seqc (emits R hs BeforeMethod) (bindc (observe (rv_clock R)) (\<lambda>during_at. bindc (instant_now R) (\<lambda>method_started.
        let X = method_ctx R hs cfg sm x method_started in bindc (run_method sched X) (\<lambda>s.
        end_run R hs cfg sm x st before handle X s (report_of X during_at s)))))) (\<lambda>_. at_any {RunOver}) legal" for handle
  proof (rule triple_pre[where c = "handle \<noteq> None \<longrightarrow> rc_load cfg \<noteq> None"])
    assume h: "handle \<noteq> None \<longrightarrow> rc_load cfg \<noteq> None"
    have e: "triple (at_any (?S handle)) (emits R hs BeforeMethod) (\<lambda>_. at_any {Injecting (handle \<noteq> None)}) legal"
      by (rule triple_emits) auto
    have m: "triple (at_any {Injecting (handle \<noteq> None)}) (run_method sched (method_ctx R hs cfg sm x t))
        (\<lambda>_. at_any {Injected (handle \<noteq> None)}) legal" for t
      using method_triple[of sched "method_ctx R hs cfg sm x t"] assms(1) by auto
    show "triple (\<lambda>w. (handle \<noteq> None \<longrightarrow> rc_load cfg \<noteq> None) \<and> at_any (?S handle) w)
      (seqc (emits R hs BeforeMethod) (bindc (observe (rv_clock R)) (\<lambda>during_at. bindc (instant_now R) (\<lambda>method_started.
        let X = method_ctx R hs cfg sm x method_started in bindc (run_method sched X) (\<lambda>s.
        end_run R hs cfg sm x st before handle X s (report_of X during_at s)))))) (\<lambda>_. at_any {RunOver}) legal"
      unfolding Let_def
      by (rule triple_conseq[OF triple_seqc[OF e triple_bindc[OF stamp_triple(5) triple_bindc[OF stamp_triple(4)
            triple_bindc[OF m end_run_triple[OF h]]]]]]) auto
  qed simp
  have "triple (at_any {Begun, Verified}) (inject_faults R sched hs cfg sm x st before) (\<lambda>_. at_any {RunOver}) legal"
    unfolding inject_faults_def by (rule triple_bindc[OF load_triples(1) body])
  then show ?thesis by (rule triple_conseq) (auto intro: at_any_mono[OF _ assms(2)])
qed

lemma live_triple:
  assumes "\<forall>t. schedules sched (method_ctx R hs cfg sm x t)"
  shows "triple (at_any {Idle}) (live_run R sched hs cfg sm x) (\<lambda>_. at_any {RunOver}) legal"
proof -
  let ?V = "\<lambda>h :: hypothesis_result option. case h of None \<Rightarrow> {Begun} | Some _ \<Rightarrow> {Verified}"
  have V: "?V before \<subseteq> {Begun, Verified}" for before by (auto split: option.splits)
  have body: "triple (at_any (?V before)) (if map_option hr_met before = Some False then abort_run R hs cfg x st before
      else bindc (cancelled_now R cfg) (\<lambda>c. if c then cancel_run R hs x st before
        else inject_faults R sched hs cfg sm x st before)) (\<lambda>_. at_any {RunOver}) legal" for st before
  proof (rule triple_if)
    assume "map_option hr_met before = Some False"
    then show "triple (at_any (?V before)) (abort_run R hs cfg x st before) (\<lambda>_. at_any {RunOver}) legal"
      using abort_triple by auto
  next
    show "triple (at_any (?V before)) (bindc (cancelled_now R cfg) (\<lambda>c. if c then cancel_run R hs x st before
        else inject_faults R sched hs cfg sm x st before)) (\<lambda>_. at_any {RunOver}) legal"
      by (intro triple_bindc[OF stamp_triple(3)] triple_if cancel_triple[OF V] inject_triple[OF assms V])
  qed
  have e: "triple (at_any {Idle}) (emits R hs BeforeExperiment) (\<lambda>_. at_any {Begun}) legal"
    by (rule triple_emits) simp_all
  have h: "triple (at_any {Begun}) (run_hypothesis_phase R hs x) (\<lambda>h. at_any (?V h)) legal"
    by (rule hypothesis_triple) simp_all
  show ?thesis unfolding live_run_def
    by (rule triple_bindc[OF stamp_triple(6) triple_seqc[OF e triple_bindc[OF h body]]])
qed

text \<open>C1: the runner implements the abstract protocol of a run: events come in the order of the phases, providers
  are called only in the phases that may call them (faults only while the method runs, rollbacks only
  after it), a started load is stopped before anything is verified or rolled back, and a run that
  returns has gone through to its last event or was cancelled before it did anything; a panic or a
  refusal leaves a legal beginning of the protocol.\<close>

theorem runner_follows_protocol:
  assumes "\<forall>t. schedules sched (method_ctx R hs cfg sm x t)" "rc_mode cfg \<noteq> ModeOnly" "w_obs w = []"
    "run_experiment_with_sampling R sched hs cfg sm x w = (r, w')"
  shows "case r of
      Inr j \<Rightarrow> protocol (w_obs w') = Some RunOver \<or> (jr_status j = Interrupted \<and> w_obs w' = [])
    | Inl e \<Rightarrow> protocol (w_obs w') \<noteq> None"
proof -
  have i: "at_any {Idle} (advance [] w)" using assms(3) by (simp add: at_any_def advance_def protocol_def)
  consider (early) "w_obs w' = []" "\<forall>j. r = Inr j \<longrightarrow> jr_status j = Interrupted"
    | (live) "live_run R sched hs cfg sm x (advance [] w) = (r, w')"
    using assms(2-4)
    by (auto simp: run_experiment_with_sampling_def cancelled_now_def make_interrupted_journal_def fail_def ret_def
        bindc_def observe_def advance_def journal_for_def split: if_splits)
  then show ?thesis
  proof cases
    case early
    then show ?thesis by (auto simp: protocol_def split: sum.splits)
  next
    case live
    from tripleD[OF live_triple[OF assms(1)] i live] show ?thesis by (auto simp: at_any_def split: sum.splits)
  qed
qed

section \<open>Observation without faults\<close>

text \<open>A baseline-only run is free of faults: it does nothing but run the probes of the hypothesis, all of
  them probes; no action, rollback, guard, load or control of the experiment is called, and the journal
  has no method and no rollback results.\<close>

theorem baseline_only_is_fault_free:
  assumes "rc_mode cfg = ModeOnly" "run_experiment_with_sampling R sched hs cfg sm x w = (r, w')"
  shows "extends (\<lambda>ob. (\<exists>ev. ob = Emitted ev \<and> activity_name ev \<noteq> None) \<or> (\<exists>h p. exp_hypothesis x = Some h
      \<and> p \<in> set (hyp_probes h) \<and> act_type p = Probe \<and> ob = Called ByHypothesis p)) w w'
    \<and> (\<forall>j. r = Inr j \<longrightarrow> jr_method j = [] \<and> jr_rollback j = [])"
proof -
  let ?P = "\<lambda>ob. (\<exists>ev. ob = Emitted ev \<and> activity_name ev \<noteq> None) \<or> (\<exists>h p. exp_hypothesis x = Some h
      \<and> p \<in> set (hyp_probes h) \<and> act_type p = Probe \<and> ob = Called ByHypothesis p)"
  have r: "run_probe_only R cfg x w = (r, w')" using assms by (simp add: run_experiment_with_sampling_def)
  have "obeys (extends ?P) (run_probe_only R cfg x)"
  proof (cases "exp_hypothesis x")
    case (Some h)
    show ?thesis
    proof (cases "hyp_probes h = [] \<or> \<not> list_all (\<lambda>p. act_type p = Probe) (hyp_probes h)")
      case True
      then show ?thesis unfolding run_probe_only_def Some option.case by simp
    next
      case False
      have e: "obeys (extends ?P) (evaluate_hypothesis R [] h)"
      proof (rule evaluate_obeys)
        show "activity_obs [] ob \<Longrightarrow> ?P ob" for ob by (cases "([] :: handler list, ob)" rule: activity_obs.cases) auto
        show "p \<in> set (hyp_probes h) \<Longrightarrow> ?P (Called ByHypothesis p)" for p using False Some by (auto simp: list_all_iff)
      qed
      show ?thesis unfolding run_probe_only_def make_interrupted_journal_def Let_def Some option.case if_not_P[OF False]
        by (intro tracing.obeys_rules clock_obeys observe_obeys elapsed_obeys e[unfolded Some])
    qed
  qed (simp add: run_probe_only_def)
  from obeysD[OF this r] show ?thesis
    using probe_only_spec[of R cfg x w _ w'] r by (auto simp: journal_for_def)
qed

end
