(* ===== verification/Runner_Recovery.thy ===== *)
theory Runner_Recovery
  imports Runner_Phases "HOL-Library.Multiset"
begin

text \<open>
  The post phase: the recovery loop ends within the timeout, and the recovery its result
  reports is what the last sampling round saw.
\<close>

section \<open>The recovery loop ends\<close>

fun sampler_call :: "obs \<Rightarrow> bool" where
  "sampler_call (Called BySampler _) = True"
| "sampler_call _ = False"

definition sampler_calls :: "world \<Rightarrow> nat" where
  "sampler_calls w = length (filter sampler_call (w_obs w))"

definition monotone_clock :: "renv \<Rightarrow> bool" where
  "monotone_clock R \<longleftrightarrow> (\<forall>s t. s \<le> t \<longrightarrow> rv_mono R s \<le> rv_mono R t)"

definition instant :: "renv \<Rightarrow> world \<Rightarrow> nat" where
  "instant R w = rv_mono R (w_tick w) + w_slept w"

lemma extends_instant: "monotone_clock R \<Longrightarrow> extends P w w' \<Longrightarrow> instant R w \<le> instant R w'"
  by (auto simp: instant_def extends_def monotone_clock_def intro: add_mono)

lemma instant_now_eq: "instant_now R w = (Inr (instant R w), advance [] w)"
  by (simp add: instant_now_def instant_def)

lemma sampler_calls_advance: "sampler_calls (advance os w) = sampler_calls w + length (filter sampler_call os)"
  by (simp add: sampler_calls_def advance_def)

lemma sample_probe_calls: "sample_probe R BySampler p w = (r, w') \<Longrightarrow> sampler_calls w' = sampler_calls w + 1"
  by (auto simp: sample_probe_def bindc_def instant_now_def observe_def call_provider_def ret_def Let_def sampler_calls_advance
      split: reply.splits)

lemma sample_round_calls: "sample_probe_round R BySampler ps w = (r, w') \<Longrightarrow> sampler_calls w' \<le> sampler_calls w + length ps"
proof (induction ps arbitrary: w r w')
  case (Cons p ps)
  obtain r1 w1 where 1: "sample_probe R BySampler p w = (r1, w1)" by fastforce
  obtain r2 w2 where 2: "sample_probe_round R BySampler ps w1 = (r2, w2)" by fastforce
  show ?case using Cons.prems Cons.IH[OF 2] sample_probe_calls[OF 1]
    by (auto simp: bindc_def 1 2 ret_def split: sum.splits prod.splits)
qed simp

lemma sample_probe_unwinds: "sample_probe R og p w = (Inl e, w') \<Longrightarrow> e \<noteq> OutOfRounds"
  by (auto simp: sample_probe_def bindc_def instant_now_def observe_def call_provider_def ret_def Let_def split: reply.splits)

lemma sample_round_unwinds: "sample_probe_round R og ps w = (Inl e, w') \<Longrightarrow> e \<noteq> OutOfRounds"
  by (induction ps arbitrary: w) (auto simp: bindc_eq dest: sample_probe_unwinds split: prod.splits)

text \<open>One round: it stops the loop, or sleeps and goes on with at least \<open>interval\<close> more on the clock.\<close>

lemma post_round_cases:
  assumes "monotone_clock R" "post_rounds (Suc n) R cfg ps interval deadline m w = (r, w')"
  obtains (stop) "r \<noteq> Inl OutOfRounds" "sampler_calls w' \<le> sampler_calls w + length ps"
  | (again) m1 w1 where "post_rounds n R cfg ps interval deadline m1 w1 = (r, w')" "instant R w + interval \<le> instant R w1"
      "instant R w + interval \<le> deadline" "sampler_calls w1 \<le> sampler_calls w + length ps"
proof -
  obtain r1 w1 where 1: "sample_probe_round R BySampler ps w = (r1, w1)" by fastforce
  have e: "extends (\<lambda>_. True) w w1" using obeysD[OF sample_round_obeys[of ps "\<lambda>_. True" BySampler R] 1] by simp
  show thesis
  proof (cases r1)
    case (Inl e)
    then have "r = Inl e" "w' = w1" "e \<noteq> OutOfRounds"
      using assms(2) 1 sample_round_unwinds[OF 1[unfolded Inl]] by (auto simp: bindc_def)
    then show ?thesis using stop sample_round_calls[OF 1] by blast
  next
    case (Inr x)
    then obtain rs recovered where x: "x = (rs, recovered)" by fastforce
    let ?c = "caller_cancelled R cfg (w_tick w1)" and ?w2 = "advance [] w1"
    let ?w3 = "advance [] ?w2"
    have t: "instant R w \<le> instant R ?w2" "instant R ?w2 \<le> instant R (advance [] ?w3)"
      using extends_instant[OF assms(1) tracing.le_trans[OF e extends_advance]]
        extends_instant[OF assms(1) tracing.le_trans[OF extends_advance extends_advance], where w = ?w2] by auto
    have n: "sampler_calls ?w3 = sampler_calls w1" "sampler_calls ?w2 = sampler_calls w1" by (simp_all add: sampler_calls_advance)
    show ?thesis
    proof (cases "recovered \<or> ?c \<or> deadline < instant R ?w2 + interval")
      case True
      then have "r = Inr (append_round m rs)" "w' = ?w3"
        using assms(2) 1 Inr x by (auto simp: bindc_def observe_def instant_now_eq ret_def)
      then show ?thesis using stop sample_round_calls[OF 1] n by simp
    next
      case False
      let ?w4 = "snd (sleep_for interval ?w3)"
      have "post_rounds n R cfg ps interval deadline (append_round m rs) ?w4 = (r, w')"
        using assms(2) 1 Inr x False by (simp add: bindc_def seqc_def observe_def instant_now_eq sleep_for_def)
      moreover have "instant R ?w4 = instant R (advance [] ?w3) + interval" "sampler_calls ?w4 = sampler_calls ?w3"
        by (simp_all add: sleep_for_def instant_def advance_def sampler_calls_def)
      ultimately show ?thesis using again t n sample_round_calls[OF 1] False by simp
    qed
  qed
qed

lemma post_rounds_end:
  assumes "monotone_clock R" "deadline < instant R w + Suc k * interval" "k < n"
    "post_rounds n R cfg ps interval deadline m w = (r, w')"
  shows "r \<noteq> Inl OutOfRounds \<and> sampler_calls w' \<le> sampler_calls w + Suc k * length ps"
  using assms(2-4)
proof (induction k arbitrary: n m w)
  case (0 n m w)
  then obtain n' where "n = Suc n'" by (cases n) auto
  then have p: "post_rounds (Suc n') R cfg ps interval deadline m w = (r, w')" using 0 by simp
  show ?case by (rule post_round_cases[OF assms(1) p]) (use 0 in auto)
next
  case (Suc k n m w)
  then obtain n' where n: "n = Suc n'" by (cases n) auto
  then have p: "post_rounds (Suc n') R cfg ps interval deadline m w = (r, w')" using Suc by simp
  show ?case
  proof (rule post_round_cases[OF assms(1) p])
    fix m1 w1
    assume a: "post_rounds n' R cfg ps interval deadline m1 w1 = (r, w')" "instant R w + interval \<le> instant R w1"
      "sampler_calls w1 \<le> sampler_calls w + length ps"
    have "deadline < instant R w1 + Suc k * interval" using Suc.prems(1) a(2) by simp
    moreover have "k < n'" using Suc.prems n by simp
    ultimately have "r \<noteq> Inl OutOfRounds \<and> sampler_calls w' \<le> sampler_calls w1 + Suc k * length ps" using Suc.IH a(1) by blast
    then show ?thesis using a(3) by auto
  qed auto
qed

text \<open>C30: the recovery loop ends: with a positive sampling interval and a clock that does not run backwards
  it takes at most one round more than the intervals that fit in the timeout, whatever the probes
  answer, so the rounds the model allows it are enough.\<close>

theorem recovery_loop_ends:
  assumes "monotone_clock R" "0 < sm_interval sm" "sm_recovery_timeout sm div sm_interval sm < rv_rounds R"
    "collect_post_samples R cfg sm h w = (r, w')"
  shows "r \<noteq> Inl OutOfRounds
    \<and> sampler_calls w' \<le> sampler_calls w + Suc (sm_recovery_timeout sm div sm_interval sm) * length (hyp_probes h)"
proof -
  let ?k = "sm_recovery_timeout sm div sm_interval sm" and ?w1 = "advance [] w"
  obtain r1 w1 where p: "post_rounds (rv_rounds R) R cfg (hyp_probes h) (sm_interval sm)
      (instant R w + sm_recovery_timeout sm) [] ?w1 = (r1, w1)" by fastforce
  have "instant R w \<le> instant R ?w1" by (rule extends_instant[OF assms(1) extends_advance[of "[]" "\<lambda>_. True"]]) simp
  moreover have "sm_recovery_timeout sm < Suc ?k * sm_interval sm"
    using assms(2) by (metis dividend_less_div_times mult_Suc)
  ultimately have "instant R w + sm_recovery_timeout sm < instant R ?w1 + Suc ?k * sm_interval sm" by linarith
  from post_rounds_end[OF assms(1) this assms(3) p]
  show ?thesis using assms(4) p
    by (auto simp: collect_post_samples_def bindc_def instant_now_eq ret_def sampler_calls_advance split: sum.splits)
qed

section \<open>What the post phase reports\<close>

definition well_keyed :: "string set \<Rightarrow> samples \<Rightarrow> bool" where
  "well_keyed names m \<longleftrightarrow> distinct (map fst m) \<and> fst ` set m \<subseteq> names"

lemma append_sample_keys: "fst ` set (append_sample r m) = insert (res_name r) (fst ` set m)"
  by (induction r m rule: append_sample.induct) auto

lemma append_sample_distinct: "distinct (map fst m) \<Longrightarrow> distinct (map fst (append_sample r m))"
proof (induction r m rule: append_sample.induct)
  case (2 r nm rs m)
  then show ?case using append_sample_keys[of r m] by (auto simp: image_iff)
qed simp

lemma append_sample_map: "map_of (append_sample r m) =
    (map_of m)(res_name r \<mapsto> (case map_of m (res_name r) of None \<Rightarrow> [] | Some rs \<Rightarrow> rs) @ [r])"
  by (induction r m rule: append_sample.induct) (auto simp: fun_eq_iff)

lemma append_round_Cons: "append_round m (r # rs) = append_round (append_sample r m) rs"
  by (simp add: append_round_def)

lemma append_round_keyed: "well_keyed names m \<Longrightarrow> res_name ` set rs \<subseteq> names \<Longrightarrow> well_keyed names (append_round m rs)"
proof (induction rs arbitrary: m)
  case (Cons r rs)
  then show ?case using Cons.IH[of "append_sample r m"] append_sample_distinct[of m r]
    by (simp add: well_keyed_def append_sample_keys append_round_Cons)
qed (simp add: append_round_def)

lemma append_round_other: "nm \<notin> res_name ` set rs \<Longrightarrow> map_of (append_round m rs) nm = map_of m nm"
  by (induction rs arbitrary: m) (auto simp: append_round_Cons append_sample_map append_round_def)

lemma append_round_last:
  "distinct (map res_name rs) \<Longrightarrow> r \<in> set rs \<Longrightarrow> \<exists>old. map_of (append_round m rs) (res_name r) = Some (old @ [r])"
proof (induction rs arbitrary: m)
  case (Cons x rs)
  show ?case
  proof (cases "r = x")
    case True
    then have "res_name x \<notin> res_name ` set rs" using Cons.prems by simp
    then show ?thesis using True append_round_other[of "res_name x" rs "append_sample x m"]
      by (simp add: append_round_Cons append_sample_map)
  next
    case False
    then show ?thesis using Cons by (simp add: append_round_Cons)
  qed
qed simp

lemma sample_round_results:
  "sample_probe_round R og ps w = (Inr (rs, ok), w') \<Longrightarrow>
    map res_name rs = map act_name ps \<and> (ok \<longleftrightarrow> (\<forall>r \<in> set rs. res_status r = ActSucceeded))"
proof (induction ps arbitrary: w rs ok)
  case (Cons p ps)
  obtain r ok1 w1 rs1 ok2 where s: "sample_probe R og p w = (Inr (r, ok1), w1)"
    "sample_probe_round R og ps w1 = (Inr (rs1, ok2), w')" "(r # rs1, ok1 \<and> ok2) = (rs, ok)"
    using Cons.prems by (simp add: split_beta) (metis prod.collapse)
  have "res_name r = act_name p \<and> (ok1 \<longleftrightarrow> res_status r = ActSucceeded)"
    using s(1) by (auto simp: sample_probe_def Let_def)
  then show ?case using Cons.IH[OF s(2)] s(3) by auto
qed (simp add: ret_def)

lemma full_recovery_of_round:
  assumes "well_keyed (res_name ` set rs) m" "distinct (map res_name rs)"
    "mset m' = mset (append_round m rs)" "build_post_result started ended m' = Some po"
  shows "po_full_recovery po \<longleftrightarrow> (\<forall>r \<in> set rs. res_status r = ActSucceeded)"
proof -
  let ?m = "append_round m rs"
  have k: "well_keyed (res_name ` set rs) ?m" using assms(1) by (rule append_round_keyed) simp
  have dist: "distinct (map fst ?m)" using k by (simp add: well_keyed_def)
  have "po_full_recovery po \<longleftrightarrow> (\<forall>p \<in> set ?m. pp_returned (probe_post_of started p))"
    using assms(3,4) mset_eq_setD[OF assms(3)] by (auto simp: build_post_result_def Let_def list_all_iff split: if_splits)
  also have "\<dots> \<longleftrightarrow> (\<forall>r \<in> set rs. res_status r = ActSucceeded)"
  proof (intro iffI ballI)
    fix r assume all: "\<forall>p \<in> set ?m. pp_returned (probe_post_of started p)" and r: "r \<in> set rs"
    obtain old where "map_of ?m (res_name r) = Some (old @ [r])" using append_round_last[OF assms(2) r] by blast
    then have "(res_name r, old @ [r]) \<in> set ?m" by (rule map_of_SomeD)
    then show "res_status r = ActSucceeded" using all by (fastforce simp: probe_post_of_def Let_def)
  next
    fix p assume all: "\<forall>r \<in> set rs. res_status r = ActSucceeded" and p: "p \<in> set ?m"
    obtain nm ss where nm: "p = (nm, ss)" by fastforce
    then obtain r where r: "r \<in> set rs" "nm = res_name r" using k p by (force simp: well_keyed_def)
    obtain old where "map_of ?m (res_name r) = Some (old @ [r])" using append_round_last[OF assms(2) r(1)] by blast
    then have "ss = old @ [r]" using p nm r(2) map_of_is_SomeI[OF dist] by fastforce
    then show "pp_returned (probe_post_of started p)" using all r(1) nm by (simp add: probe_post_of_def Let_def)
  qed
  finally show ?thesis .
qed

lemma post_rounds_last:
  assumes "post_rounds n R cfg ps interval deadline m w = (Inr m', w')" "well_keyed (act_name ` set ps) m"
  shows "\<exists>m1 rs ok w1 w2. well_keyed (act_name ` set ps) m1 \<and> extends (\<lambda>_. True) w w1
    \<and> sample_probe_round R BySampler ps w1 = (Inr (rs, ok), w2) \<and> m' = append_round m1 rs"
  using assms
proof (induction n arbitrary: m w)
  case (Suc n)
  obtain rs ok w1 where r: "sample_probe_round R BySampler ps w = (Inr (rs, ok), w1)"
    using Suc.prems(1) by auto
  let ?w2 = "advance [] (advance [] w1)"
  let ?w3 = "snd (sleep_for interval ?w2)"
  have n: "map res_name rs = map act_name ps" using sample_round_results[OF r] by simp
  then have names: "res_name ` set rs = act_name ` set ps" by (metis list.set_map)
  consider (stop) "m' = append_round m rs" | (again) "post_rounds n R cfg ps interval deadline (append_round m rs) ?w3 = (Inr m', w')"
    using Suc.prems(1) r
    by (auto simp: bindc_def seqc_def observe_def instant_now_eq sleep_for_def ret_def split: if_splits)
  then show ?case
  proof cases
    case stop
    then show ?thesis using r Suc.prems(2) tracing.le_refl by blast
  next
    case again
    have "well_keyed (act_name ` set ps) (append_round m rs)"
      using append_round_keyed[OF Suc.prems(2)] names by simp
    from Suc.IH[OF again this] obtain m1 rs' ok' w4 w5 where w: "well_keyed (act_name ` set ps) m1"
      "extends (\<lambda>_. True) ?w3 w4" "sample_probe_round R BySampler ps w4 = (Inr (rs', ok'), w5)" "m' = append_round m1 rs'" by blast
    have "extends (\<lambda>_. True) w w1" using obeysD[OF sample_round_obeys[of ps "\<lambda>_. True" BySampler R] r] by simp
    moreover have "extends (\<lambda>_. True) w1 ?w3"
      by (auto simp: extends_def advance_def sleep_for_def)
    ultimately have "extends (\<lambda>_. True) w w4" using w(2) by (blast intro: tracing.le_trans)
    then show ?thesis using w by blast
  qed
qed (simp add: fail_def)

text \<open>The recovery the journal reports is the one the last round of probes saw: with probes of distinct
  names the post result claims full recovery, and carries a time to recovery, exactly when every
  probe of the last sampling round was within its tolerance.\<close>

theorem post_result_reports_recovery:
  assumes "collect_post_samples R cfg sm h w = (Inr m, w')" "distinct (map act_name (hyp_probes h))"
    "\<And>m. mset (rv_order R m) = mset m"
  shows "\<exists>rs ok w1 w2. extends (\<lambda>_. True) w w1 \<and> sample_probe_round R BySampler (hyp_probes h) w1 = (Inr (rs, ok), w2)
    \<and> (\<forall>po. build_post_result started ended m = Some po \<longrightarrow> po_full_recovery po = ok \<and> (po_mttr_s po \<noteq> None) = ok)"
proof -
  obtain m0 where p: "post_rounds (rv_rounds R) R cfg (hyp_probes h) (sm_interval sm)
      (instant R w + sm_recovery_timeout sm) [] (advance [] w) = (Inr m0, w')" "m = rv_order R m0"
    using assms(1) by (auto simp: collect_post_samples_def instant_now_eq ret_def)
  obtain m1 rs ok w1 w2 where l: "well_keyed (act_name ` set (hyp_probes h)) m1" "extends (\<lambda>_. True) (advance [] w) w1"
    "sample_probe_round R BySampler (hyp_probes h) w1 = (Inr (rs, ok), w2)" "m0 = append_round m1 rs"
    using post_rounds_last[OF p(1)] by (auto simp: well_keyed_def)
  have r: "map res_name rs = map act_name (hyp_probes h)" "ok \<longleftrightarrow> (\<forall>r \<in> set rs. res_status r = ActSucceeded)"
    using sample_round_results[OF l(3)] by auto
  then have names: "res_name ` set rs = act_name ` set (hyp_probes h)" by (metis list.set_map)
  have "po_full_recovery po = ok" if "build_post_result started ended m = Some po" for po
    using full_recovery_of_round[of rs m1 m started ended po] l(1,4) names r assms(2,3) p(2) that by simp
  moreover have "(po_mttr_s po \<noteq> None) = po_full_recovery po" if "build_post_result started ended m = Some po" for po
    using that by (auto simp: build_post_result_def Let_def split: if_splits)
  moreover have "extends (\<lambda>_. True) w w1"
    using tracing.le_trans[OF extends_advance l(2)] by simp
  ultimately show ?thesis using l(3) by blast
qed

definition sampled :: "activity_status \<Rightarrow> activity_result" where
  "sampled st = \<lparr> res_name = ''p'', res_type = Probe, res_status = st, res_started_at = 0, res_duration_ms = 1,
     res_output = None, res_error = None, res_trace_id = [], res_span_id = [] \<rparr>"

text \<open>Two probes of the same name share one list of samples, so the second hides the failure of the first.\<close>

theorem same_named_probe_hides_failure:
  "map_option po_full_recovery (build_post_result 0 1 (append_round [] [sampled ActFailed, sampled ActSucceeded])) = Some True"
  by (simp add: build_post_result_def append_round_def sampled_def probe_post_of_def Let_def)

end
