(* ===== verification/Method_Progress.thy ===== *)
theory Method_Progress
  imports Method_Safety
begin

text \<open>
  What the method phase accomplishes: undisturbed it runs every activity, and from every
  state it can reach it can go on to its end.
\<close>

section \<open>An undisturbed phase runs every activity\<close>

definition undisturbed :: "mctx \<Rightarrow> mstate \<Rightarrow> bool" where
  "undisturbed X s \<longleftrightarrow> \<not> pulled (gm_status (ms_monitor s))
     \<and> (\<forall>t < w_tick (ms_world s). \<not> caller_cancelled (mx_env X) (mx_config X) t) \<and> ms_crash s = None"

fun carries_on :: "stage \<Rightarrow> bool" where
  "carries_on (Ended None) = False"
| "carries_on (Ended (Some r)) = (res_status r \<noteq> ActSkipped)"
| "carries_on (PauseAfter _ r) = (res_status r \<noteq> ActSkipped)"
| "carries_on _ = True"

definition in_hand :: "mstate \<Rightarrow> string list" where
  "in_hand s = map res_name (ms_results s) @ (case ms_cur s of Some (a, st) \<Rightarrow> [act_name a] | None \<Rightarrow> []) @ map act_name (ms_todo s)"

definition foreground_of :: "mctx \<Rightarrow> activity list" where
  "foreground_of X = filter (\<lambda>a. \<not> act_background a) (exp_method (mx_experiment X))"

definition background_of :: "mctx \<Rightarrow> activity list" where
  "background_of X = filter act_background (exp_method (mx_experiment X))"

definition complete :: "mctx \<Rightarrow> mstate \<Rightarrow> bool" where
  "complete X s \<longleftrightarrow> (undisturbed X s \<longrightarrow>
     in_hand s = map act_name (foreground_of X) \<and> (\<forall>r \<in> set (ms_results s). res_status r \<noteq> ActSkipped)
     \<and> (\<forall>a st. ms_cur s = Some (a, st) \<longrightarrow> carries_on st \<and> st \<noteq> Queueing) \<and> (\<forall>p \<in> set (ms_bg s). carries_on (snd p)))"

lemma step_crash: "method_step X s s' \<Longrightarrow> ms_crash s' = None \<Longrightarrow> ms_crash s = None"
  by (cases rule: method_step.cases) (auto simp: set_bg_def)

lemma undisturbed_back: "method_step X s s' \<Longrightarrow> undisturbed X s' \<Longrightarrow> undisturbed X s"
proof -
  assume a: "method_step X s s'" "undisturbed X s'"
  have "\<not> pulled (gm_status (ms_monitor s))"
  proof
    assume "pulled (gm_status (ms_monitor s))"
    then show False using step_pulled[OF a(1)] a(2) by (simp add: undisturbed_def)
  qed
  then show ?thesis using step_tick[OF a(1)] step_crash[OF a(1)] a(2) by (simp add: undisturbed_def)
qed

lemma undisturbed_token:
  "undisturbed X s' \<Longrightarrow> undisturbed X s \<Longrightarrow> w_tick (ms_world s) < w_tick (ms_world s') \<Longrightarrow> \<not> method_token X s (w_tick (ms_world s))"
  by (simp add: undisturbed_def method_token_def)

lemma after_carries: "res_status r \<noteq> ActSkipped \<Longrightarrow> carries_on (after_stage R a r t)" "carries_on (start_stage R a t)"
  by (auto simp: after_stage_def start_stage_def split: option.splits)

lemma activity_step_carries:
  "activity_step R hs tok a st w = (st', w') \<Longrightarrow> carries_on st \<Longrightarrow> \<not> tok (w_tick w) \<Longrightarrow> carries_on st'"
  by (cases st) (auto simp: Let_def after_carries make_result_def panicked_result_def split: if_splits reply.splits)

lemma activity_step_later: "activity_step R hs tok a st w = (st', w') \<Longrightarrow> \<not> over st \<Longrightarrow> st \<noteq> Queueing \<Longrightarrow> w_tick w < w_tick w'"
  using tick_emit[of w R hs] by (cases st) (auto simp: Let_def tick_advance le_imp_less_Suc split: if_splits)

lemma complete_bg:
  assumes "complete X s" "undisturbed X s" "ms_bg s' = (ms_bg s)[i := (a, st')]" "carries_on st'"
    "ms_results s' = ms_results s" "ms_cur s' = ms_cur s" "ms_todo s' = ms_todo s"
  shows "complete X s'"
proof -
  have "\<forall>p \<in> set (ms_bg s). carries_on (snd p)" using assms(1,2) by (simp add: complete_def)
  then have "\<forall>p \<in> set (ms_bg s'). carries_on (snd p)"
    using assms(3,4) set_update_subset_insert[of "ms_bg s" i "(a, st')"] by auto
  then show ?thesis using assms(1,2,5-7) by (simp add: complete_def in_hand_def)
qed

lemma complete_step:
  assumes "method_step X s s'" "complete X s" "calls_ok s"
  shows "complete X s'"
proof (cases "undisturbed X s'")
  case False
  then show ?thesis by (simp add: complete_def)
next
  case True
  have u: "undisturbed X s" using undisturbed_back[OF assms(1) True] .
  note tok = undisturbed_token[OF True u]
  have c: "in_hand s = map act_name (foreground_of X)" "\<forall>r \<in> set (ms_results s). res_status r \<noteq> ActSkipped"
    "\<And>a st. ms_cur s = Some (a, st) \<Longrightarrow> carries_on st \<and> st \<noteq> Queueing" "\<forall>p \<in> set (ms_bg s). carries_on (snd p)"
    using assms(2) u by (auto simp: complete_def)
  show ?thesis
    using assms(1)
  proof (cases rule: method_step.cases)
    case (fg_step a st st' w')
    have "st \<noteq> Queueing" using c(3)[OF fg_step(2)] by simp
    then have "\<not> method_token X s (w_tick (ms_world s))"
      using tok activity_step_later[OF fg_step(4,3)] fg_step(1) by simp
    then have "carries_on st'" using activity_step_carries[OF fg_step(4)] c(3)[OF fg_step(2)] by blast
    moreover have "st' \<noteq> Queueing" using activity_step_stage[OF fg_step(4) \<open>st \<noteq> Queueing\<close>] .
    ultimately show ?thesis using c fg_step(1,2) by (simp add: complete_def in_hand_def)
  next
    case (fg_done a r)
    have "describes r a" using assms(3) fg_done(2) by (auto simp: calls_ok_def fits_all_def)
    then show ?thesis using c c(3)[OF fg_done(2)] fg_done by (simp add: complete_def in_hand_def describes_def)
  next
    case (fg_break a)
    then show ?thesis using c(3)[OF fg_break(2)] by simp
  next
    case (fg_crash a msg)
    then show ?thesis using True by (simp add: undisturbed_def)
  next
    case (fg_start a as w)
    have "start_stage R a t \<noteq> Queueing" for R t by (simp add: start_stage_def split: option.splits)
    then show ?thesis using c fg_start after_carries(2) by (simp add: complete_def in_hand_def)
  next
    case (bg_refused i a w)
    then show ?thesis using tok by (simp add: tick_advance)
  next
    case (bg_enters i a w)
    show ?thesis
      by (rule complete_bg[OF assms(2) u, of s' i a "start_stage (mx_env X) a (w_tick w)"])
         (use bg_enters after_carries(2) in \<open>simp_all add: set_bg_def\<close>)
  next
    case (bg_step i a st st' w')
    have "\<not> method_token X s (w_tick (ms_world s))"
      using tok activity_step_later[OF bg_step(6,5,4)] bg_step(1) by (simp add: set_bg_def)
    moreover have "carries_on st" using c(4) nth_mem[OF bg_step(2)] bg_step(3) by auto
    ultimately have "carries_on st'" using activity_step_carries[OF bg_step(6)] by blast
    then show ?thesis
      by (intro complete_bg[OF assms(2) u, of s' i a st']) (use bg_step in \<open>simp_all add: set_bg_def\<close>)
  qed (use c in \<open>simp_all add: complete_def in_hand_def\<close>)
qed

lemma step_bg_fst: "method_step X s s' \<Longrightarrow> map fst (ms_bg s') = map fst (ms_bg s)"
proof -
  have same: "(map fst xs)[i := a] = map fst xs" if "i < length xs" "xs ! i = (a, st)" for xs :: "(activity \<times> stage) list" and i a st
    using that by (metis fst_conv list_update_id nth_map)
  assume "method_step X s s'"
  then show ?thesis by (cases rule: method_step.cases) (auto simp: set_bg_def map_update same)
qed

interpretation completing: stable_system "method_step X" "\<lambda>s. complete X s \<and> calls_ok s \<and> map fst (ms_bg s) = background_of X" for X
  by unfold_locales (simp add: complete_step calls_step step_bg_fst)

lemma bg_result_names:
  "over st \<Longrightarrow> carries_on st \<Longrightarrow> fits a st \<Longrightarrow> map res_name (bg_result R t (a, st)) = [act_name a]
    \<and> (\<forall>r \<in> set (bg_result R t (a, st)). res_status r \<noteq> ActSkipped)"
  by (cases st rule: carries_on.cases) (auto simp: bg_result_def bg_panic_result_def describes_def)

lemma bg_results_names:
  "\<forall>p \<in> set ps. over (snd p) \<and> carries_on (snd p) \<and> fits (fst p) (snd p) \<Longrightarrow>
    map res_name (concat (map (bg_result R t) ps)) = map (\<lambda>p. act_name (fst p)) ps
    \<and> (\<forall>r \<in> set (concat (map (bg_result R t) ps)). res_status r \<noteq> ActSkipped)"
proof (induction ps)
  case (Cons p ps)
  obtain a st where p: "p = (a, st)" by fastforce
  show ?case using Cons bg_result_names[of st a R t] p by auto
qed simp

text \<open>A method phase that nothing disturbs (no cancellation by the caller, no breached guard, no impossible
  pause) runs every activity exactly once and skips none: its results are the foreground activities in
  their order, then the background activities in theirs.\<close>

theorem undisturbed_runs_all:
  assumes "method_steps X (method_start X w) s" "method_over s" "ms_crash s = None" "method_halt s = None"
    "\<forall>t < w_tick (ms_world s). \<not> caller_cancelled (mx_env X) (mx_config X) t" "\<forall>x \<in> set (w_obs w). \<not> method_call x"
  shows "map res_name (method_results (mx_env X) s)
      = map act_name (filter (\<lambda>a. \<not> act_background a) (exp_method (mx_experiment X)) @ filter act_background (exp_method (mx_experiment X)))
    \<and> (\<forall>r \<in> set (method_results (mx_env X) s). res_status r \<noteq> ActSkipped)"
proof -
  let ?t = "w_tick (ms_world s)"
  have "calls_ok (method_start X w)"
    using assms(6) by (auto simp: calls_ok_def fits_all_def method_start_fields dest: bspec[of _ _ "Called ByMethod _"])
  moreover have "complete X (method_start X w)"
    by (simp add: complete_def in_hand_def method_start_fields foreground_of_def)
  moreover have "map fst (ms_bg (method_start X w)) = background_of X"
    by (simp add: method_start_fields background_of_def comp_def)
  ultimately have ok: "complete X s" "calls_ok s" "map fst (ms_bg s) = background_of X"
    using completing.steps_inv[OF assms(1)[unfolded method_steps_def]] by auto
  have "undisturbed X s"
    using assms(3-5) by (auto simp: undisturbed_def method_halt_def split: monitor_status.splits elim: pulled.elims)
  then have c: "in_hand s = map act_name (foreground_of X)" "\<forall>r \<in> set (ms_results s). res_status r \<noteq> ActSkipped"
    "\<forall>p \<in> set (ms_bg s). carries_on (snd p)" using ok(1) by (auto simp: complete_def)
  have over: "activities_over s" using assms(1,2) by (rule method_over_activities)
  then have "map res_name (ms_results s) = map act_name (foreground_of X)"
    using c(1) by (simp add: in_hand_def activities_over_def)
  moreover have "\<forall>p \<in> set (ms_bg s). over (snd p) \<and> carries_on (snd p) \<and> fits (fst p) (snd p)"
    using over c(3) ok(2) by (auto simp: activities_over_def list_all_iff calls_ok_def fits_all_def)
  from bg_results_names[OF this, of "mx_env X" ?t]
  have "map res_name (concat (map (bg_result (mx_env X) ?t) (ms_bg s))) = map act_name (background_of X)"
    "\<forall>r \<in> set (concat (map (bg_result (mx_env X) ?t) (ms_bg s))). res_status r \<noteq> ActSkipped"
    using ok(3) by (metis (no_types, lifting) list.map_comp map_eq_conv comp_apply, blast)
  ultimately show ?thesis
    using c(2) by (auto simp: method_results_def foreground_of_def background_of_def)
qed

section \<open>The phase can always finish\<close>

fun weight :: "stage \<Rightarrow> nat" where
  "weight Queueing = 9"
| "weight (PauseBefore _) = 8"
| "weight Entering = 7"
| "weight (Checking _) = 6"
| "weight (Calling _) = 5"
| "weight (Returning _ _) = 4"
| "weight (PauseAfter _ _) = 3"
| "weight (Ended _) = 1"
| "weight (Crashed _) = 1"

fun polls :: "stage \<Rightarrow> nat" where
  "polls (PauseBefore k) = k"
| "polls (PauseAfter k _) = k"
| "polls _ = 0"

definition work_left :: "mstate \<Rightarrow> nat" where
  "work_left s = sum_list (map (\<lambda>p. weight (snd p)) (ms_bg s))
     + (case ms_cur s of Some (a, st) \<Rightarrow> weight st | None \<Rightarrow> 0) + 10 * length (ms_todo s)"

definition polls_left :: "mstate \<Rightarrow> nat" where
  "polls_left s = sum_list (map (\<lambda>p. polls (snd p)) (ms_bg s)) + (case ms_cur s of Some (a, st) \<Rightarrow> polls st | None \<Rightarrow> 0)"

definition nearer :: "mstate \<Rightarrow> mstate \<Rightarrow> bool" where
  "nearer s' s \<longleftrightarrow> work_left s' < work_left s \<or> (work_left s' = work_left s \<and> polls_left s' < polls_left s)"

lemma stage_weights: "weight (start_stage R a t) < 9" "weight (after_stage R a r t) < 4"
  by (auto simp: start_stage_def after_stage_def split: option.splits)

lemma activity_step_nearer:
  "activity_step R hs tok a st w = (st', w') \<Longrightarrow> \<not> over st \<Longrightarrow> st \<noteq> Queueing \<Longrightarrow>
    weight st' < weight st \<or> (weight st' = weight st \<and> polls st' < polls st)"
  using stage_weights(2) by (cases st) (auto simp: Let_def less_trans[OF stage_weights(2)] split: if_splits reply.splits)

lemma sum_update: "i < length xs \<Longrightarrow> sum_list (map f (xs[i := y])) + f (xs ! i) = sum_list (map f xs) + (f y :: nat)"
proof (induction xs arbitrary: i)
  case (Cons x xs)
  then show ?case by (cases i) auto
qed simp

lemma nearer_bg:
  assumes "i < length (ms_bg s)" "ms_bg s ! i = (a, st)" "ms_bg s' = (ms_bg s)[i := (a, st')]"
    "ms_cur s' = ms_cur s" "ms_todo s' = ms_todo s"
    "weight st' < weight st \<or> (weight st' = weight st \<and> polls st' < polls st)"
  shows "nearer s' s"
  using sum_update[OF assms(1), of "\<lambda>p. weight (snd p)" "(a, st')"] sum_update[OF assms(1), of "\<lambda>p. polls (snd p)" "(a, st')"] assms(2-6)
  by (auto simp: nearer_def work_left_def polls_left_def)

lemma progress_step:
  assumes "gate_ok X s" "mx_cap X \<noteq> Some 0" "\<not> activities_over s"
    "\<And>a. ms_cur s \<noteq> Some (a, Queueing)"
  shows "\<exists>s'. method_step X s s' \<and> nearer s' s"
proof -
  consider (cur) a st where "ms_cur s = Some (a, st)" | (todo) a as where "ms_cur s = None" "ms_todo s = a # as"
    | (bg) p where "ms_cur s = None" "p \<in> set (ms_bg s)" "\<not> over (snd p)"
    using assms(3) by (cases "ms_cur s"; cases "ms_todo s") (auto simp: activities_over_def list_all_iff)
  then show ?thesis
  proof cases
    case cur
    show ?thesis
    proof (cases "over st")
      case True
      then show ?thesis
        using cur method_step.fg_done[of s a _ X] method_step.fg_break[of s a X] method_step.fg_crash[of s a _ X]
        by (cases st rule: past.cases) (fastforce simp: nearer_def work_left_def)+
    next
      case False
      obtain st' w' where e: "activity_step (mx_env X) (mx_handlers X) (method_token X s) a st (ms_world s) = (st', w')" by fastforce
      have "st \<noteq> Queueing" using cur assms(4) by auto
      from activity_step_nearer[OF e False this] show ?thesis
        using method_step.fg_step[OF cur False e] cur by (intro exI conjI) (assumption, auto simp: nearer_def work_left_def polls_left_def)
    qed
  next
    case todo
    show ?thesis
      using method_step.fg_start[OF todo refl] stage_weights(1)[of "mx_env X" a "w_tick (ms_world s)"] todo
      by (intro exI conjI) (assumption, auto simp: nearer_def work_left_def)
  next
    case bg
    show ?thesis
    proof (cases "\<exists>p \<in> set (ms_bg s). inside p")
      case True
      then obtain i a st where i: "i < length (ms_bg s)" "ms_bg s ! i = (a, st)" "st \<noteq> Queueing" "\<not> over st"
        by (metis in_set_conv_nth inside_def prod.collapse)
      obtain st' w' where e: "activity_step (mx_env X) (mx_handlers X) (method_token X s) a st (ms_world s) = (st', w')" by fastforce
      show ?thesis
        by (intro exI conjI, rule method_step.bg_step[OF i e], rule nearer_bg[OF i(1,2)])
           (use activity_step_nearer[OF e i(4,3)] in \<open>simp_all add: set_bg_def\<close>)
    next
      case False
      then have "filter inside (ms_bg s) = []" by (simp add: filter_empty_conv)
      then have "gate_active (ms_gate s) = 0" using assms(1) by (simp add: gate_ok_def)
      then have nf: "\<not> gate_full (mx_cap X) (ms_gate s)" using assms(2) by (auto simp: gate_full_def split: option.splits)
      have "snd p = Queueing" using False bg(2,3) by (auto simp: inside_def)
      then obtain i a where i: "i < length (ms_bg s)" "ms_bg s ! i = (a, Queueing)"
        using bg(2) by (metis in_set_conv_nth prod.collapse)
      show ?thesis
      proof (cases "method_token X s (w_tick (ms_world s))")
        case True
        show ?thesis
          by (intro exI conjI, rule method_step.bg_refused[OF i refl True], rule nearer_bg[OF i, of _ "Ended None"]) simp_all
      next
        case False
        show ?thesis
          by (intro exI conjI, rule method_step.bg_enters[OF i refl nf False], rule nearer_bg[OF i])
             (use stage_weights(1) in \<open>simp_all add: set_bg_def\<close>)
      qed
    qed
  qed
qed

definition cur_ok :: "mstate \<Rightarrow> bool" where
  "cur_ok s \<longleftrightarrow> (\<forall>a. ms_cur s \<noteq> Some (a, Queueing))"

definition ready :: "mctx \<Rightarrow> mstate \<Rightarrow> bool" where
  "ready X s \<longleftrightarrow> gate_ok X s \<and> cur_ok s \<and> join_ok s \<and> gm_idx (ms_monitor s) \<le> length (mx_guards X)"

lemma cur_step: "method_step X s s' \<Longrightarrow> cur_ok s \<Longrightarrow> cur_ok s'"
  by (cases rule: method_step.cases)
     (auto simp: cur_ok_def set_bg_def start_stage_def dest: activity_step_stage split: option.splits)

lemma idx_step: "method_step X s s' \<Longrightarrow> gm_idx (ms_monitor s) \<le> length (mx_guards X) \<Longrightarrow> gm_idx (ms_monitor s') \<le> length (mx_guards X)"
  by (cases rule: method_step.cases) (auto simp: set_bg_def guard_eval_def Let_def split: reply.splits if_splits)

interpretation readiness: stable_system "method_step X" "ready X" for X
  by unfold_locales (simp add: ready_def gate_step cur_step join_step idx_step)

lemma ready_start: "ready X (method_start X w)"
  by (simp add: ready_def gate_ok_start join_ok_start cur_ok_def method_start_fields monitor_new_def)

lemma activities_end:
  assumes "ready X s" "mx_cap X \<noteq> Some 0"
  shows "\<exists>s'. method_steps X s s' \<and> activities_over s'"
  using assms(1)
proof (induction "(work_left s, polls_left s)" arbitrary: s rule: wf_induct_rule[OF wf_lex_prod[OF wf_less_than wf_less_than]])
  case (1 s)
  show ?case
  proof (cases "activities_over s")
    case True
    then show ?thesis by (auto simp: method_steps_def)
  next
    case False
    have "gate_ok X s" "\<And>a. ms_cur s \<noteq> Some (a, Queueing)" using 1(2) by (auto simp: ready_def cur_ok_def)
    then obtain t where t: "method_step X s t" "nearer t s" using progress_step[OF _ assms(2) False] by blast
    have "ready X t" using readiness.step_inv[OF t(1) 1(2)] .
    moreover have "((work_left t, polls_left t), (work_left s, polls_left s)) \<in> less_than <*lex*> less_than"
      using t(2) by (auto simp: nearer_def)
    ultimately obtain s' where "method_steps X t s'" "activities_over s'" using 1(1) by blast
    then show ?thesis using t(1) unfolding method_steps_def by (meson converse_rtranclp_into_rtranclp)
  qed
qed

section \<open>Closing\<close>

lemma method_steps_refl: "method_steps X s s"
  by (simp add: method_steps_def)

lemma method_steps_trans: "method_steps X s t \<Longrightarrow> method_steps X t u \<Longrightarrow> method_steps X s u"
  unfolding method_steps_def by (rule rtranclp_trans)

lemma method_steps_step: "method_step X s t \<Longrightarrow> method_steps X s t"
  unfolding method_steps_def by (rule r_into_rtranclp)

lemma sampler_ends:
  assumes "ms_joined s" "sampler_over (sa_status (ms_sampler s)) \<or> sa_status (ms_sampler s) \<in> {Sampling, SampleWait}"
  shows "\<exists>s'. method_steps X s s' \<and> ms_joined s' \<and> sampler_over (sa_status (ms_sampler s'))"
  using assms
proof (induction "length (sa_todo (ms_sampler s))" arbitrary: s rule: less_induct)
  case less
  have wait: "\<exists>s'. method_steps X t s' \<and> ms_joined s' \<and> sampler_over (sa_status (ms_sampler s'))"
    if "sa_status (ms_sampler t) = SampleWait" "ms_joined t" for t
    by (intro exI conjI, rule method_steps_step[OF method_step.sampler_stops[OF that]]) (simp_all add: that)
  consider "sampler_over (sa_status (ms_sampler s))" | "sa_status (ms_sampler s) = SampleWait"
    | (probe) "sa_status (ms_sampler s) = Sampling" "sa_todo (ms_sampler s) \<noteq> []"
    | (round) "sa_status (ms_sampler s) = Sampling" "sa_todo (ms_sampler s) = []" using less.prems(2) by auto
  then show ?case
  proof cases
    case probe
    obtain sa' w' where p: "sampler_probe (mx_env X) (ms_sampler s) (ms_world s) = (sa', w')" by fastforce
    let ?t = "s \<lparr> ms_world := w', ms_sampler := sa' \<rparr>"
    have st: "method_steps X s ?t" by (rule method_steps_step[OF method_step.sampler_probes[OF probe p]])
    have "sampler_over (sa_status sa') \<or> (sa_status sa' = Sampling \<and> length (sa_todo sa') < length (sa_todo (ms_sampler s)))"
      using p probe by (auto simp: sampler_probe_def split: sum.splits prod.splits)
    then have "\<exists>s'. method_steps X ?t s' \<and> ms_joined s' \<and> sampler_over (sa_status (ms_sampler s'))"
      using less.hyps[of ?t] less.prems(1) method_steps_refl[of X ?t] by auto
    then show ?thesis using method_steps_trans[OF st] by blast
  next
    case round
    let ?t = "s \<lparr> ms_world := advance [] (ms_world s),
       ms_sampler := sampler_round (mx_env X) (mx_sampling X) (ms_sampler s) (w_tick (ms_world s)) \<rparr>"
    have st: "method_steps X s ?t" by (rule method_steps_step[OF method_step.sampler_rounds[OF round]])
    have "sampler_over (sa_status (ms_sampler ?t)) \<or> sa_status (ms_sampler ?t) = SampleWait" by (simp add: sampler_round_def)
    then have "\<exists>s'. method_steps X ?t s' \<and> ms_joined s' \<and> sampler_over (sa_status (ms_sampler s'))"
      using wait[of ?t] less.prems(1) method_steps_refl[of X ?t] by auto
    then show ?thesis using method_steps_trans[OF st] by blast
  qed (use less.prems wait method_steps_refl in blast)+
qed

lemma monitor_ends:
  assumes "ms_closed s" "gm_idx (ms_monitor s) \<le> length (mx_guards X)"
  shows "\<exists>s'. method_steps X s s' \<and> ms_closed s' \<and> gm_status (ms_monitor s') \<noteq> Watching"
  using assms
proof (induction "length (mx_guards X) - gm_idx (ms_monitor s)" arbitrary: s)
  case 0
  show ?case
  proof (cases "gm_status (ms_monitor s) = Watching")
    case True
    have "gm_idx (ms_monitor s) = length (mx_guards X)" using 0 by simp
    from method_steps_step[OF method_step.guard_quits[OF True this 0(2)]] show ?thesis
      using 0(2) by fastforce
  qed (use 0 method_steps_refl in blast)
next
  case (Suc n)
  show ?case
  proof (cases "gm_status (ms_monitor s) = Watching")
    case True
    have lt: "gm_idx (ms_monitor s) < length (mx_guards X)" using Suc(2) by simp
    obtain m' w' where e: "guard_eval (mx_env X) (mx_guards X) (mx_started X) (ms_monitor s) (ms_world s) = (m', w')" by fastforce
    let ?t = "s \<lparr> ms_world := w', ms_monitor := m' \<rparr>"
    have st: "method_steps X s ?t" by (rule method_steps_step[OF method_step.guard_evaluates[OF True lt e]])
    have "gm_status m' \<noteq> Watching \<or> gm_idx m' = Suc (gm_idx (ms_monitor s))"
      using e by (auto simp: guard_eval_def Let_def split: reply.splits if_splits)
    then have "\<exists>s'. method_steps X ?t s' \<and> ms_closed s' \<and> gm_status (ms_monitor s') \<noteq> Watching"
      using Suc(1)[of ?t] Suc(2,3) lt method_steps_refl[of X ?t] by auto
    then show ?thesis using method_steps_trans[OF st] by blast
  qed (use Suc method_steps_refl in blast)
qed

text \<open>C29: the method phase can always finish: with no cap or a cap of at least one, from every state it can
  reach, whatever the providers, guards and handlers answered, the threads can go on to the end of the
  phase; no thread waits for ever at the gate.\<close>

theorem method_can_finish:
  assumes "method_steps X (method_start X w) s" "mx_cap X \<noteq> Some 0"
  shows "\<exists>s'. method_steps X s s' \<and> method_over s'"
proof -
  have r: "ready X s" using readiness.steps_inv[OF assms(1)[unfolded method_steps_def] ready_start] .
  obtain t where t: "method_steps X s t" "activities_over t" using activities_end[OF r assms(2)] by blast
  have rt: "ready X t" using readiness.steps_inv[OF t(1)[unfolded method_steps_def] r] .
  show ?thesis
  proof (cases "ms_crash t")
    case (Some msg)
    then show ?thesis using t by (auto simp: method_over_def)
  next
    case None
    have "\<exists>u. method_steps X t u \<and> ms_joined u"
    proof (cases "ms_joined t")
      case False
      show ?thesis by (intro exI conjI, rule method_steps_step[OF method_step.joins[OF t(2) None False]]) simp
    qed (use method_steps_refl in blast)
    then obtain u where u: "method_steps X t u" "ms_joined u" by blast
    have "sampler_over st \<or> st \<in> {Sampling, SampleWait}" for st by (cases st) auto
    then obtain v where v: "method_steps X u v" "ms_joined v" "sampler_over (sa_status (ms_sampler v))"
      using sampler_ends[OF u(2)] by blast
    have "\<exists>z. method_steps X v z \<and> ms_closed z"
    proof (cases "ms_closed v")
      case False
      show ?thesis by (intro exI conjI, rule method_steps_step[OF method_step.closes[OF v(2,3) False]]) simp
    qed (use method_steps_refl in blast)
    then obtain z where z: "method_steps X v z" "ms_closed z" by blast
    have tz: "method_steps X t z" using u(1) v(1) z(1) by (blast intro: method_steps_trans)
    have "ready X z" using readiness.steps_inv[OF tz[unfolded method_steps_def] rt] .
    then obtain y where y: "method_steps X z y" "ms_closed y" "gm_status (ms_monitor y) \<noteq> Watching"
      using monitor_ends[OF z(2)] by (auto simp: ready_def)
    have "method_steps X s y" using t(1) tz y(1) by (blast intro: method_steps_trans)
    then show ?thesis using y by (auto simp: method_over_def)
  qed
qed

end
