(* ===== verification/Runner_Examples.thy ===== *)
theory Runner_Examples
  imports Gameday_Props Runner_Lifecycle Runner_Recovery Method_Progress
begin

text \<open>
  Concrete runs of the runner, at which its properties are applied: a drill with one
  background fault that fails and one rollback, and a hypothesis whose probe recovers.
\<close>

section \<open>A drill\<close>

definition steady_env :: "bool \<Rightarrow> renv" where
  "steady_env ok = \<lparr> rv_reply = \<lambda>t a. Replied \<lparr> oc_success = ok, oc_output = None, oc_error = None, oc_duration_ms = 5 \<rparr>,
     rv_cancelled = \<lambda>t. False, rv_clock = \<lambda>t. 0, rv_mono = \<lambda>t. 0, rv_trace = \<lambda>t. [], rv_span = \<lambda>t. [],
     rv_uuid = \<lambda>t. ''run'', rv_polls = \<lambda>t. 0, rv_json = \<lambda>s. None, rv_show_json = \<lambda>j. [], rv_show_f64 = \<lambda>x. [],
     rv_regex = \<lambda>p s. None, rv_rounds = 2, rv_order = id \<rparr>"

definition drill_fault :: activity where
  "drill_fault = activity_default \<lparr> act_name := ''kill'', act_background := True \<rparr>"

definition drill_undo :: activity where
  "drill_undo = activity_default \<lparr> act_name := ''restart'' \<rparr>"

definition drill :: chaos_experiment where
  "drill = experiment_default \<lparr> exp_title := ''drill'', exp_method := [drill_fault], exp_rollbacks := [drill_undo],
     exp_max_concurrent_faults := Some 1 \<rparr>"

abbreviation drill_ctx :: "bool \<Rightarrow> nat \<Rightarrow> mctx" where
  "drill_ctx ok t \<equiv> method_ctx (steady_env ok) [] run_config_default sampling_default drill t"

definition world0 :: world where
  "world0 = \<lparr> w_tick = 0, w_obs = [], w_slept = 0 \<rparr>"

text \<open>The schedule: the background thread runs alone, then the phase is closed.\<close>

definition bg_alone :: "mctx \<Rightarrow> mstate \<Rightarrow> mstate" where
  "bg_alone X s = (let (a, st) = ms_bg s ! 0;
       (st', w') = activity_step (mx_env X) (mx_handlers X) (method_token X s) a st (ms_world s)
     in set_bg s 0 a st' (ms_gate s) w')"

definition drill_entered :: "mctx \<Rightarrow> world \<Rightarrow> mstate" where
  "drill_entered X w = set_bg (method_start X w) 0 drill_fault (PauseBefore 0) (gate_take gate_new) (advance [] w)"

definition drill_ran :: "mctx \<Rightarrow> world \<Rightarrow> mstate" where
  "drill_ran X w = bg_alone X (bg_alone X (bg_alone X (bg_alone X (bg_alone X (bg_alone X (drill_entered X w))))))"

definition drill_end :: "mctx \<Rightarrow> world \<Rightarrow> mstate" where
  "drill_end X w = (let s = drill_ran X w in s \<lparr> ms_world := emit (mx_env X) (mx_handlers X) AfterMethod (ms_world s),
     ms_joined := True, ms_closed := True \<rparr>)"

lemmas drill_defs = steady_env_def drill_def drill_fault_def experiment_default_def activity_default_def
  run_config_default_def sampling_default_def method_ctx_def

lemma drill_start: "method_start (drill_ctx ok t) w = \<lparr> ms_world = w, ms_todo = [], ms_cur = None, ms_results = [], ms_crash = None,
    ms_bg = [(drill_fault, Queueing)], ms_gate = gate_new,
    ms_monitor = \<lparr> gm_idx = 0, gm_counts = [], gm_status = GuardsOff \<rparr>,
    ms_sampler = \<lparr> sa_round = 0, sa_todo = [], sa_cur = [], sa_map = [], sa_status = SamplerOff \<rparr>,
    ms_joined = False, ms_closed = False \<rparr>"
  by (simp add: method_start_def partition_background_def drill_defs monitor_new_def sampler_new_def sampled_probes_def)

lemma emit_nil: "emit R [] ev w = advance [Emitted ev] w"
  by (simp add: emit_def)

lemma drill_token: "\<not> method_token (drill_ctx ok t) s n" if "gm_status (ms_monitor s) = GuardsOff" for s n
  using that by (simp add: method_token_def caller_cancelled_def drill_defs)

lemma drill_pauses: "pause_polls R (act_pause_before drill_fault) n = Some 0" "pause_polls R (act_pause_after drill_fault) n = Some 0"
  by (simp_all add: pause_polls_def pause_seconds_def drill_defs)

definition drill_result :: "bool \<Rightarrow> activity_result" where
  "drill_result ok = \<lparr> res_name = ''kill'', res_type = Action, res_status = (if ok then ActSucceeded else ActFailed),
     res_started_at = 0, res_duration_ms = 5, res_output = None, res_error = None, res_trace_id = [], res_span_id = [] \<rparr>"

lemma bg_alone_steps:
  assumes "ms_bg s = [(a, st)]" "st \<noteq> Queueing" "\<not> over st"
  shows "method_step X s (bg_alone X s)"
proof -
  obtain st' w' where e: "activity_step (mx_env X) (mx_handlers X) (method_token X s) a st (ms_world s) = (st', w')" by fastforce
  have "bg_alone X s = set_bg s 0 a st' (ms_gate s) w'" using assms e by (simp add: bg_alone_def)
  then show ?thesis using method_step.bg_step[of 0 s a st X st' w'] assms e by simp
qed

text \<open>The states of the phase differ in the world, the stage of the one thread and the gate.\<close>

definition drill_state :: "world \<Rightarrow> stage \<Rightarrow> gate \<Rightarrow> mstate" where
  "drill_state w st g = \<lparr> ms_world = w, ms_todo = [], ms_cur = None, ms_results = [], ms_crash = None,
    ms_bg = [(drill_fault, st)], ms_gate = g,
    ms_monitor = \<lparr> gm_idx = 0, gm_counts = [], gm_status = GuardsOff \<rparr>,
    ms_sampler = \<lparr> sa_round = 0, sa_todo = [], sa_cur = [], sa_map = [], sa_status = SamplerOff \<rparr>,
    ms_joined = False, ms_closed = False \<rparr>"

lemma drill_bg: "ms_bg (drill_state w st g) = [(drill_fault, st)]"
  by (simp add: drill_state_def)

lemma bg_alone_state:
  "bg_alone (drill_ctx ok t) (drill_state w st g) = (let (st', w') = activity_step (steady_env ok) []
      (method_token (drill_ctx ok t) (drill_state w st g)) drill_fault st w
    in drill_state w' st' (if over st' then gate_release g else g))"
  by (simp add: bg_alone_def drill_state_def set_bg_def method_ctx_def split: prod.splits)

lemma drill_stages:
  shows "bg_alone (drill_ctx ok t) (drill_state w (PauseBefore 0) g) = drill_state (advance [] w) Entering g"
    and "bg_alone (drill_ctx ok t) (drill_state w Entering g) =
      drill_state (advance [] (advance [Emitted (BeforeActivity ''kill'')] w)) (Checking 0) g"
    and "bg_alone (drill_ctx ok t) (drill_state w (Checking n) g) = drill_state (advance [] w) (Calling n) g"
    and "bg_alone (drill_ctx ok t) (drill_state w (Calling n) g) = drill_state (advance [Called ByMethod drill_fault] w)
      (Returning n \<lparr> oc_success = ok, oc_output = None, oc_error = None, oc_duration_ms = 5 \<rparr>) g"
    and "bg_alone (drill_ctx ok t) (drill_state w (Returning 0 \<lparr> oc_success = ok, oc_output = None, oc_error = None, oc_duration_ms = 5 \<rparr>) g) =
      drill_state (advance [] (advance [Emitted (AfterActivity ''kill'')] w)) (PauseAfter 0 (drill_result ok)) g"
    and "bg_alone (drill_ctx ok t) (drill_state w (PauseAfter 0 r) g) = drill_state (advance [] w) (Ended (Some r)) (gate_release g)"
proof -
  have k: "act_name drill_fault = ''kill''" "act_type drill_fault = Action" by (simp_all add: drill_defs)
  have n: "\<not> method_token (drill_ctx ok t) (drill_state w st g) m" for w st g m
    by (rule drill_token) (simp add: drill_state_def)
  have e: "rv_reply (steady_env ok) m a = Replied \<lparr> oc_success = ok, oc_output = None, oc_error = None, oc_duration_ms = 5 \<rparr>"
    "rv_clock (steady_env ok) m = 0" "rv_trace (steady_env ok) m = []" "rv_span (steady_env ok) m = []" for m a
    by (simp_all add: steady_env_def)
  note d = bg_alone_state Let_def emit_nil k n e after_stage_def drill_pauses make_result_def drill_result_def
  show "bg_alone (drill_ctx ok t) (drill_state w (PauseBefore 0) g) = drill_state (advance [] w) Entering g" by (simp add: d)
  show "bg_alone (drill_ctx ok t) (drill_state w Entering g) =
      drill_state (advance [] (advance [Emitted (BeforeActivity ''kill'')] w)) (Checking 0) g" by (simp add: d)
  show "bg_alone (drill_ctx ok t) (drill_state w (Checking n) g) = drill_state (advance [] w) (Calling n) g" by (simp add: d)
  show "bg_alone (drill_ctx ok t) (drill_state w (Calling n) g) = drill_state (advance [Called ByMethod drill_fault] w)
      (Returning n \<lparr> oc_success = ok, oc_output = None, oc_error = None, oc_duration_ms = 5 \<rparr>) g" by (simp add: d)
  show "bg_alone (drill_ctx ok t) (drill_state w (Returning 0 \<lparr> oc_success = ok, oc_output = None, oc_error = None, oc_duration_ms = 5 \<rparr>) g) =
      drill_state (advance [] (advance [Emitted (AfterActivity ''kill'')] w)) (PauseAfter 0 (drill_result ok)) g" by (simp add: d)
  show "bg_alone (drill_ctx ok t) (drill_state w (PauseAfter 0 r) g) = drill_state (advance [] w) (Ended (Some r)) (gate_release g)"
    by (simp add: d)
qed

lemma drill_entered_eq: "drill_entered (drill_ctx ok t) w = drill_state (advance [] w) (PauseBefore 0) (gate_take gate_new)"
  by (simp add: drill_entered_def drill_start drill_state_def set_bg_def)

definition drill_world :: "world \<Rightarrow> world" where
  "drill_world w = advance [] (advance [] (advance [Emitted (AfterActivity ''kill'')] (advance [Called ByMethod drill_fault]
     (advance [] (advance [] (advance [Emitted (BeforeActivity ''kill'')] (advance [] (advance [] w))))))))"

lemma drill_ran_eq: "drill_ran (drill_ctx ok t) w =
    drill_state (drill_world w) (Ended (Some (drill_result ok))) (gate_release (gate_take gate_new))"
  by (simp add: drill_ran_def drill_entered_eq drill_stages drill_world_def)

lemma drill_end_eq: "drill_end (drill_ctx ok t) w = (drill_state (advance [Emitted AfterMethod] (drill_world w))
      (Ended (Some (drill_result ok))) (gate_release (gate_take gate_new))) \<lparr> ms_joined := True, ms_closed := True \<rparr>"
  by (simp add: drill_end_def drill_ran_eq drill_state_def Let_def emit_nil)

lemma drill_steps: "method_steps (drill_ctx ok t) (method_start (drill_ctx ok t) w) (drill_entered (drill_ctx ok t) w)"
    "method_steps (drill_ctx ok t) (method_start (drill_ctx ok t) w) (drill_ran (drill_ctx ok t) w)"
    "method_steps (drill_ctx ok t) (method_start (drill_ctx ok t) w) (drill_end (drill_ctx ok t) w)"
proof -
  let ?X = "drill_ctx ok t"
  have "method_step ?X (method_start ?X w) (set_bg (method_start ?X w) 0 drill_fault
      (start_stage (mx_env ?X) drill_fault (w_tick w)) (gate_take (ms_gate (method_start ?X w))) (advance [] w))"
  proof (rule method_step.bg_enters)
    show "\<not> gate_full (mx_cap ?X) (ms_gate (method_start ?X w))"
      unfolding drill_start by (simp add: gate_full_def gate_new_def effective_cap_def drill_def run_config_default_def)
    show "\<not> method_token ?X (method_start ?X w) (w_tick w)" by (rule drill_token) (simp add: drill_start)
  qed (simp_all add: drill_start)
  then have "method_step ?X (method_start ?X w) (drill_entered ?X w)"
    by (simp add: drill_entered_def drill_start start_stage_def drill_pauses)
  then show e: "method_steps ?X (method_start ?X w) (drill_entered ?X w)" by (rule method_steps_step)
  have b: "method_steps ?X (method_start ?X w) (bg_alone ?X s)"
    if "method_steps ?X (method_start ?X w) s" "\<exists>st. ms_bg s = [(drill_fault, st)] \<and> st \<noteq> Queueing \<and> \<not> over st" for s
    using method_steps_trans[OF that(1) method_steps_step[OF bg_alone_steps]] that(2) by blast
  show r: "method_steps ?X (method_start ?X w) (drill_ran ?X w)"
    unfolding drill_ran_def
    by (rule b, rule b, rule b, rule b, rule b, rule b, rule e) (simp_all add: drill_entered_eq drill_stages drill_bg)
  have "method_step ?X (drill_ran ?X w) (drill_ran ?X w \<lparr> ms_world := emit (mx_env ?X) (mx_handlers ?X) AfterMethod (ms_world (drill_ran ?X w)),
      ms_joined := True \<rparr>)" (is "method_step _ _ ?j")
    by (rule method_step.joins) (simp_all add: drill_ran_eq drill_state_def activities_over_def)
  moreover have "method_step ?X ?j (?j \<lparr> ms_closed := True \<rparr>)"
    by (rule method_step.closes) (simp_all add: drill_ran_eq drill_state_def)
  ultimately have "method_steps ?X (drill_ran ?X w) (drill_end ?X w)"
    unfolding drill_end_def Let_def by (auto intro: method_steps_trans method_steps_step)
  then show "method_steps ?X (method_start ?X w) (drill_end ?X w)" by (rule method_steps_trans[OF r])
qed

lemma drill_scheduled: "schedules drill_end (drill_ctx ok t)"
  using drill_steps(3) by (simp add: schedules_def method_over_def drill_end_eq drill_state_def)

section \<open>The method phase of the drill\<close>

lemma drill_obs: "w_obs (ms_world (drill_end (drill_ctx ok t) w)) = w_obs w @ [Emitted (BeforeActivity ''kill''),
    Called ByMethod drill_fault, Emitted (AfterActivity ''kill''), Emitted AfterMethod]"
  by (simp add: drill_end_eq drill_state_def drill_world_def advance_def)

lemma world0_obs [simp]: "w_obs world0 = []"
  by (simp add: world0_def)

lemma drill_facts: "rc_token run_config_default = False" "exp_method drill = [drill_fault]" "act_background drill_fault"
    "act_name drill_fault = ''kill''" "act_type drill_fault = Action" "exp_rollbacks drill = [drill_undo]"
    "exp_hypothesis drill = None" "exp_load drill = None" "rc_mode run_config_default = ModeFull"
    "rc_strategy run_config_default = RbOnDeviation" "act_name drill_undo = ''restart''"
  by (simp_all add: drill_defs drill_undo_def)

lemma faults_capped_witness: "gate_active (ms_gate (drill_entered (drill_ctx True 0) world0)) = 1
    \<and> gate_active (ms_gate (drill_entered (drill_ctx True 0) world0))
      = length (filter inside (ms_bg (drill_entered (drill_ctx True 0) world0)))"
  using faults_capped[OF drill_steps(1)[of True 0 world0]]
  by (auto simp: drill_entered_eq drill_state_def gate_take_def gate_new_def Let_def)

lemma undisturbed_runs_all_witness:
  "map res_name (method_results (steady_env True) (drill_end (drill_ctx True 0) world0)) = [''kill'']"
  using undisturbed_runs_all[OF drill_steps(3)[of True 0 world0]]
  by (simp add: method_over_def drill_end_eq drill_state_def method_halt_def caller_cancelled_def drill_facts)

lemma method_can_finish_witness: "\<exists>s'. method_steps (drill_ctx True 0) (drill_entered (drill_ctx True 0) world0) s' \<and> method_over s'"
  by (rule method_can_finish[OF drill_steps(1)]) (simp add: effective_cap_def drill_def run_config_default_def)

lemma dispatched_is_reported_witness:
  "\<exists>r \<in> set (method_results (steady_env False) (drill_end (drill_ctx False 0) world0)). res_name r = ''kill'' \<and> res_type r = Action"
  using dispatched_is_reported[OF drill_steps(3)[of False 0 world0], of drill_fault]
  by (simp add: drill_obs method_over_def drill_end_eq drill_state_def drill_world_def advance_def drill_fault_def activity_default_def)

text \<open>A cancelled caller: the thread at its last check is turned away.\<close>

definition cancelled_ctx :: mctx where
  "cancelled_ctx = method_ctx (steady_env True \<lparr> rv_cancelled := \<lambda>t. True \<rparr>) [] (run_config_default \<lparr> rc_token := True \<rparr>)
     sampling_default drill 0"

lemma no_dispatch_after_cancel_witness:
  "let s = method_start cancelled_ctx world0; s' = s \<lparr> ms_world := advance [] world0, ms_bg := [(drill_fault, Ended None)] \<rparr>
   in method_steps cancelled_ctx s s' \<and> method_calls (ms_world s') = 0"
proof -
  let ?s = "method_start cancelled_ctx world0"
  have s: "ms_bg ?s = [(drill_fault, Queueing)]" "ms_world ?s = world0" "ms_cur ?s = None"
    by (simp_all add: method_start_def partition_background_def cancelled_ctx_def method_ctx_def drill_def drill_fault_def
        experiment_default_def)
  have t: "method_token cancelled_ctx ?s n" for n
    by (simp add: method_token_def caller_cancelled_def cancelled_ctx_def method_ctx_def steady_env_def)
  have "method_step cancelled_ctx ?s (?s \<lparr> ms_world := advance [] world0, ms_bg := (ms_bg ?s)[0 := (drill_fault, Ended None)] \<rparr>)"
    by (rule method_step.bg_refused[of 0 ?s drill_fault world0]) (simp_all add: s t)
  then have m: "method_steps cancelled_ctx ?s (?s \<lparr> ms_world := advance [] world0, ms_bg := [(drill_fault, Ended None)] \<rparr>)"
    using s(1) by (simp add: method_steps_step)
  show ?thesis
    using no_dispatch_after_cancel[OF m] m t s by (simp add: Let_def committed_def method_calls_def world0_def)
qed

text \<open>A guard whose probe fails at once.\<close>

definition guarded_ctx :: mctx where
  "guarded_ctx = method_ctx (steady_env False) [] run_config_default sampling_default
     (drill \<lparr> exp_guards := [\<lparr> guard_name = ''g'', guard_probe = drill_undo, guard_min_breaches = 1 \<rparr>] \<rparr>) 0"

lemma guard_halts_on_streak_witness:
  "\<exists>s h. method_steps guarded_ctx (method_start guarded_ctx world0) s \<and> gm_status (ms_monitor s) = Pulled h
    \<and> halt_guard h = ''g'' \<and> halt_breach_count h = 1"
proof -
  let ?s = "method_start guarded_ctx world0"
  have g: "mx_guards guarded_ctx = [\<lparr> guard_name = ''g'', guard_probe = drill_undo, guard_min_breaches = 1 \<rparr>]"
    "mx_env guarded_ctx = steady_env False" "mx_started guarded_ctx = 0"
    by (simp_all add: guarded_ctx_def method_ctx_def)
  have s: "ms_monitor ?s = monitor_new (mx_guards guarded_ctx)" "ms_world ?s = world0"
    by (simp_all add: method_start_fields)
  obtain m' w' where e0: "guard_eval (steady_env False) (mx_guards guarded_ctx) 0 (monitor_new (mx_guards guarded_ctx)) world0 = (m', w')"
    by fastforce
  then have e: "guard_eval (mx_env guarded_ctx) (mx_guards guarded_ctx) (mx_started guarded_ctx) (ms_monitor ?s) (ms_world ?s) = (m', w')"
    by (simp only: s g)
  have p: "pulled (gm_status m')"
    using e0 unfolding g by (auto simp: guard_eval_def Let_def monitor_new_def steady_env_def probe_outcome_ok_def)
  have "method_step guarded_ctx ?s (?s \<lparr> ms_world := w', ms_monitor := m' \<rparr>)"
    by (rule method_step.guard_evaluates[OF _ _ e]) (simp_all add: s monitor_new_def g)
  then have m: "method_steps guarded_ctx ?s (?s \<lparr> ms_world := w', ms_monitor := m' \<rparr>)" by (rule method_steps_step)
  obtain h where h: "gm_status m' = Pulled h" using p by (auto elim: pulled.elims)
  from guard_halts_on_streak[OF m] h show ?thesis using m
    by (intro exI[of _ "?s \<lparr> ms_world := w', ms_monitor := m' \<rparr>"] exI[of _ h]) (auto simp: g world0_def)
qed

section \<open>The whole drill\<close>

definition drill_run :: "bool \<Rightarrow> world \<Rightarrow> (run_stop, journal) result \<times> world" where
  "drill_run ok w = run_experiment_with_sampling (steady_env ok) drill_end [] run_config_default sampling_default drill w"

lemma drill_runs: "\<exists>j w'. drill_run ok v0 = (Inr j, w') \<and> jr_status j = (if ok then Completed else Failed)
    \<and> Called ByMethod drill_fault \<in> set (w_obs w')"
proof -
  let ?R = "steady_env ok" and ?cfg = run_config_default
  define mr where "mr t d w = report_of (drill_ctx ok t) d (drill_end (drill_ctx ok t) w)" for t d w
  have mr: "mr_results (mr t d w) = [drill_result ok]" for t d w
    by (simp add: mr_def report_of_def method_results_def drill_end_eq drill_state_def bg_result_def)
  have c: "cancelled_now ?R ?cfg w = (Inr False, advance [] w)" for w
    by (simp add: cancelled_now_def observe_def caller_cancelled_def drill_facts)
  obtain st w1 where b: "begin_run ?R (advance [] v0) = (Inr st, w1)"
    by (simp add: begin_run_def bindc_def instant_now_def observe_def ret_def)
  let ?w2 = "emit ?R [] BeforeExperiment w1"
  obtain t w3 where t: "instant_now ?R (advance [] (emit ?R [] BeforeMethod (advance [] ?w2))) = (Inr t, w3)"
    by (simp add: instant_now_def)
  let ?s = "drill_end (drill_ctx ok t) w3"
  have s: "ms_crash ?s = None" "method_halt ?s = None" "gm_status (ms_monitor ?s) = GuardsOff"
    by (simp_all add: drill_end_eq drill_state_def method_halt_def)
  have after: "complete_run ?R [] ?cfg sampling_default drill st None None (mr t d w3) v
      = conclude_run ?R [] ?cfg drill st None (mr t d w3) None None None (advance [] v)" for d v
    by (simp add: complete_run_def measure_recovery_def drill_facts ret_def bindc_def stop_load_def hypothesis_after_def c
        run_hypothesis_phase_def)
  have run: "drill_run ok v0 = conclude_run ?R [] ?cfg drill st None (mr t (rv_clock ?R (w_tick (emit ?R [] BeforeMethod (advance [] ?w2)))) w3)
      None None None (advance [] (advance [] (ms_world ?s)))"
    using b t s drill_token[OF s(3)] after
    by (simp add: drill_run_def run_experiment_with_sampling_def drill_facts c bindc_def seqc_def live_run_def emits_def
        run_hypothesis_phase_def ret_def inject_faults_def start_load_def observe_def run_method_def Let_def end_run_def
        mr_def[symmetric])
  have "\<exists>j w'. conclude_run ?R [] ?cfg drill st None (mr t d w3) None None None v = (Inr j, w')
      \<and> jr_status j = (if ok then Completed else Failed) \<and> later v w'" for d v
  proof -
    let ?st = "if ok then Completed else Failed"
    have ds: "determine_status None None (all_succeeded [drill_result ok]) = ?st"
      by (simp add: determine_status_def all_succeeded_def drill_result_def)
    obtain rbs v1 where r: "run_rollbacks ?R [] drill RbOnDeviation (needs_rollback ?st [drill_result ok]) (advance [] v) = (Inr rbs, v1)"
      using run_rollbacks_total by blast
    have l: "later v (advance [] v)" "later (advance [] v) v1" "later v1 (advance [] v1)"
      using obeysD[OF run_rollbacks_obeys' r, of "\<lambda>_. True"] by (auto intro: extends_advance)
    obtain stamp v2 where e: "end_stamp ?R st (advance [] v1) = (Inr stamp, v2)"
      by (simp add: end_stamp_def elapsed_ms_def instant_now_def observe_def bindc_def ret_def)
    have "later (advance [] v1) (emit ?R [] AfterExperiment v2)"
      using obeysD[OF elapsed_obeys(2) e] later_emit by (blast intro: tracing.le_trans)
    then have "later v (emit ?R [] AfterExperiment v2)" using l by (blast intro: tracing.le_trans)
    then show ?thesis using r e
      by (simp add: conclude_run_def bindc_def c mr drill_facts Let_def ds seqc_def emits_def ret_def with_report_def stamped_def
          journal_for_def)
  qed
  then obtain j w' where j: "drill_run ok v0 = (Inr j, w')" "jr_status j = (if ok then Completed else Failed)"
    "later (advance [] (advance [] (ms_world ?s))) w'" unfolding run by blast
  have "Called ByMethod drill_fault \<in> set (w_obs (advance [] (advance [] (ms_world ?s))))"
    by (simp add: drill_obs advance_def)
  from extends_obs[OF j(3) this] show ?thesis using j(1,2) by blast
qed

lemma drill_schedules: "\<forall>t. schedules drill_end (drill_ctx ok t)"
  by (simp add: drill_scheduled)

lemma journals_are_well_formed_witness: "\<exists>j w'. drill_run True world0 = (Inr j, w') \<and> journal_ok drill run_config_default j \<and> jr_status j = Completed"
proof -
  obtain j w' where j: "drill_run True world0 = (Inr j, w')" "jr_status j = Completed" using drill_runs[of True world0] by auto
  from journals_are_well_formed[OF drill_schedules j(1)[unfolded drill_run_def]] j show ?thesis by blast
qed

lemma started_fault_is_rolled_back_witness: "\<exists>j w'. drill_run False world0 = (Inr j, w') \<and> jr_status j = Failed
    \<and> map res_name (jr_rollback j) = [''restart''] \<and> Called ByRollback drill_undo \<in> set (w_obs w')"
proof -
  obtain j w' where j: "drill_run False world0 = (Inr j, w')" "jr_status j = Failed" "Called ByMethod drill_fault \<in> set (w_obs w')"
    using drill_runs[of False world0] by auto
  from started_fault_is_rolled_back[OF drill_schedules j(1)[unfolded drill_run_def] _ j(3)] j show ?thesis
    by (simp add: drill_facts)
qed

lemma runner_follows_protocol_witness: "\<exists>j w'. drill_run True world0 = (Inr j, w') \<and> protocol (w_obs w') = Some RunOver"
proof -
  obtain j w' where j: "drill_run True world0 = (Inr j, w')" "jr_status j = Completed" using drill_runs[of True world0] by auto
  from runner_follows_protocol[OF drill_schedules _ _ j(1)[unfolded drill_run_def]] j show ?thesis
    by (simp add: drill_facts)
qed

section \<open>Observation and recovery\<close>

definition health :: hypothesis where
  "health = \<lparr> hyp_title = ''healthy'', hyp_probes = [activity_default \<lparr> act_name := ''ping'', act_type := Probe \<rparr>] \<rparr>"

definition watched :: chaos_experiment where
  "watched = drill \<lparr> exp_hypothesis := Some health \<rparr>"

lemma baseline_only_is_fault_free_witness: "\<exists>j w'. run_experiment_with_sampling (steady_env True) drill_end []
      (run_config_default \<lparr> rc_mode := ModeOnly \<rparr>) sampling_default watched world0 = (Inr j, w')
    \<and> jr_method j = [] \<and> \<not> (\<exists>a. Called ByMethod a \<in> set (w_obs w'))"
proof -
  let ?cfg = "run_config_default \<lparr> rc_mode := ModeOnly \<rparr>"
  have "\<exists>j w'. run_probe_only (steady_env True) ?cfg watched world0 = (Inr j, w')"
    by (simp add: run_probe_only_def watched_def health_def activity_default_def instant_now_def observe_def bindc_def
        cancelled_now_def caller_cancelled_def ret_def evaluate_hypothesis_def execute_single_activity_def seqc_def emits_def
        call_provider_def steady_env_def run_config_default_def Let_def)
  then obtain j w' where r: "run_experiment_with_sampling (steady_env True) drill_end [] ?cfg sampling_default watched world0 = (Inr j, w')"
    by (auto simp: run_experiment_with_sampling_def)
  from baseline_only_is_fault_free[OF _ r] r show ?thesis by (auto simp: extends_def)
qed

lemma monotone_steady: "monotone_clock (steady_env ok)"
  by (simp add: monotone_clock_def steady_env_def)

lemma healthy_round: "\<exists>rs w'. sample_probe_round (steady_env True \<lparr> rv_rounds := n \<rparr>) BySampler (hyp_probes health) w = (Inr (rs, True), w')"
  by (simp add: health_def bindc_def instant_now_def observe_def ret_def sample_probe_def steady_env_def call_provider_def Let_def
      probe_outcome_ok_def activity_default_def)

lemma recovers: "\<exists>m w'. collect_post_samples (steady_env True \<lparr> rv_rounds := 31 \<rparr>) run_config_default sampling_default health world0 = (Inr m, w')"
proof -
  let ?R = "steady_env True \<lparr> rv_rounds := 31 \<rparr>"
  have "\<exists>m w'. post_rounds (Suc n) ?R run_config_default (hyp_probes health) i d m0 w = (Inr m, w')" for n i d m0 w
    using healthy_round[of 31 w] by (auto simp: bindc_def observe_def instant_now_def ret_def)
  from this[of 30] show ?thesis
    by (simp add: collect_post_samples_def bindc_def instant_now_def ret_def steady_env_def del: post_rounds.simps split: prod.splits sum.splits)
       (metis sum.distinct(1) prod.inject)
qed

lemma recovery_loop_ends_witness:
  "fst (collect_post_samples (steady_env True \<lparr> rv_rounds := 31 \<rparr>) run_config_default sampling_default health world0) \<noteq> Inl OutOfRounds"
proof -
  let ?R = "steady_env True \<lparr> rv_rounds := 31 \<rparr>"
  have "monotone_clock ?R" using monotone_steady[of True] by (simp add: monotone_clock_def)
  from recovery_loop_ends[OF this _ _ prod.collapse[symmetric], of sampling_default run_config_default health world0]
  show ?thesis by (simp add: sampling_default_def)
qed

lemma post_result_reports_recovery_witness: "\<exists>m w' rs ok w1 w2.
    collect_post_samples (steady_env True \<lparr> rv_rounds := 31 \<rparr>) run_config_default sampling_default health world0 = (Inr m, w')
    \<and> sample_probe_round (steady_env True \<lparr> rv_rounds := 31 \<rparr>) BySampler (hyp_probes health) w1 = (Inr (rs, ok), w2)
    \<and> (\<forall>po. build_post_result 0 0 m = Some po \<longrightarrow> po_full_recovery po = ok)"
proof -
  obtain m w' where m: "collect_post_samples (steady_env True \<lparr> rv_rounds := 31 \<rparr>) run_config_default sampling_default health world0 = (Inr m, w')"
    using recovers by blast
  have d: "distinct (map act_name (hyp_probes health))" by (simp add: health_def)
  have o: "mset (rv_order (steady_env True \<lparr> rv_rounds := 31 \<rparr>) m) = mset m" for m by (simp add: steady_env_def)
  from post_result_reports_recovery[OF m d o, of 0 0] m show ?thesis by blast
qed

section \<open>A campaign\<close>

definition drill_day :: gameday where
  "drill_day = \<lparr> gd_title = ''day'', gd_description = None, gd_tags = [], gd_regulatory = None,
     gd_load = Some \<lparr> load_tool_of = K6, load_script = ''l.js'', load_vus = None, load_duration_s = None, load_thresholds = Map.empty \<rparr>,
     gd_experiments = [\<lparr> ge_path = ''drill.toon'', ge_maps = [''Art. 25''] \<rparr>], gd_scoring = scoring_default \<rparr>"

definition drill_cfg :: run_config where
  "drill_cfg = run_config_default \<lparr> rc_load := Some \<lparr> lx_start = \<lambda>t c. Inr 7, lx_stop = \<lambda>t h. Inl ''killed'' \<rparr> \<rparr>"

definition drill_wiring :: "nat \<Rightarrow> chaos_experiment \<Rightarrow> wiring" where
  "drill_wiring i x = \<lparr> wr_reply = rv_reply (steady_env True), wr_handlers = [] \<rparr>"

lemma drill_campaign: "campaign_config drill_cfg = run_config_default"
  by (simp add: campaign_config_def drill_cfg_def run_config_default_def)

lemma drill_day_scheduled: "campaign_scheduled (steady_env True) drill_end drill_wiring drill_cfg [drill]"
  using drill_scheduled[of True] by (simp add: campaign_scheduled_def drill_campaign drill_wiring_def)

lemma drill_day_runs: "\<exists>g w'. run_gameday_with_wiring (steady_env True) drill_end drill_day [drill] drill_wiring drill_cfg world0 = (Inr g, w')
    \<and> length (gj_journals g) = 1"
proof -
  have c: "\<not> caller_cancelled (steady_env True) drill_cfg t" for t
    by (simp add: caller_cancelled_def steady_env_def)
  have "\<exists>j w'. run_campaign (steady_env True) drill_end drill_wiring drill_cfg 0 [drill] w = (Inr [j], w')" for w
    using drill_runs[of True "advance [] w"] c
    unfolding campaign_Cons drill_campaign drill_wiring_def run_experiment_def drill_run_def
    by (auto simp: ret_def)
  then have "\<exists>j w'. load_guarded drill_cfg h (run_campaign (steady_env True) drill_end drill_wiring drill_cfg 0 [drill]) w = (Inr [j], w')" for h w
    unfolding load_guarded_def by (metis (no_types, lifting) prod.case sum.case(2))
  moreover have "start_shared_load drill_day drill_cfg w = (Inr (Some 7), advance [LoadStarted] w)" for w
    by (simp add: start_shared_load_def drill_day_def drill_cfg_def)
  moreover have "stop_load drill_cfg (Some 7) w = (Inr None, advance [LoadStopped] w)" for w
    by (simp add: stop_load_def drill_cfg_def)
  moreover have "length (gd_experiments drill_day) = 1" by (simp add: drill_day_def)
  moreover obtain w where w: "w = advance [LoadStarted] (advance [] (advance [] (advance [] world0)))" by blast
  ultimately obtain j w' where
    "load_guarded drill_cfg (Some 7) (run_campaign (steady_env True) drill_end drill_wiring drill_cfg 0 [drill]) w = (Inr [j], w')"
    by blast
  then show ?thesis
    using w \<open>length (gd_experiments drill_day) = 1\<close> \<open>\<And>w. start_shared_load drill_day drill_cfg w = (Inr (Some 7), advance [LoadStarted] w)\<close>
      \<open>\<And>w. stop_load drill_cfg (Some 7) w = (Inr None, advance [LoadStopped] w)\<close>
    by (simp add: run_gameday_with_wiring_def bindc_def observe_def instant_now_def ret_def Let_def)
qed

lemma campaign_keeps_its_journals_witness: "\<exists>g w'.
    run_gameday_with_wiring (steady_env True) drill_end drill_day [drill] drill_wiring drill_cfg world0 = (Inr g, w')
    \<and> map jr_title (gj_journals g) = [''drill'']"
proof -
  obtain g w' where g: "run_gameday_with_wiring (steady_env True) drill_end drill_day [drill] drill_wiring drill_cfg world0 = (Inr g, w')"
    "length (gj_journals g) = 1" using drill_day_runs by blast
  from campaign_keeps_its_journals[OF drill_day_scheduled g(1)] g show ?thesis by (simp add: drill_def)
qed

lemma shared_load_is_stopped_witness: "\<exists>g w'.
    run_gameday_with_wiring (steady_env True) drill_end drill_day [drill] drill_wiring drill_cfg world0 = (Inr g, w')
    \<and> (loads w' = [] \<or> loads w' = [LoadStarted, LoadStopped])"
proof -
  obtain g w' where g: "run_gameday_with_wiring (steady_env True) drill_end drill_day [drill] drill_wiring drill_cfg world0 = (Inr g, w')"
    using drill_day_runs by blast
  from shared_load_is_stopped[OF drill_day_scheduled g] g show ?thesis by (simp add: loads_def)
qed

lemma scores_are_fractions_witness:
  "between 0 1 (rs_overall (score_of half_campaign [journal_for experiment_default [] Completed 0] None))"
  using scores_are_fractions[OF _ _ _ refl, of "[journal_for experiment_default [] Completed 0]" half_campaign None]
  by (simp add: half_campaign_def)

end
