(* ===== verification/Api_Store.thy ===== *)
theory Api_Store
  imports Auth_Roles "HOL-Library.List_Lexorder" "HOL-Library.Char_ord"
begin

text \<open>
  The identity tables of \<open>tumult-lake/src/auth.rs\<close>: users, sessions, API tokens and
  environment scopes, with the statements of \<open>Writer\<close> and the queries of \<open>Reader\<close>.
  A table is the list of its rows in insertion order. Every statement can fail: \<open>db_faults\<close>
  says what the next statements answer (an exhausted list answers with success), and a
  failed statement changes nothing. A query without \<open>ORDER BY\<close> returns the rows in table
  order; uniqueness is not enforced by the tables, so two rows can share a key.
\<close>

section \<open>Tables\<close>

record user_row =
  us_id :: string
  us_username :: string
  us_hash :: string
  us_role :: string
  us_must_change :: bool
  us_disabled :: bool
  us_created_at :: int

record session_row =
  se_id_hash :: string
  se_user_id :: string
  se_created_at :: int
  se_expires_at :: int

record token_row =
  to_id :: string
  to_user_id :: string
  to_name :: string
  to_hash :: string
  to_created_at :: int
  to_last_used :: "int option"
  to_revoked :: bool
  to_expires_at :: "int option"

record auth_db =
  db_users :: "user_row list"
  db_sessions :: "session_row list"
  db_tokens :: "token_row list"
  db_scopes :: "(string \<times> string) list"
  db_faults :: "string option list"

type_synonym db_write = "(auth_db, string, unit) comp"

section \<open>Statements\<close>

definition auth_exec :: "(auth_db \<Rightarrow> auth_db) \<Rightarrow> db_write" where
  "auth_exec f = (\<lambda>db. (case db_faults db of
     Some e # rest \<Rightarrow> (Inl e, db \<lparr> db_faults := rest \<rparr>)
   | _ \<Rightarrow> (Inr (), f (db \<lparr> db_faults := tl (db_faults db) \<rparr>))))"

text \<open>A failed body is rolled back, and so is a transaction whose commit fails.\<close>

definition auth_tx :: "db_write \<Rightarrow> db_write" where
  "auth_tx f = (\<lambda>db. (case auth_exec id db of
     (Inl e, db1) \<Rightarrow> (Inl e, db1)
   | (Inr _, db1) \<Rightarrow> (case f db1 of
       (Inr _, db2) \<Rightarrow> (case auth_exec id db2 of
           (Inl e, db3) \<Rightarrow> (Inl e, db1 \<lparr> db_faults := db_faults db3 \<rparr>)
         | (Inr _, db3) \<Rightarrow> (Inr (), db3))
     | (Inl e, db2) \<Rightarrow> (Inl e, db1 \<lparr> db_faults := db_faults (snd (auth_exec id db2)) \<rparr>))))"

definition update_user :: "string \<Rightarrow> (user_row \<Rightarrow> user_row) \<Rightarrow> auth_db \<Rightarrow> auth_db" where
  "update_user uid f db = db \<lparr> db_users := map (\<lambda>u. if us_id u = uid then f u else u) (db_users db) \<rparr>"

definition create_user :: "user_row \<Rightarrow> db_write" where
  "create_user u = auth_exec (\<lambda>db. db \<lparr> db_users := db_users db @ [u] \<rparr>)"

definition set_user_password :: "string \<Rightarrow> string \<Rightarrow> db_write" where
  "set_user_password uid h = auth_exec (update_user uid (\<lambda>u. u \<lparr> us_hash := h, us_must_change := False \<rparr>))"

definition reset_user_password :: "string \<Rightarrow> string \<Rightarrow> db_write" where
  "reset_user_password uid h = auth_exec (update_user uid (\<lambda>u. u \<lparr> us_hash := h, us_must_change := True \<rparr>))"

definition set_user_role :: "string \<Rightarrow> string \<Rightarrow> db_write" where
  "set_user_role uid r = auth_exec (update_user uid (\<lambda>u. u \<lparr> us_role := r \<rparr>))"

definition set_user_disabled :: "string \<Rightarrow> bool \<Rightarrow> db_write" where
  "set_user_disabled uid b = auth_exec (update_user uid (\<lambda>u. u \<lparr> us_disabled := b \<rparr>))"

definition create_session :: "session_row \<Rightarrow> db_write" where
  "create_session s = auth_exec (\<lambda>db. db \<lparr> db_sessions := db_sessions db @ [s] \<rparr>)"

definition delete_session :: "string \<Rightarrow> db_write" where
  "delete_session h = auth_exec (\<lambda>db. db \<lparr> db_sessions := filter (\<lambda>s. se_id_hash s \<noteq> h) (db_sessions db) \<rparr>)"

definition delete_sessions_for_user :: "string \<Rightarrow> db_write" where
  "delete_sessions_for_user uid = auth_exec (\<lambda>db. db \<lparr> db_sessions := filter (\<lambda>s. se_user_id s \<noteq> uid) (db_sessions db) \<rparr>)"

definition create_token :: "token_row \<Rightarrow> db_write" where
  "create_token t = auth_exec (\<lambda>db. db \<lparr> db_tokens := db_tokens db @ [t] \<rparr>)"

definition update_tokens :: "(token_row \<Rightarrow> bool) \<Rightarrow> (token_row \<Rightarrow> token_row) \<Rightarrow> auth_db \<Rightarrow> auth_db" where
  "update_tokens P f db = db \<lparr> db_tokens := map (\<lambda>t. if P t then f t else t) (db_tokens db) \<rparr>"

definition revoke_token :: "string \<Rightarrow> db_write" where
  "revoke_token tid = auth_exec (update_tokens (\<lambda>t. to_id t = tid) (\<lambda>t. t \<lparr> to_revoked := True \<rparr>))"

definition revoke_tokens_for_user :: "string \<Rightarrow> db_write" where
  "revoke_tokens_for_user uid = auth_exec (update_tokens (\<lambda>t. to_user_id t = uid) (\<lambda>t. t \<lparr> to_revoked := True \<rparr>))"

definition touch_token_last_used :: "string \<Rightarrow> int \<Rightarrow> db_write" where
  "touch_token_last_used h now = auth_exec (update_tokens (\<lambda>t. to_hash t = h) (\<lambda>t. t \<lparr> to_last_used := Some now \<rparr>))"

fun insert_scopes :: "string \<Rightarrow> string list \<Rightarrow> db_write" where
  "insert_scopes uid [] = ret ()"
| "insert_scopes uid (e # es) = seqc (auth_exec (\<lambda>db. db \<lparr> db_scopes := db_scopes db @ [(uid, e)] \<rparr>)) (insert_scopes uid es)"

definition set_user_env_scopes :: "string \<Rightarrow> string list \<Rightarrow> db_write" where
  "set_user_env_scopes uid envs = auth_tx
    (seqc (auth_exec (\<lambda>db. db \<lparr> db_scopes := filter (\<lambda>(u, e). u \<noteq> uid) (db_scopes db) \<rparr>))
      (insert_scopes uid envs))"

section \<open>Queries\<close>

definition real_users_exist :: "auth_db \<Rightarrow> bool" where
  "real_users_exist db \<longleftrightarrow> list_ex (\<lambda>u. us_id u \<noteq> ''legacy'') (db_users db)"

definition user_by_username :: "auth_db \<Rightarrow> string \<Rightarrow> user_row option" where
  "user_by_username db name = List.find (\<lambda>u. us_username u = name) (db_users db)"

definition user_by_id :: "auth_db \<Rightarrow> string \<Rightarrow> user_row option" where
  "user_by_id db uid = List.find (\<lambda>u. us_id u = uid) (db_users db)"

text \<open>The join of a row with the users, of which the caller takes the first pair.\<close>

definition session_with_user :: "auth_db \<Rightarrow> string \<Rightarrow> int \<Rightarrow> (session_row \<times> user_row) option" where
  "session_with_user db h now = List.find (\<lambda>_. True)
    [(s, u). s \<leftarrow> db_sessions db, u \<leftarrow> db_users db, us_id u = se_user_id s \<and> se_id_hash s = h \<and> now < se_expires_at s]"

definition token_live :: "token_row \<Rightarrow> int \<Rightarrow> bool" where
  "token_live t now \<longleftrightarrow> \<not> to_revoked t \<and> (case to_expires_at t of None \<Rightarrow> True | Some e \<Rightarrow> now < e)"

definition token_with_user :: "auth_db \<Rightarrow> string \<Rightarrow> int \<Rightarrow> (token_row \<times> user_row) option" where
  "token_with_user db h now = List.find (\<lambda>_. True)
    [(t, u). t \<leftarrow> db_tokens db, u \<leftarrow> db_users db, us_id u = to_user_id t \<and> to_hash t = h \<and> token_live t now]"

definition user_env_scopes :: "auth_db \<Rightarrow> string \<Rightarrow> string list" where
  "user_env_scopes db uid = sort (map snd (filter (\<lambda>(u, e). u = uid) (db_scopes db)))"

section \<open>What the queries find\<close>

lemma find_True: "List.find (\<lambda>_. True) xs = (case xs of [] \<Rightarrow> None | x # _ \<Rightarrow> Some x)"
  by (cases xs) auto

lemma find_first_in: "List.find P xs = Some x \<Longrightarrow> x \<in> set xs \<and> P x"
  by (induction xs) (auto split: if_splits)

lemma session_with_userD:
  assumes "session_with_user db h now = Some (s, u)"
  shows "s \<in> set (db_sessions db) \<and> u \<in> set (db_users db) \<and> us_id u = se_user_id s \<and> se_id_hash s = h \<and> now < se_expires_at s"
  using find_first_in[OF assms[unfolded session_with_user_def]] by auto

lemma token_with_userD:
  assumes "token_with_user db h now = Some (t, u)"
  shows "t \<in> set (db_tokens db) \<and> u \<in> set (db_users db) \<and> us_id u = to_user_id t \<and> to_hash t = h \<and> token_live t now"
  using find_first_in[OF assms[unfolded token_with_user_def]] by auto

lemma set_user_env_scopes_query [simp]: "set (user_env_scopes db uid) = snd ` {p \<in> set (db_scopes db). fst p = uid}"
  by (auto simp: user_env_scopes_def)

section \<open>What a statement can do\<close>

lemma auth_exec_cases:
  "auth_exec f db = (r, db') \<Longrightarrow>
    (\<exists>e. r = Inl e \<and> db' = db \<lparr> db_faults := tl (db_faults db) \<rparr>) \<or> r = Inr () \<and> db' = f (db \<lparr> db_faults := tl (db_faults db) \<rparr>)"
  by (auto simp: auth_exec_def split: list.splits option.splits)

lemma auth_exec_moves:
  assumes "\<And>db. R db (f db)" "\<And>db fs. R db (db \<lparr> db_faults := fs \<rparr>)" "\<And>a b c. R a b \<Longrightarrow> R b c \<Longrightarrow> R a c"
  shows "obeys R (auth_exec f)"
  unfolding obeys_def
proof (intro allI impI)
  fix db r db'
  assume "auth_exec f db = (r, db')"
  then have "db' = db \<lparr> db_faults := tl (db_faults db) \<rparr> \<or> db' = f (db \<lparr> db_faults := tl (db_faults db) \<rparr>)"
    by (auto dest: auth_exec_cases)
  then show "R db db'" using assms(1,2) assms(3)[OF assms(2) assms(1)] by auto
qed

text \<open>The tables without the faults to come.\<close>

definition same_tables :: "auth_db \<Rightarrow> auth_db \<Rightarrow> bool" where
  "same_tables a b \<longleftrightarrow> db_users a = db_users b \<and> db_sessions a = db_sessions b \<and> db_tokens a = db_tokens b \<and> db_scopes a = db_scopes b"

text \<open>A transaction either did its whole body or left the tables alone.\<close>

lemma same_tables_refl [simp]: "same_tables db db" "same_tables db (db \<lparr> db_faults := fs \<rparr>)"
    "same_tables (db \<lparr> db_faults := fs \<rparr>) db"
  by (simp_all add: same_tables_def)

lemma auth_tx_cases:
  assumes "auth_tx f db = (r, db')"
  shows "(\<exists>e. r = Inl e) \<and> same_tables db db' \<or>
    r = Inr () \<and> (\<exists>db1 db2. same_tables db db1 \<and> f db1 = (Inr (), db2) \<and> same_tables db2 db')"
proof -
  obtain r1 db1 where 1: "auth_exec id db = (r1, db1)" by fastforce
  obtain r2 db2 where 2: "f db1 = (r2, db2)" by fastforce
  obtain r3 db3 where 3: "auth_exec id db2 = (r3, db3)" by fastforce
  note c1 = auth_exec_cases[OF 1] and c3 = auth_exec_cases[OF 3]
  have s1: "same_tables db db1" and s3: "same_tables db2 db3" using c1 c3 by auto
  have b: "same_tables db (db1 \<lparr> db_faults := fs \<rparr>)" for fs using s1 by (simp add: same_tables_def)
  show ?thesis
  proof (cases r1)
    case (Inl e)
    then show ?thesis using assms 1 s1 by (auto simp: auth_tx_def)
  next
    case r1: (Inr x)
    show ?thesis
    proof (cases r2)
      case (Inl e)
      then show ?thesis using assms 1 2 r1 b by (auto simp: auth_tx_def)
    next
      case r2: (Inr y)
      show ?thesis
      proof (cases r3)
        case (Inl e)
        then show ?thesis using assms 1 2 3 r1 r2 b by (auto simp: auth_tx_def)
      next
        case (Inr z)
        then have "r = Inr ()" "db' = db3" using assms 1 2 3 r1 r2 by (auto simp: auth_tx_def)
        then show ?thesis using s1 s3 2 r2 by (intro disjI2 conjI exI[of _ db1] exI[of _ db2]) simp_all
      qed
    qed
  qed
qed

end
