(* ===== verification/Api_Routes.thy ===== *)
theory Api_Routes
  imports Auth_Roles
begin

text \<open>
  \<open>tumult-api/src/auth/route_table.rs\<close>: which role a route needs. The table is the
  source's, in its order; \<open>required_role\<close> picks the most specific matching entry and fails
  closed. The lemmas reduce a statement about all paths to a scan of the table.
\<close>

section \<open>The table\<close>

definition route_table :: "(string \<times> string \<times> role) list" where
  "route_table = [
    (''GET'', ''/api/overview'', Viewer),
    (''GET'', ''/api/timeseries'', Viewer),
    (''GET'', ''/api/experiments'', Viewer),
    (''GET'', ''/api/experiments/windows'', Viewer),
    (''GET'', ''/api/experiments/{id}'', Viewer),
    (''GET'', ''/api/dimensions'', Viewer),
    (''GET'', ''/api/metrics'', Viewer),
    (''GET'', ''/api/logs'', Viewer),
    (''GET'', ''/api/logs/volume'', Viewer),
    (''GET'', ''/api/traces'', Viewer),
    (''GET'', ''/api/traces/durations'', Viewer),
    (''GET'', ''/api/traces/{id}'', Viewer),
    (''GET'', ''/api/metrics/catalog'', Viewer),
    (''GET'', ''/api/metrics/query'', Viewer),
    (''GET'', ''/api/topology'', Viewer),
    (''GET'', ''/api/scores'', Viewer),
    (''GET'', ''/api/scores/tree'', Viewer),
    (''GET'', ''/api/manual/experiments'', Viewer),
    (''GET'', ''/api/manual/experiments/{id}'', Viewer),
    (''GET'', ''/api/authoring/catalog'', Viewer),
    (''GET'', ''/api/registry'', Viewer),
    (''GET'', ''/api/registry/{id}'', Viewer),
    (''GET'', ''/api/runs'', Viewer),
    (''GET'', ''/api/runs/{id}'', Viewer),
    (''GET'', ''/api/runs/{id}/audit/verify'', Viewer),
    (''GET'', ''/api/schedules'', Viewer),
    (''GET'', ''/api/events'', Viewer),
    (''GET'', ''/api/gamedays'', Viewer),
    (''GET'', ''/api/gamedays/{id}'', Viewer),
    (''GET'', ''/api/lake/status'', Viewer),
    (''GET'', ''/api/reports'', Viewer),
    (''GET'', ''/api/reports/v2'', Viewer),
    (''GET'', ''/api/reports/v2/{id}/pdf'', Viewer),
    (''GET'', ''/api/reports/v2/{id}/html'', Viewer),
    (''GET'', ''/api/reports/{name}'', Viewer),
    (''GET'', ''/api/me'', Viewer),
    (''GET'', ''/api/users'', Admin),
    (''GET'', ''/report'', Viewer),
    (''GET'', ''/healthz'', Viewer),
    (''GET'', ''/readyz'', Viewer),
    (''GET'', ''/metrics'', Viewer),
    (''POST'', ''/api/ask'', Viewer),
    (''POST'', ''/api/authoring/scaffold'', Viewer),
    (''POST'', ''/api/auth/login'', Viewer),
    (''POST'', ''/api/auth/logout'', Viewer),
    (''POST'', ''/api/auth/change-password'', Viewer),
    (''POST'', ''/api/runs'', Operator),
    (''POST'', ''/api/runs/dry-run'', Operator),
    (''POST'', ''/api/runs/stop-all'', Operator),
    (''POST'', ''/api/runs/{id}/stop'', Operator),
    (''POST'', ''/api/runs/validate'', Operator),
    (''POST'', ''/api/import/journal'', Operator),
    (''POST'', ''/api/manual/experiments'', Operator),
    (''PUT'', ''/api/manual/experiments/{id}'', Operator),
    (''POST'', ''/api/manual/experiments/{id}/submit'', Operator),
    (''POST'', ''/api/manual/experiments/{id}/attachments'', Operator),
    (''POST'', ''/api/manual/import'', Operator),
    (''POST'', ''/api/reports/generate'', Operator),
    (''POST'', ''/api/reports/v2/generate'', Operator),
    (''POST'', ''/api/lake/export'', Operator),
    (''POST'', ''/api/schedules'', Operator),
    (''POST'', ''/api/schedules/{id}/enable'', Operator),
    (''POST'', ''/api/schedules/{id}/delete'', Operator),
    (''POST'', ''/api/gamedays/validate'', Operator),
    (''POST'', ''/api/gamedays/{id}/runs'', Operator),
    (''POST'', ''/api/manual/experiments/{id}/verify'', Approver),
    (''POST'', ''/api/manual/experiments/{id}/reject'', Approver),
    (''GET'', ''/api/approvals'', Viewer),
    (''POST'', ''/api/runs/{id}/approve'', Approver),
    (''POST'', ''/api/runs/{id}/reject'', Approver),
    (''POST'', ''/api/runs/{id}/break-glass'', Admin),
    (''POST'', ''/api/users'', Admin),
    (''POST'', ''/api/users/{id}/role'', Admin),
    (''POST'', ''/api/users/{id}/password'', Admin),
    (''POST'', ''/api/users/{id}/disable'', Admin),
    (''POST'', ''/api/users/{id}/scopes'', Admin),
    (''GET'', ''/api/tokens'', Admin),
    (''POST'', ''/api/tokens'', Admin),
    (''POST'', ''/api/tokens/{id}/revoke'', Admin),
    (''GET'', ''/api/webhooks'', Admin),
    (''POST'', ''/api/webhooks'', Admin),
    (''POST'', ''/api/webhooks/{id}/enable'', Admin),
    (''POST'', ''/api/webhooks/{id}/delete'', Admin)]"

section \<open>Matching\<close>

abbreviation slash :: char where "slash \<equiv> CHR ''/''"

definition is_hole :: "string \<Rightarrow> bool" where
  "is_hole s \<longleftrightarrow> s \<noteq> [] \<and> hd s = CHR ''{'' \<and> last s = CHR ''}''"

definition template_matches :: "string \<Rightarrow> string \<Rightarrow> bool" where
  "template_matches template path = (let t = split_at slash template; p = split_at slash path in
     length t = length p \<and> list_all2 (\<lambda>t p. if is_hole t then p \<noteq> [] else t = p) t p)"

definition literal_segments :: "string \<Rightarrow> nat" where
  "literal_segments template = length (filter (\<lambda>s. \<not> is_hole s) (split_at slash template))"

text \<open>\<open>Iterator::max_by_key\<close> returns the last of the greatest.\<close>

fun max_by_key :: "('a \<Rightarrow> nat) \<Rightarrow> 'a list \<Rightarrow> 'a option" where
  "max_by_key f [] = None"
| "max_by_key f (x # xs) = (case max_by_key f xs of
     None \<Rightarrow> Some x
   | Some y \<Rightarrow> if f x \<le> f y then Some y else Some x)"

definition required_role :: "string \<Rightarrow> string \<Rightarrow> role" where
  "required_role method path = (case max_by_key (\<lambda>(m, t, r). literal_segments t)
       (filter (\<lambda>(m, t, r). m = method \<and> template_matches t path) route_table) of
     None \<Rightarrow> Admin | Some (m, t, r) \<Rightarrow> r)"

section \<open>Scanning the table\<close>

lemma max_by_key_in: "max_by_key f xs = Some x \<Longrightarrow> x \<in> set xs \<and> (\<forall>y \<in> set xs. f y \<le> f x)"
proof (induction xs arbitrary: x)
  case (Cons a xs)
  show ?case
  proof (cases "max_by_key f xs")
    case None
    then have "xs = []" by (cases xs) (auto split: option.splits if_splits)
    then show ?thesis using Cons.prems None by simp
  next
    case (Some y)
    note y = Cons.IH[OF Some]
    have "x = (if f a \<le> f y then y else a)" using Cons.prems Some by (simp split: if_splits)
    then show ?thesis using y by (auto intro: order_trans[of _ "f y" "f a"])
  qed
qed simp

lemma max_by_key_None [simp]: "max_by_key f xs = None \<longleftrightarrow> xs = []"
  by (cases xs) (auto split: option.splits if_splits)

text \<open>A role below the one that fails closed comes from an entry that matches.\<close>

lemma required_role_entry:
  assumes "required_role m p \<noteq> Admin"
  shows "\<exists>t. (m, t, required_role m p) \<in> set route_table \<and> template_matches t p"
proof -
  let ?k = "max_by_key (\<lambda>(m, t, r). literal_segments t) (filter (\<lambda>(m', t, r). m' = m \<and> template_matches t p) route_table)"
  obtain e where e: "?k = Some e" using assms by (cases "?k") (auto simp: required_role_def)
  obtain m1 t r where e': "e = (m1, t, r)" by (cases e)
  have r: "required_role m p = r" using e e' by (simp add: required_role_def)
  have "e \<in> set (filter (\<lambda>(m', t, r). m' = m \<and> template_matches t p) route_table)" using max_by_key_in[OF e] by blast
  then have "(m, t, r) \<in> set route_table" "template_matches t p" using e' by auto
  then show ?thesis using r by blast
qed

text \<open>A template without a hole matches itself only.\<close>

definition fixed_template :: "string \<Rightarrow> bool" where
  "fixed_template t \<longleftrightarrow> list_all (\<lambda>s. \<not> is_hole s) (split_at slash t)"

lemma fixed_template_matches: "fixed_template t \<Longrightarrow> template_matches t p \<Longrightarrow> p = t"
proof -
  assume f: "fixed_template t" "template_matches t p"
  then have "list_all2 (=) (split_at slash t) (split_at slash p)"
    by (auto simp: fixed_template_def template_matches_def Let_def list_all_iff list_all2_conv_all_nth split: if_splits)
  then have "split_at slash t = split_at slash p" by (simp add: list.rel_eq)
  then show "p = t" using split_at_inj by metis
qed

text \<open>Segments of a matching path at the places where the template is literal.\<close>

lemma matches_segment:
  assumes "template_matches t p" "i < length (split_at slash t)" "\<not> is_hole (split_at slash t ! i)"
  shows "split_at slash p ! i = split_at slash t ! i"
  using assms by (auto simp: template_matches_def Let_def list_all2_conv_all_nth)

section \<open>What a role opens\<close>

definition open_posts :: "string list" where
  "open_posts = [''/api/ask'', ''/api/authoring/scaffold'', ''/api/auth/login'', ''/api/auth/logout'', ''/api/auth/change-password'']"

lemma table_viewer:
  "list_all (\<lambda>(m, t, r). r = Viewer \<longrightarrow> m = ''GET'' \<or> m = ''POST'' \<and> t \<in> set open_posts \<and> fixed_template t) route_table"
  by code_simp

text \<open>C33: a viewer can only read: a request open to viewers is a \<open>GET\<close> or one of the five
  posts that start no run and change nothing but the caller's own credentials.\<close>

theorem viewers_only_read:
  assumes "required_role m p = Viewer"
  shows "m = ''GET'' \<or> m = ''POST'' \<and> p \<in> set open_posts"
proof -
  obtain t where t: "(m, t, Viewer) \<in> set route_table" "template_matches t p"
    using required_role_entry[of m p] assms by auto
  then have "m = ''GET'' \<or> m = ''POST'' \<and> t \<in> set open_posts \<and> fixed_template t"
    using table_viewer by (auto simp: list_all_iff)
  then show ?thesis using fixed_template_matches t(2) by blast
qed

theorem viewers_only_read_witness:
  "required_role ''POST'' ''/api/ask'' = Viewer \<and> (''POST'' = ''GET'' \<or> ''POST'' = ''POST'' \<and> ''/api/ask'' \<in> set open_posts)"
proof -
  have r: "required_role ''POST'' ''/api/ask'' = Viewer" by code_simp
  show ?thesis using viewers_only_read[OF r] r by simp
qed

text \<open>Paths by their third segment.\<close>

lemma required_role_area:
  assumes "list_all (\<lambda>(m', t, r). m' = m \<and> \<not> (2 < length (split_at slash t) \<and> \<not> is_hole (split_at slash t ! 2)
      \<and> split_at slash t ! 2 \<noteq> a) \<longrightarrow> P r) route_table"
    "2 < length (split_at slash p)" "split_at slash p ! 2 = a" "P Admin"
  shows "P (required_role m p)"
proof (cases "required_role m p = Admin")
  case False
  then obtain t where t: "(m, t, required_role m p) \<in> set route_table" "template_matches t p"
    using required_role_entry by blast
  have "\<not> (2 < length (split_at slash t) \<and> \<not> is_hole (split_at slash t ! 2) \<and> split_at slash t ! 2 \<noteq> a)"
    using matches_segment[OF t(2), of 2] assms(3) by metis
  then show ?thesis using assms(1) t(1) by (auto simp: list_all_iff)
qed (use assms(4) in simp)

section \<open>The choice does not depend on the order of the table\<close>

text \<open>Two templates that some path could match both.\<close>

definition overlap :: "string \<Rightarrow> string \<Rightarrow> bool" where
  "overlap t u \<longleftrightarrow> length (split_at slash t) = length (split_at slash u) \<and>
     list_all2 (\<lambda>a b. is_hole a \<or> is_hole b \<or> a = b) (split_at slash t) (split_at slash u)"

lemma matches_overlap: "template_matches t p \<Longrightarrow> template_matches u p \<Longrightarrow> overlap t u"
  by (auto simp: template_matches_def overlap_def Let_def list_all2_conv_all_nth split: if_splits) metis+

definition clash :: "string \<times> string \<times> role \<Rightarrow> string \<times> string \<times> role \<Rightarrow> bool" where
  "clash e e' = (case e of (m, t, r) \<Rightarrow> case e' of (m', t', r') \<Rightarrow>
     if m = m' then (if literal_segments t = literal_segments t' then overlap t t' else False) else False)"

definition of_role :: "role \<Rightarrow> (string \<times> string \<times> role) list" where
  "of_role r = filter (\<lambda>(m, t, r'). r' = r) route_table"

definition roles_apart :: "role \<Rightarrow> role \<Rightarrow> bool" where
  "roles_apart r r' = list_all (\<lambda>e. list_all (\<lambda>e'. \<not> clash e e') (of_role r')) (of_role r)"

lemma roles_apart_table:
  "roles_apart Approver Admin" "roles_apart Approver Operator" "roles_apart Approver Viewer"
  "roles_apart Admin Operator" "roles_apart Admin Viewer" "roles_apart Operator Viewer"
  by code_simp+

lemma overlap_sym: "overlap t u \<longleftrightarrow> overlap u t"
  by (auto simp: overlap_def list_all2_conv_all_nth)

lemma clash_sym: "clash e e' \<longleftrightarrow> clash e' e"
  by (auto simp: clash_def overlap_sym split: prod.splits)

lemma roles_apart_sym: "roles_apart r r' \<longleftrightarrow> roles_apart r' r"
  unfolding roles_apart_def list_all_iff using clash_sym by blast

lemma table_unambiguous:
  assumes "(m, t, r) \<in> set route_table" "(m, t', r') \<in> set route_table" "literal_segments t = literal_segments t'" "overlap t t'"
  shows "r = r'"
proof (rule ccontr)
  assume "r \<noteq> r'"
  then have "roles_apart r r'" using roles_apart_table roles_apart_sym by (cases r; cases r') blast+
  moreover have "(m, t, r) \<in> set (of_role r)" "(m, t', r') \<in> set (of_role r')" using assms by (simp_all add: of_role_def)
  ultimately have "\<not> clash (m, t, r) (m, t', r')" unfolding roles_apart_def list_all_iff by blast
  then show False using assms by (simp add: clash_def)
qed

text \<open>The role of a route is decided by the entries alone: however the table is ordered, the
  same role is required of every method and path.\<close>

theorem role_is_order_free:
  assumes "set tbl = set route_table"
  shows "(case max_by_key (\<lambda>(m, t, r). literal_segments t) (filter (\<lambda>(m', t, r). m' = m \<and> template_matches t p) tbl) of
     None \<Rightarrow> Admin | Some (m, t, r) \<Rightarrow> r) = required_role m p"
proof -
  let ?f = "\<lambda>tbl. filter (\<lambda>(m', t, r). m' = m \<and> template_matches t p) tbl"
  let ?k = "max_by_key (\<lambda>(m, t, r). literal_segments t)"
  show ?thesis
  proof (cases "?k (?f tbl)")
    case None
    then have "?f route_table = []" using assms by (auto simp: filter_empty_conv)
    then show ?thesis using None by (simp add: required_role_def)
  next
    case (Some e)
    have ne: "?f route_table \<noteq> []" using Some assms max_by_key_in[OF Some] by (auto simp: filter_empty_conv)
    then obtain e' where e': "?k (?f route_table) = Some e'" using max_by_key_None by blast
    obtain m1 t r where e1: "e = (m1, t, r)" by (cases e)
    obtain m2 t' r' where e2: "e' = (m2, t', r')" by (cases e')
    note i1 = max_by_key_in[OF Some] and i2 = max_by_key_in[OF e']
    have in1: "(m1, t, r) \<in> set route_table" "m1 = m" "template_matches t p"
      and in2: "(m2, t', r') \<in> set route_table" "m2 = m" "template_matches t' p"
      using i1 i2 e1 e2 assms by auto
    have "literal_segments t' \<le> literal_segments t" using i1 in2 e1 assms by fastforce
    moreover have "literal_segments t \<le> literal_segments t'" using i2 in1 e2 assms by fastforce
    ultimately have "r = r'" using table_unambiguous[of m t r t' r'] in1 in2 matches_overlap by simp
    then show ?thesis using Some e' e1 e2 by (simp add: required_role_def)
  qed
qed

theorem role_is_order_free_witness:
  "(case max_by_key (\<lambda>(m, t, r). literal_segments t)
      (filter (\<lambda>(m', t, r). m' = ''POST'' \<and> template_matches t ''/api/runs'') (rev route_table)) of
     None \<Rightarrow> Admin | Some (m, t, r) \<Rightarrow> r) = required_role ''POST'' ''/api/runs''"
  by (rule role_is_order_free) simp

end
