(* ===== verification/Api_Auth.thy ===== *)
theory Api_Auth
  imports Api_Store Api_Routes Float_Arith
begin

text \<open>
  The access control of the HTTP API, \<open>tumult-api/src/auth\<close>: credentials and the middleware
  (\<open>middleware.rs\<close>), the login limiter (\<open>rate_limit.rs\<close>), and the handlers of
  \<open>session.rs\<close>, \<open>users.rs\<close> and \<open>tokens.rs\<close>. Argon2, SHA-256, the random generator and the
  UUIDs are parameters (\<open>auth_env\<close>); their draws are numbered by the tick of the state.
  Header values and bodies are strings of ASCII characters, times are nanoseconds.
\<close>

section \<open>Answers\<close>

datatype jval = JvNull | JvBool bool | JvInt int | JvStr string | JvList "jval list" | JvObj "(string \<times> jval) list"

datatype api_error = HttpError nat string | NeverAnswers

datatype response = Response nat "string option" jval  \<comment> \<open>status, \<open>Set-Cookie\<close>, body\<close>

abbreviation unauthorized :: "string \<Rightarrow> api_error" where "unauthorized \<equiv> HttpError 401"
abbreviation bad_request :: "string \<Rightarrow> api_error" where "bad_request \<equiv> HttpError 400"
abbreviation forbidden :: "string \<Rightarrow> api_error" where "forbidden \<equiv> HttpError 403"
abbreviation not_found :: "string \<Rightarrow> api_error" where "not_found \<equiv> HttpError 404"
abbreviation conflict :: "string \<Rightarrow> api_error" where "conflict \<equiv> HttpError 409"
abbreviation too_many_requests :: "string \<Rightarrow> api_error" where "too_many_requests \<equiv> HttpError 429"
abbreviation unavailable :: "string \<Rightarrow> api_error" where "unavailable \<equiv> HttpError 503"

text \<open>The detail is logged and not returned.\<close>

definition internal :: "string \<Rightarrow> api_error" where
  "internal e = HttpError 500 ''internal error''"

section \<open>Principals\<close>

definition SESSION_TTL_NS :: int where
  "SESSION_TTL_NS = 12 * 3600 * 1000000000"

record principal =
  pr_user_id :: string
  pr_username :: string
  pr_role :: role
  pr_scopes :: "string list"
  pr_must_change :: bool
  pr_synthetic :: bool

definition synthetic :: principal where
  "synthetic = \<lparr> pr_user_id = [], pr_username = ''anonymous'', pr_role = Admin, pr_scopes = [],
     pr_must_change = False, pr_synthetic = True \<rparr>"

definition actor :: "principal \<Rightarrow> string option" where
  "actor p = (if pr_synthetic p then None else Some (pr_username p))"

definition env_allowed :: "principal \<Rightarrow> string \<Rightarrow> bool" where
  "env_allowed p env \<longleftrightarrow> pr_scopes p = [] \<or> list_ex (\<lambda>s. s = env) (pr_scopes p)"

record auth_env =
  ae_sha :: "string \<Rightarrow> string"
  ae_verify :: "string \<Rightarrow> string \<Rightarrow> bool"  \<comment> \<open>hash, password\<close>
  ae_dummy :: string
  ae_hash :: "nat \<Rightarrow> string \<Rightarrow> string + string"
  ae_bytes :: "nat \<Rightarrow> 8 word list"
  ae_draws :: "nat \<Rightarrow> nat \<Rightarrow> 8 word list"
  ae_fuel :: nat
  ae_uuid :: "nat \<Rightarrow> string"
  ae_writes :: bool  \<comment> \<open>the ingest handle is wired\<close>
  ae_secure :: bool

section \<open>Credentials\<close>

fun first_session :: "string list \<Rightarrow> string option" where
  "first_session [] = None"
| "first_session (part # parts) = (case strip_prefix ''kro_session='' (trim part) of
     Some v \<Rightarrow> if v \<noteq> [] then Some v else first_session parts
   | None \<Rightarrow> first_session parts)"

definition session_cookie :: "string option \<Rightarrow> string option" where
  "session_cookie header = (case header of None \<Rightarrow> None | Some raw \<Rightarrow> first_session (split_at (CHR '';'') raw))"

definition bearer_token :: "string option \<Rightarrow> string option" where
  "bearer_token header = (case header of None \<Rightarrow> None | Some raw \<Rightarrow> strip_prefix ''Bearer '' raw)"

text \<open>The last argument is the lifetime in seconds as it is printed.\<close>

definition session_set_cookie :: "string \<Rightarrow> string \<Rightarrow> bool \<Rightarrow> string" where
  "session_set_cookie value max_age secure =
    ''kro_session='' @ value @ ''; HttpOnly; SameSite=Strict; Path=/; Max-Age='' @ max_age @ (if secure then ''; Secure'' else [])"

datatype resolution = AuthOpen | Authenticated principal "string option" | Rejected

definition resolve :: "auth_env \<Rightarrow> auth_db \<Rightarrow> string option \<Rightarrow> string option \<Rightarrow> int \<Rightarrow> resolution" where
  "resolve E db bearer cookie now =
    (if \<not> real_users_exist db then AuthOpen
     else let resolved = (case bearer of
            Some token \<Rightarrow> if starts_with token ''kro_''
              then map_option (\<lambda>(t, u). (u, Some (ae_sha E token))) (token_with_user db (ae_sha E token) now)
              else (case cookie of None \<Rightarrow> None
                | Some sid \<Rightarrow> map_option (\<lambda>(s, u). (u, None)) (session_with_user db (ae_sha E sid) now))
          | None \<Rightarrow> (case cookie of None \<Rightarrow> None
                | Some sid \<Rightarrow> map_option (\<lambda>(s, u). (u, None)) (session_with_user db (ae_sha E sid) now)))
       in (case resolved of
            None \<Rightarrow> Rejected
          | Some (user, token_hash) \<Rightarrow>
              if us_disabled user then Rejected
              else (case role_parse (us_role user) of
                  None \<Rightarrow> Rejected
                | Some r \<Rightarrow> Authenticated \<lparr> pr_user_id = us_id user, pr_username = us_username user, pr_role = r,
                    pr_scopes = user_env_scopes db (us_id user), pr_must_change = us_must_change user, pr_synthetic = False \<rparr> token_hash)))"

section \<open>The middleware\<close>

definition password_change_exempt :: "string list" where
  "password_change_exempt = [''/api/auth/logout'', ''/api/auth/change-password'']"

definition global_resources :: "string list" where
  "global_resources = [''/report'', ''/api/users'', ''/api/tokens'', ''/api/webhooks'', ''/api/lake'', ''/api/import/journal'']"

definition global_resource :: "string \<Rightarrow> bool" where
  "global_resource path \<longleftrightarrow> list_ex (\<lambda>prefix. path = prefix \<or> starts_with path (prefix @ ''/'')) global_resources"

text \<open>
  The first component is the token whose use is stamped. A request that is let through carries
  its principal, if it has one.
\<close>

definition auth_middleware :: "auth_env \<Rightarrow> auth_db \<Rightarrow> string option \<Rightarrow> string \<Rightarrow> string \<Rightarrow> string option \<Rightarrow> string option \<Rightarrow> int \<Rightarrow>
    string option \<times> (api_error, principal option) result" where
  "auth_middleware E db fault method path bearer cookie now =
    (let is_login = (method = ''POST'' \<and> path = ''/api/auth/login'');
         is_me = (method = ''GET'' \<and> path = ''/api/me'')
     in case fault of Some e \<Rightarrow> (None, Inl (internal e))
      | None \<Rightarrow> (case resolve E db bearer cookie now of
          AuthOpen \<Rightarrow> (None, Inr (Some synthetic))
        | Rejected \<Rightarrow> (None, if \<not> is_login \<and> \<not> is_me then Inl (unauthorized ''authentication required'') else Inr None)
        | Authenticated p token \<Rightarrow>
            if is_login \<or> is_me then (None, Inr (Some p))
            else (if ae_writes E then token else None,
              if pr_must_change p \<and> path \<notin> set password_change_exempt then Inl (forbidden ''password_change_required'')
              else if global_resource path \<and> pr_scopes p \<noteq> []
                then Inl (forbidden ''this global operation requires an unscoped principal'')
              else if pr_role p < required_role method path then Inl (forbidden ''insufficient role'')
              else Inr (Some p))))"

section \<open>The login limiter\<close>

definition MAX_LOGIN_BUCKETS :: nat where "MAX_LOGIN_BUCKETS = 4096"

record bucket =
  bk_tokens :: f64
  bk_last :: nat

record limiter =
  lm_rps :: f64
  lm_burst :: f64
  lm_buckets :: "(string \<times> bucket) list"

text \<open>The double nearest to 0.1, in lowest terms.\<close>

definition LOGIN_RPS :: f64 where
  "LOGIN_RPS = Fin (3602879701896397 / 36028797018963968)"

lemma LOGIN_RPS_nearest: "to_f64 (1 / 10) = LOGIN_RPS"
  unfolding LOGIN_RPS_def by (rule to_f64_at[where k = 56 and n = 7205759403792794]) (simp_all add: f64_limit_def)

definition limiter_new :: limiter where
  "limiter_new = \<lparr> lm_rps = LOGIN_RPS, lm_burst = Fin 5, lm_buckets = [] \<rparr>"

text \<open>\<open>Instant::duration_since\<close> saturates at zero.\<close>

definition refill :: "limiter \<Rightarrow> bucket \<Rightarrow> nat \<Rightarrow> bucket" where
  "refill l b now = b \<lparr> bk_tokens := f64_min (f64_add (bk_tokens b) (f64_mul (as_secs_f64 (now - bk_last b)) (lm_rps l))) (lm_burst l),
     bk_last := now \<rparr>"

definition pruned :: "limiter \<Rightarrow> (string \<times> bucket) list" where
  "pruned l = (if MAX_LOGIN_BUCKETS \<le> length (lm_buckets l) then [] else lm_buckets l)"

definition bucket_of :: "limiter \<Rightarrow> string \<Rightarrow> nat \<Rightarrow> bucket" where
  "bucket_of l key now = refill l (case map_of (pruned l) key of Some b \<Rightarrow> b | None \<Rightarrow> \<lparr> bk_tokens = lm_burst l, bk_last = now \<rparr>) now"

definition drop_key :: "string \<Rightarrow> (string \<times> bucket) list \<Rightarrow> (string \<times> bucket) list" where
  "drop_key key bs = filter (\<lambda>(k, b). k \<noteq> key) bs"

definition throttled :: "limiter \<Rightarrow> string \<Rightarrow> nat \<Rightarrow> bool \<times> limiter" where
  "throttled l key now = (let b = bucket_of l key now in
     (f64_lt (bk_tokens b) (Fin 1), l \<lparr> lm_buckets := (key, b) # drop_key key (pruned l) \<rparr>))"

definition penalize :: "limiter \<Rightarrow> string \<Rightarrow> nat \<Rightarrow> limiter" where
  "penalize l key now = (let b = bucket_of l key now;
      b' = b \<lparr> bk_tokens := f64_max (f64_sub (bk_tokens b) (Fin 1)) (Fin 0) \<rparr>
     in l \<lparr> lm_buckets := (key, b') # drop_key key (pruned l) \<rparr>)"

definition limiter_reset :: "limiter \<Rightarrow> string \<Rightarrow> limiter" where
  "limiter_reset l key = l \<lparr> lm_buckets := drop_key key (lm_buckets l) \<rparr>"

end
