(* ===== verification/Api_Handlers.thy ===== *)
theory Api_Handlers
  imports Api_Auth
begin

text \<open>
  The handlers of \<open>session.rs\<close>, \<open>users.rs\<close> and \<open>tokens.rs\<close>. A handler reads the store,
  waits for the password functions and hands a closure to the single writer: three moments
  between which other requests run. \<open>begin_request\<close> is the part up to the write (for a login,
  up to the lookup of the user), \<open>login_finish\<close> what follows the verification of the password,
  \<open>write_of\<close> the closure. \<open>api_step\<close> interleaves the moments of all requests.
\<close>

section \<open>Requests and writes\<close>

datatype api_request =
    Login string string "string option"  \<comment> \<open>user name, password, peer address\<close>
  | Logout
  | ChangePassword string string
  | Me
  | ListUsers
  | CreateUser string "string option" string "string list option"
  | SetRole string string
  | SetDisabled string bool
  | SetScopes string "string list"
  | ResetPassword string string
  | ListTokens
  | CreateToken string "string option" "int option"
  | RevokeToken string
  | Elsewhere string string

fun route_of :: "api_request \<Rightarrow> string \<times> string" where
  "route_of (Login u p a) = (''POST'', ''/api/auth/login'')"
| "route_of Logout = (''POST'', ''/api/auth/logout'')"
| "route_of (ChangePassword c n) = (''POST'', ''/api/auth/change-password'')"
| "route_of Me = (''GET'', ''/api/me'')"
| "route_of ListUsers = (''GET'', ''/api/users'')"
| "route_of (CreateUser u p r e) = (''POST'', ''/api/users'')"
| "route_of (SetRole uid r) = (''POST'', ''/api/users/'' @ uid @ ''/role'')"
| "route_of (SetDisabled uid d) = (''POST'', ''/api/users/'' @ uid @ ''/disable'')"
| "route_of (SetScopes uid e) = (''POST'', ''/api/users/'' @ uid @ ''/scopes'')"
| "route_of (ResetPassword uid p) = (''POST'', ''/api/users/'' @ uid @ ''/password'')"
| "route_of ListTokens = (''GET'', ''/api/tokens'')"
| "route_of (CreateToken n u e) = (''POST'', ''/api/tokens'')"
| "route_of (RevokeToken tid) = (''POST'', ''/api/tokens/'' @ tid @ ''/revoke'')"
| "route_of (Elsewhere m p) = (m, p)"

record http_request =
  ht_request :: api_request
  ht_cookie :: "string option"
  ht_authorization :: "string option"

datatype auth_write =
    OpenSession session_row
  | EndSession string
  | RotatePassword string string
  | AddUser user_row "string list option"
  | ChangeRole string role
  | ChangeDisabled string bool
  | ChangeScopes string "string list"
  | ForcePassword string string
  | AddToken token_row
  | RevokeOne string
  | TouchToken string int

text \<open>The closures: statements one after the other, without a transaction around them.\<close>

fun write_of :: "auth_write \<Rightarrow> db_write" where
  "write_of (OpenSession s) = create_session s"
| "write_of (EndSession h) = delete_session h"
| "write_of (RotatePassword uid h) = seqc (set_user_password uid h)
     (seqc (delete_sessions_for_user uid) (revoke_tokens_for_user uid))"
| "write_of (AddUser u scopes) = seqc (create_user u)
     (case scopes of None \<Rightarrow> ret () | Some s \<Rightarrow> set_user_env_scopes (us_id u) s)"
| "write_of (ChangeRole uid r) = set_user_role uid (role_as_str r)"
| "write_of (ChangeDisabled uid d) = set_user_disabled uid d"
| "write_of (ChangeScopes uid envs) = set_user_env_scopes uid envs"
| "write_of (ForcePassword uid h) = seqc (reset_user_password uid h)
     (seqc (delete_sessions_for_user uid) (revoke_tokens_for_user uid))"
| "write_of (AddToken t) = create_token t"
| "write_of (RevokeOne tid) = revoke_token tid"
| "write_of (TouchToken h t) = touch_token_last_used h t"

text \<open>What a handler does next: answer, wait for a password, write (the flag: the outcome is
  ignored), or go on in a handler that is not one of these.\<close>

datatype handled =
    Answer response
  | Lookup string string "user_row option"  \<comment> \<open>limiter key, password, user\<close>
  | Write bool auth_write response
  | Outside

type_synonym handler_result = "(api_error, handled) result"

definition exec_auth_write :: "auth_env \<Rightarrow> auth_write \<Rightarrow> response \<Rightarrow> handler_result" where
  "exec_auth_write E w r = (if ae_writes E then Inr (Write False w r)
     else Inl (unavailable ''auth writes are not wired (no ingest handle)''))"

definition ok_true :: response where
  "ok_true = Response 200 None (JvObj [(''ok'', JvBool True)])"

text \<open>A read: \<open>fault\<close> is the error of the store, if it cannot be read.\<close>

definition with_reader :: "string option \<Rightarrow> 'a \<Rightarrow> (api_error, 'a) result" where
  "with_reader fault x = (case fault of Some e \<Rightarrow> Inl (internal e) | None \<Rightarrow> Inr x)"

definition user_or_404 :: "string option \<Rightarrow> auth_db \<Rightarrow> string \<Rightarrow> (api_error, user_row) result" where
  "user_or_404 fault db uid = res_bind (with_reader fault (user_by_id db uid))
     (\<lambda>u. case u of None \<Rightarrow> Inl (not_found ''unknown user'') | Some u \<Rightarrow> Inr u)"

definition hashed :: "auth_env \<Rightarrow> nat \<Rightarrow> string \<Rightarrow> (api_error, string) result" where
  "hashed E k password = (case ae_hash E k password of Inl e \<Rightarrow> Inl (internal e) | Inr h \<Rightarrow> Inr h)"

text \<open>A handler that extracts the principal is refused when there is none.\<close>

definition extension :: "principal option \<Rightarrow> (api_error, principal) result" where
  "extension p = (case p of None \<Rightarrow> Inl (HttpError 500 ''missing extension'') | Some q \<Rightarrow> Inr q)"

section \<open>Sessions\<close>

definition login_key :: "string \<Rightarrow> string option \<Rightarrow> string" where
  "login_key username peer = (case peer of None \<Rightarrow> ''unknown'' | Some a \<Rightarrow> a) @ ''|'' @ trim username"

definition login_begin :: "auth_env \<Rightarrow> limiter \<Rightarrow> auth_db \<Rightarrow> string \<Rightarrow> string \<Rightarrow> string option \<Rightarrow> nat \<Rightarrow> string option \<Rightarrow>
    limiter \<times> handler_result" where
  "login_begin E l db username password peer inst fault =
    (if \<not> ae_writes E then (l, Inl (unavailable ''auth writes are not wired (no ingest handle)''))
     else let key = login_key username peer in
       (case throttled l key inst of (t, l') \<Rightarrow>
          if t then (l', Inl (too_many_requests ''too many attempts; slow down''))
          else (l', res_bind (with_reader fault (user_by_username db (trim username))) (\<lambda>u. Inr (Lookup key password u)))))"

definition login_body :: "user_row \<Rightarrow> role \<Rightarrow> jval" where
  "login_body u r = JvObj [(''username'', JvStr (us_username u)), (''role'', JvStr (role_as_str r)), (''must_change'', JvBool (us_must_change u))]"

definition login_finish :: "auth_env \<Rightarrow> limiter \<Rightarrow> nat \<Rightarrow> string \<Rightarrow> string \<Rightarrow> user_row option \<Rightarrow> nat \<Rightarrow> int \<Rightarrow> limiter \<times> handler_result" where
  "login_finish E l k key password user inst now =
    (let ok = ae_verify E (case user of None \<Rightarrow> ae_dummy E | Some u \<Rightarrow> us_hash u) password in
     case user of
       None \<Rightarrow> (penalize l key inst, Inl (unauthorized ''invalid credentials''))
     | Some u \<Rightarrow>
         if ok \<and> \<not> us_disabled u then
           (case role_parse (us_role u) of
              None \<Rightarrow> (l, Inl (unauthorized ''invalid credentials''))
            | Some r \<Rightarrow>
                let sid = new_session_id (ae_bytes E k);
                    row = \<lparr> se_id_hash = ae_sha E sid, se_user_id = us_id u, se_created_at = now, se_expires_at = now + SESSION_TTL_NS \<rparr>
                in (limiter_reset l key, exec_auth_write E (OpenSession row)
                     (Response 200 (Some (session_set_cookie sid ''43200'' (ae_secure E))) (login_body u r))))
         else (penalize l key inst, Inl (unauthorized ''invalid credentials'')))"

definition logout :: "auth_env \<Rightarrow> string option \<Rightarrow> handler_result" where
  "logout E cookie_header = (let answer = Response 200 (Some (session_set_cookie [] ''0'' (ae_secure E))) (JvObj [(''ok'', JvBool True)]) in
     case session_cookie cookie_header of
       None \<Rightarrow> Inr (Answer answer)
     | Some sid \<Rightarrow> if ae_writes E then Inr (Write True (EndSession (ae_sha E sid)) answer) else Inr (Answer answer))"

definition change_password :: "auth_env \<Rightarrow> auth_db \<Rightarrow> nat \<Rightarrow> principal \<Rightarrow> string \<Rightarrow> string \<Rightarrow> string option \<Rightarrow> handler_result" where
  "change_password E db k p current new fault =
    (if pr_synthetic p then Inl (bad_request ''authentication is not enabled'')
     else if length new < 12 then Inl (bad_request ''new_password must be at least 12 characters'')
     else res_bind (with_reader fault (user_by_id db (pr_user_id p))) (\<lambda>u. case u of
         None \<Rightarrow> Inl (unauthorized ''invalid credentials'')
       | Some u \<Rightarrow> if \<not> ae_verify E (us_hash u) current then Inl (unauthorized ''invalid credentials'')
           else res_bind (hashed E k new) (\<lambda>h.
             exec_auth_write E (RotatePassword (pr_user_id p) h) (Response 200 None (JvObj [(''changed'', JvBool True)])))))"

definition me :: "principal option \<Rightarrow> response" where
  "me p = Response 200 None (case p of
     None \<Rightarrow> JvObj [(''auth_required'', JvBool True), (''authenticated'', JvBool False)]
   | Some p \<Rightarrow> if pr_synthetic p then JvObj [(''auth_required'', JvBool False), (''authenticated'', JvBool False)]
       else JvObj [(''auth_required'', JvBool True), (''authenticated'', JvBool True), (''username'', JvStr (pr_username p)),
         (''role'', JvStr (role_as_str (pr_role p))), (''must_change'', JvBool (pr_must_change p)),
         (''env_scopes'', JvList (map JvStr (pr_scopes p)))])"

section \<open>Users\<close>

definition list_users :: "auth_db \<Rightarrow> response" where
  "list_users db = Response 200 None (JvObj [(''users'', JvList (map (\<lambda>u. JvObj
     [(''id'', JvStr (us_id u)), (''username'', JvStr (us_username u)), (''role'', JvStr (us_role u)),
      (''must_change'', JvBool (us_must_change u)), (''disabled'', JvBool (us_disabled u)),
      (''created_at_ns'', JvInt (us_created_at u)), (''env_scopes'', JvList (map JvStr (user_env_scopes db (us_id u))))])
     (sort_key us_username (db_users db))))])"

text \<open>\<open>Debug\<close> of a string.\<close>

definition debug_char :: "char \<Rightarrow> string" where
  "debug_char c = (let n = (of_char c :: nat) in
     if c = CHR 0x09 then [CHR 0x5C, CHR ''t''] else if c = CHR 0x0A then [CHR 0x5C, CHR ''n'']
     else if c = CHR 0x0D then [CHR 0x5C, CHR ''r''] else if n = 0 then [CHR 0x5C, CHR ''0'']
     else if c = CHR 0x22 \<or> c = CHR 0x5C then [CHR 0x5C, c]
     else if n < 16 then [CHR 0x5C] @ ''u{'' @ [hex_digits ! n] @ ''}''
     else if n < 32 \<or> n = 127 then [CHR 0x5C] @ ''u{'' @ [hex_digits ! (n div 16), hex_digits ! (n mod 16)] @ ''}''
     else [c])"

definition debug_str :: "string \<Rightarrow> string" where
  "debug_str s = [CHR 0x22] @ concat (map debug_char s) @ [CHR 0x22]"

definition parsed_role :: "string \<Rightarrow> (api_error, role) result" where
  "parsed_role s = (case role_parse s of Some r \<Rightarrow> Inr r
     | None \<Rightarrow> Inl (bad_request (''unknown role '' @ debug_str s @ ''; expected viewer|operator|approver|admin'')))"

definition given_password :: "string option \<Rightarrow> string option" where
  "given_password p = (case p of Some s \<Rightarrow> if s \<noteq> [] then Some s else None | None \<Rightarrow> None)"

definition create_user_request :: "auth_env \<Rightarrow> auth_db \<Rightarrow> nat \<Rightarrow> string \<Rightarrow> string option \<Rightarrow> string \<Rightarrow> string list option \<Rightarrow>
    string option \<Rightarrow> int \<Rightarrow> handler_result" where
  "create_user_request E db k name password role_text scopes fault now =
    (let username = trim name; given = given_password password in
     if username = [] then Inl (bad_request ''username must not be empty'')
     else if (case given of None \<Rightarrow> False | Some p \<Rightarrow> length p < 12) then Inl (bad_request ''password must be at least 12 characters'')
     else res_bind (parsed_role role_text) (\<lambda>r.
       res_bind (with_reader fault (user_by_username db username)) (\<lambda>existing.
         if existing \<noteq> None then Inl (conflict ''username exists'')
         else (case (case given of Some p \<Rightarrow> Some p | None \<Rightarrow> new_password (ae_fuel E) (ae_draws E k)) of
           None \<Rightarrow> Inl NeverAnswers
         | Some p \<Rightarrow> res_bind (hashed E k p) (\<lambda>h.
             exec_auth_write E (AddUser \<lparr> us_id = ae_uuid E k, us_username = username, us_hash = h, us_role = role_as_str r,
                 us_must_change = True, us_disabled = False, us_created_at = now \<rparr> scopes)
               (Response 201 None (JvObj ([(''id'', JvStr (ae_uuid E k)), (''username'', JvStr username),
                  (''role'', JvStr (role_as_str r)), (''must_change'', JvBool True)]
                  @ (if given = None then [(''one_time_password'', JvStr p)] else [])))))))))"

definition set_role :: "auth_env \<Rightarrow> auth_db \<Rightarrow> string \<Rightarrow> string \<Rightarrow> string option \<Rightarrow> handler_result" where
  "set_role E db uid role_text fault = res_bind (parsed_role role_text) (\<lambda>r.
     res_bind (user_or_404 fault db uid) (\<lambda>_. exec_auth_write E (ChangeRole uid r) ok_true))"

definition set_disabled :: "auth_env \<Rightarrow> auth_db \<Rightarrow> principal \<Rightarrow> string \<Rightarrow> bool \<Rightarrow> string option \<Rightarrow> handler_result" where
  "set_disabled E db p uid d fault =
    (if \<not> pr_synthetic p \<and> pr_user_id p = uid then Inl (bad_request ''cannot disable yourself'')
     else res_bind (user_or_404 fault db uid) (\<lambda>_. exec_auth_write E (ChangeDisabled uid d) ok_true))"

definition set_scopes :: "auth_env \<Rightarrow> auth_db \<Rightarrow> string \<Rightarrow> string list \<Rightarrow> string option \<Rightarrow> handler_result" where
  "set_scopes E db uid envs fault =
     res_bind (user_or_404 fault db uid) (\<lambda>_. exec_auth_write E (ChangeScopes uid envs) ok_true)"

definition reset_password :: "auth_env \<Rightarrow> auth_db \<Rightarrow> nat \<Rightarrow> string \<Rightarrow> string \<Rightarrow> string option \<Rightarrow> handler_result" where
  "reset_password E db k uid password fault =
    (if length password < 12 then Inl (bad_request ''password must be at least 12 characters'')
     else res_bind (user_or_404 fault db uid) (\<lambda>_. res_bind (hashed E k password) (\<lambda>h.
       exec_auth_write E (ForcePassword uid h) (Response 200 None (JvObj [(''ok'', JvBool True), (''must_change'', JvBool True)])))))"

section \<open>Tokens\<close>

definition jv_opt_int :: "int option \<Rightarrow> jval" where
  "jv_opt_int x = (case x of None \<Rightarrow> JvNull | Some n \<Rightarrow> JvInt n)"

definition list_tokens :: "auth_db \<Rightarrow> response" where
  "list_tokens db = Response 200 None (JvObj [(''tokens'', JvList (map (\<lambda>t. JvObj
     [(''id'', JvStr (to_id t)), (''user_id'', JvStr (to_user_id t)),
      (''username'', case map_of (rev (map (\<lambda>u. (us_id u, us_username u)) (sort_key us_username (db_users db)))) (to_user_id t) of
          None \<Rightarrow> JvNull | Some n \<Rightarrow> JvStr n),
      (''name'', JvStr (to_name t)), (''created_at_ns'', JvInt (to_created_at t)), (''last_used_at_ns'', jv_opt_int (to_last_used t)),
      (''revoked'', JvBool (to_revoked t)), (''expires_at_ns'', jv_opt_int (to_expires_at t))])
     (rev (sort_key to_created_at (sort_key to_id (db_tokens db))))))])"

definition create_token_request :: "auth_env \<Rightarrow> auth_db \<Rightarrow> nat \<Rightarrow> principal \<Rightarrow> string \<Rightarrow> string option \<Rightarrow> int option \<Rightarrow>
    string option \<Rightarrow> int \<Rightarrow> handler_result" where
  "create_token_request E db k p raw_name owner expires fault now =
    (let name = trim raw_name; uid = (case owner of None \<Rightarrow> pr_user_id p | Some u \<Rightarrow> u) in
     if name = [] then Inl (bad_request ''name must not be empty'')
     else if (case expires of None \<Rightarrow> False | Some t \<Rightarrow> t \<le> now) then Inl (bad_request ''expires_at_ns must be in the future'')
     else res_bind (user_or_404 fault db uid) (\<lambda>_.
       let token = new_token (ae_bytes E k) in
       exec_auth_write E (AddToken \<lparr> to_id = ae_uuid E k, to_user_id = uid, to_name = name, to_hash = ae_sha E token,
           to_created_at = now, to_last_used = None, to_revoked = False, to_expires_at = expires \<rparr>)
         (Response 201 None (JvObj [(''id'', JvStr (ae_uuid E k)), (''token'', JvStr token), (''expires_at_ns'', jv_opt_int expires)]))))"

section \<open>All handlers\<close>

fun begin_request :: "auth_env \<Rightarrow> limiter \<Rightarrow> auth_db \<Rightarrow> nat \<Rightarrow> principal option \<Rightarrow> string option \<Rightarrow> nat \<Rightarrow> int \<Rightarrow> string option \<Rightarrow>
    api_request \<Rightarrow> limiter \<times> handler_result" where
  "begin_request E l db k p cookie inst now fault (Login u pw peer) = login_begin E l db u pw peer inst fault"
| "begin_request E l db k p cookie inst now fault Logout = (l, logout E cookie)"
| "begin_request E l db k p cookie inst now fault (ChangePassword c n) = (l, res_bind (extension p) (\<lambda>q. change_password E db k q c n fault))"
| "begin_request E l db k p cookie inst now fault Me = (l, Inr (Answer (me p)))"
| "begin_request E l db k p cookie inst now fault ListUsers = (l, res_bind (with_reader fault (list_users db)) (\<lambda>r. Inr (Answer r)))"
| "begin_request E l db k p cookie inst now fault (CreateUser u pw r sc) = (l, create_user_request E db k u pw r sc fault now)"
| "begin_request E l db k p cookie inst now fault (SetRole uid r) = (l, set_role E db uid r fault)"
| "begin_request E l db k p cookie inst now fault (SetDisabled uid d) = (l, res_bind (extension p) (\<lambda>q. set_disabled E db q uid d fault))"
| "begin_request E l db k p cookie inst now fault (SetScopes uid e) = (l, set_scopes E db uid e fault)"
| "begin_request E l db k p cookie inst now fault (ResetPassword uid pw) = (l, reset_password E db k uid pw fault)"
| "begin_request E l db k p cookie inst now fault ListTokens = (l, res_bind (with_reader fault (list_tokens db)) (\<lambda>r. Inr (Answer r)))"
| "begin_request E l db k p cookie inst now fault (CreateToken n o' e) = (l, res_bind (extension p) (\<lambda>q. create_token_request E db k q n o' e fault now))"
| "begin_request E l db k p cookie inst now fault (RevokeToken tid) = (l, exec_auth_write E (RevokeOne tid) ok_true)"
| "begin_request E l db k p cookie inst now fault (Elsewhere m path) = (l, Inr Outside)"

section \<open>The interleaving of the requests\<close>

datatype pending =
    Admitted "principal option" http_request
  | LookedUp string string "user_row option"
  | Writing "principal option" auth_write

record api_state =
  ap_db :: auth_db
  ap_limiter :: limiter
  ap_pending :: "pending list"
  ap_tick :: nat

definition admit :: "auth_env \<Rightarrow> auth_db \<Rightarrow> http_request \<Rightarrow> int \<Rightarrow> string option \<Rightarrow> string option \<times> (api_error, principal option) result" where
  "admit E db rq now fault = (case route_of (ht_request rq) of (m, path) \<Rightarrow>
     auth_middleware E db fault m path (bearer_token (ht_authorization rq)) (session_cookie (ht_cookie rq)) now)"

text \<open>What stays pending after a handler went on, for the principal it runs as.\<close>

definition goes_on :: "principal option \<Rightarrow> handler_result \<Rightarrow> pending list" where
  "goes_on p r = (case r of Inr (Lookup key pw u) \<Rightarrow> [LookedUp key pw u] | Inr (Write b w resp) \<Rightarrow> [Writing p w] | _ \<Rightarrow> [])"

inductive api_step :: "auth_env \<Rightarrow> api_state \<Rightarrow> api_state \<Rightarrow> bool" for E where
  arrives: "admit E (ap_db s) rq now fault = (touch, r) \<Longrightarrow>
    api_step E s (s \<lparr> ap_pending := ap_pending s @ (case touch of None \<Rightarrow> [] | Some h \<Rightarrow> [Writing None (TouchToken h now)])
        @ (case r of Inl e \<Rightarrow> [] | Inr p \<Rightarrow> [Admitted p rq]), ap_tick := ap_tick s + 1 \<rparr>)"
| begins: "ap_pending s = before @ Admitted p rq # after \<Longrightarrow>
    begin_request E (ap_limiter s) (ap_db s) (ap_tick s) p (ht_cookie rq) inst now fault (ht_request rq) = (l, r) \<Longrightarrow>
    api_step E s (s \<lparr> ap_limiter := l, ap_pending := before @ goes_on p r @ after, ap_tick := ap_tick s + 1 \<rparr>)"
| verifies: "ap_pending s = before @ LookedUp key pw u # after \<Longrightarrow>
    login_finish E (ap_limiter s) (ap_tick s) key pw u inst now = (l, r) \<Longrightarrow>
    api_step E s (s \<lparr> ap_limiter := l, ap_pending := before @ goes_on None r @ after, ap_tick := ap_tick s + 1 \<rparr>)"
| writes: "ap_pending s = before @ Writing p w # after \<Longrightarrow>
    api_step E s (s \<lparr> ap_db := snd (write_of w (ap_db s)), ap_pending := before @ after, ap_tick := ap_tick s + 1 \<rparr>)"

inductive_cases api_stepE: "api_step E s s'"

abbreviation api_steps :: "auth_env \<Rightarrow> api_state \<Rightarrow> api_state \<Rightarrow> bool" where
  "api_steps E \<equiv> (api_step E)\<^sup>*\<^sup>*"

text \<open>The state in which the server starts on a store.\<close>

definition api_start :: "auth_db \<Rightarrow> api_state" where
  "api_start db = \<lparr> ap_db = db, ap_limiter = limiter_new, ap_pending = [], ap_tick = 0 \<rparr>"

end
