(* ===== verification/Api_Props.thy ===== *)
theory Api_Props
  imports Api_Handlers
begin

text \<open>
  What the access control promises over every interleaving of requests: who gets through, what
  an account can change, that rotated and revoked credentials are dead, that the open mode
  before the first user never comes back, and that the rows and the limiter stay well formed.
\<close>

section \<open>The gate\<close>

definition presents :: "auth_env \<Rightarrow> auth_db \<Rightarrow> string option \<Rightarrow> string option \<Rightarrow> int \<Rightarrow> string \<Rightarrow> bool" where
  "presents E db bearer cookie now uid \<longleftrightarrow>
    (\<exists>b t. bearer = Some b \<and> t \<in> set (db_tokens db) \<and> to_hash t = ae_sha E b \<and> to_user_id t = uid \<and> token_live t now) \<or>
    (\<exists>c s. cookie = Some c \<and> s \<in> set (db_sessions db) \<and> se_id_hash s = ae_sha E c \<and> se_user_id s = uid \<and> now < se_expires_at s)"

definition speaks_for :: "auth_db \<Rightarrow> principal \<Rightarrow> user_row \<Rightarrow> bool" where
  "speaks_for db p u \<longleftrightarrow> u \<in> set (db_users db) \<and> \<not> us_disabled u \<and> us_id u = pr_user_id p \<and> us_username u = pr_username p \<and>
    role_parse (us_role u) = Some (pr_role p) \<and> pr_scopes p = user_env_scopes db (us_id u) \<and>
    pr_must_change p = us_must_change u \<and> \<not> pr_synthetic p"

lemma resolve_Authenticated:
  assumes "resolve E db bearer cookie now = Authenticated p tok"
  shows "\<exists>u. speaks_for db p u \<and> presents E db bearer cookie now (us_id u)"
proof -
  let ?by_cookie = "case cookie of None \<Rightarrow> None | Some sid \<Rightarrow> map_option (\<lambda>(s, u). (u, None :: string option)) (session_with_user db (ae_sha E sid) now)"
  let ?r = "case bearer of Some token \<Rightarrow> if starts_with token ''kro_''
              then map_option (\<lambda>(t, u). (u, Some (ae_sha E token))) (token_with_user db (ae_sha E token) now)
              else ?by_cookie | None \<Rightarrow> ?by_cookie"
  have ru: "real_users_exist db" using assms by (simp add: resolve_def split: if_splits)
  obtain u th where r: "?r = Some (u, th)"
    using assms ru by (cases ?r) (auto simp: resolve_def Let_def)
  then have p: "\<not> us_disabled u" "\<exists>r. role_parse (us_role u) = Some r \<and> p = \<lparr> pr_user_id = us_id u, pr_username = us_username u,
      pr_role = r, pr_scopes = user_env_scopes db (us_id u), pr_must_change = us_must_change u, pr_synthetic = False \<rparr>"
    using assms ru by (auto simp: resolve_def Let_def split: if_splits option.splits)
  have c: "u \<in> set (db_users db) \<and> presents E db bearer cookie now (us_id u)" if "?by_cookie = Some (u, th)"
    using that by (auto simp: presents_def split: option.splits dest!: session_with_userD)
  have b: "u \<in> set (db_users db) \<and> presents E db bearer cookie now (us_id u)"
    if "bearer = Some token" "map_option (\<lambda>(t, u). (u, Some (ae_sha E token))) (token_with_user db (ae_sha E token) now) = Some (u, th)" for token
    using that by (auto simp: presents_def dest!: token_with_userD)
  have "u \<in> set (db_users db) \<and> presents E db bearer cookie now (us_id u)"
  proof (cases bearer)
    case None
    then show ?thesis using r c by simp
  next
    case (Some token)
    then show ?thesis using r c b by (cases "starts_with token ''kro_''") simp_all
  qed
  then show ?thesis using p by (intro exI[of _ u]) (auto simp: speaks_for_def)
qed

lemma middleware_Inr:
  assumes "auth_middleware E db fault method path bearer cookie now = (touch, Inr p)"
    "\<not> (method = ''POST'' \<and> path = ''/api/auth/login'')" "\<not> (method = ''GET'' \<and> path = ''/api/me'')"
  shows "(p = Some synthetic \<and> \<not> real_users_exist db) \<or>
    (\<exists>q tok. p = Some q \<and> resolve E db bearer cookie now = Authenticated q tok \<and>
      (pr_must_change q \<longrightarrow> path \<in> set password_change_exempt) \<and> (global_resource path \<longrightarrow> pr_scopes q = []) \<and>
      required_role method path \<le> pr_role q)"
proof (cases "resolve E db bearer cookie now")
  case AuthOpen
  then have "\<not> real_users_exist db" by (auto simp: resolve_def Let_def split: if_splits option.splits prod.splits)
  then show ?thesis using assms AuthOpen by (auto simp: auth_middleware_def Let_def split: option.splits)
next
  case (Authenticated q tok)
  then show ?thesis using assms
    by (auto simp: auth_middleware_def Let_def not_less split: option.splits if_splits)
next
  case Rejected
  then show ?thesis using assms by (auto simp: auth_middleware_def Let_def split: option.splits if_splits)
qed

text \<open>C9: once an account exists, a request reaches a handler only with a live token or an unexpired session of
  an account that is in the store, not disabled, and at least of the role the route needs; an account that must change its
  password reaches nothing else, and one confined to environments no global resource. Login and
  \<open>me\<close> are the only routes open to others.\<close>

theorem requests_need_authority:
  assumes "admit E db rq now fault = (touch, Inr p)" "real_users_exist db" "route_of (ht_request rq) = (method, path)"
    "(method, path) \<noteq> (''POST'', ''/api/auth/login'')" "(method, path) \<noteq> (''GET'', ''/api/me'')"
  shows "\<exists>q u. p = Some q \<and> speaks_for db q u
    \<and> presents E db (bearer_token (ht_authorization rq)) (session_cookie (ht_cookie rq)) now (us_id u)
    \<and> required_role method path \<le> pr_role q \<and> (us_must_change u \<longrightarrow> path \<in> set password_change_exempt)
    \<and> (global_resource path \<longrightarrow> pr_scopes q = [])"
proof -
  have "auth_middleware E db fault method path (bearer_token (ht_authorization rq)) (session_cookie (ht_cookie rq)) now = (touch, Inr p)"
    using assms(1,3) by (simp add: admit_def)
  from middleware_Inr[OF this] assms(2,4,5) obtain q tok where
    q: "p = Some q" "resolve E db (bearer_token (ht_authorization rq)) (session_cookie (ht_cookie rq)) now = Authenticated q tok"
      "pr_must_change q \<longrightarrow> path \<in> set password_change_exempt" "global_resource path \<longrightarrow> pr_scopes q = []"
      "required_role method path \<le> pr_role q" by auto
  obtain u where u: "speaks_for db q u" "presents E db (bearer_token (ht_authorization rq)) (session_cookie (ht_cookie rq)) now (us_id u)"
    using resolve_Authenticated[OF q(2)] by blast
  then show ?thesis using q by (auto simp: speaks_for_def)
qed

section \<open>Administration\<close>

fun administers :: "api_request \<Rightarrow> bool" where
  "administers (CreateUser u p r e) = True"
| "administers (SetRole u r) = True"
| "administers (SetDisabled u d) = True"
| "administers (SetScopes u e) = True"
| "administers (ResetPassword u p) = True"
| "administers (CreateToken n u e) = True"
| "administers (RevokeToken t) = True"
| "administers _ = False"

fun admin_write :: "auth_write \<Rightarrow> bool" where
  "admin_write (AddUser u s) = True"
| "admin_write (ChangeRole u r) = True"
| "admin_write (ChangeDisabled u d) = True"
| "admin_write (ChangeScopes u e) = True"
| "admin_write (ForcePassword u h) = True"
| "admin_write (AddToken t) = True"
| "admin_write (RevokeOne t) = True"
| "admin_write _ = False"

definition administrator :: "principal option \<Rightarrow> bool" where
  "administrator p \<longleftrightarrow> (\<exists>q. p = Some q \<and> (q = synthetic \<or> pr_role q = Admin \<and> pr_scopes q = [] \<and> \<not> pr_must_change q))"

text \<open>A password is rotated by its own account.\<close>

fun own_write :: "principal option \<Rightarrow> auth_write \<Rightarrow> bool" where
  "own_write p (RotatePassword uid h) = (\<exists>q. p = Some q \<and> pr_user_id q = uid \<and> \<not> pr_synthetic q)"
| "own_write p _ = True"

fun entitled :: "pending \<Rightarrow> bool" where
  "entitled (Admitted p rq) = (administers (ht_request rq) \<longrightarrow> administrator p)"
| "entitled (LookedUp key pw u) = True"
| "entitled (Writing p w) = ((admin_write w \<longrightarrow> administrator p) \<and> own_write p w)"

lemma admin_area:
  "list_all (\<lambda>(m', t, r). m' = ''POST'' \<and> \<not> (2 < length (split_at slash t) \<and> \<not> is_hole (split_at slash t ! 2)
      \<and> split_at slash t ! 2 \<noteq> ''users'') \<longrightarrow> r = Admin) route_table"
  "list_all (\<lambda>(m', t, r). m' = ''POST'' \<and> \<not> (2 < length (split_at slash t) \<and> \<not> is_hole (split_at slash t ! 2)
      \<and> split_at slash t ! 2 \<noteq> ''tokens'') \<longrightarrow> r = Admin) route_table"
  by code_simp+

lemma administers_path:
  assumes "administers rq"
  shows "fst (route_of rq) = ''POST''" "global_resource (snd (route_of rq))" "snd (route_of rq) \<notin> set password_change_exempt"
    "snd (route_of rq) \<noteq> ''/api/auth/login''"
    "2 < length (split_at slash (snd (route_of rq)))"
    "split_at slash (snd (route_of rq)) ! 2 = ''users'' \<or> split_at slash (snd (route_of rq)) ! 2 = ''tokens''"
  using assms
  by (cases rq; simp add: global_resource_def global_resources_def starts_with_def password_change_exempt_def split: list.splits)+

lemma administers_route:
  assumes "administers rq" "route_of rq = (m, path)"
  shows "m = ''POST'' \<and> required_role m path = Admin \<and> global_resource path \<and> path \<notin> set password_change_exempt
    \<and> path \<noteq> ''/api/auth/login''"
proof -
  note p = administers_path[OF assms(1), unfolded assms(2) fst_conv snd_conv]
  have "required_role ''POST'' path = Admin"
    using p(6) required_role_area[OF admin_area(1) p(5)] required_role_area[OF admin_area(2) p(5)] by blast
  then show ?thesis using p by simp
qed

lemma exec_auth_write_Inr [simp]: "exec_auth_write E w r = Inr x \<longleftrightarrow> ae_writes E \<and> x = Write False w r"
  by (auto simp: exec_auth_write_def)

lemma extension_Inr [simp]: "extension p = Inr q \<longleftrightarrow> p = Some q"
  by (auto simp: extension_def split: option.splits)

lemma login_begin_writes: "login_begin E l db u pw peer inst fault = (l', Inr (Write b w resp)) \<Longrightarrow> False"
  by (auto simp: login_begin_def Let_def split: if_splits prod.splits)

text \<open>What a handler writes, by the request it serves.\<close>

lemma begin_request_writes:
  assumes "begin_request E l db k p cookie inst now fault rq = (l', Inr (Write b w resp))"
  shows "(admin_write w \<longrightarrow> administers rq) \<and> own_write p w"
  using assms
  by (cases rq)
     (auto simp: logout_def change_password_def create_user_request_def set_role_def set_disabled_def set_scopes_def
        reset_password_def create_token_request_def Let_def split: if_splits option.splits dest: login_begin_writes)

lemma login_finish_writes:
  "login_finish E l k key pw u inst now = (l', Inr (Write b w resp)) \<Longrightarrow> \<exists>s. w = OpenSession s"
  by (auto simp: login_finish_def Let_def split: if_splits option.splits)

lemma goes_on_in: "x \<in> set (goes_on p r) \<Longrightarrow>
    (\<exists>key pw u. r = Inr (Lookup key pw u) \<and> x = LookedUp key pw u) \<or> (\<exists>b w resp. r = Inr (Write b w resp) \<and> x = Writing p w)"
  by (cases r; simp add: goes_on_def) (simp split: handled.splits)

lemma admin_le_iff: "Admin \<le> r \<longleftrightarrow> r = Admin"
  by (cases r) (auto simp: less_eq_role_def)

lemma admitted_entitled:
  assumes "admit E db rq now fault = (touch, Inr p)"
  shows "entitled (Admitted p rq)"
proof (clarsimp)
  assume a: "administers (ht_request rq)"
  obtain m path where r: "route_of (ht_request rq) = (m, path)" by fastforce
  note ar = administers_route[OF a r]
  have "auth_middleware E db fault m path (bearer_token (ht_authorization rq)) (session_cookie (ht_cookie rq)) now = (touch, Inr p)"
    using assms r by (simp add: admit_def)
  from middleware_Inr[OF this] have
    "p = Some synthetic \<or> (\<exists>q. p = Some q \<and> pr_scopes q = [] \<and> \<not> pr_must_change q \<and> Admin \<le> pr_role q)"
    using ar by (auto simp: password_change_exempt_def)
  then show "administrator p" by (auto simp: administrator_def admin_le_iff)
qed

definition all_entitled :: "api_state \<Rightarrow> bool" where
  "all_entitled s \<longleftrightarrow> (\<forall>x \<in> set (ap_pending s). entitled x)"

interpretation entitlement: stable_system "api_step E" all_entitled for E
proof
  fix s s'
  assume "api_step E s s'" and inv: "all_entitled s"
  then show "all_entitled s'"
  proof (cases rule: api_step.cases)
    case (arrives rq now fault touch r)
    then show ?thesis using inv admitted_entitled[of E "ap_db s" rq now fault touch]
      by (auto simp: all_entitled_def split: option.splits sum.splits)
  next
    case (begins before p rq after inst now fault l r)
    have e: "entitled (Admitted p rq)" using inv begins(2) by (simp add: all_entitled_def)
    have "entitled x" if "x \<in> set (goes_on p r)" for x
      using goes_on_in[OF that] begin_request_writes[of E _ _ _ p] begins(3) e by fastforce
    then show ?thesis using inv begins by (auto simp: all_entitled_def)
  next
    case (verifies before key pw u after inst now l r)
    have "entitled x" if "x \<in> set (goes_on None r)" for x
      using goes_on_in[OF that] login_finish_writes[of E] verifies(3) by fastforce
    then show ?thesis using inv verifies by (auto simp: all_entitled_def)
  next
    case (writes before p w after)
    then show ?thesis using inv by (auto simp: all_entitled_def)
  qed
qed

text \<open>C10: whatever requests are interleaved, a write that creates an account or a token, changes a role, a scope or
  the standing of an account, resets a password or revokes a token is under way only for an administrator who is not
  confined to environments and owes no password change (or for the open mode before the first account), and a password
  is rotated only by its own account.\<close>

theorem accounts_change_by_admins_only:
  assumes "api_steps E (api_start db) s" "Writing p w \<in> set (ap_pending s)"
  shows "(admin_write w \<longrightarrow> administrator p) \<and> own_write p w"
proof -
  have "all_entitled s" by (rule entitlement.steps_inv[OF assms(1)]) (simp add: all_entitled_def api_start_def)
  then show ?thesis using assms(2) by (auto simp: all_entitled_def)
qed

section \<open>Invariants of the tables\<close>

text \<open>The updates the closure of a write runs, and what is kept when each of them keeps it.\<close>

definition scope_updates :: "string \<Rightarrow> string list \<Rightarrow> (auth_db \<Rightarrow> auth_db) list" where
  "scope_updates uid envs = (\<lambda>db. db \<lparr> db_scopes := filter (\<lambda>(u, e). u \<noteq> uid) (db_scopes db) \<rparr>)
     # map (\<lambda>e db. db \<lparr> db_scopes := db_scopes db @ [(uid, e)] \<rparr>) envs"

fun updates_of :: "auth_write \<Rightarrow> (auth_db \<Rightarrow> auth_db) list" where
  "updates_of (OpenSession s) = [\<lambda>db. db \<lparr> db_sessions := db_sessions db @ [s] \<rparr>]"
| "updates_of (EndSession h) = [\<lambda>db. db \<lparr> db_sessions := filter (\<lambda>s. se_id_hash s \<noteq> h) (db_sessions db) \<rparr>]"
| "updates_of (RotatePassword uid h) = [update_user uid (\<lambda>u. u \<lparr> us_hash := h, us_must_change := False \<rparr>),
     \<lambda>db. db \<lparr> db_sessions := filter (\<lambda>s. se_user_id s \<noteq> uid) (db_sessions db) \<rparr>,
     update_tokens (\<lambda>t. to_user_id t = uid) (\<lambda>t. t \<lparr> to_revoked := True \<rparr>)]"
| "updates_of (AddUser u scopes) = (\<lambda>db. db \<lparr> db_users := db_users db @ [u] \<rparr>)
     # (case scopes of None \<Rightarrow> [] | Some s \<Rightarrow> scope_updates (us_id u) s)"
| "updates_of (ChangeRole uid r) = [update_user uid (\<lambda>u. u \<lparr> us_role := role_as_str r \<rparr>)]"
| "updates_of (ChangeDisabled uid d) = [update_user uid (\<lambda>u. u \<lparr> us_disabled := d \<rparr>)]"
| "updates_of (ChangeScopes uid envs) = scope_updates uid envs"
| "updates_of (ForcePassword uid h) = [update_user uid (\<lambda>u. u \<lparr> us_hash := h, us_must_change := True \<rparr>),
     \<lambda>db. db \<lparr> db_sessions := filter (\<lambda>s. se_user_id s \<noteq> uid) (db_sessions db) \<rparr>,
     update_tokens (\<lambda>t. to_user_id t = uid) (\<lambda>t. t \<lparr> to_revoked := True \<rparr>)]"
| "updates_of (AddToken t) = [\<lambda>db. db \<lparr> db_tokens := db_tokens db @ [t] \<rparr>]"
| "updates_of (RevokeOne tid) = [update_tokens (\<lambda>t. to_id t = tid) (\<lambda>t. t \<lparr> to_revoked := True \<rparr>)]"
| "updates_of (TouchToken h now) = [update_tokens (\<lambda>t. to_hash t = h) (\<lambda>t. t \<lparr> to_last_used := Some now \<rparr>)]"

locale table_invariant =
  fixes P :: "auth_db \<Rightarrow> bool"
  assumes ignores_faults [simp]: "P (db \<lparr> db_faults := fs \<rparr>) = P db"
begin

lemma same_tables_inv: "same_tables a b \<Longrightarrow> P a = P b"
proof -
  assume "same_tables a b"
  then have "b = a \<lparr> db_faults := db_faults b \<rparr>" by (simp add: same_tables_def)
  then show "P a = P b" by (metis ignores_faults)
qed

lemma keeps_exec: "(\<And>db. P db \<Longrightarrow> P (f db)) \<Longrightarrow> keeps P (auth_exec f)"
proof (rule keepsI)
  fix db r db'
  assume f: "\<And>db. P db \<Longrightarrow> P (f db)" and p: "P db" and x: "auth_exec f db = (r, db')"
  then show "P db'" using auth_exec_cases[OF x] by auto
qed

lemma keeps_tx: "keeps P f \<Longrightarrow> keeps P (auth_tx f)"
proof (rule keepsI)
  fix db r db'
  assume f: "keeps P f" and p: "P db" and x: "auth_tx f db = (r, db')"
  from auth_tx_cases[OF x] show "P db'"
    using p f same_tables_inv by (auto dest: keepsD)
qed

lemma keeps_scopes:
  assumes "\<And>f db. f \<in> set (scope_updates uid envs) \<Longrightarrow> P db \<Longrightarrow> P (f db)"
  shows "keeps P (set_user_env_scopes uid envs)"
proof -
  have i: "keeps P (insert_scopes uid es)" if "set es \<subseteq> set envs" for es
    using that
  proof (induction es)
    case (Cons e es)
    have "keeps P (auth_exec (\<lambda>db. db \<lparr> db_scopes := db_scopes db @ [(uid, e)] \<rparr>))"
      by (rule keeps_exec) (use Cons.prems assms in \<open>auto simp: scope_updates_def\<close>)
    then show ?case using Cons by auto
  qed auto
  have "keeps P (auth_exec (\<lambda>db. db \<lparr> db_scopes := filter (\<lambda>(u, e). u \<noteq> uid) (db_scopes db) \<rparr>))"
    by (rule keeps_exec) (use assms in \<open>auto simp: scope_updates_def\<close>)
  then show ?thesis unfolding set_user_env_scopes_def using i[of envs] by (intro keeps_tx keeps_seqc) auto
qed

lemma keeps_write_of:
  assumes "\<And>f db. f \<in> set (updates_of w) \<Longrightarrow> P db \<Longrightarrow> P (f db)"
  shows "keeps P (write_of w)"
  using assms
  by (cases w)
     (auto simp: create_session_def delete_session_def set_user_password_def reset_user_password_def create_user_def
        delete_sessions_for_user_def revoke_tokens_for_user_def set_user_role_def set_user_disabled_def create_token_def
        revoke_token_def touch_token_last_used_def split: option.splits intro!: keeps_seqc keeps_exec keeps_scopes)

lemma write_inv:
  assumes "\<And>f db. f \<in> set (updates_of w) \<Longrightarrow> P db \<Longrightarrow> P (f db)" "P db"
  shows "P (snd (write_of w db))"
proof -
  have "keeps P (write_of w)" by (rule keeps_write_of) (rule assms(1))
  then show ?thesis using assms(2) by (simp add: keeps_def)
qed

end

lemma update_user_ids [simp]: "(\<And>u. us_id (g u) = us_id u) \<Longrightarrow> us_id ` set (db_users (update_user uid g db)) = us_id ` set (db_users db)"
proof -
  assume g: "\<And>u. us_id (g u) = us_id u"
  have "map us_id (db_users (update_user uid g db)) = map us_id (db_users db)" using g by (simp add: update_user_def)
  then show ?thesis by (metis list.set_map)
qed

lemma updates_of_ids: "f \<in> set (updates_of w) \<Longrightarrow> us_id ` set (db_users db) \<subseteq> us_id ` set (db_users (f db))"
  by (cases w) (auto simp: update_tokens_def scope_updates_def split: option.splits)

interpretation configured: table_invariant "\<lambda>db. real_users_exist db"
  by unfold_locales (simp add: real_users_exist_def)

lemma real_users_by_id: "real_users_exist db \<longleftrightarrow> (\<exists>i \<in> us_id ` set (db_users db). i \<noteq> ''legacy'')"
  by (auto simp: real_users_exist_def list_ex_iff)

interpretation configuration: stable_system "api_step E" "\<lambda>s. real_users_exist (ap_db s)" for E
proof
  fix s s'
  assume "api_step E s s'" "real_users_exist (ap_db s)"
  then show "real_users_exist (ap_db s')"
  proof (cases rule: api_step.cases)
    case (writes before p w after)
    have "real_users_exist (snd (write_of w (ap_db s)))"
      by (rule configured.write_inv) (use \<open>real_users_exist (ap_db s)\<close> updates_of_ids in \<open>fastforce simp: real_users_by_id\<close>)+
    then show ?thesis using writes by simp
  qed auto
qed

text \<open>C13: the open mode before the first account never comes back: once an account exists, no later request of any
  interleaving is served as the anonymous administrator.\<close>

theorem auth_never_reopens:
  assumes "real_users_exist (ap_db s)" "api_steps E s s'" "admit E (ap_db s') rq now fault = (touch, Inr (Some q))"
  shows "real_users_exist (ap_db s') \<and> \<not> pr_synthetic q"
proof -
  have r: "real_users_exist (ap_db s')" using configuration.steps_inv[OF assms(2)] assms(1) .
  obtain m path where p: "route_of (ht_request rq) = (m, path)" by fastforce
  have n: "resolve E (ap_db s') b c now \<noteq> AuthOpen" for b c
    using r by (auto simp: resolve_def Let_def split: option.splits prod.splits)
  show ?thesis
  proof (cases "resolve E (ap_db s') (bearer_token (ht_authorization rq)) (session_cookie (ht_cookie rq)) now")
    case (Authenticated q' tok)
    obtain u where "speaks_for (ap_db s') q' u" using resolve_Authenticated[OF Authenticated] by blast
    moreover have "q = q'" using assms(3) p Authenticated
      by (auto simp: admit_def auth_middleware_def Let_def split: option.splits if_splits)
    ultimately show ?thesis using r by (simp add: speaks_for_def)
  qed (use n assms(3) p in \<open>auto simp: admit_def auth_middleware_def Let_def split: option.splits if_splits\<close>)
qed

section \<open>Revoked tokens\<close>

definition dead :: "string \<Rightarrow> auth_db \<Rightarrow> bool" where
  "dead h db \<longleftrightarrow> (\<forall>t \<in> set (db_tokens db). to_hash t = h \<longrightarrow> to_revoked t)"

interpretation dead_tokens: table_invariant "dead h" for h
  by unfold_locales (simp add: dead_def)

lemma dead_updates:
  "f \<in> set (updates_of w) \<Longrightarrow> dead h db \<Longrightarrow> (\<And>t. w = AddToken t \<Longrightarrow> to_hash t \<noteq> h) \<Longrightarrow> dead h (f db)"
  by (cases w) (auto simp: dead_def update_tokens_def update_user_def scope_updates_def split: option.splits)

text \<open>The hash is not that of a token under way, and the generator does not draw its token again.\<close>

definition buried :: "string \<Rightarrow> api_state \<Rightarrow> bool" where
  "buried h s \<longleftrightarrow> dead h (ap_db s) \<and> (\<forall>p t. Writing p (AddToken t) \<in> set (ap_pending s) \<longrightarrow> to_hash t \<noteq> h)"

lemma begin_request_mints:
  assumes "begin_request E l db k p cookie inst now fault rq = (l', Inr (Write b (AddToken t) resp))"
  shows "to_hash t = ae_sha E (new_token (ae_bytes E k))"
  using assms
  by (cases rq)
     (auto simp: logout_def change_password_def create_user_request_def set_role_def set_disabled_def set_scopes_def
        reset_password_def create_token_request_def Let_def split: if_splits option.splits dest: login_begin_writes)

lemma buried_step:
  assumes "api_step E s s'" "buried h s" "\<And>k. ae_sha E (new_token (ae_bytes E k)) \<noteq> h"
  shows "buried h s'"
  using assms(1)
proof (cases rule: api_step.cases)
  case (arrives rq now fault touch r)
  then show ?thesis using assms(2) by (auto simp: buried_def split: option.splits sum.splits)
next
  case (begins before p rq after inst now fault l r)
  have "to_hash t \<noteq> h" if "Writing q (AddToken t) \<in> set (goes_on p r)" for q t
    using goes_on_in[OF that] begin_request_mints[of E] begins(3) assms(3) by fastforce
  then show ?thesis using assms(2) begins by (auto simp: buried_def)
next
  case (verifies before key pw u after inst now l r)
  have "Writing q (AddToken t) \<notin> set (goes_on None r)" for q t
    using goes_on_in[of "Writing q (AddToken t)"] login_finish_writes[of E] verifies(3) by fastforce
  then show ?thesis using assms(2) verifies by (auto simp: buried_def)
next
  case (writes before p w after)
  have "dead h (snd (write_of w (ap_db s)))"
    by (rule dead_tokens.write_inv) (use assms(2) writes dead_updates in \<open>auto simp: buried_def\<close>)
  then show ?thesis using assms(2) writes by (auto simp: buried_def)
qed


section \<open>Rotation\<close>

lemma auth_exec_Inr: "auth_exec f db = (Inr x, db') \<Longrightarrow> db' = f (db \<lparr> db_faults := tl (db_faults db) \<rparr>)"
  using auth_exec_cases by fastforce

definition rotated :: "string \<Rightarrow> string \<Rightarrow> auth_db \<Rightarrow> bool" where
  "rotated uid h db \<longleftrightarrow> (\<forall>s \<in> set (db_sessions db). se_user_id s \<noteq> uid)
    \<and> (\<forall>t \<in> set (db_tokens db). to_user_id t = uid \<longrightarrow> to_revoked t) \<and> (\<forall>u \<in> set (db_users db). us_id u = uid \<longrightarrow> us_hash u = h)"

lemma rotation_steps:
  assumes "\<And>u. us_hash (f u) = h" "\<And>u. us_id (f u) = us_id u"
    "seqc (auth_exec (update_user uid f)) (seqc (delete_sessions_for_user uid) (revoke_tokens_for_user uid)) db = (Inr (), db')"
  shows "rotated uid h db'"
proof -
  obtain db1 db2 where d: "auth_exec (update_user uid f) db = (Inr (), db1)" "delete_sessions_for_user uid db1 = (Inr (), db2)"
    "revoke_tokens_for_user uid db2 = (Inr (), db')" using assms(3) by auto
  note e = auth_exec_Inr[OF d(1)] auth_exec_Inr[OF d(2)[unfolded delete_sessions_for_user_def]]
    auth_exec_Inr[OF d(3)[unfolded revoke_tokens_for_user_def]]
  have "db_users db' = map (\<lambda>u. if us_id u = uid then f u else u) (db_users db)"
    "db_sessions db' = filter (\<lambda>s. se_user_id s \<noteq> uid) (db_sessions db)"
    "db_tokens db' = map (\<lambda>t. if to_user_id t = uid then t \<lparr> to_revoked := True \<rparr> else t) (db_tokens db)"
    unfolding e by (simp_all add: update_user_def update_tokens_def)
  note d' = this
  have "us_hash v = h" if v: "v \<in> set (db_users db')" "us_id v = uid" for v
  proof -
    obtain u where "v = (if us_id u = uid then f u else u)" using v(1) unfolding d'(1) set_map by blast
    then show ?thesis using v(2) assms(1,2) by (cases "us_id u = uid") simp_all
  qed
  moreover have "to_revoked t" if t: "t \<in> set (db_tokens db')" "to_user_id t = uid" for t
  proof -
    obtain t' where "t = (if to_user_id t' = uid then t' \<lparr> to_revoked := True \<rparr> else t')" using t(1) unfolding d'(3) set_map by blast
    then show ?thesis using t(2) by (cases "to_user_id t' = uid") simp_all
  qed
  ultimately show ?thesis unfolding rotated_def d'(2) by simp
qed

lemma write_rotates:
  assumes "w = RotatePassword uid h \<or> w = ForcePassword uid h" "write_of w db = (Inr (), db')"
  shows "rotated uid h db'"
  using assms(1)
proof
  assume "w = RotatePassword uid h"
  then show ?thesis using assms(2)
    by (intro rotation_steps[of "\<lambda>u. u \<lparr> us_hash := h, us_must_change := False \<rparr>" h uid db]) (simp_all add: set_user_password_def)
next
  assume "w = ForcePassword uid h"
  then show ?thesis using assms(2)
    by (intro rotation_steps[of "\<lambda>u. u \<lparr> us_hash := h, us_must_change := True \<rparr>" h uid db]) (simp_all add: reset_user_password_def)
qed

text \<open>C11: after a completed password change or reset no credential issued before opens the account: whatever token or
  cookie is presented, no request is authenticated as that account, and only the new hash is stored.\<close>

theorem rotation_ends_all_logins:
  assumes "w = RotatePassword uid h \<or> w = ForcePassword uid h" "write_of w db = (Inr (), db')"
    "resolve E db' bearer cookie now = Authenticated p tok"
  shows "pr_user_id p \<noteq> uid \<and> (\<forall>u. user_by_id db' uid = Some u \<longrightarrow> us_hash u = h)"
proof -
  note r = write_rotates[OF assms(1,2), unfolded rotated_def]
  obtain u where "speaks_for db' p u" "presents E db' bearer cookie now (us_id u)"
    using resolve_Authenticated[OF assms(3)] by blast
  then have "pr_user_id p \<noteq> uid" using r by (auto simp: speaks_for_def presents_def token_live_def)
  moreover have "\<forall>u. user_by_id db' uid = Some u \<longrightarrow> us_hash u = h"
    using r by (auto simp: user_by_id_def dest: find_first_in)
  ultimately show ?thesis by simp
qed

section \<open>Well-formed rows\<close>

definition user_ok :: "user_row \<Rightarrow> bool" where
  "user_ok u \<longleftrightarrow> role_parse (us_role u) \<noteq> None \<and> us_username u \<noteq> [] \<and> trim (us_username u) = us_username u"

definition session_ok :: "session_row \<Rightarrow> bool" where
  "session_ok s \<longleftrightarrow> se_expires_at s = se_created_at s + SESSION_TTL_NS"

definition token_ok :: "token_row \<Rightarrow> bool" where
  "token_ok t \<longleftrightarrow> to_name t \<noteq> [] \<and> trim (to_name t) = to_name t \<and> (case to_expires_at t of None \<Rightarrow> True | Some e \<Rightarrow> to_created_at t < e)"

definition rows_ok :: "auth_db \<Rightarrow> bool" where
  "rows_ok db \<longleftrightarrow> (\<forall>u \<in> set (db_users db). user_ok u) \<and> (\<forall>s \<in> set (db_sessions db). session_ok s) \<and> (\<forall>t \<in> set (db_tokens db). token_ok t)"

fun write_ok :: "auth_write \<Rightarrow> bool" where
  "write_ok (OpenSession s) = session_ok s"
| "write_ok (AddUser u s) = (user_ok u \<and> us_must_change u \<and> \<not> us_disabled u)"
| "write_ok (AddToken t) = (token_ok t \<and> \<not> to_revoked t)"
| "write_ok _ = True"

interpretation row_typing: table_invariant rows_ok
  by unfold_locales (simp add: rows_ok_def)

lemma role_text_parses: "role_parse (role_as_str r) = Some r"
  by (simp add: role_parse_iff)

lemma row_updates_ok [simp]:
  "token_ok (t \<lparr> to_revoked := b \<rparr>) = token_ok t" "token_ok (t \<lparr> to_last_used := n \<rparr>) = token_ok t"
  "user_ok (u \<lparr> us_hash := h, us_must_change := c \<rparr>) = user_ok u" "user_ok (u \<lparr> us_disabled := d \<rparr>) = user_ok u"
  "user_ok u \<Longrightarrow> user_ok (u \<lparr> us_role := role_as_str r \<rparr>)"
  by (simp_all add: token_ok_def user_ok_def role_text_parses split: option.splits)

lemma rows_ok_users: "rows_ok db \<Longrightarrow> (\<And>u. user_ok u \<Longrightarrow> user_ok (g u)) \<Longrightarrow> rows_ok (update_user uid g db)"
  unfolding rows_ok_def update_user_def by auto

lemma rows_ok_tokens: "rows_ok db \<Longrightarrow> (\<And>t. token_ok t \<Longrightarrow> token_ok (g t)) \<Longrightarrow> rows_ok (update_tokens P g db)"
  unfolding rows_ok_def update_tokens_def by auto

lemma rows_ok_updates: "f \<in> set (updates_of w) \<Longrightarrow> rows_ok db \<Longrightarrow> write_ok w \<Longrightarrow> rows_ok (f db)"
  by (cases w) (auto intro!: rows_ok_users rows_ok_tokens simp: scope_updates_def split: option.splits, auto simp: rows_ok_def)

lemma begin_request_ok:
  assumes "begin_request E l db k p cookie inst now fault rq = (l', Inr (Write b w resp))"
  shows "write_ok w"
  using assms
  by (cases rq)
     (auto simp: logout_def change_password_def create_user_request_def set_role_def set_disabled_def set_scopes_def
        reset_password_def create_token_request_def user_ok_def token_ok_def role_text_parses Let_def
        split: if_splits option.splits dest: login_begin_writes)

lemma login_finish_ok: "login_finish E l k key pw u inst now = (l', Inr (Write b w resp)) \<Longrightarrow> write_ok w"
  by (auto simp: login_finish_def session_ok_def Let_def split: if_splits option.splits)

definition all_rows_ok :: "api_state \<Rightarrow> bool" where
  "all_rows_ok s \<longleftrightarrow> rows_ok (ap_db s) \<and> (\<forall>p w. Writing p w \<in> set (ap_pending s) \<longrightarrow> write_ok w)"

interpretation typing: stable_system "api_step E" all_rows_ok for E
proof
  fix s s'
  assume "api_step E s s'" and inv: "all_rows_ok s"
  then show "all_rows_ok s'"
  proof (cases rule: api_step.cases)
    case (arrives rq now fault touch r)
    then show ?thesis using inv by (auto simp: all_rows_ok_def split: option.splits sum.splits)
  next
    case (begins before p rq after inst now fault l r)
    have "write_ok w" if "Writing q w \<in> set (goes_on p r)" for q w
      using goes_on_in[OF that] begin_request_ok[of E] begins(3) by fastforce
    then show ?thesis using inv begins by (auto simp: all_rows_ok_def)
  next
    case (verifies before key pw u after inst now l r)
    have "write_ok w" if "Writing q w \<in> set (goes_on None r)" for q w
      using goes_on_in[OF that] login_finish_ok[of E] verifies(3) by fastforce
    then show ?thesis using inv verifies by (auto simp: all_rows_ok_def)
  next
    case (writes before p w after)
    have "rows_ok (snd (write_of w (ap_db s)))"
      by (rule row_typing.write_inv) (use inv writes rows_ok_updates in \<open>auto simp: all_rows_ok_def\<close>)
    then show ?thesis using inv writes by (auto simp: all_rows_ok_def)
  qed
qed

text \<open>The identity tables stay well typed: on every interleaving each stored role parses, user names and token
  names are trimmed and not empty, a session lasts twelve hours and a token expires after its creation; so no account
  is locked out by an unreadable role.\<close>

theorem identity_rows_are_well_typed:
  assumes "rows_ok db" "api_steps E (api_start db) s"
  shows "rows_ok (ap_db s)"
  using typing.steps_inv[OF assms(2)] assms(1) by (auto simp: all_rows_ok_def api_start_def)

section \<open>The limiter\<close>

definition full_range :: "limiter \<Rightarrow> f64 \<Rightarrow> bool" where
  "full_range l x \<longleftrightarrow> f64_le (Fin 0) x \<and> f64_le x (lm_burst l)"

definition limiter_ok :: "limiter \<Rightarrow> bool" where
  "limiter_ok l \<longleftrightarrow> (\<exists>r. lm_rps l = Fin r \<and> 0 < r) \<and> (\<exists>b. lm_burst l = Fin b \<and> 0 \<le> b \<and> to_f64 b = Fin b) \<and> distinct (map fst (lm_buckets l))
    \<and> length (lm_buckets l) \<le> MAX_LOGIN_BUCKETS \<and> (\<forall>(k, b) \<in> set (lm_buckets l). full_range l (bk_tokens b))"

lemma to_f64_nonneg: "0 \<le> x \<Longrightarrow> f64_le (Fin 0) (to_f64 x)"
  using to_f64_mono[of 0 x] to_f64_0 by simp

lemma add_nonneg: "f64_le (Fin 0) x \<Longrightarrow> f64_le (Fin 0) y \<Longrightarrow> f64_le (Fin 0) (f64_add x y)"
  by (cases x; cases y) (auto simp: to_f64_nonneg)

lemma mul_nonneg: "f64_le (Fin 0) x \<Longrightarrow> 0 < r \<Longrightarrow> f64_le (Fin 0) (f64_mul x (Fin r))"
  by (cases x) (auto simp: to_f64_nonneg)

lemma as_secs_nonneg: "f64_le (Fin 0) (as_secs_f64 n)"
  by (simp add: as_secs_f64_def f64_of_nat_def add_nonneg to_f64_nonneg)

lemma refill_range: "limiter_ok l \<Longrightarrow> full_range l (bk_tokens b) \<Longrightarrow> full_range l (bk_tokens (refill l b now))"
proof -
  assume l: "limiter_ok l" "full_range l (bk_tokens b)"
  obtain r c where rc: "lm_rps l = Fin r" "0 < r" "lm_burst l = Fin c" "0 \<le> c" using l(1) by (auto simp: limiter_ok_def)
  let ?x = "f64_add (bk_tokens b) (f64_mul (as_secs_f64 (now - bk_last b)) (Fin r))"
  have "f64_le (Fin 0) ?x"
    using l(2) rc by (intro add_nonneg mul_nonneg as_secs_nonneg) (simp_all add: full_range_def)
  then show ?thesis using rc by (cases ?x) (auto simp: full_range_def refill_def f64_min_def)
qed

lemma bucket_of_range: "limiter_ok l \<Longrightarrow> full_range l (bk_tokens (bucket_of l key now))"
proof -
  assume l: "limiter_ok l"
  have "full_range l (bk_tokens b)" if "map_of (pruned l) key = Some b" for b
    using l map_of_SomeD[OF that] by (auto simp: limiter_ok_def pruned_def split: if_splits)
  moreover have "full_range l (lm_burst l)" using l by (auto simp: limiter_ok_def full_range_def)
  ultimately show ?thesis using l by (auto simp: bucket_of_def intro!: refill_range split: option.splits)
qed

lemma spent_range: "limiter_ok l \<Longrightarrow> full_range l x \<Longrightarrow> full_range l (f64_max (f64_sub x (Fin 1)) (Fin 0))"
proof -
  assume l: "limiter_ok l" "full_range l x"
  obtain c where c: "lm_burst l = Fin c" "0 \<le> c" "to_f64 c = Fin c" using l(1) by (auto simp: limiter_ok_def)
  then obtain q where q: "x = Fin q" "0 \<le> q" "q \<le> c" using l(2) by (cases x) (auto simp: full_range_def)
  have s: "f64_sub x (Fin 1) = to_f64 (q - 1)" using q by (simp add: f64_sub_def)
  have "f64_le (to_f64 (q - 1)) (Fin c)" using to_f64_mono[of "q - 1" c] q c by simp
  then show ?thesis using c s by (cases "to_f64 (q - 1)") (auto simp: full_range_def f64_max_def)
qed

lemma pruned_ok: "limiter_ok l \<Longrightarrow> distinct (map fst (pruned l)) \<and> length (pruned l) < MAX_LOGIN_BUCKETS
    \<and> (\<forall>(k, b) \<in> set (pruned l). full_range l (bk_tokens b))"
  by (auto simp: limiter_ok_def pruned_def MAX_LOGIN_BUCKETS_def)

lemma drop_key_props: "distinct (map fst bs) \<Longrightarrow> distinct (map fst (drop_key k bs)) \<and> k \<notin> fst ` set (drop_key k bs)
    \<and> length (drop_key k bs) \<le> length bs \<and> set (drop_key k bs) \<subseteq> set bs"
  by (auto simp: drop_key_def distinct_map_filter)

lemma insert_bucket_ok:
  assumes "limiter_ok l" "full_range l (bk_tokens b)"
  shows "limiter_ok (l \<lparr> lm_buckets := (key, b) # drop_key key (pruned l) \<rparr>)"
  using assms pruned_ok[OF assms(1)] drop_key_props[of "pruned l" key]
  by (auto simp: limiter_ok_def full_range_def Suc_le_eq intro: order_le_less_trans)

lemma limiter_ops_ok:
  assumes "limiter_ok l"
  shows "limiter_ok (snd (throttled l key now))" "limiter_ok (penalize l key now)" "limiter_ok (limiter_reset l key)"
proof -
  show "limiter_ok (snd (throttled l key now))"
    using insert_bucket_ok[OF assms bucket_of_range[OF assms]] by (simp add: throttled_def Let_def)
  show "limiter_ok (penalize l key now)"
    using insert_bucket_ok[OF assms] spent_range[OF assms bucket_of_range[OF assms]] by (simp add: penalize_def Let_def)
  show "limiter_ok (limiter_reset l key)"
    using assms drop_key_props[of "lm_buckets l" key] by (auto simp: limiter_ok_def limiter_reset_def full_range_def)
qed

lemma to_f64_5: "to_f64 5 = Fin 5"
  using to_f64_int[of 5] by simp

lemma limiter_new_ok: "limiter_ok limiter_new"
  using to_f64_5 by (auto simp: limiter_ok_def limiter_new_def LOGIN_RPS_def intro!: exI[of _ "3602879701896397 / 36028797018963968"])

lemma limiter_ops_burst [simp]: "lm_burst (snd (throttled l key now)) = lm_burst l" "lm_burst (penalize l key now) = lm_burst l"
    "lm_burst (limiter_reset l key) = lm_burst l"
  by (simp_all add: throttled_def penalize_def limiter_reset_def Let_def)

definition limited :: "limiter \<Rightarrow> bool" where
  "limited l \<longleftrightarrow> limiter_ok l \<and> lm_burst l = Fin 5"

lemma limited_ops: "limited l \<Longrightarrow> limited (snd (throttled l key now)) \<and> limited (penalize l key now) \<and> limited (limiter_reset l key)"
  by (simp add: limited_def limiter_ops_ok)

lemma login_begin_limiter: "login_begin E l db u pw peer inst fault = (l', r) \<Longrightarrow> limited l \<Longrightarrow> limited l'"
  using limited_ops[of l "login_key u peer" inst] by (auto simp: login_begin_def Let_def split: if_splits prod.splits)

lemma begin_request_limiter:
  "begin_request E l db k p cookie inst now fault rq = (l', r) \<Longrightarrow> limited l \<Longrightarrow> limited l'"
  by (cases rq) (auto dest: login_begin_limiter)

lemma login_finish_limiter:
  "login_finish E l k key pw u inst now = (l', r) \<Longrightarrow> limited l \<Longrightarrow> limited l'"
  by (auto simp: login_finish_def Let_def limited_ops split: if_splits option.splits)

interpretation limiting: stable_system "api_step E" "\<lambda>s. limited (ap_limiter s)" for E
proof
  fix s s'
  assume "api_step E s s'" "limited (ap_limiter s)"
  then show "limited (ap_limiter s')"
    by (cases rule: api_step.cases) (auto dest: begin_request_limiter login_finish_limiter)
qed

text \<open>The login limiter is bounded under any traffic: it never tracks more than 4096 keys, each key once, and
  the tokens of every bucket stay between 0 and the burst of 5.\<close>

theorem login_limiter_is_bounded:
  assumes "api_steps E (api_start db) s"
  shows "length (lm_buckets (ap_limiter s)) \<le> 4096 \<and> distinct (map fst (lm_buckets (ap_limiter s)))
    \<and> (\<forall>(k, b) \<in> set (lm_buckets (ap_limiter s)). between 0 5 (bk_tokens b))"
proof -
  have "limited (ap_limiter s)"
    by (rule limiting.steps_inv[OF assms]) (simp add: api_start_def limited_def limiter_new_ok, simp add: limiter_new_def)
  then show ?thesis
    by (auto simp: limited_def limiter_ok_def full_range_def between_le MAX_LOGIN_BUCKETS_def)
qed

end
