(* ===== verification/Api_Examples.thy ===== *)
theory Api_Examples
  imports Api_Props
begin

text \<open>
  Concrete runs of the access control: witnesses of the properties, and four runs in which the
  code does less than it says.
\<close>

section \<open>A small installation\<close>

text \<open>Hashes are the passwords themselves, digests the strings, UUIDs the ticks in unary.\<close>

definition lab :: auth_env where
  "lab = \<lparr> ae_sha = (\<lambda>s. s), ae_verify = (\<lambda>h p. h = p), ae_dummy = ''!'', ae_hash = (\<lambda>k p. Inr p), ae_bytes = (\<lambda>k. [1, 2]),
     ae_draws = (\<lambda>k n. replicate 32 0), ae_fuel = 1, ae_uuid = (\<lambda>k. replicate k (CHR ''i'')), ae_writes = True, ae_secure = True \<rparr>"

definition row_ann :: user_row where
  "row_ann = \<lparr> us_id = ''a'', us_username = ''ann'', us_hash = ''correct horse'', us_role = ''admin'', us_must_change = False,
     us_disabled = False, us_created_at = 0 \<rparr>"

definition row_bob :: user_row where
  "row_bob = \<lparr> us_id = ''b'', us_username = ''bob'', us_hash = ''leaked password'', us_role = ''operator'', us_must_change = False,
     us_disabled = False, us_created_at = 0 \<rparr>"

definition lab_db :: auth_db where
  "lab_db = \<lparr> db_users = [row_ann, row_bob],
     db_sessions = [\<lparr> se_id_hash = ''s-ann'', se_user_id = ''a'', se_created_at = 0, se_expires_at = SESSION_TTL_NS \<rparr>],
     db_tokens = [\<lparr> to_id = ''t'', to_user_id = ''a'', to_name = ''ci'', to_hash = ''kro_old'', to_created_at = 0, to_last_used = None,
        to_revoked = True, to_expires_at = None \<rparr>],
     db_scopes = [], db_faults = [] \<rparr>"

definition by_ann :: "api_request \<Rightarrow> http_request" where
  "by_ann r = \<lparr> ht_request = r, ht_cookie = Some ''theme=dark; kro_session=s-ann'', ht_authorization = None \<rparr>"

definition by_nobody :: "api_request \<Rightarrow> http_request" where
  "by_nobody r = \<lparr> ht_request = r, ht_cookie = None, ht_authorization = None \<rparr>"

text \<open>The moments of a run, by the position of the pending request they move.\<close>

datatype moment = Arrives http_request int | Begins nat nat int | Verifies nat nat int | Writes nat

fun moved :: "auth_env \<Rightarrow> api_state \<Rightarrow> moment \<Rightarrow> api_state" where
  "moved E s (Arrives rq now) = (case admit E (ap_db s) rq now None of (touch, r) \<Rightarrow>
     s \<lparr> ap_pending := ap_pending s @ (case touch of None \<Rightarrow> [] | Some h \<Rightarrow> [Writing None (TouchToken h now)])
        @ (case r of Inl e \<Rightarrow> [] | Inr p \<Rightarrow> [Admitted p rq]), ap_tick := ap_tick s + 1 \<rparr>)"
| "moved E s (Begins i inst now) = (case drop i (ap_pending s) of
     Admitted p rq # after \<Rightarrow> (case begin_request E (ap_limiter s) (ap_db s) (ap_tick s) p (ht_cookie rq) inst now None (ht_request rq) of
       (l, r) \<Rightarrow> s \<lparr> ap_limiter := l, ap_pending := take i (ap_pending s) @ goes_on p r @ after, ap_tick := ap_tick s + 1 \<rparr>)
   | _ \<Rightarrow> s)"
| "moved E s (Verifies i inst now) = (case drop i (ap_pending s) of
     LookedUp key pw u # after \<Rightarrow> (case login_finish E (ap_limiter s) (ap_tick s) key pw u inst now of
       (l, r) \<Rightarrow> s \<lparr> ap_limiter := l, ap_pending := take i (ap_pending s) @ goes_on None r @ after, ap_tick := ap_tick s + 1 \<rparr>)
   | _ \<Rightarrow> s)"
| "moved E s (Writes i) = (case drop i (ap_pending s) of
     Writing p w # after \<Rightarrow> s \<lparr> ap_db := snd (write_of w (ap_db s)), ap_pending := take i (ap_pending s) @ after, ap_tick := ap_tick s + 1 \<rparr>
   | _ \<Rightarrow> s)"

lemma drop_split: "drop i xs = x # after \<Longrightarrow> xs = take i xs @ x # after"
  by (metis append_take_drop_id)

lemma moved_step: "moved E s m = s \<or> api_step E s (moved E s m)"
proof (cases m)
  case (Arrives rq now)
  obtain touch r where "admit E (ap_db s) rq now None = (touch, r)" by fastforce
  then show ?thesis using Arrives api_step.arrives[of E s rq now None touch r] by simp
next
  case (Begins i inst now)
  show ?thesis
  proof (cases "\<exists>p rq after. drop i (ap_pending s) = Admitted p rq # after")
    case True
    then obtain p rq after where d: "drop i (ap_pending s) = Admitted p rq # after" by blast
    obtain l r where "begin_request E (ap_limiter s) (ap_db s) (ap_tick s) p (ht_cookie rq) inst now None (ht_request rq) = (l, r)" by fastforce
    then show ?thesis using Begins d api_step.begins[OF drop_split[OF d]] by simp
  qed (use Begins in \<open>auto split: list.splits pending.splits\<close>)
next
  case (Verifies i inst now)
  show ?thesis
  proof (cases "\<exists>key pw u after. drop i (ap_pending s) = LookedUp key pw u # after")
    case True
    then obtain key pw u after where d: "drop i (ap_pending s) = LookedUp key pw u # after" by blast
    obtain l r where "login_finish E (ap_limiter s) (ap_tick s) key pw u inst now = (l, r)" by fastforce
    then show ?thesis using Verifies d api_step.verifies[OF drop_split[OF d]] by simp
  qed (use Verifies in \<open>auto split: list.splits pending.splits\<close>)
next
  case (Writes i)
  show ?thesis
  proof (cases "\<exists>p w after. drop i (ap_pending s) = Writing p w # after")
    case True
    then obtain p w after where d: "drop i (ap_pending s) = Writing p w # after" by blast
    then show ?thesis using Writes api_step.writes[OF drop_split[OF d]] by simp
  qed (use Writes in \<open>auto split: list.splits pending.splits\<close>)
qed

lemma run_steps: "api_steps E s (foldl (moved E) s ms)"
proof (induction ms arbitrary: s)
  case (Cons m ms)
  have "api_steps E s (moved E s m)" using moved_step[of E s m] by auto
  then show ?case using Cons.IH[of "moved E s m"] by (metis foldl_Cons rtranclp_trans)
qed simp

definition lab_run :: "moment list \<Rightarrow> api_state" where
  "lab_run ms = foldl (moved lab) (api_start lab_db) ms"

lemma lab_run_steps: "api_steps lab (api_start lab_db) (lab_run ms)"
  by (simp add: lab_run_def run_steps)

section \<open>Runs in which the code does less than it says\<close>

definition stale_login :: "moment list" where
  "stale_login = [Arrives (by_nobody (Login ''bob'' ''leaked password'' (Some ''10.0.0.9''))) 1, Begins 0 0 1,
     Arrives (by_ann (ResetPassword ''b'' ''a fresh password'')) 2, Begins 1 0 2, Verifies 0 0 3, Writes 1, Writes 0]"

text \<open>
  A login that was verified against the leaked password before the administrator's reset was
  written opens its session after it: the session lives on although the password and all
  sessions were replaced.
\<close>

lemma stale_login_outlives_reset:
  "map us_hash (db_users (ap_db (lab_run stale_login))) = [''correct horse'', ''a fresh password''] \<and>
   (case resolve lab (ap_db (lab_run stale_login)) None (Some (new_session_id (ae_bytes lab 4))) 4 of
      Authenticated p tok \<Rightarrow> pr_user_id p = ''b'' | _ \<Rightarrow> False)"
  by code_simp

definition twin_accounts :: "moment list" where
  "twin_accounts = [Arrives (by_ann (CreateUser ''eve'' (Some ''password eve 1'') ''viewer'' None)) 1,
     Arrives (by_ann (CreateUser ''eve'' (Some ''password eve 2'') ''admin'' None)) 1, Begins 0 0 2, Begins 1 0 2, Writes 0, Writes 0]"

text \<open>Both creations look the name up before either is written: the name is stored twice.\<close>

lemma user_names_can_be_twins:
  "map us_username (db_users (ap_db (lab_run twin_accounts))) = [''ann'', ''bob'', ''eve'', ''eve'']"
  by code_simp

definition guesses :: "moment list" where
  "guesses = concat (map (\<lambda>i. [Arrives (by_nobody (Login ''bob'' [char_of (97 + i)] (Some ''10.0.0.9''))) 1, Begins i 0 1]) [0..<7])"

text \<open>Seven guesses in flight pass a limiter with a burst of five: a token is taken only when a guess has failed.\<close>

lemma parallel_guesses_pass_the_limiter:
  "list_all (\<lambda>x. case x of LookedUp key pw u \<Rightarrow> True | _ \<Rightarrow> False) (ap_pending (lab_run guesses))
   \<and> length (ap_pending (lab_run guesses)) = 7"
  by code_simp

text \<open>The statements of a rotation are not one transaction: when the second fails the client is told of
  an error, the password is changed and the sessions are left.\<close>

lemma rotation_can_be_torn:
  "let r = write_of (RotatePassword ''a'' ''new'') (lab_db \<lparr> db_faults := [None, Some ''disk full''] \<rparr>) in
   fst r = Inl ''disk full'' \<and> map us_hash (db_users (snd r)) = [''new'', ''leaked password''] \<and> length (db_sessions (snd r)) = 1"
  by code_simp

section \<open>Witnesses\<close>

definition ann :: principal where
  "ann = \<lparr> pr_user_id = ''a'', pr_username = ''ann'', pr_role = Admin, pr_scopes = [], pr_must_change = False, pr_synthetic = False \<rparr>"

lemma ann_is_admitted: "admit lab lab_db (by_ann ListUsers) 1 None = (None, Inr (Some ann))"
  by code_simp

lemma lab_has_users: "real_users_exist lab_db"
  by code_simp

theorem requests_need_authority_witness:
  "\<exists>q u. Some ann = Some q \<and> speaks_for lab_db q u
    \<and> presents lab lab_db (bearer_token (ht_authorization (by_ann ListUsers))) (session_cookie (ht_cookie (by_ann ListUsers))) 1 (us_id u)
    \<and> required_role ''GET'' ''/api/users'' \<le> pr_role q \<and> (us_must_change u \<longrightarrow> ''/api/users'' \<in> set password_change_exempt)
    \<and> (global_resource ''/api/users'' \<longrightarrow> pr_scopes q = [])"
  by (rule requests_need_authority[OF ann_is_admitted lab_has_users]) (simp_all add: by_ann_def)

definition resetting :: "moment list" where
  "resetting = [Arrives (by_ann (ResetPassword ''b'' ''a fresh password'')) 2, Begins 0 0 2]"

lemma resetting_pending: "ap_pending (lab_run resetting) = [Writing (Some ann) (ForcePassword ''b'' ''a fresh password'')]"
  by code_simp

theorem accounts_change_by_admins_only_witness: "administrator (Some ann)"
  using accounts_change_by_admins_only[OF lab_run_steps[of resetting], of "Some ann" "ForcePassword ''b'' ''a fresh password''"]
  by (simp add: resetting_pending)

lemma ann_still_admitted: "admit lab (ap_db (lab_run resetting)) (by_ann ListUsers) 3 None = (None, Inr (Some ann))"
  by code_simp

theorem auth_never_reopens_witness: "real_users_exist (ap_db (lab_run resetting)) \<and> \<not> pr_synthetic ann"
  by (rule auth_never_reopens[OF _ lab_run_steps ann_still_admitted]) (simp add: api_start_def lab_has_users)

definition with_old_token :: http_request where
  "with_old_token = \<lparr> ht_request = ListTokens, ht_cookie = None, ht_authorization = Some ''Bearer kro_old'' \<rparr>"


lemma rotation_of_bob: "write_of (RotatePassword ''b'' ''a fresh password'') lab_db
    = (Inr (), snd (write_of (RotatePassword ''b'' ''a fresh password'') lab_db))"
proof (rule prod_eqI)
  show "fst (write_of (RotatePassword ''b'' ''a fresh password'') lab_db)
    = fst (Inr (), snd (write_of (RotatePassword ''b'' ''a fresh password'') lab_db))" by code_simp
qed simp

lemma ann_after_rotation:
  "resolve lab (snd (write_of (RotatePassword ''b'' ''a fresh password'') lab_db)) None (Some ''s-ann'') 5 = Authenticated ann None"
  by code_simp

theorem rotation_ends_all_logins_witness: "pr_user_id ann \<noteq> ''b''"
  by (rule conjunct1[OF rotation_ends_all_logins[OF _ rotation_of_bob ann_after_rotation]]) simp

lemma lab_rows_ok: "rows_ok lab_db"
  by code_simp

theorem identity_rows_are_well_typed_witness: "rows_ok (ap_db (lab_run twin_accounts))"
  by (rule identity_rows_are_well_typed[OF lab_rows_ok lab_run_steps])

theorem login_limiter_is_bounded_witness:
  "length (lm_buckets (ap_limiter (lab_run guesses))) \<le> 4096 \<and> distinct (map fst (lm_buckets (ap_limiter (lab_run guesses))))
    \<and> (\<forall>(k, b) \<in> set (lm_buckets (ap_limiter (lab_run guesses))). between 0 5 (bk_tokens b))"
  by (rule login_limiter_is_bounded[OF lab_run_steps])

end
