(* ===== verification/Sql_Guard.thy ===== *)
theory Sql_Guard
  imports Tumult_Prelude
begin

text \<open>
  The guard of \<open>tumult-intelligence/src/sql_guard.rs\<close> for generated queries: the two tokenizers,
  the validation, the rewriting that confines tables to a predicate, and the row limit. Texts
  are ASCII, so a byte offset is a character offset.
\<close>

section \<open>Words of the language\<close>

datatype sql_guard_error = SqlEmpty | NotASelect | MultipleStatements | CommentFound
  | TableNotAllowed string | FunctionNotAllowed string | TableNotScopable string

definition ALLOWED_FUNCTIONS :: "string list" where
  "ALLOWED_FUNCTIONS =
    [''count'', ''sum'', ''avg'', ''min'', ''max'', ''median'', ''quantile'', ''stddev'', ''stddev_samp'', ''stddev_pop'',
     ''var_samp'', ''var_pop'', ''variance'', ''any_value'', ''arg_max'', ''arg_min'', ''first'', ''last'', ''list'', ''string_agg'',
     ''row_number'', ''rank'', ''dense_rank'', ''lag'', ''lead'', ''abs'', ''ceil'', ''ceiling'', ''floor'', ''round'',
     ''sign'', ''greatest'', ''least'', ''coalesce'', ''nullif'', ''cast'', ''try_cast'', ''lower'', ''upper'', ''length'',
     ''substring'', ''substr'', ''trim'', ''ltrim'', ''rtrim'', ''replace'', ''concat'', ''starts_with'', ''ends_with'', ''contains'',
     ''date_trunc'', ''date_part'', ''date_diff'', ''strftime'', ''epoch'', ''epoch_ms'', ''now'', ''current_date'', ''current_timestamp'']"

definition PAREN_KEYWORDS :: "string list" where
  "PAREN_KEYWORDS =
    [''select'', ''from'', ''join'', ''as'', ''in'', ''not'', ''exists'', ''over'', ''filter'', ''values'',
     ''where'', ''and'', ''or'', ''on'', ''using'', ''case'', ''when'', ''by'', ''lateral'']"

definition RESERVED_AFTER_TABLE :: "string list" where
  "RESERVED_AFTER_TABLE =
    [''WHERE'', ''GROUP'', ''ORDER'', ''LIMIT'', ''OFFSET'', ''HAVING'', ''QUALIFY'', ''WINDOW'', ''ON'', ''USING'',
     ''JOIN'', ''LEFT'', ''RIGHT'', ''INNER'', ''OUTER'', ''CROSS'', ''FULL'', ''NATURAL'', ''UNION'', ''INTERSECT'',
     ''EXCEPT'', ''AS'', ''LATERAL'', ''FOR'']"

text \<open>\<open>char::is_alphabetic\<close> and \<open>char::is_alphanumeric\<close> on ASCII.\<close>

definition is_alpha :: "char \<Rightarrow> bool" where
  "is_alpha c \<longleftrightarrow> (let n = (of_char c :: nat) in (65 \<le> n \<and> n \<le> 90) \<or> (97 \<le> n \<and> n \<le> 122))"

definition is_digit :: "char \<Rightarrow> bool" where
  "is_digit c \<longleftrightarrow> (let n = (of_char c :: nat) in 48 \<le> n \<and> n \<le> 57)"

lemma is_alpha_code [code]: "is_alpha (Char b0 b1 b2 b3 b4 b5 b6 b7) \<longleftrightarrow>
    \<not> b7 \<and> b6 \<and> (b0 \<or> b1 \<or> b2 \<or> b3 \<or> b4) \<and> \<not> (b4 \<and> b3 \<and> (b2 \<or> b1 \<and> b0))"
  by (cases b0; cases b1; cases b2; cases b3; cases b4; cases b5; cases b6; cases b7; simp add: is_alpha_def char_of_def)

lemma is_digit_code [code]: "is_digit (Char b0 b1 b2 b3 b4 b5 b6 b7) \<longleftrightarrow> \<not> b7 \<and> \<not> b6 \<and> b5 \<and> b4 \<and> \<not> (b3 \<and> (b2 \<or> b1))"
  by (cases b0; cases b1; cases b2; cases b3; cases b4; cases b5; cases b6; cases b7; simp add: is_digit_def char_of_def)

definition word_char :: "char \<Rightarrow> bool" where
  "word_char c \<longleftrightarrow> is_alpha c \<or> is_digit c \<or> c = CHR ''_'' \<or> c = CHR ''.''"

abbreviation quote :: char where "quote \<equiv> CHR 0x27"

definition is_identifier_start :: "string \<Rightarrow> bool" where
  "is_identifier_start t \<longleftrightarrow> t \<noteq> [] \<and> (is_alpha (hd t) \<or> hd t = CHR ''_'')"

text \<open>\<open>str::eq_ignore_ascii_case\<close> against an upper-case word.\<close>

definition is_kw :: "string \<Rightarrow> string \<Rightarrow> bool" where
  "is_kw kw t \<longleftrightarrow> lower t = lower kw"

section \<open>The tokenizers\<close>

definition flush :: "string \<Rightarrow> string list" where
  "flush cur = (if cur \<noteq> [] then [cur] else [])"

fun tokenize_from :: "bool \<Rightarrow> string \<Rightarrow> string \<Rightarrow> string list" where
  "tokenize_from in_string cur [] = flush cur"
| "tokenize_from True cur (c # cs) =
    (if c = quote then (case cs of
         d # ds \<Rightarrow> if d = quote then tokenize_from True cur ds else ''?str?'' # tokenize_from False cur cs
       | [] \<Rightarrow> ''?str?'' # tokenize_from False cur cs)
     else tokenize_from True cur cs)"
| "tokenize_from False cur (c # cs) =
    (if c = quote then flush cur @ tokenize_from True [] cs
     else if word_char c then tokenize_from False (cur @ [c]) cs
     else flush cur @ (if is_ws c then [] else [[c]]) @ tokenize_from False [] cs)"

definition tokenize :: "string \<Rightarrow> string list" where
  "tokenize sql = tokenize_from False [] sql"

record pos_tok =
  pt_text :: string
  pt_start :: nat
  pt_end :: nat
  pt_word :: bool

definition flush_pos :: "string \<Rightarrow> nat \<Rightarrow> nat \<Rightarrow> pos_tok list" where
  "flush_pos cur start i = (if cur \<noteq> [] then [\<lparr> pt_text = cur, pt_start = start, pt_end = i, pt_word = True \<rparr>] else [])"

text \<open>The arguments before the text: in a literal, its start, the current word, its start, the offset.\<close>

fun positions_from :: "bool \<Rightarrow> nat \<Rightarrow> string \<Rightarrow> nat \<Rightarrow> nat \<Rightarrow> string \<Rightarrow> pos_tok list" where
  "positions_from in_string ss cur cs i [] = flush_pos cur cs i"
| "positions_from True ss cur cs i (c # u) =
    (if c = quote then (case u of
         d # v \<Rightarrow> if d = quote then positions_from True ss cur cs (i + 2) v
           else \<lparr> pt_text = ''?str?'', pt_start = ss, pt_end = i + 1, pt_word = False \<rparr> # positions_from False ss cur cs (i + 1) u
       | [] \<Rightarrow> \<lparr> pt_text = ''?str?'', pt_start = ss, pt_end = i + 1, pt_word = False \<rparr> # positions_from False ss cur cs (i + 1) u)
     else positions_from True ss cur cs (i + 1) u)"
| "positions_from False ss cur cs i (c # u) =
    (if c = quote then flush_pos cur cs i @ positions_from True i [] cs (i + 1) u
     else if word_char c then positions_from False ss (cur @ [c]) (if cur = [] then i else cs) (i + 1) u
     else flush_pos cur cs i
       @ (if is_ws c then [] else [\<lparr> pt_text = [c], pt_start = i, pt_end = i + 1, pt_word = False \<rparr>])
       @ positions_from False ss [] cs (i + 1) u)"

definition tokenize_positions :: "string \<Rightarrow> pos_tok list" where
  "tokenize_positions sql = positions_from False 0 [] 0 0 sql"

section \<open>Validation\<close>

fun scan_from :: "bool \<Rightarrow> char \<Rightarrow> string \<Rightarrow> (sql_guard_error, unit) result" where
  "scan_from in_string prev [] = Inr ()"
| "scan_from True prev (c # cs) =
    (if c = quote then (case cs of
         d # ds \<Rightarrow> if d = quote then scan_from True c ds else scan_from False c cs
       | [] \<Rightarrow> scan_from False c cs)
     else scan_from True c cs)"
| "scan_from False prev (c # cs) =
    (if c = quote then scan_from True c cs
     else if c = CHR '';'' then Inl MultipleStatements
     else if c = CHR ''-'' \<and> prev = CHR ''-'' then Inl CommentFound
     else if c = CHR ''*'' \<and> prev = CHR ''/'' then Inl CommentFound
     else if c = CHR ''/'' \<and> prev = CHR ''*'' then Inl CommentFound
     else scan_from False c cs)"

definition scan_raw :: "string \<Rightarrow> (sql_guard_error, unit) result" where
  "scan_raw sql = scan_from False (char_of (0 :: nat)) sql"

fun cte_names :: "string list \<Rightarrow> string list" where
  "cte_names (a # b # c # ts) = (if is_kw ''AS'' b \<and> c = ''('' then [lower a] else []) @ cte_names (b # c # ts)"
| "cte_names _ = []"

definition is_from :: "string \<Rightarrow> bool" where
  "is_from t \<longleftrightarrow> upper t = ''FROM'' \<or> upper t = ''JOIN''"

fun check_tables :: "string list \<Rightarrow> string list \<Rightarrow> bool \<Rightarrow> string list \<Rightarrow> (sql_guard_error, unit) result" where
  "check_tables allowed ctes expect [] = Inr ()"
| "check_tables allowed ctes True (t # ts) =
    (if t = ''('' then check_tables allowed ctes False ts
     else if lower t \<notin> set allowed \<and> lower t \<notin> set ctes then Inl (TableNotAllowed t)
     else check_tables allowed ctes False ts)"
| "check_tables allowed ctes False (t # ts) = check_tables allowed ctes (is_from t) ts"

fun check_functions :: "string list \<Rightarrow> (sql_guard_error, unit) result" where
  "check_functions [] = Inr ()"
| "check_functions (t # ts) =
    (if \<not> is_identifier_start t \<or> (ts = [] \<or> hd ts \<noteq> ''('') then check_functions ts
     else if lower t \<notin> set PAREN_KEYWORDS \<and> lower t \<notin> set ALLOWED_FUNCTIONS then Inl (FunctionNotAllowed t)
     else check_functions ts)"

definition validate_generated_sql :: "string \<Rightarrow> string list \<Rightarrow> (sql_guard_error, unit) result" where
  "validate_generated_sql sql allowed_tables =
    (let trimmed = trim sql in
     if trimmed = [] then Inl SqlEmpty
     else res_bind (scan_raw trimmed) (\<lambda>_.
       let tokens = tokenize trimmed; first = upper (case tokens of [] \<Rightarrow> [] | t # _ \<Rightarrow> t) in
       if first \<noteq> ''SELECT'' \<and> first \<noteq> ''WITH'' then Inl NotASelect
       else res_bind (check_tables (map lower allowed_tables) (cte_names tokens) False tokens) (\<lambda>_. check_functions tokens)))"

section \<open>Scoping\<close>

fun cte_names_pos :: "pos_tok list \<Rightarrow> string list" where
  "cte_names_pos (a # b # c # ts) =
    (if pt_word a \<and> is_kw ''AS'' (pt_text b) \<and> pt_text c = ''('' then [lower (pt_text a)] else []) @ cte_names_pos (b # c # ts)"
| "cte_names_pos _ = []"

definition has_alias :: "pos_tok list \<Rightarrow> bool" where
  "has_alias ts = (case ts of [] \<Rightarrow> False
    | a # _ \<Rightarrow> pt_word a \<and> (is_kw ''AS'' (pt_text a) \<or> upper (pt_text a) \<notin> set RESERVED_AFTER_TABLE))"

definition alias_of :: "string \<Rightarrow> string" where
  "alias_of t = last (split_at (CHR ''.'') t)"

definition wrapped :: "string \<Rightarrow> string \<Rightarrow> bool \<Rightarrow> string" where
  "wrapped t pred aliased = ''(SELECT * FROM '' @ t @ '' WHERE '' @ pred @ '')'' @ (if aliased then [] else '' AS '' @ alias_of t)"

definition slice :: "nat \<Rightarrow> nat \<Rightarrow> string \<Rightarrow> string" where
  "slice i j s = take (j - i) (drop i s)"

fun scope_loop :: "string \<Rightarrow> string list \<Rightarrow> (string \<times> string) list \<Rightarrow> pos_tok list \<Rightarrow> nat \<Rightarrow> string \<Rightarrow> (sql_guard_error, string) result" where
  "scope_loop sql ctes preds [] cursor out = Inr (out @ drop cursor sql)"
| "scope_loop sql ctes preds [t] cursor out = Inr (out @ drop cursor sql)"
| "scope_loop sql ctes preds (t # n # rest) cursor out =
    (if pt_word t \<and> is_from (pt_text t) \<and> pt_word n \<and> lower (pt_text n) \<notin> set ctes
     then (case map_of preds (lower (pt_text n)) of
         None \<Rightarrow> Inl (TableNotScopable (pt_text n))
       | Some pred \<Rightarrow> scope_loop sql ctes preds rest (pt_end n)
           (out @ slice cursor (pt_start n) sql @ wrapped (pt_text n) pred (has_alias rest)))
     else scope_loop sql ctes preds (n # rest) cursor out)"

definition scope_tables :: "string \<Rightarrow> (string \<times> string) list \<Rightarrow> (sql_guard_error, string) result" where
  "scope_tables sql predicates = (let tokens = tokenize_positions sql in
     scope_loop sql (cte_names_pos tokens) (map (\<lambda>(t, p). (lower t, p)) predicates) tokens 0 [])"

section \<open>The row limit\<close>

fun decimal_text :: "nat \<Rightarrow> string" where
  "decimal_text n = (if n < 10 then [char_of (48 + n)] else decimal_text (n div 10) @ [char_of (48 + n mod 10)])"

declare decimal_text.simps [simp del]

definition trim_end_matches :: "(char \<Rightarrow> bool) \<Rightarrow> string \<Rightarrow> string" where
  "trim_end_matches P s = rev (dropWhile P (rev s))"

definition inject_limit :: "string \<Rightarrow> nat \<Rightarrow> string" where
  "inject_limit sql n = (if list_ex (is_kw ''LIMIT'') (tokenize sql) then sql
     else trim_end_matches is_ws (trim_end_matches (\<lambda>c. c = CHR '';'') sql) @ '' LIMIT '' @ decimal_text n)"

end
