(* ===== verification/Sql_Util.thy ===== *)
theory Sql_Util
  imports Api_Handlers Sql_Guard
begin

text \<open>
  The pure helpers of \<open>tumult-api/src/sql_util.rs\<close> and \<open>auth/scopes.rs\<close>: time windows, quoting of
  user text, and the predicates that confine a read to a principal's environments. \<open>i64\<close> values
  are integers; the clock is an argument.
\<close>

definition int_text :: "int \<Rightarrow> string" where
  "int_text i = (if i < 0 then CHR ''-'' # decimal_text (nat (- i)) else decimal_text (nat i))"

definition parse_range :: "string \<Rightarrow> int option" where
  "parse_range rng = (if rng = ''24h'' then Some 86400 else if rng = ''7d'' then Some (7 * 86400)
     else if rng = ''14d'' then Some (14 * 86400) else None)"

definition parse_interval :: "string \<Rightarrow> int option" where
  "parse_interval interval = (if interval = ''5m'' then Some 300 else if interval = ''1h'' then Some 3600
     else if interval = ''1d'' then Some 86400 else None)"

definition windows :: "int \<Rightarrow> string \<Rightarrow> ((int \<times> int) \<times> (int \<times> int)) option" where
  "windows now rng = (case parse_range rng of None \<Rightarrow> None
     | Some secs \<Rightarrow> (let to = now; from = to - secs * 1000000000 in
         Some ((from, to), (from - secs * 1000000000, from))))"

text \<open>\<open>str::replace\<close> of one character.\<close>

definition replace_char :: "char \<Rightarrow> string \<Rightarrow> string \<Rightarrow> string" where
  "replace_char c r s = concat (map (\<lambda>x. if x = c then r else [x]) s)"

definition sql_string :: "string \<Rightarrow> string" where
  "sql_string s = [quote] @ replace_char quote [quote, quote] s @ [quote]"

abbreviation backslash :: char where "backslash \<equiv> CHR 0x5C"

definition like_escape :: "string \<Rightarrow> string" where
  "like_escape s = replace_char quote [quote, quote] (replace_char (CHR ''_'') [backslash, CHR ''_'']
     (replace_char (CHR ''%'') [backslash, CHR ''%''] (replace_char backslash [backslash, backslash] s)))"

definition sql_contains :: "string \<Rightarrow> string" where
  "sql_contains s = [quote, CHR ''%''] @ like_escape s @ [CHR ''%'', quote]"

definition sql_ieq :: "string \<Rightarrow> string" where
  "sql_ieq s = [quote] @ like_escape s @ [quote]"

text \<open>A literal of the program's own queries.\<close>

definition lit_text :: "string \<Rightarrow> string" where
  "lit_text s = [quote] @ s @ [quote]"

text \<open>Time-window predicate on \<open>ts_ns\<close>.\<close>

definition w_pred :: "int \<times> int \<Rightarrow> string" where
  "w_pred ft = ''ts_ns >= '' @ int_text (fst ft) @ '' AND ts_ns < '' @ int_text (snd ft)"

definition env_scope_where :: "string \<Rightarrow> string list \<Rightarrow> string option" where
  "env_scope_where col scopes = (if scopes = [] then None
     else Some (col @ '' IN ('' @ intersperse_str '', '' (map sql_string scopes) @ '')''))"

definition and_pred :: "string option \<Rightarrow> string" where
  "and_pred p = (case p of None \<Rightarrow> [] | Some p \<Rightarrow> '' AND '' @ p)"

definition env_trace_exists :: "string \<Rightarrow> string list \<Rightarrow> string option" where
  "env_trace_exists alias scopes = map_option (\<lambda>env.
     ''EXISTS (SELECT 1 FROM spans se WHERE se.trace_id = '' @ alias @ ''.trace_id AND '' @ env @ '')'')
     (env_scope_where ''se.target_environment'' scopes)"

definition env_metric_exists :: "string \<Rightarrow> string list \<Rightarrow> string option" where
  "env_metric_exists table scopes = map_option (\<lambda>env.
     ''EXISTS (SELECT 1 FROM spans se WHERE se.experiment_name = '' @ table @ ''.experiment_name AND '' @ env @ '')'')
     (env_scope_where ''se.target_environment'' scopes)"

definition env_table_predicate :: "string \<Rightarrow> string list \<Rightarrow> string option" where
  "env_table_predicate table scopes = (if table = ''spans'' then env_scope_where ''target_environment'' scopes
     else env_metric_exists table scopes)"

definition bucket_expr :: "int \<Rightarrow> string" where
  "bucket_expr bucket_s = (let ns = bucket_s * 1000000000 in
     ''(ts_ns // '' @ int_text ns @ '') * '' @ int_text ns @ '' // 1000000000'')"

text \<open>\<open>split_once('=')\<close> and the attribute filters.\<close>

fun split_once :: "char \<Rightarrow> string \<Rightarrow> (string \<times> string) option" where
  "split_once d [] = None"
| "split_once d (c # cs) = (if c = d then Some ([], cs) else map_option (\<lambda>(a, b). (c # a, b)) (split_once d cs))"

definition attr_kv :: "string \<Rightarrow> (string \<times> string) option" where
  "attr_kv s = (case split_once (CHR ''='') s of None \<Rightarrow> None | Some (k, v) \<Rightarrow> if k = [] then None else Some (k, v))"

definition given :: "string option \<Rightarrow> string option" where
  "given x = (case x of Some s \<Rightarrow> if s = [] then None else Some s | None \<Rightarrow> None)"

definition attr_has :: "string \<times> string \<Rightarrow> string \<Rightarrow> string \<Rightarrow> string" where
  "attr_has cols k v = ''('' @ fst cols @ ''['' @ sql_string k @ ''] = '' @ sql_string v
     @ '' OR '' @ snd cols @ ''['' @ sql_string k @ ''] = '' @ sql_string v @ '')''"

definition attr_lacks :: "string \<times> string \<Rightarrow> string \<Rightarrow> string \<Rightarrow> string" where
  "attr_lacks cols k v = ''NOT (COALESCE('' @ fst cols @ ''['' @ sql_string k @ ''] = '' @ sql_string v
     @ '', false) OR COALESCE('' @ snd cols @ ''['' @ sql_string k @ ''] = '' @ sql_string v @ '', false))''"

definition attr_where :: "string \<Rightarrow> (string \<Rightarrow> string \<Rightarrow> string) \<Rightarrow> string option \<Rightarrow> (string, string list) result" where
  "attr_where what pred raw = (case given raw of None \<Rightarrow> Inr []
     | Some r \<Rightarrow> (case attr_kv r of None \<Rightarrow> Inl (''invalid '' @ what @ '' '' @ debug_str r @ ''; expected k=v'')
       | Some (k, v) \<Rightarrow> Inr [pred k v]))"

definition attr_wheres :: "string option \<Rightarrow> string option \<Rightarrow> string \<times> string \<Rightarrow> (string, string list) result" where
  "attr_wheres attr attr_not cols =
    res_bind (attr_where ''attr'' (attr_has cols) attr) (\<lambda>a.
    res_bind (attr_where ''attr_not'' (attr_lacks cols) attr_not) (\<lambda>b. Inr (a @ b)))"

text \<open>\<open>auth/scopes.rs\<close>: the predicate on a run (aliased \<open>r\<close>, its telemetry environment \<open>e\<close>), and the
  query that authorizes one.\<close>

definition run_scope_sql :: "string list \<Rightarrow> string" where
  "run_scope_sql scopes = (if scopes = [] then ''TRUE''
     else ''COALESCE((SELECT ar.env FROM approval_requests ar WHERE ar.run_id = r.id), (SELECT json_extract_string(ra.detail, '' @ lit_text ''$.env''
       @ '') FROM run_audit ra WHERE ra.run_id = r.id AND ra.event = '' @ lit_text ''requested_context''
       @ '' ORDER BY ra.at_ns LIMIT 1), (CASE WHEN EXISTS (SELECT 1 FROM run_registry rg WHERE rg.id = r.registry_id AND rg.kind = '' @ lit_text ''gameday''
       @ '') THEN json_extract_string(r.params_json, '' @ lit_text ''$.env'' @ '') END), e.env) IN (''
       @ intersperse_str '', '' (map sql_string scopes) @ '')'')"

definition authorize_run_sql :: "string list \<Rightarrow> string \<Rightarrow> string" where
  "authorize_run_sql scopes rid = ''SELECT r.id FROM runs r LEFT JOIN (SELECT experiment_id, any_value(target_environment) AS env FROM spans GROUP BY 1) e ON e.experiment_id = r.experiment_id WHERE r.id = ''
     @ sql_string rid @ '' AND ('' @ run_scope_sql scopes @ '')''"

text \<open>\<open>authorize_run\<close>: \<open>rows\<close> is what the reader answers.\<close>

definition authorize_run :: "(string \<Rightarrow> (string, 'row list) result) \<Rightarrow> principal \<Rightarrow> string \<Rightarrow> (api_error, unit) result" where
  "authorize_run rows p rid = (if pr_scopes p = [] then Inr ()
     else (case rows (authorize_run_sql (pr_scopes p) rid) of
       Inl e \<Rightarrow> Inl (internal e)
     | Inr rs \<Rightarrow> if rs = [] then Inl (not_found ''unknown run'') else Inr ()))"

end
