(* ===== verification/Sql_Lexemes.thy ===== *)
theory Sql_Lexemes
  imports Sql_Guard
begin

text \<open>
  The reference lexer of the guard: a text is cut, without loss, into lexemes, and both
  tokenizers of \<open>sql_guard.rs\<close> and its splicing rewriter are functions of that list.
\<close>

section \<open>Lexemes\<close>

text \<open>\<open>Lit\<close> is a closed literal with both its quotes, \<open>Opened\<close> one that the text never closes.\<close>

datatype lexeme = Space char | Punct char | Word string | Lit string | Opened string

fun raw :: "lexeme \<Rightarrow> string" where
  "raw (Space c) = [c]"
| "raw (Punct c) = [c]"
| "raw (Word w) = w"
| "raw (Lit s) = s"
| "raw (Opened s) = s"

definition raws :: "lexeme list \<Rightarrow> string" where
  "raws ls = concat (map raw ls)"

lemma raws_simps [simp]: "raws [] = []" "raws (l # ls) = raw l @ raws ls" "raws (ls @ ms) = raws ls @ raws ms"
  by (simp_all add: raws_def)

text \<open>What follows an opening quote, cut after the closing one.\<close>

fun lit_split :: "string \<Rightarrow> (string \<times> string) option" where
  "lit_split [] = None"
| "lit_split (c # cs) =
    (if c = quote then (case cs of
         d # ds \<Rightarrow> if d = quote then map_option (\<lambda>(b, r). (c # d # b, r)) (lit_split ds) else Some ([c], cs)
       | [] \<Rightarrow> Some ([c], []))
     else map_option (\<lambda>(b, r). (c # b, r)) (lit_split cs))"

lemma lit_split_Some: "lit_split (c # cs) = Some (b, r) \<longleftrightarrow>
    (c = quote \<and> cs = [] \<and> b = [c] \<and> r = []) \<or>
    (\<exists>d ds. c = quote \<and> cs = d # ds \<and> d \<noteq> quote \<and> b = [c] \<and> r = cs) \<or>
    (\<exists>ds b'. c = quote \<and> cs = quote # ds \<and> lit_split ds = Some (b', r) \<and> b = c # quote # b') \<or>
    (\<exists>b'. c \<noteq> quote \<and> lit_split cs = Some (b', r) \<and> b = c # b')"
  by (cases cs) auto

lemma lit_splitE:
  assumes "lit_split (c # cs) = Some (b, r)"
  obtains (closing) "c = quote" "b = [c]" "r = cs" "r = [] \<or> hd r \<noteq> quote"
    | (escape) ds b' where "c = quote" "cs = quote # ds" "lit_split ds = Some (b', r)" "b = c # quote # b'"
    | (body) b' where "c \<noteq> quote" "lit_split cs = Some (b', r)" "b = c # b'"
  using assms unfolding lit_split_Some by (elim disjE exE conjE) simp_all

lemma lit_split_lossless: "lit_split s = Some (b, r) \<Longrightarrow> s = b @ r"
proof (induction s arbitrary: b r rule: lit_split.induct)
  case (2 c cs)
  from 2(3) show ?case
    by (cases rule: lit_splitE) (use 2(1,2) in simp_all)
qed simp

lemma lit_split_nonempty: "lit_split s = Some (b, r) \<Longrightarrow> b \<noteq> []"
  by (cases s) (auto simp: lit_split_Some simp del: lit_split.simps(2))

lemma lit_split_shorter: "lit_split s = Some (b, r) \<Longrightarrow> length r < length s"
  using lit_split_lossless[of s b r] lit_split_nonempty[of s b r] by simp

function lex :: "string \<Rightarrow> lexeme list" where
  "lex [] = []"
| "lex (c # cs) =
    (if c = quote then (case lit_split cs of None \<Rightarrow> [Opened (c # cs)] | Some (b, r) \<Rightarrow> Lit (c # b) # lex r)
     else if word_char c then Word (c # takeWhile word_char cs) # lex (dropWhile word_char cs)
     else (if is_ws c then Space c else Punct c) # lex cs)"
  by pat_completeness auto
termination
proof (relation "measure length")
  fix c cs x b r
  assume "lit_split cs = Some x" "(b, r) = x"
  then have "length r < length cs" by (metis lit_split_shorter)
  then show "(r, c # cs) \<in> measure length" by simp
next
  fix c :: char and cs
  have "length (dropWhile word_char cs) \<le> length cs" by (rule length_dropWhile_le)
  then show "(dropWhile word_char cs, c # cs) \<in> measure length" by simp
qed auto

declare lex.simps(2) [simp del]

lemma lex_lossless [simp]: "raws (lex s) = s"
proof (induction s rule: lex.induct)
  case (2 c cs)
  then show ?case
    by (auto simp: lex.simps split: option.splits dest!: lit_split_lossless)
qed simp

section \<open>The tokenizers are read off the lexemes\<close>

fun token_of :: "lexeme \<Rightarrow> string list" where
  "token_of (Space c) = []"
| "token_of (Punct c) = [[c]]"
| "token_of (Word w) = [w]"
| "token_of (Lit s) = [''?str?'']"
| "token_of (Opened s) = []"

definition tokens_of :: "lexeme list \<Rightarrow> string list" where
  "tokens_of ls = concat (map token_of ls)"

lemma tokens_of_simps [simp]: "tokens_of [] = []" "tokens_of (l # ls) = token_of l @ tokens_of ls"
    "tokens_of (ls @ ms) = tokens_of ls @ tokens_of ms"
  by (simp_all add: tokens_of_def)

fun word_lexeme :: "lexeme \<Rightarrow> bool" where
  "word_lexeme (Word w) = True"
| "word_lexeme _ = False"

fun place :: "nat \<Rightarrow> lexeme list \<Rightarrow> pos_tok list" where
  "place k [] = []"
| "place k (l # ls) = map (\<lambda>t. \<lparr> pt_text = t, pt_start = k, pt_end = k + length (raw l), pt_word = word_lexeme l \<rparr>) (token_of l)
     @ place (k + length (raw l)) ls"

lemma word_char_not_quote: "word_char c \<Longrightarrow> c \<noteq> quote"
  by (auto simp: word_char_def is_alpha_def is_digit_def)

lemma tokenize_in_string: "tokenize_from True [] s =
    (case lit_split s of None \<Rightarrow> [] | Some (b, r) \<Rightarrow> ''?str?'' # tokenize_from False [] r)"
proof (induction s rule: lit_split.induct)
  case (2 c cs)
  then show ?case by (auto simp: flush_def split: option.splits list.splits)
qed (simp add: flush_def)

lemma tokenize_in_word: "cur \<noteq> [] \<Longrightarrow> tokenize_from False cur s =
    (cur @ takeWhile word_char s) # tokenize_from False [] (dropWhile word_char s)"
  by (induction s arbitrary: cur) (auto simp: flush_def dest: word_char_not_quote)

lemma tokenize_from_lex: "tokenize_from False [] s = tokens_of (lex s)"
proof (induction s rule: lex.induct)
  case (2 c cs)
  have w: "word_char c \<Longrightarrow> tokenize_from False [] (c # cs) = (c # takeWhile word_char cs) # tokenize_from False [] (dropWhile word_char cs)"
    using word_char_not_quote[of c] by (simp add: tokenize_in_word)
  show ?case
    using 2 w word_char_not_quote[of c]
    by (auto simp: lex.simps tokenize_in_string flush_def simp del: tokenize_from.simps(3) split: option.splits)
       (simp_all add: flush_def tokenize_in_string)
qed (simp add: flush_def)

lemma tokenize_lex: "tokenize s = tokens_of (lex s)"
  by (simp add: tokenize_def tokenize_from_lex)

lemma positions_in_string: "positions_from True ss [] cs i s =
    (case lit_split s of None \<Rightarrow> []
     | Some (b, r) \<Rightarrow> \<lparr> pt_text = ''?str?'', pt_start = ss, pt_end = i + length b, pt_word = False \<rparr> # positions_from False ss [] cs (i + length b) r)"
proof (induction s arbitrary: i rule: lit_split.induct)
  case (2 c cs)
  then show ?case by (auto simp: flush_pos_def split: option.splits list.splits)
qed (simp add: flush_pos_def)

lemma positions_in_word: "cur \<noteq> [] \<Longrightarrow> positions_from False ss cur k i s =
    \<lparr> pt_text = cur @ takeWhile word_char s, pt_start = k, pt_end = i + length (takeWhile word_char s), pt_word = True \<rparr>
    # positions_from False ss [] k (i + length (takeWhile word_char s)) (dropWhile word_char s)"
  by (induction s arbitrary: cur i) (auto simp: flush_pos_def dest: word_char_not_quote)

lemma positions_from_lex: "positions_from False ss [] k i s = place i (lex s)"
proof (induction s arbitrary: ss k i rule: lex.induct)
  case (2 c cs)
  have w: "word_char c \<Longrightarrow> positions_from False ss [] k i (c # cs) =
      \<lparr> pt_text = c # takeWhile word_char cs, pt_start = i, pt_end = i + 1 + length (takeWhile word_char cs), pt_word = True \<rparr>
      # positions_from False ss [] i (i + 1 + length (takeWhile word_char cs)) (dropWhile word_char cs)"
    using word_char_not_quote[of c] by (simp add: positions_in_word)
  show ?case
    using 2 w word_char_not_quote[of c]
    by (auto simp: lex.simps positions_in_string flush_pos_def simp del: positions_from.simps(3) split: option.splits)
       (simp_all add: flush_pos_def positions_in_string)
qed (simp add: flush_pos_def)

lemma tokenize_positions_lex: "tokenize_positions s = place 0 (lex s)"
  by (simp add: tokenize_positions_def positions_from_lex)

lemma place_texts: "map pt_text (place k ls) = tokens_of ls"
  by (induction ls arbitrary: k) (auto simp: comp_def)

section \<open>Lexing a text with an appendix\<close>

text \<open>A text none of whose literals is left open.\<close>

definition closed :: "string \<Rightarrow> bool" where
  "closed s \<longleftrightarrow> (\<forall>l \<in> set (lex s). case l of Opened _ \<Rightarrow> False | _ \<Rightarrow> True)"

lemma lit_split_append: "lit_split s = Some (b, r) \<Longrightarrow> c \<noteq> quote \<Longrightarrow> lit_split (s @ c # u) = Some (b, r @ c # u)"
proof (induction s arbitrary: b r rule: lit_split.induct)
  case (2 d ds)
  from 2(3) show ?case
  proof (cases rule: lit_splitE)
    case closing
    then show ?thesis using 2(4) by (cases ds) simp_all
  qed (use 2(1,2,4) in simp_all)
qed simp

lemma lex_append: "closed s \<Longrightarrow> \<not> word_char c \<Longrightarrow> c \<noteq> quote \<Longrightarrow> lex (s @ c # u) = lex s @ lex (c # u)"
proof (induction s rule: lex.induct)
  case (2 d ds)
  have dw: "dropWhile word_char (ds @ c # u) = dropWhile word_char ds @ c # u"
    "takeWhile word_char (ds @ c # u) = takeWhile word_char ds"
    using 2(5) by (induction ds) auto
  consider (lit) b r where "d = quote" "lit_split ds = Some (b, r)" | (bad) "d = quote" "lit_split ds = None"
    | (w) "d \<noteq> quote" "word_char d" | (o) "d \<noteq> quote" "\<not> word_char d"
    by fastforce
  then show ?case
  proof cases
    case lit
    then have "closed r" using 2(4) by (simp add: closed_def lex.simps)
    then show ?thesis using lit 2 by (simp add: lex.simps(2)[of quote] lit_split_append)
  next
    case bad
    then show ?thesis using 2(4) by (simp add: closed_def lex.simps)
  next
    case w
    then have "closed (dropWhile word_char ds)" using 2(4) by (simp add: closed_def lex.simps)
    then show ?thesis using w 2 by (simp add: lex.simps(2)[of d] dw)
  next
    case o
    then have "closed ds" using 2(4) by (simp add: closed_def lex.simps)
    then show ?thesis using o 2 by (simp add: lex.simps(2)[of d])
  qed
qed simp

section \<open>Lists of lexemes a text is cut into\<close>

fun canon :: "lexeme \<Rightarrow> bool" where
  "canon (Space c) \<longleftrightarrow> c \<noteq> quote \<and> \<not> word_char c \<and> is_ws c"
| "canon (Punct c) \<longleftrightarrow> c \<noteq> quote \<and> \<not> word_char c \<and> \<not> is_ws c"
| "canon (Word w) \<longleftrightarrow> w \<noteq> [] \<and> (\<forall>c \<in> set w. word_char c)"
| "canon (Lit s) \<longleftrightarrow> (\<exists>b. s = quote # b \<and> lit_split b = Some (b, []))"
| "canon (Opened s) \<longleftrightarrow> (\<exists>b. s = quote # b \<and> lit_split b = None)"

text \<open>Which lexeme may follow which: two words would be one, two literals would be one with an
  escaped quote, and an open literal takes the rest of the text.\<close>

fun compat :: "lexeme \<Rightarrow> lexeme \<Rightarrow> bool" where
  "compat (Word _) (Word _) = False"
| "compat (Lit _) (Lit _) = False"
| "compat (Lit _) (Opened _) = False"
| "compat (Opened _) _ = False"
| "compat _ _ = True"

fun wf_lexemes :: "lexeme list \<Rightarrow> bool" where
  "wf_lexemes [] = True"
| "wf_lexemes (l # ls) \<longleftrightarrow> canon l \<and> (ls = [] \<or> compat l (hd ls)) \<and> wf_lexemes ls"

lemma wf_lexemes_append: "wf_lexemes (ls @ ms) \<longleftrightarrow>
    wf_lexemes ls \<and> wf_lexemes ms \<and> (ls = [] \<or> ms = [] \<or> compat (last ls) (hd ms))"
  by (induction ls) (auto simp: hd_append)

lemma lit_split_body: "lit_split s = Some (b, r) \<Longrightarrow> lit_split b = Some (b, [])"
proof (induction s arbitrary: b r rule: lit_split.induct)
  case (2 c cs)
  from 2(3) show ?case
  proof (cases rule: lit_splitE)
    case (escape ds b')
    have "lit_split b' = Some (b', [])"
      by (rule 2(1)[OF escape(1,2) refl escape(3)])
    then show ?thesis using escape by simp
  next
    case (body b')
    have "lit_split b' = Some (b', [])"
      by (rule 2(2)[OF body(1,2)])
    then show ?thesis using body by simp
  qed simp
qed simp

text \<open>What follows a closed literal does not start with a quote.\<close>

lemma lit_split_rest: "lit_split s = Some (b, r) \<Longrightarrow> r = [] \<or> hd r \<noteq> quote"
proof (induction s arbitrary: b r rule: lit_split.induct)
  case (2 c cs)
  from 2(3) show ?case
    by (cases rule: lit_splitE) (use 2(1,2) in simp_all)
qed simp

lemma hd_lex_not_quote: "s = [] \<or> hd s \<noteq> quote \<Longrightarrow> lex s = [] \<or> compat (Lit b) (hd (lex s))"
  by (cases s) (auto simp: lex.simps split: option.splits)

lemma hd_lex_not_word: "s = [] \<or> \<not> word_char (hd s) \<Longrightarrow> lex s = [] \<or> compat (Word b) (hd (lex s))"
  by (cases s) (auto simp: lex.simps split: option.splits)

lemma wf_lex: "wf_lexemes (lex s)"
proof (induction s rule: lex.induct)
  case (2 c cs)
  consider (lit) b r where "c = quote" "lit_split cs = Some (b, r)" | (bad) "c = quote" "lit_split cs = None"
    | (w) "c \<noteq> quote" "word_char c" | (o) "c \<noteq> quote" "\<not> word_char c"
    by fastforce
  then show ?case
  proof cases
    case lit
    then show ?thesis
      using 2(1) lit_split_body[OF lit(2)] hd_lex_not_quote[OF lit_split_rest[OF lit(2)]] by (auto simp: lex.simps(2)[of quote])
  next
    case bad
    then show ?thesis by (simp add: lex.simps)
  next
    case w
    have "lex (dropWhile word_char cs) = [] \<or> compat (Word (c # takeWhile word_char cs)) (hd (lex (dropWhile word_char cs)))"
      by (rule hd_lex_not_word) (metis hd_dropWhile)
    then show ?thesis using w 2(2) by (auto simp: lex.simps(2)[of c] dest: set_takeWhileD)
  next
    case o
    then show ?thesis using o 2(3) by (cases "is_ws c") (simp_all add: lex.simps(2)[of c])
  qed
qed simp

lemma lit_split_through:
  assumes "lit_split b = Some (b, [])" and "r = [] \<or> hd r \<noteq> quote"
  shows "lit_split (b @ r) = Some (b, r)"
proof (cases r)
  case (Cons c u)
  then show ?thesis using lit_split_append[OF assms(1), of c u] assms(2) by simp
qed (simp add: assms(1))

lemma not_word_quote [simp]: "\<not> word_char quote"
  by (simp add: word_char_def is_alpha_def is_digit_def)

lemma hd_word:
  assumes "canon (Word w)"
  shows "w \<noteq> []" "word_char (hd w)" "hd w \<noteq> quote"
proof -
  show w: "w \<noteq> []" "word_char (hd w)" using assms by simp_all
  show "hd w \<noteq> quote" using w(2) by (rule word_char_not_quote)
qed

lemma raws_hd: "wf_lexemes (l # ls) \<Longrightarrow> compat (Lit b) l \<Longrightarrow> hd (raws (l # ls)) \<noteq> quote"
proof (cases l)
  case (Word w)
  assume "wf_lexemes (l # ls)"
  then have "w \<noteq> []" "hd w \<noteq> quote" using hd_word[of w] Word by (simp_all del: canon.simps)
  then show ?thesis using Word by simp
qed simp_all

lemma raws_hd_word: "wf_lexemes (l # ls) \<Longrightarrow> compat (Word b) l \<Longrightarrow> \<not> word_char (hd (raws (l # ls)))"
proof (cases l)
  case (Lit s)
  assume "wf_lexemes (l # ls)"
  then obtain u where "s = quote # u" using Lit by auto
  then show ?thesis using Lit by simp
next
  case (Opened s)
  assume "wf_lexemes (l # ls)"
  then obtain u where "s = quote # u" using Opened by auto
  then show ?thesis using Opened by simp
qed simp_all

text \<open>Lexing undoes printing: a well-formed list of lexemes is the lexing of its own text.\<close>

lemma lex_raws: "wf_lexemes ls \<Longrightarrow> lex (raws ls) = ls"
proof (induction ls)
  case (Cons l ls)
  show ?case
  proof (cases l)
    case (Lit s)
    then obtain b where b: "s = quote # b" "lit_split b = Some (b, [])" using Cons.prems by auto
    have "raws ls = [] \<or> hd (raws ls) \<noteq> quote"
      using Cons.prems Lit raws_hd by (cases ls) (simp, fastforce)
    then show ?thesis using Cons b lit_split_through[OF b(2)] Lit by (simp add: lex.simps(2)[of quote])
  next
    case (Opened s)
    then show ?thesis using Cons.prems by (auto simp: lex.simps)
  next
    case (Word w)
    have "raws ls = [] \<or> \<not> word_char (hd (raws ls))"
      using Cons.prems Word raws_hd_word by (cases ls) (simp, fastforce)
    then have d: "dropWhile word_char (raws ls) = raws ls" "takeWhile word_char (raws ls) = []"
      by (cases "raws ls"; simp)+
    obtain c cs where w: "w = c # cs" "word_char c" "\<forall>x\<in>set cs. word_char x"
      using Cons.prems Word by (cases w) auto
    then show ?thesis using Cons Word d word_char_not_quote[of c]
      by (simp add: lex.simps(2)[of c] takeWhile_append2 dropWhile_append2)
  qed (use Cons in \<open>auto simp: lex.simps\<close>)
qed simp

end
