(* ===== verification/Sql_Guard_Props.thy ===== *)
theory Sql_Guard_Props
  imports Sql_Lexemes
begin

text \<open>
  What the SQL guard promises, over the lexemes of a query: what an accepted query contains,
  the splicing rewriter as a substitution on lexemes, what the rewritten query contains when it
  is read again, and the row limit.
\<close>

section \<open>Scoping is a substitution on lexemes\<close>

definition silent :: "lexeme \<Rightarrow> bool" where
  "silent l \<longleftrightarrow> token_of l = []"

definition aliased :: "lexeme list \<Rightarrow> bool" where
  "aliased ls = (case dropWhile silent ls of
     Word a # _ \<Rightarrow> is_kw ''AS'' a \<or> upper a \<notin> set RESERVED_AFTER_TABLE | _ \<Rightarrow> False)"

text \<open>The table a word names when it opens a table reference: the next token, when that is a word.\<close>

fun table_after :: "string list \<Rightarrow> lexeme \<Rightarrow> lexeme list \<Rightarrow> (string \<times> lexeme list) option" where
  "table_after ctes (Word w) ls = (case dropWhile silent ls of
     Word n # rest \<Rightarrow> if is_from w \<and> lower n \<notin> set ctes then Some (n, rest) else None | _ \<Rightarrow> None)"
| "table_after ctes _ ls = None"

lemma table_after_Some: "table_after ctes l ls = Some (n, rest) \<Longrightarrow>
    \<exists>w. l = Word w \<and> is_from w \<and> lower n \<notin> set ctes \<and> dropWhile silent ls = Word n # rest"
  by (cases l) (auto split: list.splits lexeme.splits if_splits)

lemma table_after_shorter: "table_after ctes l ls = Some (n, rest) \<Longrightarrow> length rest < length ls"
  using table_after_Some[of ctes l ls n rest] length_dropWhile_le[of silent ls] by auto

function confine :: "string list \<Rightarrow> (string \<times> string) list \<Rightarrow> lexeme list \<Rightarrow> (sql_guard_error, lexeme list) result" where
  "confine ctes preds [] = Inr []"
| "confine ctes preds (l # ls) = (case table_after ctes l ls of
     None \<Rightarrow> res_bind (confine ctes preds ls) (\<lambda>r. Inr (l # r))
   | Some (n, rest) \<Rightarrow> (case map_of preds (lower n) of
       None \<Rightarrow> Inl (TableNotScopable n)
     | Some p \<Rightarrow> res_bind (confine ctes preds rest) (\<lambda>r.
         Inr (l # takeWhile silent ls @ lex (wrapped n p (aliased rest)) @ r))))"
  by pat_completeness auto
termination
  by (relation "measure (\<lambda>(_, _, ls). length ls)") (auto dest: table_after_shorter)

lemma place_silent: "place k ls = place (k + length (raws (takeWhile silent ls))) (dropWhile silent ls)"
  by (induction ls arbitrary: k) (auto simp: silent_def add.assoc)

lemma place_Nil: "place k ls = [] \<longleftrightarrow> dropWhile silent ls = []"
  by (induction ls arbitrary: k) (auto simp: silent_def)

lemma silent_head: "dropWhile silent ls = l # rest \<Longrightarrow> \<exists>t. token_of l = [t]"
  by (metis dropWhile_eq_Cons_conv silent_def token_of.elims)

lemma has_alias_place: "has_alias (place k ls) = aliased ls"
proof (cases "dropWhile silent ls")
  case Nil
  then have "place k ls = []" using place_Nil[of k ls] by blast
  then show ?thesis unfolding has_alias_def aliased_def Nil by simp
next
  case (Cons l rest)
  then obtain t where "token_of l = [t]" using silent_head by blast
  then show ?thesis
    using Cons by (cases l) (simp_all add: place_silent[of k ls] has_alias_def aliased_def)
qed

lemma slice_more: "drop k s = x @ y \<Longrightarrow> c \<le> k \<Longrightarrow> slice c (k + length x) s = slice c k s @ x"
proof -
  assume d: "drop k s = x @ y" and c: "c \<le> k"
  have "k + length x - c = (k - c) + length x" using c by simp
  then have "slice c (k + length x) s = take (k - c) (drop c s) @ take (length x) (drop (k - c) (drop c s))"
    unfolding slice_def by (simp only: take_add)
  also have "drop (k - c) (drop c s) = drop k s" using c by (simp add: drop_drop)
  finally show ?thesis using d by (simp add: slice_def)
qed

lemma drop_more: "drop k s = x @ y \<Longrightarrow> drop (k + length x) s = y"
  by (metis add.commute append_eq_conv_conj drop_drop)

lemma drop_slice: "c \<le> k \<Longrightarrow> drop c s = slice c k s @ drop k s"
  unfolding slice_def by (metis append_take_drop_id drop_drop le_add_diff_inverse2)

lemma raws_split: "raws ls = raws (takeWhile P ls) @ raws (dropWhile P ls)"
  by (metis raws_simps(3) takeWhile_dropWhile_id)

text \<open>The loop of \<open>scope_tables\<close>, started in the middle of a text.\<close>

lemma scope_loop_confine:
  assumes "cur \<le> k" and "drop k sql = raws ls"
  shows "scope_loop sql ctes preds (place k ls) cur out =
    res_bind (confine ctes preds ls) (\<lambda>r. Inr (out @ slice cur k sql @ raws r))"
  using assms
proof (induction ctes preds ls arbitrary: cur k out rule: confine.induct)
  case (1 ctes preds)
  then show ?case using drop_slice[OF 1(1), of sql] by simp
next
  case (2 ctes preds l ls)
  let ?k = "k + length (raw l)"
  have dk: "drop ?k sql = raws ls"
    using 2(4) drop_more by simp
  have sl: "slice cur ?k sql = slice cur k sql @ raw l"
    using slice_more[OF _ 2(3)] 2(4) by simp
  have kc: "cur \<le> ?k" using 2(3) by simp
  show ?case
  proof (cases "table_after ctes l ls")
    case None
    have skip: "scope_loop sql ctes preds (place k (l # ls)) cur out = scope_loop sql ctes preds (place ?k ls) cur out"
    proof (cases "token_of l = [] \<or> dropWhile silent ls = []")
      case True
      then show ?thesis
      proof
        assume "dropWhile silent ls = []"
        then have p: "place ?k ls = []" using place_Nil by blast
        show ?thesis using p by (cases l) simp_all
      qed simp
    next
      case False
      then obtain m rest where m: "dropWhile silent ls = m # rest" by (meson neq_Nil_conv)
      from silent_head[OF m] obtain u where u: "token_of m = [u]" by blast
      from False obtain t where t: "token_of l = [t]" by (cases l) simp_all
      obtain x ys where x: "place ?k ls = x # ys" "pt_text x = u" "pt_word x = word_lexeme m"
        using u by (simp add: place_silent[of ?k ls] m)
      have "\<not> (word_lexeme l \<and> is_from t \<and> pt_word x \<and> lower (pt_text x) \<notin> set ctes)"
        using None t u x by (cases l; cases m) (auto simp: m split: if_splits)
      then show ?thesis using t by (auto simp: x(1))
    qed
    show ?thesis unfolding skip 2(1)[OF None kc dk] using None sl by (cases "confine ctes preds ls") simp_all
  next
    case (Some p)
    obtain n rest where p: "p = (n, rest)" by (cases p)
    obtain w where w: "l = Word w" "is_from w" "lower n \<notin> set ctes" "dropWhile silent ls = Word n # rest"
      using table_after_Some Some p by metis
    let ?g = "raws (takeWhile silent ls)"
    let ?e = "?k + length ?g + length n"
    have ls: "raws ls = ?g @ n @ raws rest" using raws_split[of ls silent] w(4) by simp
    have e: "drop ?e sql = raws rest" "slice cur (?k + length ?g) sql = slice cur k sql @ raw l @ ?g"
      using dk drop_more[of ?k sql "?g @ n" "raws rest"] slice_more[of ?k sql ?g "n @ raws rest" cur] kc sl
      by (simp_all add: ls add.assoc)
    have pl: "place k (l # ls) = \<lparr> pt_text = w, pt_start = k, pt_end = ?k, pt_word = True \<rparr>
        # \<lparr> pt_text = n, pt_start = ?k + length ?g, pt_end = ?e, pt_word = True \<rparr> # place ?e rest"
      using place_silent[of ?k ls] w(1,4) by simp
    show ?thesis
    proof (cases "map_of preds (lower n)")
      case None
      then show ?thesis unfolding pl using w(2,3) Some p by simp
    next
      case q: (Some q)
      have "scope_loop sql ctes preds (place k (l # ls)) cur out =
        scope_loop sql ctes preds (place ?e rest) ?e (out @ slice cur (?k + length ?g) sql @ wrapped n q (aliased rest))"
        unfolding pl using w(2,3) q by (simp add: has_alias_place)
      also have "\<dots> = res_bind (confine ctes preds rest) (\<lambda>r.
          Inr (out @ (slice cur k sql @ raw l @ ?g) @ wrapped n q (aliased rest) @ raws r))"
        using 2(2)[OF Some p[symmetric] q le_refl e(1)] e(2) by (simp add: slice_def)
      finally show ?thesis using Some p q
        by (cases "confine ctes preds rest") simp_all
    qed
  qed
qed

definition scope_ctes :: "string \<Rightarrow> string list" where
  "scope_ctes sql = cte_names_pos (place 0 (lex sql))"

lemma scope_tables_confine: "scope_tables sql preds =
    res_bind (confine (scope_ctes sql) (map (\<lambda>(t, p). (lower t, p)) preds) (lex sql)) (\<lambda>ls. Inr (raws ls))"
  using scope_loop_confine[of 0 0 sql "lex sql"]
  by (simp add: scope_tables_def tokenize_positions_lex scope_ctes_def slice_def Let_def)

section \<open>The rewritten query, read again\<close>

text \<open>A predicate all of whose literals are closed, that opens no table reference, for a table
  named without a qualifier and not like a keyword.\<close>

definition plain_pred :: "string \<times> string \<Rightarrow> bool" where
  "plain_pred tp \<longleftrightarrow> closed (snd tp) \<and> CHR ''.'' \<notin> set (fst tp) \<and> \<not> is_from (fst tp)
     \<and> list_all (\<lambda>t. \<not> is_from t) (tokenize (snd tp))"

definition wrapped_lexemes :: "string \<Rightarrow> string \<Rightarrow> bool \<Rightarrow> lexeme list" where
  "wrapped_lexemes n p al =
    [Punct (CHR ''(''), Word ''SELECT'', Space (CHR '' ''), Punct (CHR ''*''), Space (CHR '' ''), Word ''FROM'', Space (CHR '' ''),
     Word n, Space (CHR '' ''), Word ''WHERE'', Space (CHR '' '')] @ lex p @
    Punct (CHR '')'') # (if al then [] else [Space (CHR '' ''), Word ''AS'', Space (CHR '' ''), Word n])"

lemma lower_dot: "CHR ''.'' \<notin> set (lower n) \<Longrightarrow> CHR ''.'' \<notin> set n"
proof
  assume "CHR ''.'' \<in> set n"
  then have "lower_char (CHR ''.'') \<in> set (lower n)" by (simp add: lower_def)
  moreover have "lower_char (CHR ''.'') = CHR ''.''" by (simp add: lower_char_def)
  moreover assume "CHR ''.'' \<notin> set (lower n)"
  ultimately show False by simp
qed

lemma closed_last: "closed p \<Longrightarrow> lex p \<noteq> [] \<Longrightarrow> compat (last (lex p)) (Punct c)"
  by (cases "last (lex p)") (auto simp: closed_def dest!: last_in_set)

lemma canon_words: "canon (Word ''SELECT'')" "canon (Word ''FROM'')" "canon (Word ''WHERE'')" "canon (Word ''AS'')"
    "canon (Punct (CHR ''(''))" "canon (Punct (CHR '')''))" "canon (Punct (CHR ''*''))" "canon (Space (CHR '' ''))"
  by (simp_all add: word_char_def is_alpha_def is_digit_def is_ws_def)

lemma wf_wrapped_lexemes: "canon (Word n) \<Longrightarrow> closed p \<Longrightarrow> wf_lexemes (wrapped_lexemes n p al)"
  using closed_last[of p] wf_lex[of p]
  by (cases "lex p = []")
     (simp_all add: wrapped_lexemes_def canon_words wf_lexemes_append hd_append del: canon.simps)

lemma lex_wrapped: "canon (Word n) \<Longrightarrow> closed p \<Longrightarrow> CHR ''.'' \<notin> set n \<Longrightarrow> lex (wrapped n p al) = wrapped_lexemes n p al"
proof -
  assume n: "canon (Word n)" and p: "closed p" and d: "CHR ''.'' \<notin> set n"
  have "raws (wrapped_lexemes n p al) = wrapped n p al"
    using d by (simp add: wrapped_lexemes_def wrapped_def alias_of_def split_at_none)
  then show ?thesis using lex_raws[OF wf_wrapped_lexemes[OF n p, of al]] by simp
qed

lemma hd_wrapped: "wrapped_lexemes n p al \<noteq> []" "hd (wrapped_lexemes n p al) = Punct (CHR ''('')"
    "last (wrapped_lexemes n p al) = (if al then Punct (CHR '')'') else Word n)"
  by (simp_all add: wrapped_lexemes_def)

lemma map_of_plain: "list_all plain_pred preds \<Longrightarrow> map_of preds t = Some p \<Longrightarrow> plain_pred (t, p)"
  by (metis list_all_iff map_of_SomeD)

lemma silent_gap: "wf_lexemes ls \<Longrightarrow> dropWhile silent ls = Word n # rest \<Longrightarrow>
    takeWhile silent ls = [] \<or> compat (last (takeWhile silent ls)) m"
proof -
  assume wf: "wf_lexemes ls" and d: "dropWhile silent ls = Word n # rest"
  let ?g = "takeWhile silent ls"
  have "wf_lexemes (?g @ Word n # rest)" using wf d by (metis takeWhile_dropWhile_id)
  then have "?g = [] \<or> compat (last ?g) (Word n)" by (simp add: wf_lexemes_append)
  moreover have "?g = [] \<or> silent (last ?g)" using last_in_set set_takeWhileD by metis
  ultimately show ?thesis by (cases "last ?g") (auto simp: silent_def)
qed

lemma confine_wf:
  assumes "list_all plain_pred preds" and "wf_lexemes ls" and "confine ctes preds ls = Inr r"
  shows "wf_lexemes r \<and> (r = [] \<longleftrightarrow> ls = []) \<and> (ls \<noteq> [] \<longrightarrow> hd r = hd ls)"
  using assms
proof (induction ctes preds ls arbitrary: r rule: confine.induct)
  case (2 ctes preds l ls)
  have wf: "canon l" "wf_lexemes ls" "ls = [] \<or> compat l (hd ls)" using 2(4) by auto
  show ?case
  proof (cases "table_after ctes l ls")
    case None
    then obtain r' where r: "confine ctes preds ls = Inr r'" "r = l # r'" using 2(5) by auto
    then show ?thesis using 2(1)[OF None 2(3) wf(2) r(1)] wf by auto
  next
    case (Some q)
    obtain n rest where q: "q = (n, rest)" by (cases q)
    obtain w where w: "l = Word w" "dropWhile silent ls = Word n # rest"
      using table_after_Some Some q by metis
    obtain p r' where p: "map_of preds (lower n) = Some p" and r': "confine ctes preds rest = Inr r'"
      and r: "r = l # takeWhile silent ls @ lex (wrapped n p (aliased rest)) @ r'"
      using 2(5) Some q by (auto split: option.splits)
    let ?g = "takeWhile silent ls"
    have ls: "ls = ?g @ Word n # rest" using w(2) by (metis takeWhile_dropWhile_id)
    have "wf_lexemes (?g @ Word n # rest)" using wf(2) ls by simp
    then have parts: "wf_lexemes ?g" "canon (Word n)" "wf_lexemes rest" "rest = [] \<or> compat (Word n) (hd rest)"
      by (simp_all add: wf_lexemes_append)
    have pl: "plain_pred (lower n, p)" using map_of_plain[OF 2(3) p] .
    have cl: "closed p" "CHR ''.'' \<notin> set n" using pl lower_dot[of n] by (simp_all add: plain_pred_def)
    have x: "lex (wrapped n p (aliased rest)) = wrapped_lexemes n p (aliased rest)"
      by (rule lex_wrapped[OF parts(2) cl])
    have IH: "wf_lexemes r' \<and> (r' = [] \<longleftrightarrow> rest = []) \<and> (rest \<noteq> [] \<longrightarrow> hd r' = hd rest)"
      by (rule 2(2)[OF Some q[symmetric] p 2(3) parts(3) r'])
    have wx: "wf_lexemes (wrapped_lexemes n p (aliased rest))"
      by (rule wf_wrapped_lexemes[OF parts(2) cl(1)])
    have "wf_lexemes (wrapped_lexemes n p (aliased rest) @ r')"
      using wx IH parts(4) by (cases "r' = []") (auto simp: wf_lexemes_append hd_wrapped)
    moreover have "?g = [] \<or> compat (last ?g) (Punct (CHR ''(''))" by (rule silent_gap[OF wf(2) w(2)])
    ultimately have "wf_lexemes (?g @ wrapped_lexemes n p (aliased rest) @ r')"
      using parts(1) by (simp add: wf_lexemes_append[of ?g] hd_append hd_wrapped)
    moreover have "compat l (hd (?g @ wrapped_lexemes n p (aliased rest) @ r'))"
    proof (cases "?g = []")
      case True
      then show ?thesis using w(1) by (simp add: hd_append hd_wrapped)
    next
      case False
      then have "hd ls = hd ?g" by (subst ls) simp
      moreover have "ls \<noteq> []" using ls by auto
      ultimately show ?thesis using False wf(3) by simp
    qed
    ultimately show ?thesis using wf(1) by (simp add: r x)
  qed
qed simp

text \<open>What may follow a \<open>FROM\<close> or \<open>JOIN\<close> in the rewritten query: no word, a CTE, or a table with its
  predicate behind it.\<close>

fun ref_ok :: "string list \<Rightarrow> (string \<times> string) list \<Rightarrow> string list \<Rightarrow> bool" where
  "ref_ok ctes preds [] = True"
| "ref_ok ctes preds (n # vs) \<longleftrightarrow> \<not> word_char (hd n) \<or> lower n \<in> set ctes \<or>
    (\<exists>p. map_of preds (lower n) = Some p \<and> prefix (''WHERE'' # tokenize p @ ['')'']) vs)"

fun refs_ok :: "string list \<Rightarrow> (string \<times> string) list \<Rightarrow> string list \<Rightarrow> bool" where
  "refs_ok ctes preds [] = True"
| "refs_ok ctes preds (t # ts) \<longleftrightarrow> (is_from t \<longrightarrow> ref_ok ctes preds ts) \<and> refs_ok ctes preds ts"

lemma refs_ok_at: "refs_ok ctes preds (us @ t # n # vs) \<Longrightarrow> is_from t \<Longrightarrow> ref_ok ctes preds (n # vs)"
  by (induction us) auto

lemma refs_ok_skip: "list_all (\<lambda>t. \<not> is_from t) us \<Longrightarrow> refs_ok ctes preds (us @ ts) = refs_ok ctes preds ts"
  by (induction us) auto

lemma not_from: "\<not> is_from ''SELECT''" "\<not> is_from ''WHERE''" "\<not> is_from ''AS''" "\<not> is_from [c]" "\<not> is_from ''?str?''"
  by (simp_all add: is_from_def upper_def upper_char_def)

lemma is_from_lower: "is_from (lower n) = is_from n"
proof -
  have "upper_char (lower_char c) = upper_char c" for c
    by (auto simp: upper_char_def lower_char_def Let_def)
  then show ?thesis by (simp add: is_from_def upper_def lower_def comp_def)
qed

lemma refs_ok_wrapped:
  assumes "plain_pred (lower n, p)" and "map_of preds (lower n) = Some p" and "refs_ok ctes preds ts"
  shows "refs_ok ctes preds (tokens_of (wrapped_lexemes n p al) @ ts)"
proof -
  have n: "\<not> is_from n" and p: "list_all (\<lambda>t. \<not> is_from t) (tokens_of (lex p))"
    using assms(1) by (simp_all add: plain_pred_def is_from_lower tokenize_lex)
  show ?thesis
    using n assms by (cases al) (simp_all add: wrapped_lexemes_def not_from refs_ok_skip[OF p] tokenize_lex)
qed

lemma tokens_silent: "tokens_of ls = tokens_of (dropWhile silent ls)"
  by (induction ls) (simp_all add: silent_def)

lemma tokens_gap: "tokens_of (takeWhile silent ls) = []"
  by (induction ls) (auto simp: silent_def)

text \<open>The rewriter keeps the first token.\<close>

lemma confine_first: "confine ctes preds ls = Inr r \<Longrightarrow>
    dropWhile silent ls = [] \<and> dropWhile silent r = [] \<or>
    (\<exists>m us vs. dropWhile silent ls = m # us \<and> dropWhile silent r = m # vs)"
proof (induction ctes preds ls arbitrary: r rule: confine.induct)
  case (2 ctes preds l ls)
  show ?case
  proof (cases "silent l")
    case True
    then have N: "table_after ctes l ls = None" by (cases l) (simp_all add: silent_def)
    then obtain r' where "confine ctes preds ls = Inr r'" "r = l # r'" using 2(3) by auto
    then show ?thesis using 2(1)[OF N] True by simp
  next
    case False
    moreover obtain vs where "r = l # vs" using 2(3) by (auto split: option.splits)
    ultimately show ?thesis by simp
  qed
qed simp

lemma refs_ok_single: "token_of l = [t] \<Longrightarrow> is_from t \<Longrightarrow> l = Word t"
  by (cases l) (auto simp: not_from)

lemma confine_refs_ok:
  assumes "list_all plain_pred preds" and "wf_lexemes ls" and "confine ctes preds ls = Inr r"
  shows "refs_ok ctes preds (tokens_of r)"
  using assms
proof (induction ctes preds ls arbitrary: r rule: confine.induct)
  case (2 ctes preds l ls)
  have wf: "wf_lexemes ls" using 2(4) by simp
  show ?case
  proof (cases "table_after ctes l ls")
    case None
    then obtain r' where r: "confine ctes preds ls = Inr r'" "r = l # r'" using 2(5) by auto
    have IH: "refs_ok ctes preds (tokens_of r')" by (rule 2(1)[OF None 2(3) wf r(1)])
    have "ref_ok ctes preds (tokens_of r')" if t: "token_of l = [t]" "is_from t" for t
    proof -
      have l: "l = Word t" using refs_ok_single[OF t] .
      from confine_first[OF r(1)] show ?thesis
      proof
        assume "dropWhile silent ls = [] \<and> dropWhile silent r' = []"
        then have "tokens_of r' = []" by (subst tokens_silent) (metis tokens_of_simps(1))
        then show ?thesis by simp
      next
        assume "\<exists>m us vs. dropWhile silent ls = m # us \<and> dropWhile silent r' = m # vs"
        then obtain m us vs where m: "dropWhile silent ls = m # us" "dropWhile silent r' = m # vs" by blast
        have "wf_lexemes (takeWhile silent ls @ m # us)" using wf m(1) by (metis takeWhile_dropWhile_id)
        then have c: "canon m" by (simp add: wf_lexemes_append)
        have "tokens_of r' = token_of m @ tokens_of vs" using m(2) tokens_silent[of r'] by simp
        then show ?thesis
          using None l t(2) m(1) c silent_head[OF m(1)]
          by (cases m) (auto split: if_splits simp: word_char_def is_alpha_def is_digit_def)
      qed
    qed
    then show ?thesis using IH r(2) by (cases l) (auto simp: not_from)
  next
    case (Some q)
    obtain n rest where q: "q = (n, rest)" by (cases q)
    obtain w where w: "l = Word w" "dropWhile silent ls = Word n # rest"
      using table_after_Some Some q by metis
    obtain p r' where p: "map_of preds (lower n) = Some p" and r': "confine ctes preds rest = Inr r'"
      and r: "r = l # takeWhile silent ls @ lex (wrapped n p (aliased rest)) @ r'"
      using 2(5) Some q by (auto split: option.splits)
    have "wf_lexemes (takeWhile silent ls @ Word n # rest)" using wf w(2) by (metis takeWhile_dropWhile_id)
    then have parts: "canon (Word n)" "wf_lexemes rest" by (simp_all add: wf_lexemes_append)
    have pl: "plain_pred (lower n, p)" using map_of_plain[OF 2(3) p] .
    have cl: "closed p" "CHR ''.'' \<notin> set n" using pl lower_dot[of n] by (simp_all add: plain_pred_def)
    have IH: "refs_ok ctes preds (tokens_of r')" by (rule 2(2)[OF Some q[symmetric] p 2(3) parts(2) r'])
    have ts: "tokens_of r = w # tokens_of (wrapped_lexemes n p (aliased rest)) @ tokens_of r'"
      by (simp add: r w(1) tokens_gap lex_wrapped[OF parts(1) cl])
    have "\<not> word_char (CHR ''('')" by (simp add: word_char_def is_alpha_def is_digit_def)
    then have "ref_ok ctes preds (tokens_of (wrapped_lexemes n p (aliased rest)) @ tokens_of r')"
      by (simp add: wrapped_lexemes_def)
    then show ?thesis using refs_ok_wrapped[OF pl p IH, of "aliased rest"] by (simp add: ts)
  qed
qed simp

section \<open>What an accepted query contains\<close>

lemma check_tables_at: "check_tables allowed ctes e (us @ t # n # vs) = Inr () \<Longrightarrow> is_from t \<Longrightarrow>
    (if us = [] then \<not> e else \<not> is_from (last us)) \<Longrightarrow>
    n = ''('' \<or> lower n \<in> set allowed \<or> lower n \<in> set ctes"
proof (induction us arbitrary: e)
  case Nil
  then show ?case by (auto split: if_splits)
next
  case (Cons u us)
  have "check_tables allowed ctes (\<not> e \<and> is_from u) (us @ t # n # vs) = Inr ()"
    using Cons.prems(1) by (cases e) (auto split: if_splits)
  then show ?case using Cons.prems(2,3) by (intro Cons.IH[of "\<not> e \<and> is_from u"]) (auto split: if_splits)
qed

lemma check_functions_at: "check_functions (us @ t # n # vs) = Inr () \<Longrightarrow> is_identifier_start t \<Longrightarrow> n = ''('' \<Longrightarrow>
    lower t \<in> set PAREN_KEYWORDS \<or> lower t \<in> set ALLOWED_FUNCTIONS"
  by (induction us) (auto split: if_splits)

lemma scan_no_semicolon: "scan_from q prev s = Inr () \<Longrightarrow> '';'' \<notin> set (tokenize_from q cur s) \<or> CHR '';'' \<in> set cur"
proof (induction q prev s arbitrary: cur rule: scan_from.induct)
  case (1 q prev)
  then show ?case by (auto simp: flush_def)
next
  case (2 prev c cs)
  then show ?case by (auto split: if_splits list.splits)
next
  case (3 prev c cs)
  have w: "\<not> word_char (CHR '';'')" by (simp add: word_char_def is_alpha_def is_digit_def)
  show ?case
  proof (cases "c = quote")
    case True
    then show ?thesis using 3(1)[of "[]"] 3(3) by (auto simp: flush_def)
  next
    case False
    then have c: "c \<noteq> CHR '';''" and ok: "scan_from False c cs = Inr ()" using 3(3) by (auto split: if_splits)
    have IH: "'';'' \<notin> set (tokenize_from False cur cs) \<or> CHR '';'' \<in> set cur" for cur
      using 3 False c ok by (auto split: if_splits)
    show ?thesis using False c IH[of "[]"] IH[of "cur @ [c]"] by (auto simp: flush_def)
  qed
qed

lemma validate_facts:
  assumes "validate_generated_sql sql allowed = Inr ()"
  shows "tokenize (trim sql) \<noteq> []" "upper (hd (tokenize (trim sql))) \<in> {''SELECT'', ''WITH''}"
    "scan_raw (trim sql) = Inr ()"
    "check_tables (map lower allowed) (cte_names (tokenize (trim sql))) False (tokenize (trim sql)) = Inr ()"
    "check_functions (tokenize (trim sql)) = Inr ()"
  using assms by (auto simp: validate_generated_sql_def Let_def upper_def split: if_splits list.splits)

section \<open>Literals\<close>

text \<open>A text and an appendix: what the scanner of literals does not close stays open.\<close>

lemma lit_split_open: "lit_split u = None \<Longrightarrow> c \<noteq> quote \<Longrightarrow> lit_split (u @ [c]) = None"
proof (induction u rule: lit_split.induct)
  case (2 d ds)
  then show ?case by (cases ds) (auto split: if_splits)
qed simp

lemma closed_prefix: "closed (u @ [c]) \<Longrightarrow> c \<noteq> quote \<Longrightarrow> closed u"
proof (induction u rule: lex.induct)
  case (2 d ds)
  consider (lit) b r where "d = quote" "lit_split ds = Some (b, r)" | (bad) "d = quote" "lit_split ds = None"
    | (w) "d \<noteq> quote" "word_char d" | (o) "d \<noteq> quote" "\<not> word_char d"
    by fastforce
  then show ?case
  proof cases
    case lit
    then have "closed (r @ [c])" using 2(4) lit_split_append[OF lit(2) 2(5), of "[]"] by (simp add: closed_def lex.simps(2)[of quote])
    then show ?thesis using 2(1)[OF lit refl _ 2(5)] lit by (simp add: closed_def lex.simps(2)[of quote])
  next
    case bad
    then show ?thesis using 2(4) lit_split_open[OF bad(2) 2(5)] by (simp add: closed_def lex.simps(2)[of quote])
  next
    case w
    show ?thesis
    proof (cases "dropWhile word_char ds = []")
      case True
      show ?thesis using w by (simp add: closed_def lex.simps(2)[of d] True del: dropWhile_eq_Nil_conv)
    next
      case False
      then have "dropWhile word_char (ds @ [c]) = dropWhile word_char ds @ [c]" by (meson dropWhile_append1 dropWhile_eq_Nil_conv)
      then have "closed (dropWhile word_char ds @ [c])" using 2(4) w by (simp add: closed_def lex.simps(2)[of d])
      then show ?thesis using 2(2)[OF w _ 2(5)] w by (simp add: closed_def lex.simps(2)[of d])
    qed
  next
    case o
    then have "closed (ds @ [c])" using 2(4) by (simp add: closed_def lex.simps(2)[of d])
    then show ?thesis using 2(3)[OF o _ 2(5)] o by (simp add: closed_def lex.simps(2)[of d])
  qed
qed (simp add: closed_def)

lemma closed_trim_end: "closed s \<Longrightarrow> \<not> P quote \<Longrightarrow> closed (trim_end_matches P s)"
proof (induction s rule: rev_induct)
  case (snoc c s)
  show ?case
  proof (cases "P c")
    case True
    then have "c \<noteq> quote" using snoc.prems(2) by blast
    then have "closed s" using closed_prefix snoc.prems(1) by blast
    then show ?thesis using snoc.IH[OF _ snoc.prems(2)] True by (simp add: trim_end_matches_def)
  qed (use snoc in \<open>simp add: trim_end_matches_def\<close>)
qed (simp add: trim_end_matches_def closed_def)

section \<open>The row limit\<close>

lemma trim_end_prefix: "prefix (trim_end_matches P s) s"
  unfolding trim_end_matches_def by (metis rev_rev_ident suffix_dropWhile suffix_to_prefix)

lemma decimal_digits: "decimal_text n \<noteq> [] \<and> (\<forall>c \<in> set (decimal_text n). is_digit c)"
proof (induction n rule: decimal_text.induct)
  case (1 n)
  have "is_digit (char_of (48 + d))" if "d < 10" for d :: nat
  proof -
    have "of_char (char_of (48 + d)) = (48 + d :: nat)" using that by simp
    then show ?thesis using that by (simp add: is_digit_def)
  qed
  then show ?case using 1 by (subst (1 2) decimal_text.simps) auto
qed

lemma decimal_word: "canon (Word (decimal_text n))"
  using decimal_digits[of n] by (auto simp: word_char_def)

definition limit_tail :: "nat \<Rightarrow> lexeme list" where
  "limit_tail n = [Space (CHR '' ''), Word ''LIMIT'', Space (CHR '' ''), Word (decimal_text n)]"

lemma lex_limit: "closed u \<Longrightarrow> lex (u @ '' LIMIT '' @ decimal_text n) = lex u @ limit_tail n"
proof -
  assume c: "closed u"
  have "canon (Word ''LIMIT'')" by (simp add: word_char_def is_alpha_def is_digit_def)
  then have "wf_lexemes (limit_tail n)" by (simp add: limit_tail_def canon_words decimal_word del: canon.simps)
  from lex_raws[OF this] have t: "lex (CHR '' '' # ''LIMIT '' @ decimal_text n) = limit_tail n" by (simp add: limit_tail_def)
  have "\<not> word_char (CHR '' '')" by (simp add: word_char_def is_alpha_def is_digit_def)
  from lex_append[OF c this, of "''LIMIT '' @ decimal_text n"] show ?thesis using t by simp
qed

text \<open>The row limit is there and is put once: a text whose literals are closed mentions \<open>LIMIT\<close> when
  \<open>inject_limit\<close> has run, what precedes an added limit is the text itself cut at its end, and running it
  again changes nothing.\<close>

theorem limit_is_injected_once:
  assumes "closed sql"
  shows "list_ex (is_kw ''LIMIT'') (tokenize (inject_limit sql n))
    \<and> inject_limit (inject_limit sql n) k = inject_limit sql n
    \<and> (inject_limit sql n = sql \<or> (\<exists>body. inject_limit sql n = body @ '' LIMIT '' @ decimal_text n \<and> prefix body sql
        \<and> tokenize (inject_limit sql n) = tokenize body @ [''LIMIT'', decimal_text n] \<and> \<not> list_ex (is_kw ''LIMIT'') (tokenize sql)))"
proof (cases "list_ex (is_kw ''LIMIT'') (tokenize sql)")
  case True
  then show ?thesis by (simp add: inject_limit_def)
next
  case False
  let ?b = "trim_end_matches is_ws (trim_end_matches (\<lambda>c. c = CHR '';'') sql)"
  have "closed ?b"
    by (intro closed_trim_end assms) (simp_all add: is_ws_def)
  then have t: "tokenize (?b @ '' LIMIT '' @ decimal_text n) = tokenize ?b @ [''LIMIT'', decimal_text n]"
    by (simp only: tokenize_lex lex_limit tokens_of_simps) (simp add: limit_tail_def)
  have i: "inject_limit sql n = ?b @ '' LIMIT '' @ decimal_text n" using False by (simp only: inject_limit_def if_False)
  have "list_ex (is_kw ''LIMIT'') (tokenize (inject_limit sql n))"
    unfolding i t by (simp add: is_kw_def)
  moreover have "prefix ?b sql" by (intro trim_end_prefix[THEN prefix_order.trans] trim_end_prefix)
  ultimately show ?thesis using i t False by (metis inject_limit_def)
qed


text \<open>C16: the rewriting of a query by byte offsets is a substitution on its lexemes: every table reference
  becomes the subquery with the table's predicate, everything else stays as it is, and the first table
  without a predicate is refused; and when the predicates are plain, the text read again consists of
  exactly those lexemes.\<close>

theorem scoping_is_substitution:
  "scope_tables sql preds = (case confine (scope_ctes sql) (map (\<lambda>(t, p). (lower t, p)) preds) (lex sql) of
     Inl e \<Rightarrow> Inl e | Inr ls \<Rightarrow> Inr (raws ls))
   \<and> (list_all plain_pred (map (\<lambda>(t, p). (lower t, p)) preds) \<longrightarrow>
     (\<forall>out. scope_tables sql preds = Inr out \<longrightarrow>
       confine (scope_ctes sql) (map (\<lambda>(t, p). (lower t, p)) preds) (lex sql) = Inr (lex out)))"
proof -
  let ?c = "confine (scope_ctes sql) (map (\<lambda>(t, p). (lower t, p)) preds) (lex sql)"
  have s: "scope_tables sql preds = res_bind ?c (\<lambda>ls. Inr (raws ls))" by (rule scope_tables_confine)
  have "?c = Inr (lex out)" if pl: "list_all plain_pred (map (\<lambda>(t, p). (lower t, p)) preds)" and o: "scope_tables sql preds = Inr out" for out
  proof -
    obtain r where r: "?c = Inr r" "out = raws r" using o unfolding s by auto
    have "wf_lexemes r" using confine_wf[OF pl wf_lex r(1)] by blast
    then show ?thesis using r lex_raws by simp
  qed
  then show ?thesis using s by (cases ?c) simp_all
qed

text \<open>In the rewritten query, read again, every word directly behind a \<open>FROM\<close> or \<open>JOIN\<close> is a CTE of the query or
  a table that carries its predicate in the clause behind it.\<close>

theorem scoped_references_are_filtered:
  assumes "list_all plain_pred (map (\<lambda>(t, p). (lower t, p)) preds)" and "scope_tables sql preds = Inr out"
    and "tokenize out = us @ t # n # vs" and "is_from t" and "word_char (hd n)"
  shows "lower n \<in> set (scope_ctes sql) \<or>
    (\<exists>table p. (table, p) \<in> set preds \<and> lower table = lower n \<and> prefix (''WHERE'' # tokenize p @ ['')'']) vs)"
proof -
  let ?ps = "map (\<lambda>(t, p). (lower t, p)) preds"
  obtain r where r: "confine (scope_ctes sql) ?ps (lex sql) = Inr r" "out = raws r"
    using assms(2) unfolding scope_tables_confine by auto
  have "lex out = r" using confine_wf[OF assms(1) wf_lex r(1)] lex_raws r(2) by simp
  then have "refs_ok (scope_ctes sql) ?ps (us @ t # n # vs)"
    using confine_refs_ok[OF assms(1) wf_lex r(1)] assms(3) by (simp add: tokenize_lex)
  from refs_ok_at[OF this assms(4)] assms(5)
  consider "lower n \<in> set (scope_ctes sql)" | p where "map_of ?ps (lower n) = Some p" "prefix (''WHERE'' # tokenize p @ ['')'']) vs"
    by auto
  then show ?thesis
  proof cases
    case 2
    then have "(lower n, p) \<in> set ?ps" by (intro map_of_SomeD)
    then show ?thesis using 2(2) by auto
  qed simp
qed

end
