(* ===== verification/Sql_Shape.thy ===== *)
theory Sql_Shape
  imports Sql_Util Sql_Guard_Props
begin

text \<open>
  Texts of the same token structure: the relation under which a query is built from constant
  text and quoted user text, and that the quoting functions of \<open>sql_util.rs\<close> always give exactly
  one literal.
\<close>

section \<open>Quoting gives one literal\<close>

definition is_lit :: "string \<Rightarrow> bool" where
  "is_lit l \<longleftrightarrow> (\<exists>b. l = quote # b \<and> lit_split b = Some (b, []))"

text \<open>The text a literal stands for: its body with the doubled quotes halved.\<close>

fun halved :: "string \<Rightarrow> string" where
  "halved [] = []"
| "halved (c # cs) = (if c = quote then (case cs of [] \<Rightarrow> [] | d # ds \<Rightarrow> c # halved ds) else c # halved cs)"

definition lit_value :: "string \<Rightarrow> string" where
  "lit_value l = halved (tl l)"

lemma replace_char_simps [simp]: "replace_char c r [] = []"
    "replace_char c r (x # xs) = (if x = c then r else [x]) @ replace_char c r xs"
    "replace_char c r (xs @ ys) = replace_char c r xs @ replace_char c r ys"
  by (simp_all add: replace_char_def)

lemma doubled_split: "lit_split (replace_char quote [quote, quote] s @ [quote]) = Some (replace_char quote [quote, quote] s @ [quote], [])"
  by (induction s) simp_all

lemma doubled_halved: "halved (replace_char quote [quote, quote] s @ [quote]) = s"
  by (induction s) simp_all

lemma doubled_is_lit: "is_lit (quote # replace_char quote [quote, quote] s @ [quote])"
  by (simp add: is_lit_def doubled_split)

lemma sql_string_lit: "is_lit (sql_string s)"
  using doubled_is_lit[of s] by (simp add: sql_string_def)

lemma sql_string_value: "lit_value (sql_string s) = s"
  by (simp add: lit_value_def sql_string_def doubled_halved)

lemma sql_ieq_lit: "is_lit (sql_ieq s)"
  using doubled_is_lit by (simp add: sql_ieq_def like_escape_def)

lemma sql_contains_lit: "is_lit (sql_contains s)"
proof -
  let ?e = "replace_char (CHR ''_'') [backslash, CHR ''_''] (replace_char (CHR ''%'') [backslash, CHR ''%''] (replace_char backslash [backslash, backslash] s))"
  have "sql_contains s = quote # replace_char quote [quote, quote] (''%'' @ ?e @ ''%'') @ [quote]"
    by (simp add: sql_contains_def like_escape_def)
  then show ?thesis using doubled_is_lit[of "''%'' @ ?e @ ''%''"] by (simp only: append_Cons append_Nil)
qed

lemma lex_lit: "is_lit l \<Longrightarrow> lex l = [Lit l]"
  using lex_raws[of "[Lit l]"] by (auto simp: is_lit_def)

section \<open>Texts of the same token structure\<close>

definition noq :: "string \<Rightarrow> bool" where
  "noq x \<longleftrightarrow> x = [] \<or> hd x \<noteq> quote"

definition same :: "string \<Rightarrow> string \<Rightarrow> bool" where
  "same x y \<longleftrightarrow> (\<forall>cur. tokenize_from False cur x = tokenize_from False cur y)"

text \<open>A text after which the scanner is outside of literals, and not behind a closing quote.\<close>

fun settled :: "bool \<Rightarrow> string \<Rightarrow> bool" where
  "settled q [] \<longleftrightarrow> \<not> q"
| "settled True (c # cs) \<longleftrightarrow> (if c = quote then (case cs of [] \<Rightarrow> False
     | d # ds \<Rightarrow> if d = quote then settled True ds else settled False cs) else settled True cs)"
| "settled False (c # cs) \<longleftrightarrow> settled (c = quote) cs"

definition alike :: "string \<Rightarrow> string \<Rightarrow> bool" where
  "alike a b \<longleftrightarrow> (\<forall>x y. noq x \<longrightarrow> noq y \<longrightarrow> same x y \<longrightarrow> same (a @ x) (b @ y))"

lemma same_prefix: "settled q a \<Longrightarrow> same x y \<Longrightarrow> tokenize_from q cur (a @ x) = tokenize_from q cur (a @ y)"
proof (induction q a arbitrary: cur rule: settled.induct)
  case (1 q)
  then show ?case by (cases q) (simp_all add: same_def)
next
  case (2 c cs)
  show ?case
  proof (cases "c = quote")
    case True
    with 2(4) obtain d ds where cs: "cs = d # ds" by (cases cs) simp_all
    show ?thesis using 2 True cs by (cases "d = quote") simp_all
  next
    case False
    then show ?thesis using 2(3)[OF False] 2(4,5) by simp
  qed
next
  case (3 c cs)
  show ?case using 3 by (cases "c = quote") simp_all
qed

lemma tokenize_lit: "is_lit l \<Longrightarrow> noq x \<Longrightarrow> tokenize_from False cur (l @ x) = flush cur @ ''?str?'' # tokenize_from False [] x"
  by (auto simp: is_lit_def noq_def tokenize_in_string lit_split_through)

named_theorems alikes \<open>rules that show two texts alike\<close>

lemma noq_Cons [alikes]: "c \<noteq> quote \<Longrightarrow> noq (c # x)"
  by (simp add: noq_def)

lemma noq_Nil [alikes]: "noq []"
  by (simp add: noq_def)

lemma noq_append: "noq a \<Longrightarrow> noq x \<Longrightarrow> noq (a @ x)"
  by (cases a) (simp_all add: noq_def)

lemma alike_const: "settled False c \<Longrightarrow> alike a b \<Longrightarrow> alike (c @ a) (c @ b)"
  unfolding alike_def same_def[of "(c @ a) @ _"] by (auto simp: same_prefix)

lemma alike_self: "settled False c \<Longrightarrow> alike c c"
  unfolding alike_def by (simp add: same_def same_prefix[unfolded same_def])

lemma alike_lit: "is_lit l \<Longrightarrow> is_lit m \<Longrightarrow> alike l m"
  by (auto simp: alike_def same_def tokenize_lit)

lemma alike_append: "alike a b \<Longrightarrow> alike c d \<Longrightarrow> noq c \<Longrightarrow> noq d \<Longrightarrow> alike (a @ c) (b @ d)"
  unfolding alike_def by (auto simp: noq_append)

lemma alike_tokens: "alike a b \<Longrightarrow> tokenize a = tokenize b"
  unfolding alike_def tokenize_def by (metis append_Nil2 noq_Nil same_def)

lemma settled_no_quote: "quote \<notin> set c \<Longrightarrow> settled False c"
  by (induction c) auto

lemma int_text_plain: "quote \<notin> set (int_text i)"
proof -
  have "quote \<notin> set (decimal_text n)" for n
    using decimal_digits[of n] by (auto simp: is_digit_def)
  then show ?thesis by (simp add: int_text_def)
qed

end
