(* ===== verification/Ask.thy ===== *)
theory Ask
  imports Sql_Shape
begin

text \<open>
  \<open>POST /api/ask\<close> (\<open>tumult-api/src/ask.rs\<close>): a question, answered by a curated query or by one a
  language model writes, passes the guard, is confined to the principal's environments, gets a row
  limit and is executed. The model's reply and the locked-down reader are arguments.
\<close>

definition ALLOWED_TABLES :: "string list" where
  "ALLOWED_TABLES = [''spans'', ''logs'', ''metric_sums'', ''metric_gauges'', ''metric_histograms'', ''experiment_runs'', ''import_batches'']"

definition MAX_QUESTION_CHARS :: nat where
  "MAX_QUESTION_CHARS = 1000"

definition ROW_LIMIT :: nat where
  "ROW_LIMIT = 500"

definition GOLDEN :: "(string \<times> string) list" where
  "GOLDEN =
    [(''how many experiments ran'',
       ''SELECT COUNT(*) AS experiments FROM spans WHERE span_name = '' @ lit_text ''resilience.experiment''),
     (''what is the pass rate'',
       ''SELECT SUM(CAST(value AS DOUBLE)) FILTER (WHERE outcome_status = '' @ lit_text ''success'' @ '') / NULLIF(SUM(CAST(value AS DOUBLE)), 0) AS pass_rate FROM metric_sums WHERE metric_name = '' @ lit_text ''tumult.experiments.total''),
     (''which experiments failed'',
       ''SELECT s.experiment_id, s.experiment_name, l.log_attrs['' @ lit_text ''status'' @ ''] AS status FROM spans s JOIN logs l ON l.log_attrs['' @ lit_text ''experiment_id'' @ ''] = s.experiment_id AND l.body = '' @ lit_text ''experiment.completed'' @ '' WHERE s.span_name = '' @ lit_text ''resilience.experiment'' @ '' AND l.log_attrs['' @ lit_text ''status'' @ ''] != '' @ lit_text ''Completed'' @ '' ORDER BY s.ts_ns DESC''),
     (''what faults were injected'',
       ''SELECT fault_type, COUNT(*) AS count FROM spans WHERE fault_type IS NOT NULL GROUP BY fault_type ORDER BY count DESC''),
     (''experiments per day'',
       ''SELECT (ts_ns // 86400000000000) * 86400000000000 // 1000000000 AS day_s, COUNT(*) AS experiments FROM spans WHERE span_name = '' @ lit_text ''resilience.experiment'' @ '' GROUP BY 1 ORDER BY 1''),
     (''show recent experiments'',
       ''SELECT s.experiment_id, s.experiment_name, s.ts_ns AS started_ns, l.log_attrs['' @ lit_text ''status'' @ ''] AS status FROM spans s LEFT JOIN logs l ON l.log_attrs['' @ lit_text ''experiment_id'' @ ''] = s.experiment_id AND l.body = '' @ lit_text ''experiment.completed'' @ '' WHERE s.span_name = '' @ lit_text ''resilience.experiment'' @ '' ORDER BY s.ts_ns DESC LIMIT 20'')]"

text \<open>\<open>str::split_whitespace\<close>.\<close>

fun pieces :: "(char \<Rightarrow> bool) \<Rightarrow> string \<Rightarrow> string list" where
  "pieces P [] = [[]]"
| "pieces P (c # cs) = (if P c then [] # pieces P cs
     else (case pieces P cs of [] \<Rightarrow> [[c]] | w # ws \<Rightarrow> (c # w) # ws))"

definition split_whitespace :: "string \<Rightarrow> string list" where
  "split_whitespace s = filter (\<lambda>w. w \<noteq> []) (pieces is_ws s)"

definition normalize :: "string \<Rightarrow> string" where
  "normalize question = lower (trim_end_matches (\<lambda>c. c \<in> {CHR ''?'', CHR ''.'', CHR ''!''})
     (intersperse_str '' '' (split_whitespace question)))"

definition golden_sql :: "string \<Rightarrow> string option" where
  "golden_sql question = map_of GOLDEN (normalize question)"

text \<open>\<open>str::find\<close> and the slices on both sides of the match.\<close>

fun find_split :: "string \<Rightarrow> string \<Rightarrow> (string \<times> string) option" where
  "find_split pat [] = (case strip_prefix pat [] of Some r \<Rightarrow> Some ([], r) | None \<Rightarrow> None)"
| "find_split pat (c # cs) = (case strip_prefix pat (c # cs) of Some r \<Rightarrow> Some ([], r)
     | None \<Rightarrow> map_option (\<lambda>(a, b). (c # a, b)) (find_split pat cs))"

definition fence :: string where
  "fence = [CHR 0x60, CHR 0x60, CHR 0x60]"

definition extract_sql :: "string \<Rightarrow> string" where
  "extract_sql reply =
    (let trimmed = trim reply;
         inner = (case find_split fence trimmed of
             None \<Rightarrow> trimmed
           | Some (_, after) \<Rightarrow>
             (let after = (case strip_prefix ''sql'' after of Some r \<Rightarrow> r
                | None \<Rightarrow> (case strip_prefix ''SQL'' after of Some r \<Rightarrow> r | None \<Rightarrow> after)) in
              case find_split fence after of Some (b, _) \<Rightarrow> b | None \<Rightarrow> after)) in
     trim (trim_end_matches (\<lambda>c. c = CHR '';'') (trim inner)))"

definition scope_predicate :: "string list \<Rightarrow> string" where
  "scope_predicate scopes = ''target_environment IN ('' @ intersperse_str '', '' (map sql_string scopes) @ '')''"

definition apply_env_scopes :: "string \<Rightarrow> string list \<Rightarrow> (sql_guard_error, string) result" where
  "apply_env_scopes sql scopes = (if scopes = [] then Inr sql
     else scope_tables sql [(''spans'', scope_predicate scopes)])"

text \<open>\<open>Display\<close> of the guard's errors.\<close>

fun guard_text :: "sql_guard_error \<Rightarrow> string" where
  "guard_text SqlEmpty = ''empty SQL''"
| "guard_text NotASelect = ''query must start with SELECT or WITH''"
| "guard_text MultipleStatements = ''multiple statements are not allowed ('' @ lit_text '';'' @ '' found)''"
| "guard_text CommentFound = ''SQL comments are not allowed ('' @ lit_text ''--'' @ '' or '' @ lit_text ''/* */'' @ '' found)''"
| "guard_text (TableNotAllowed t) = ''table '' @ debug_str t @ '' is not in the allow-list''"
| "guard_text (FunctionNotAllowed f) = ''function '' @ debug_str f @ '' is not in the allow-list''"
| "guard_text (TableNotScopable t) = ''table '' @ debug_str t @ '' cannot be filtered to the principal'' @ [quote] @ ''s environment scopes''"

text \<open>What the call of the model may give: a reply, a refused connection or a time-out of the client,
  another failure, or nothing before the deadline; and what the query may give.\<close>

datatype llm_outcome = LlmReply string | LlmUnreachable | LlmFailed string | LlmElapsed

datatype query_outcome = QueryRows "jval list" | QueryFailed string | TaskFailed string | QueryElapsed

definition not_configured :: response where
  "not_configured = Response 200 None (JvObj [(''configured'', JvBool False)])"

definition ask_failure :: "nat \<Rightarrow> string \<Rightarrow> string \<Rightarrow> response" where
  "ask_failure status msg sql = Response status None
     (JvObj [(''configured'', JvBool True), (''error'', JvStr msg), (''sql'', JvStr sql)])"

text \<open>From the question to the query that is executed, with its source; or the answer that ends the request.\<close>

definition choose_sql :: "(string \<Rightarrow> llm_outcome) \<Rightarrow> string \<Rightarrow> (response, string \<times> string) result" where
  "choose_sql llm question = (case golden_sql question of
      Some sql \<Rightarrow> Inr (sql, ''golden'')
    | None \<Rightarrow> (case llm question of
        LlmUnreachable \<Rightarrow> Inl not_configured
      | LlmElapsed \<Rightarrow> Inl not_configured
      | LlmFailed e \<Rightarrow> Inl (Response 502 None (JvObj [(''configured'', JvBool True), (''error'', JvStr (''LLM call failed: '' @ e))]))
      | LlmReply reply \<Rightarrow> (let sql = extract_sql reply in
          case validate_generated_sql sql ALLOWED_TABLES of
            Inl e \<Rightarrow> Inl (ask_failure 422 (''generated SQL rejected by the guard: '' @ guard_text e) sql)
          | Inr _ \<Rightarrow> Inr (sql, ''llm''))))"

definition ask_sql :: "(string \<Rightarrow> llm_outcome) \<Rightarrow> principal \<Rightarrow> string \<Rightarrow> (response, string \<times> string) result" where
  "ask_sql llm pr question0 =
    (let question = trim question0 in
     if question = [] then Inl (Response 400 None (JvObj [(''error'', JvStr ''question must not be empty'')]))
     else if length question > MAX_QUESTION_CHARS
       then Inl (Response 400 None (JvObj [(''error'', JvStr (''question too long (max '' @ decimal_text MAX_QUESTION_CHARS @ '' chars)''))]))
     else res_bind (choose_sql llm question) (\<lambda>(sql, source).
       case validate_generated_sql sql ALLOWED_TABLES of
         Inl e \<Rightarrow> Inl (ask_failure 500 (''internal SQL failed the guard: '' @ guard_text e) sql)
       | Inr _ \<Rightarrow> (case apply_env_scopes sql (pr_scopes pr) of
           Inl e \<Rightarrow> Inl (ask_failure 422 (''query cannot be confined to your environment scopes: '' @ guard_text e) sql)
         | Inr scoped \<Rightarrow> Inr (inject_limit scoped ROW_LIMIT, source))))"

definition ask :: "(string \<Rightarrow> llm_outcome) \<Rightarrow> (string \<Rightarrow> query_outcome) \<Rightarrow> principal \<Rightarrow> string \<Rightarrow> response" where
  "ask llm run pr question = (case ask_sql llm pr question of
      Inl r \<Rightarrow> r
    | Inr (sql, source) \<Rightarrow> (case run sql of
        QueryRows rows \<Rightarrow> Response 200 None (JvObj [(''configured'', JvBool True), (''source'', JvStr source), (''sql'', JvStr sql), (''rows'', JvList rows)])
      | QueryFailed e \<Rightarrow> ask_failure 500 (''query failed: '' @ e) sql
      | TaskFailed e \<Rightarrow> ask_failure 500 (''query task failed: '' @ e) sql
      | QueryElapsed \<Rightarrow> ask_failure 504 ''query timed out'' sql))"

end
