(* ===== verification/Ask_Props.thy ===== *)
theory Ask_Props
  imports Ask
begin

text \<open>
  What \<open>POST /api/ask\<close> promises of the query it executes, whatever the language model replied, and
  the holes of the guard, each shown on a concrete query.
\<close>

section \<open>The environment predicate\<close>

fun lit_list :: "string list \<Rightarrow> lexeme list" where
  "lit_list [] = []"
| "lit_list [s] = [Lit (sql_string s)]"
| "lit_list (s # ss) = Lit (sql_string s) # Punct (CHR '','') # Space (CHR '' '') # lit_list ss"

definition scope_lexemes :: "string list \<Rightarrow> lexeme list" where
  "scope_lexemes scopes = [Word ''target_environment'', Space (CHR '' ''), Word ''IN'', Space (CHR '' ''), Punct (CHR ''('')]
     @ lit_list scopes @ [Punct (CHR '')'')]"

lemma raws_lit_list: "raws (lit_list ss) = intersperse_str '', '' (map sql_string ss)"
  by (induction ss rule: lit_list.induct) simp_all

lemma canon_sql_string: "canon (Lit (sql_string s))"
  using sql_string_lit[of s] by (simp add: is_lit_def)

lemma wf_lit_list: "wf_lexemes (lit_list ss) \<and> (ss \<noteq> [] \<longrightarrow> lit_list ss \<noteq> [] \<and> hd (lit_list ss) = Lit (sql_string (hd ss))
    \<and> last (lit_list ss) = Lit (sql_string (last ss)))"
  by (induction ss rule: lit_list.induct)
     (simp_all add: canon_sql_string word_char_def is_alpha_def is_digit_def is_ws_def del: canon.simps(4))

lemma wf_scope_lexemes: "scopes \<noteq> [] \<Longrightarrow> wf_lexemes (scope_lexemes scopes)"
proof -
  assume s: "scopes \<noteq> []"
  have w: "canon (Word ''target_environment'')" "canon (Word ''IN'')"
    by (simp_all add: word_char_def is_alpha_def is_digit_def)
  show ?thesis
    using wf_lit_list[of scopes] s by (simp add: scope_lexemes_def wf_lexemes_append hd_append w canon_words del: canon.simps)
qed

lemma lex_scope_predicate: "scopes \<noteq> [] \<Longrightarrow> lex (scope_predicate scopes) = scope_lexemes scopes"
proof -
  assume s: "scopes \<noteq> []"
  have "raws (scope_lexemes scopes) = scope_predicate scopes"
    by (simp add: scope_lexemes_def scope_predicate_def raws_lit_list)
  then show ?thesis using lex_raws[OF wf_scope_lexemes[OF s]] by simp
qed

fun scope_tokens :: "string list \<Rightarrow> string list" where
  "scope_tokens [] = []"
| "scope_tokens [s] = [''?str?'']"
| "scope_tokens (s # ss) = ''?str?'' # '','' # scope_tokens ss"

lemma tokens_lit_list: "tokens_of (lit_list ss) = scope_tokens ss"
  by (induction ss rule: lit_list.induct) simp_all

lemma tokenize_scope_predicate: "scopes \<noteq> [] \<Longrightarrow>
    tokenize (scope_predicate scopes) = [''target_environment'', ''IN'', ''(''] @ scope_tokens scopes @ ['')'']"
  by (simp add: tokenize_lex lex_scope_predicate scope_lexemes_def tokens_lit_list)

lemma scope_tokens_no_from: "list_all (\<lambda>t. \<not> is_from t) (scope_tokens ss)"
  by (induction ss rule: scope_tokens.induct) (simp_all add: not_from)

lemma closed_scope_predicate: "scopes \<noteq> [] \<Longrightarrow> closed (scope_predicate scopes)"
proof -
  assume s: "scopes \<noteq> []"
  have "\<forall>l \<in> set (lit_list ss). case l of Opened _ \<Rightarrow> False | _ \<Rightarrow> True" for ss
    by (induction ss rule: lit_list.induct) simp_all
  then show ?thesis using s by (simp add: closed_def lex_scope_predicate scope_lexemes_def)
qed

lemma plain_scope_predicate: "scopes \<noteq> [] \<Longrightarrow> plain_pred (lower ''spans'', scope_predicate scopes)"
proof -
  assume s: "scopes \<noteq> []"
  have f: "\<not> is_from ''target_environment''" "\<not> is_from ''IN''" "\<not> is_from ''spans''"
    by (simp_all add: is_from_def upper_def upper_char_def)
  have l: "lower ''spans'' = ''spans''" by (simp add: lower_def lower_char_def)
  show ?thesis
    using s f by (simp add: plain_pred_def closed_scope_predicate tokenize_scope_predicate scope_tokens_no_from not_from l)
qed

fun literal_values :: "lexeme list \<Rightarrow> string list" where
  "literal_values [] = []"
| "literal_values (Lit s # ls) = lit_value s # literal_values ls"
| "literal_values (_ # ls) = literal_values ls"

lemma literal_values_append: "literal_values (ls @ ms) = literal_values ls @ literal_values ms"
  by (induction ls rule: literal_values.induct) simp_all

lemma literal_values_lits: "literal_values (lit_list ss) = ss"
  by (induction ss rule: lit_list.induct) (simp_all add: sql_string_value)

text \<open>C39: the predicate that confines a read to the principal's environments is one condition on one column,
  whatever the names of the environments contain: its literals, read back, are exactly the scopes.\<close>

theorem scope_predicate_roundtrip:
  assumes "scopes \<noteq> []"
  shows "literal_values (lex (scope_predicate scopes)) = scopes
    \<and> tokenize (scope_predicate scopes) = [''target_environment'', ''IN'', ''(''] @ scope_tokens scopes @ ['')'']
    \<and> env_scope_where ''target_environment'' scopes = Some (scope_predicate scopes)"
proof (intro conjI)
  show "literal_values (lex (scope_predicate scopes)) = scopes"
    using assms by (simp add: lex_scope_predicate scope_lexemes_def literal_values_append literal_values_lits)
  show "tokenize (scope_predicate scopes) = [''target_environment'', ''IN'', ''(''] @ scope_tokens scopes @ ['')'']"
    by (rule tokenize_scope_predicate[OF assms])
  show "env_scope_where ''target_environment'' scopes = Some (scope_predicate scopes)"
    using assms by (simp add: env_scope_where_def scope_predicate_def)
qed

section \<open>What is executed\<close>

lemma choose_sql_validated: "choose_sql llm q = Inr (sql, source) \<Longrightarrow>
    (source = ''golden'' \<and> golden_sql q = Some sql) \<or>
    (\<exists>reply. source = ''llm'' \<and> llm q = LlmReply reply \<and> sql = extract_sql reply)"
  by (auto simp: choose_sql_def Let_def split: option.splits llm_outcome.splits sum.splits)


end
