(* ===== verification/Read_Queries.thy ===== *)
theory Read_Queries
  imports Sql_Util
begin

text \<open>
  The read handlers of \<open>tumult-api/src/handlers\<close> over logs, traces and the topology: the checks of
  their parameters, the SQL they build, and the bodies they make of the rows. The reader is an
  argument, a function from a query to its rows; the clock is an argument; \<open>f64\<close> parameters
  are floats.
\<close>

type_synonym reader = "string \<Rightarrow> (string, jval list) result"

text \<open>\<open>with_reader\<close> with a single query: a failure of the reader is a 500 without its detail.\<close>

definition query_rows :: "reader \<Rightarrow> string \<Rightarrow> (api_error, jval list) result" where
  "query_rows rd sql = (case rd sql of Inl e \<Rightarrow> Inl (internal e) | Inr rows \<Rightarrow> Inr rows)"

definition escape_clause :: string where
  "escape_clause = '' ESCAPE '' @ [quote, backslash, quote]"

text \<open>\<open>Value::get\<close> on an object.\<close>

fun jv_get :: "string \<Rightarrow> jval \<Rightarrow> jval option" where
  "jv_get k (JvObj kvs) = map_of kvs k"
| "jv_get k _ = None"

fun jv_str :: "jval \<Rightarrow> string option" where
  "jv_str (JvStr s) = Some s"
| "jv_str _ = None"

section \<open>Logs\<close>

record logs_params =
  lq_range :: "string option"
  lq_severity :: "string option"
  lq_service :: "string option"
  lq_q :: "string option"
  lq_attr :: "string option"
  lq_attr_not :: "string option"

definition bad_range :: "string \<Rightarrow> string" where
  "bad_range r = ''invalid range '' @ debug_str r @ ''; expected 24h|7d|14d''"

definition log_scope_where :: "string list \<Rightarrow> string list" where
  "log_scope_where scopes = (case env_scope_where ''se.target_environment'' scopes of None \<Rightarrow> []
     | Some env \<Rightarrow> [''EXISTS (SELECT 1 FROM spans se WHERE '' @ env
         @ '' AND (se.trace_id = logs.trace_id OR se.experiment_id = logs.log_attrs['' @ lit_text ''experiment_id'' @ '']))''])"

definition log_wheres :: "int \<Rightarrow> logs_params \<Rightarrow> string list \<Rightarrow> (string, string list) result" where
  "log_wheres now p scopes =
    (let rng = (case lq_range p of None \<Rightarrow> ''24h'' | Some r \<Rightarrow> r) in
     case windows now rng of None \<Rightarrow> Inl (bad_range rng)
     | Some (cur, _) \<Rightarrow>
       (let base = [w_pred cur] @ log_scope_where scopes
          @ (case given (lq_severity p) of None \<Rightarrow> [] | Some sev \<Rightarrow> [''severity_text ILIKE '' @ sql_ieq sev @ escape_clause])
          @ (case given (lq_service p) of None \<Rightarrow> [] | Some svc \<Rightarrow> [''service_name = '' @ sql_string svc]) in
        res_bind (case given (lq_q p) of None \<Rightarrow> Inr []
            | Some q \<Rightarrow> if length q > 200 then Inl ''q too long (max 200 chars)''
                else Inr [''body ILIKE '' @ sql_contains q @ escape_clause]) (\<lambda>qw.
        res_bind (attr_wheres (lq_attr p) (lq_attr_not p) (''log_attrs'', ''resource_attrs'')) (\<lambda>aw.
        Inr (base @ qw @ aw)))))"

definition clamp :: "nat \<Rightarrow> nat \<Rightarrow> nat \<Rightarrow> nat" where
  "clamp lo hi x = (if x < lo then lo else if hi < x then hi else x)"

definition logs_sql :: "string list \<Rightarrow> nat \<Rightarrow> string" where
  "logs_sql wheres limit = ''SELECT ts_ns, severity_text, body, trace_id, span_id, service_name, log_attrs['' @ lit_text ''experiment_id''
     @ ''] AS experiment_id, log_attrs, resource_attrs FROM logs WHERE '' @ intersperse_str '' AND '' wheres
     @ '' ORDER BY ts_ns DESC LIMIT '' @ decimal_text limit"

definition logs :: "reader \<Rightarrow> int \<Rightarrow> principal \<Rightarrow> logs_params \<Rightarrow> nat option \<Rightarrow> (api_error, jval) result" where
  "logs rd now pr p limit = (case log_wheres now p (pr_scopes pr) of
      Inl msg \<Rightarrow> Inl (bad_request msg)
    | Inr wheres \<Rightarrow> res_bind (query_rows rd (logs_sql wheres (clamp 1 1000 (case limit of None \<Rightarrow> 200 | Some l \<Rightarrow> l))))
        (\<lambda>rows. Inr (JvObj [(''count'', JvInt (int (length rows))), (''logs'', JvList rows)])))"

definition logs_volume_sql :: "int \<Rightarrow> string list \<Rightarrow> string" where
  "logs_volume_sql bucket_s wheres = ''SELECT '' @ bucket_expr bucket_s @ '' AS ts, COALESCE(severity_text, '' @ lit_text ''UNKNOWN''
     @ '') AS severity, COUNT(*) AS count FROM logs WHERE '' @ intersperse_str '' AND '' wheres @ '' GROUP BY 1, 2 ORDER BY 1''"

definition logs_volume :: "reader \<Rightarrow> int \<Rightarrow> principal \<Rightarrow> logs_params \<Rightarrow> string option \<Rightarrow> (api_error, jval) result" where
  "logs_volume rd now pr p interval =
    (let interval = (case interval of None \<Rightarrow> ''1h'' | Some i \<Rightarrow> i) in
     case parse_interval interval of
       None \<Rightarrow> Inl (bad_request (''invalid interval '' @ debug_str interval @ ''; expected 5m|1h|1d''))
     | Some bucket_s \<Rightarrow> (case log_wheres now p (pr_scopes pr) of
         Inl msg \<Rightarrow> Inl (bad_request msg)
       | Inr wheres \<Rightarrow> res_bind (query_rows rd (logs_volume_sql bucket_s wheres))
           (\<lambda>rows. Inr (JvObj [(''interval'', JvStr interval), (''bucket_s'', JvInt bucket_s), (''rows'', JvList rows)]))))"

section \<open>Traces\<close>

record traces_params =
  tq_range :: "string option"
  tq_service :: "string option"
  tq_min_duration_ms :: "f64 option"
  tq_outcome :: "string option"
  tq_attr :: "string option"
  tq_attr_not :: "string option"

text \<open>A lower-case word with its first letter raised.\<close>

definition capitalized :: "string \<Rightarrow> string" where
  "capitalized s = (case s of [] \<Rightarrow> [] | c # cs \<Rightarrow> upper [c] @ cs)"

definition outcome_where :: "string option \<Rightarrow> (string, string option) result" where
  "outcome_where outcome = (case given outcome of None \<Rightarrow> Inr None
     | Some o' \<Rightarrow> (let l = lower o' in
         if l \<in> {''completed'', ''deviated'', ''failed''}
         then Inr (Some (''l.log_attrs['' @ lit_text ''status'' @ ''] = '' @ sql_string (capitalized l)))
         else if l = ''incomplete'' then Inr (Some (''l.log_attrs['' @ lit_text ''status'' @ ''] IS NULL''))
         else Inl (''invalid outcome '' @ debug_str l @ ''; expected completed|deviated|failed|incomplete'')))"

text \<open>\<open>f64 as i64\<close>: towards zero, saturating, zero for NaN.\<close>

fun f64_to_i64 :: "f64 \<Rightarrow> int" where
  "f64_to_i64 NaN = 0"
| "f64_to_i64 (Inf p) = (if p then 2 ^ 63 - 1 else - (2 ^ 63))"
| "f64_to_i64 (Fin r) = max (- (2 ^ 63)) (min (2 ^ 63 - 1) (if 0 \<le> r then \<lfloor>r\<rfloor> else \<lceil>r\<rceil>))"

definition attr_exists :: "bool \<Rightarrow> string \<Rightarrow> string \<Rightarrow> string" where
  "attr_exists negate k v = (if negate then ''NOT '' else [])
     @ ''EXISTS (SELECT 1 FROM spans sx WHERE sx.trace_id = t.trace_id AND (sx.span_attrs['' @ sql_string k @ ''] = '' @ sql_string v
     @ '' OR sx.resource_attrs['' @ sql_string k @ ''] = '' @ sql_string v @ ''))''"

definition trace_attr :: "bool \<Rightarrow> string option \<Rightarrow> (string, string list) result" where
  "trace_attr negate raw = attr_where ''attr filter'' (attr_exists negate) raw"

definition span_window :: "int \<Rightarrow> string option \<Rightarrow> (string, string option) result" where
  "span_window now rng = (case rng of None \<Rightarrow> Inr None
     | Some r \<Rightarrow> (case windows now r of None \<Rightarrow> Inl (bad_range r) | Some (cur, _) \<Rightarrow> Inr (Some (w_pred cur))))"

definition trace_wheres :: "traces_params \<Rightarrow> string list \<Rightarrow> (string, string list) result" where
  "trace_wheres p scopes =
    res_bind (case tq_min_duration_ms p of None \<Rightarrow> Inr []
      | Some ms \<Rightarrow> if is_finite ms \<and> f64_ge ms (Fin 0)
          then Inr [''t.duration_ns >= '' @ int_text (f64_to_i64 (f64_mul ms (Fin 1000000)))]
          else Inl ''min_duration_ms must be a non-negative number'') (\<lambda>mw.
    res_bind (outcome_where (tq_outcome p)) (\<lambda>ow.
    res_bind (trace_attr False (tq_attr p)) (\<lambda>aw.
    res_bind (trace_attr True (tq_attr_not p)) (\<lambda>nw.
    Inr ((case env_trace_exists ''t'' scopes of None \<Rightarrow> [] | Some e \<Rightarrow> [e])
      @ (case given (tq_service p) of None \<Rightarrow> []
         | Some s \<Rightarrow> [''EXISTS (SELECT 1 FROM spans sx WHERE sx.trace_id = t.trace_id AND sx.service_name = '' @ sql_string s @ '')''])
      @ mw @ (case ow of None \<Rightarrow> [] | Some w \<Rightarrow> [w]) @ aw @ nw)))))"

definition traces_sql :: "string option \<Rightarrow> string list \<Rightarrow> string" where
  "traces_sql span_where wheres =
     ''SELECT t.trace_id, t.started_ns, t.duration_ns, t.span_count, t.error_count, COALESCE(r.span_name, t.first_span) AS root_name, '' @
     ''COALESCE(r.service_name, t.first_service) AS service_name, t.experiment_id, t.experiment_name, l.log_attrs['' @ lit_text ''status'' @ ''] AS status '' @
     ''FROM ( SELECT trace_id, MIN(ts_ns) AS started_ns, MAX(ts_ns + duration_ns) - MIN(ts_ns) AS duration_ns, COUNT(*) AS span_count, '' @
     ''COUNT(*) FILTER (WHERE status_code = '' @ lit_text ''Error'' @ '') AS error_count, MAX(experiment_id) AS experiment_id, MAX(experiment_name) AS experiment_name, '' @
     ''arg_min(span_name, ts_ns) AS first_span, arg_min(service_name, ts_ns) AS first_service FROM spans WHERE '' @
     (case span_where of None \<Rightarrow> ''TRUE'' | Some w \<Rightarrow> w) @
     '' GROUP BY trace_id ) t LEFT JOIN ( SELECT trace_id, span_name, service_name, ROW_NUMBER() OVER (PARTITION BY trace_id ORDER BY ts_ns) AS rn '' @
     ''FROM spans WHERE parent_span_id IS NULL ) r ON r.trace_id = t.trace_id AND r.rn = 1 LEFT JOIN logs l ON l.log_attrs['' @ lit_text ''experiment_id'' @
     ''] = t.experiment_id AND l.body = '' @ lit_text ''experiment.completed'' @ '' '' @
     (if wheres = [] then [] else ''WHERE '' @ intersperse_str '' AND '' wheres) @ '' ORDER BY t.started_ns DESC LIMIT 200''"

definition traces :: "reader \<Rightarrow> int \<Rightarrow> principal \<Rightarrow> traces_params \<Rightarrow> (api_error, jval) result" where
  "traces rd now pr p = (case span_window now (tq_range p) of
      Inl msg \<Rightarrow> Inl (bad_request msg)
    | Inr sw \<Rightarrow> (case trace_wheres p (pr_scopes pr) of
        Inl msg \<Rightarrow> Inl (bad_request msg)
      | Inr tw \<Rightarrow> res_bind (query_rows rd (traces_sql sw tw))
          (\<lambda>rows. Inr (JvObj [(''count'', JvInt (int (length rows))), (''traces'', JvList rows)]))))"

definition durations_where :: "int \<Rightarrow> string list \<Rightarrow> string option \<Rightarrow> (string, string) result" where
  "durations_where now scopes rng = res_bind (span_window now rng) (\<lambda>sw.
     Inr (''parent_span_id IS NULL'' @ and_pred (env_trace_exists ''spans'' scopes) @ and_pred sw))"

definition durations_points_sql :: "string \<Rightarrow> string" where
  "durations_points_sql span_where = ''SELECT trace_id, ts_ns, duration_ns / 1000000.0 AS duration_ms FROM spans WHERE ''
     @ span_where @ '' ORDER BY ts_ns LIMIT 1000''"

definition durations_pct_sql :: "string \<Rightarrow> string" where
  "durations_pct_sql span_where = ''SELECT quantile_cont(duration_ns, 0.5) / 1000000.0 AS p50, ''
     @ ''quantile_cont(duration_ns, 0.95) / 1000000.0 AS p95, quantile_cont(duration_ns, 0.99) / 1000000.0 AS p99 FROM spans WHERE '' @ span_where"

definition or_null :: "jval option \<Rightarrow> jval" where
  "or_null x = (case x of None \<Rightarrow> JvNull | Some v \<Rightarrow> v)"

definition trace_durations :: "reader \<Rightarrow> int \<Rightarrow> principal \<Rightarrow> string option \<Rightarrow> (api_error, jval) result" where
  "trace_durations rd now pr rng = (case durations_where now (pr_scopes pr) rng of
      Inl msg \<Rightarrow> Inl (bad_request msg)
    | Inr sw \<Rightarrow> res_bind (query_rows rd (durations_points_sql sw)) (\<lambda>points.
        res_bind (query_rows rd (durations_pct_sql sw)) (\<lambda>pct.
        (let row = (case pct of [] \<Rightarrow> JvObj [] | r # _ \<Rightarrow> r) in
        Inr (JvObj [(''points'', JvList points), (''p50_ms'', or_null (jv_get ''p50'' row)),
          (''p95_ms'', or_null (jv_get ''p95'' row)), (''p99_ms'', or_null (jv_get ''p99'' row))])))))"

definition trace_spans_sql :: "string list \<Rightarrow> string \<Rightarrow> string" where
  "trace_spans_sql scopes tid = ''SELECT ts_ns, trace_id, span_id, parent_span_id, span_name, span_kind, duration_ns, status_code, status_message, service_name, ''
     @ ''experiment_id, experiment_name, fault_type, fault_subtype, span_attrs, events FROM spans WHERE trace_id = '' @ sql_string tid
     @ and_pred (env_trace_exists ''spans'' scopes) @ '' ORDER BY ts_ns LIMIT 2000''"

definition trace_logs_sql :: "string \<Rightarrow> string" where
  "trace_logs_sql tid = ''SELECT ts_ns, severity_text, body, trace_id, span_id, log_attrs FROM logs WHERE trace_id = '' @ sql_string tid
     @ '' ORDER BY ts_ns LIMIT 1000''"

text \<open>A trace outside the principal's scopes is answered like one that does not exist.\<close>

definition trace_detail :: "reader \<Rightarrow> principal \<Rightarrow> string \<Rightarrow> (api_error, jval) result" where
  "trace_detail rd pr tid = (if length tid > 200 then Inl (bad_request ''trace id too long'')
     else res_bind (query_rows rd (trace_spans_sql (pr_scopes pr) tid)) (\<lambda>spans.
       if spans = [] then Inl (not_found ''trace not found'')
       else res_bind (query_rows rd (trace_logs_sql tid)) (\<lambda>logs.
         Inr (JvObj [(''trace_id'', JvStr tid), (''spans'', JvList spans), (''logs'', JvList logs)]))))"

section \<open>Topology\<close>

definition TARGET_ATTR :: string where
  "TARGET_ATTR = ''span_attrs['' @ lit_text ''resilience.target.name'' @ '']''"

definition topology_nodes_sql :: "string \<Rightarrow> string" where
  "topology_nodes_sql window = ''SELECT service_name AS name, '' @ lit_text ''service'' @ '' AS type, COUNT(*) AS runs, ''
     @ ''COUNT(*) FILTER (WHERE status_code = '' @ lit_text ''Error'' @ '') AS errors, AVG(duration_ns) AS avg_duration_ns FROM spans WHERE service_name <> ''
     @ lit_text [] @ window @ '' GROUP BY 1''"

definition topology_targets_sql :: "string \<Rightarrow> string" where
  "topology_targets_sql window = ''SELECT '' @ TARGET_ATTR @ '' AS name, '' @ lit_text ''target'' @ '' AS type, COUNT(*) AS runs, ''
     @ ''COUNT(*) FILTER (WHERE status_code = '' @ lit_text ''Error'' @ '') AS errors, AVG(duration_ns) AS avg_duration_ns FROM spans WHERE ''
     @ TARGET_ATTR @ '' IS NOT NULL'' @ window @ '' GROUP BY 1''"

definition topology_calls_sql :: "string \<Rightarrow> string" where
  "topology_calls_sql cwindow = ''SELECT '' @ lit_text ''svc:'' @ '' || p.service_name AS from_id, '' @ lit_text ''svc:'' @ '' || c.service_name AS to_id, COUNT(*) AS weight ''
     @ ''FROM spans c JOIN spans p ON c.parent_span_id = p.span_id WHERE (p.service_name <> c.service_name OR p.span_name <> c.span_name)''
     @ cwindow @ '' GROUP BY 1, 2''"

definition topology_uses_sql :: "string \<Rightarrow> string" where
  "topology_uses_sql window = ''SELECT '' @ lit_text ''svc:'' @ '' || service_name AS from_id, '' @ lit_text ''tgt:'' @ '' || '' @ TARGET_ATTR @ '' AS to_id, COUNT(*) AS weight ''
     @ ''FROM spans WHERE '' @ TARGET_ATTR @ '' IS NOT NULL'' @ window @ '' GROUP BY 1, 2''"

text \<open>\<open>Value::as_u64\<close>.\<close>

fun jv_u64 :: "jval \<Rightarrow> nat option" where
  "jv_u64 (JvInt i) = (if 0 \<le> i \<and> i < 2 ^ 64 then Some (nat i) else None)"
| "jv_u64 _ = None"

definition node_runs :: "jval \<Rightarrow> nat" where
  "node_runs n = (case Option.bind (jv_get ''runs'' n) jv_u64 of None \<Rightarrow> 0 | Some k \<Rightarrow> k)"

definition topology_node :: "jval \<Rightarrow> jval option" where
  "topology_node n = Option.bind (Option.bind (jv_get ''name'' n) jv_str) (\<lambda>name. Option.bind (Option.bind (jv_get ''type'' n) jv_str) (\<lambda>kind.
     let prefix = (if kind = ''service'' then ''svc'' else ''tgt'') in
     Some (JvObj [(''id'', JvStr (prefix @ '':'' @ name)), (''name'', JvStr name), (''type'', JvStr kind), (''runs'', or_null (jv_get ''runs'' n)),
       (''errors'', or_null (jv_get ''errors'' n)), (''avg_duration_ns'', or_null (jv_get ''avg_duration_ns'' n))])))"

definition node_id :: "jval \<Rightarrow> string option" where
  "node_id n = Option.bind (jv_get ''id'' n) jv_str"

definition edge_end :: "string \<Rightarrow> jval \<Rightarrow> string" where
  "edge_end k e = (case Option.bind (jv_get k e) jv_str of None \<Rightarrow> [] | Some s \<Rightarrow> s)"

text \<open>\<open>sort_by_key\<close> is stable; \<open>Reverse\<close> of the count puts the busiest first.\<close>

definition busiest :: "jval list \<Rightarrow> jval list" where
  "busiest ns = take 100 (sort_key (\<lambda>n. - int (node_runs n)) ns)"

definition topology_graph :: "jval list \<Rightarrow> jval list \<Rightarrow> jval" where
  "topology_graph raw_nodes raw_edges =
    (let nodes = List.map_filter topology_node (busiest raw_nodes); ids = List.map_filter node_id nodes;
         edges = filter (\<lambda>e. edge_end ''from_id'' e \<in> set ids \<and> edge_end ''to_id'' e \<in> set ids) raw_edges in
     JvObj [(''nodes'', JvList nodes), (''edges'', JvList edges)])"

definition topology :: "reader \<Rightarrow> int \<Rightarrow> principal \<Rightarrow> string option \<Rightarrow> (api_error, jval) result" where
  "topology rd now pr rng =
    (case (case rng of None \<Rightarrow> Inr None | Some r \<Rightarrow> (case windows now r of None \<Rightarrow> Inl (bad_range r) | Some (cur, _) \<Rightarrow> Inr (Some cur))) of
       Inl msg \<Rightarrow> Inl (bad_request msg)
     | Inr cur \<Rightarrow>
       (let window = and_pred (map_option w_pred cur) @ and_pred (env_trace_exists ''spans'' (pr_scopes pr));
            cwindow = (case cur of None \<Rightarrow> [] | Some (from, to) \<Rightarrow> '' AND c.ts_ns >= '' @ int_text from @ '' AND c.ts_ns < '' @ int_text to)
              @ and_pred (env_trace_exists ''c'' (pr_scopes pr)) in
        res_bind (query_rows rd (topology_nodes_sql window)) (\<lambda>ns.
        res_bind (query_rows rd (topology_targets_sql window)) (\<lambda>ts.
        res_bind (query_rows rd (topology_calls_sql cwindow)) (\<lambda>cs.
        res_bind (query_rows rd (topology_uses_sql window)) (\<lambda>us.
        Inr (topology_graph (ns @ ts) (cs @ us))))))))"

end
