(* ===== verification/Read_Queries_Props.thy ===== *)
theory Read_Queries_Props
  imports Read_Queries Sql_Shape
begin

text \<open>
  The queries of the read handlers are free of injections: which tokens a query consists of depends
  on which filters a request has, never on what their texts contain.
\<close>

section \<open>Fragments\<close>

lemma alike_lit_step: "is_lit l \<Longrightarrow> is_lit m \<Longrightarrow> noq a \<Longrightarrow> noq b \<Longrightarrow> alike a b \<Longrightarrow> alike (l @ a) (m @ b)"
  by (rule alike_append[OF alike_lit])

lemma lit_text_lit: "quote \<notin> set x \<Longrightarrow> is_lit (lit_text x)"
proof -
  assume x: "quote \<notin> set x"
  then have "replace_char quote [quote, quote] x = x" by (induction x) auto
  then show ?thesis using sql_string_lit[of x] by (simp add: lit_text_def sql_string_def)
qed

lemmas alike_sql_string = alike_lit_step[OF sql_string_lit sql_string_lit]
  and alike_sql_ieq = alike_lit_step[OF sql_ieq_lit sql_ieq_lit]
  and alike_sql_contains = alike_lit_step[OF sql_contains_lit sql_contains_lit]
  and alike_lit_text = alike_lit_step[OF lit_text_lit lit_text_lit]

lemmas alike_ends = alike_lit[OF sql_string_lit sql_string_lit]

text \<open>Tried in this order: the end of a text, a literal, a constant, and any other fragment.\<close>

lemmas alike_rules = alike_self alike_ends alike_sql_string alike_sql_ieq alike_sql_contains alike_lit_text alike_const alike_append

lemma alike_escape: "alike escape_clause escape_clause" "noq escape_clause"
proof -
  have e: "escape_clause = '' ESCAPE '' @ lit_text [backslash]" by (simp add: escape_clause_def lit_text_def)
  have "alike ('' ESCAPE '' @ lit_text [backslash]) ('' ESCAPE '' @ lit_text [backslash])"
    by (intro alike_const alike_lit lit_text_lit) simp_all
  then show "alike escape_clause escape_clause" by (simp only: e)
qed (simp add: escape_clause_def noq_def)

definition alike_all :: "string list \<Rightarrow> string list \<Rightarrow> bool" where
  "alike_all xs ys \<longleftrightarrow> list_all2 (\<lambda>x y. alike x y \<and> noq x \<and> noq y) xs ys"

lemma alike_all_simps [simp]: "alike_all [] []"
    "alike_all (x # xs) (y # ys) \<longleftrightarrow> alike x y \<and> noq x \<and> noq y \<and> alike_all xs ys"
  by (simp_all add: alike_all_def)

lemma alike_all_append: "alike_all xs ys \<Longrightarrow> alike_all us vs \<Longrightarrow> alike_all (xs @ us) (ys @ vs)"
  by (simp add: alike_all_def list_all2_appendI)

lemma noq_intersperse: "sep \<noteq> [] \<Longrightarrow> noq sep \<Longrightarrow> list_all noq xs \<Longrightarrow> noq (intersperse_str sep xs)"
  by (induction sep xs rule: intersperse_str.induct) (auto intro: noq_append simp: noq_Nil)

lemma alike_intersperse:
  assumes "settled False sep" and "noq sep" and "sep \<noteq> []" and "alike_all xs ys"
  shows "alike (intersperse_str sep xs) (intersperse_str sep ys) \<and> noq (intersperse_str sep xs) \<and> noq (intersperse_str sep ys)"
proof -
  from assms(4) have "list_all2 (\<lambda>x y. alike x y \<and> noq x \<and> noq y) xs ys" by (simp add: alike_all_def)
  then show ?thesis
  proof (induction rule: list_all2_induct)
    case Nil
    then show ?case by (simp add: alike_self noq_Nil)
  next
    case (Cons x xs y ys)
    show ?case
    proof (cases xs)
      case Nil
      then have "ys = []" using Cons.hyps by simp
      then show ?thesis using Nil Cons.hyps by simp
    next
      case xs: (Cons u us)
      then obtain v vs where ys: "ys = v # vs" using Cons.hyps by (cases ys) auto
      have s: "noq (sep @ intersperse_str sep xs)" "noq (sep @ intersperse_str sep ys)"
        using Cons.IH by (simp_all add: noq_append assms(2))
      have "alike (x @ sep @ intersperse_str sep xs) (y @ sep @ intersperse_str sep ys)"
        using Cons.hyps Cons.IH s by (intro alike_append alike_const assms(1)) simp_all
      moreover have "noq (x @ sep @ intersperse_str sep xs)" "noq (y @ sep @ intersperse_str sep ys)"
        using Cons.hyps s by (simp_all add: noq_append)
      ultimately show ?thesis by (simp add: xs ys)
    qed
  qed
qed

text \<open>Lists of literals are alike when they have the same length.\<close>

lemma alike_literals: "length ss = length ts \<Longrightarrow> alike (intersperse_str '', '' (map sql_string ss)) (intersperse_str '', '' (map sql_string ts))"
proof (induction ss ts rule: list_induct2)
  case (Cons s ss t ts)
  show ?case
  proof (cases ss)
    case Nil
    then show ?thesis using Cons.hyps by (simp add: alike_lit sql_string_lit)
  next
    case ss: (Cons u us)
    then obtain v vs where ts: "ts = v # vs" using Cons.hyps by (cases ts) auto
    have "alike ('', '' @ intersperse_str '', '' (map sql_string ss)) ('', '' @ intersperse_str '', '' (map sql_string ts))"
      using Cons.IH by (rule alike_const[rotated]) simp
    then have "alike (sql_string s @ '', '' @ intersperse_str '', '' (map sql_string ss)) (sql_string t @ '', '' @ intersperse_str '', '' (map sql_string ts))"
      by (rule alike_lit_step[OF sql_string_lit sql_string_lit, rotated 2]) (simp_all add: noq_def)
    then show ?thesis by (simp add: ss ts)
  qed
qed (simp add: alike_self)

lemma alike_env: "length ss = length ts \<Longrightarrow> env_scope_where col ss = Some a \<Longrightarrow> quote \<notin> set col \<Longrightarrow>
    \<exists>b. env_scope_where col ts = Some b \<and> alike a b"
proof -
  assume l: "length ss = length ts" and a: "env_scope_where col ss = Some a" and c: "quote \<notin> set col"
  have "ts \<noteq> []" using l a by (auto simp: env_scope_where_def)
  moreover have "alike (col @ '' IN ('' @ intersperse_str '', '' (map sql_string ss) @ '')'') (col @ '' IN ('' @ intersperse_str '', '' (map sql_string ts) @ '')'')"
    by (intro alike_const settled_no_quote c alike_append alike_literals[OF l] alike_self) (simp_all add: noq_def)
  ultimately show ?thesis using a by (auto simp: env_scope_where_def split: if_splits)
qed

section \<open>Logs\<close>

text \<open>Two requests that use the same filters.\<close>

definition same_attr :: "string option \<Rightarrow> string option \<Rightarrow> bool" where
  "same_attr x y \<longleftrightarrow> (given x = None \<longleftrightarrow> given y = None)"

definition same_log_filters :: "logs_params \<Rightarrow> logs_params \<Rightarrow> bool" where
  "same_log_filters p q \<longleftrightarrow> lq_range p = lq_range q \<and> same_attr (lq_severity p) (lq_severity q) \<and> same_attr (lq_service p) (lq_service q)
     \<and> same_attr (lq_q p) (lq_q q) \<and> same_attr (lq_attr p) (lq_attr q) \<and> same_attr (lq_attr_not p) (lq_attr_not q)"

lemma attr_where_alike:
  assumes "same_attr x y" and "attr_where what f x = Inr xs" and "attr_where what f y = Inr ys"
    and "\<And>k v k' v'. alike (f k v) (f k' v') \<and> noq (f k v)"
  shows "alike_all xs ys"
  using assms by (auto simp: same_attr_def attr_where_def split: option.splits prod.splits)

lemma attr_has_alike: "quote \<notin> set (fst cols) \<Longrightarrow> quote \<notin> set (snd cols) \<Longrightarrow> alike (attr_has cols k v) (attr_has cols k' v') \<and> noq (attr_has cols k v)"
  unfolding attr_has_def by (intro conjI alike_rules settled_no_quote) (simp_all add: noq_def)

lemma attr_lacks_alike: "quote \<notin> set (fst cols) \<Longrightarrow> quote \<notin> set (snd cols) \<Longrightarrow> alike (attr_lacks cols k v) (attr_lacks cols k' v') \<and> noq (attr_lacks cols k v)"
  unfolding attr_lacks_def by (intro conjI alike_rules settled_no_quote) (simp_all add: noq_def)

lemma attr_wheres_alike:
  assumes "same_attr a a'" and "same_attr n n'" and "attr_wheres a n cols = Inr xs" and "attr_wheres a' n' cols = Inr ys"
    and "quote \<notin> set (fst cols)" and "quote \<notin> set (snd cols)"
  shows "alike_all xs ys"
proof -
  obtain x1 x2 where x: "attr_where ''attr'' (attr_has cols) a = Inr x1" "attr_where ''attr_not'' (attr_lacks cols) n = Inr x2" "xs = x1 @ x2"
    using assms(3) unfolding attr_wheres_def by auto
  obtain y1 y2 where y: "attr_where ''attr'' (attr_has cols) a' = Inr y1" "attr_where ''attr_not'' (attr_lacks cols) n' = Inr y2" "ys = y1 @ y2"
    using assms(4) unfolding attr_wheres_def by auto
  have "alike_all x1 y1"
    by (rule attr_where_alike[OF assms(1) x(1) y(1)]) (rule attr_has_alike[OF assms(5,6)])
  moreover have "alike_all x2 y2"
    by (rule attr_where_alike[OF assms(2) x(2) y(2)]) (rule attr_lacks_alike[OF assms(5,6)])
  ultimately show ?thesis by (simp add: x(3) y(3) alike_all_append)
qed

lemma log_scope_alike: "length sc = length sc' \<Longrightarrow> alike_all (log_scope_where sc) (log_scope_where sc')"
proof (cases "env_scope_where ''se.target_environment'' sc")
  case None
  moreover assume "length sc = length sc'"
  ultimately have "env_scope_where ''se.target_environment'' sc' = None" by (auto simp: env_scope_where_def split: if_splits)
  then show ?thesis using None by (simp add: log_scope_where_def)
next
  case (Some a)
  assume "length sc = length sc'"
  from alike_env[OF this Some] obtain b where b: "env_scope_where ''se.target_environment'' sc' = Some b" "alike a b" by auto
  have "alike (''EXISTS (SELECT 1 FROM spans se WHERE '' @ a @ '' AND (se.trace_id = logs.trace_id OR se.experiment_id = logs.log_attrs['' @ lit_text ''experiment_id'' @ '']))'')
     (''EXISTS (SELECT 1 FROM spans se WHERE '' @ b @ '' AND (se.trace_id = logs.trace_id OR se.experiment_id = logs.log_attrs['' @ lit_text ''experiment_id'' @ '']))'')"
    by (intro b(2) alike_rules) (simp_all add: noq_def lit_text_def)
  then show ?thesis using Some b(1) by (simp add: log_scope_where_def noq_def)
qed

lemma filter_alike:
  assumes "same_attr x y" and "\<And>s t. alike (f s) (f t) \<and> noq (f s)"
  shows "alike_all (case given x of None \<Rightarrow> [] | Some s \<Rightarrow> [f s]) (case given y of None \<Rightarrow> [] | Some s \<Rightarrow> [f s])"
  using assms by (auto simp: same_attr_def split: option.splits)

lemma log_wheres_alike:
  assumes "same_log_filters p q" and "length sc = length sc'"
    and "log_wheres now p sc = Inr xs" and "log_wheres now q sc' = Inr ys"
  shows "alike_all xs ys"
proof -
  let ?sev = "\<lambda>s. ''severity_text ILIKE '' @ sql_ieq s @ escape_clause"
  let ?svc = "\<lambda>s. ''service_name = '' @ sql_string s"
  let ?body = "\<lambda>s. ''body ILIKE '' @ sql_contains s @ escape_clause"
  note same = assms(1)[unfolded same_log_filters_def]
  have f1: "alike_all (case given (lq_severity p) of None \<Rightarrow> [] | Some s \<Rightarrow> [?sev s]) (case given (lq_severity q) of None \<Rightarrow> [] | Some s \<Rightarrow> [?sev s])"
    using same by (intro filter_alike conjI alike_escape alike_rules) (simp_all add: noq_def)
  have f2: "alike_all (case given (lq_service p) of None \<Rightarrow> [] | Some s \<Rightarrow> [?svc s]) (case given (lq_service q) of None \<Rightarrow> [] | Some s \<Rightarrow> [?svc s])"
    using same by (intro filter_alike conjI alike_rules) (simp_all add: noq_def)
  obtain cur prev qw aw where p: "windows now (case lq_range p of None \<Rightarrow> ''24h'' | Some r \<Rightarrow> r) = Some (cur, prev)"
      "(case given (lq_q p) of None \<Rightarrow> Inr [] | Some q \<Rightarrow> if length q > 200 then Inl ''q too long (max 200 chars)'' else Inr [?body q]) = Inr qw"
      "attr_wheres (lq_attr p) (lq_attr_not p) (''log_attrs'', ''resource_attrs'') = Inr aw"
      "xs = ([w_pred cur] @ log_scope_where sc @ (case given (lq_severity p) of None \<Rightarrow> [] | Some s \<Rightarrow> [?sev s])
        @ (case given (lq_service p) of None \<Rightarrow> [] | Some s \<Rightarrow> [?svc s])) @ qw @ aw"
    using assms(3) unfolding log_wheres_def Let_def by (auto split: option.splits prod.splits simp del: append_Cons append_Nil append_assoc)
  obtain cur' prev' qw' aw' where q: "windows now (case lq_range q of None \<Rightarrow> ''24h'' | Some r \<Rightarrow> r) = Some (cur', prev')"
      "(case given (lq_q q) of None \<Rightarrow> Inr [] | Some q \<Rightarrow> if length q > 200 then Inl ''q too long (max 200 chars)'' else Inr [?body q]) = Inr qw'"
      "attr_wheres (lq_attr q) (lq_attr_not q) (''log_attrs'', ''resource_attrs'') = Inr aw'"
      "ys = ([w_pred cur'] @ log_scope_where sc' @ (case given (lq_severity q) of None \<Rightarrow> [] | Some s \<Rightarrow> [?sev s])
        @ (case given (lq_service q) of None \<Rightarrow> [] | Some s \<Rightarrow> [?svc s])) @ qw' @ aw'"
    using assms(4) unfolding log_wheres_def Let_def by (auto split: option.splits prod.splits simp del: append_Cons append_Nil append_assoc)
  have cur: "cur' = cur" using p(1) q(1) same by simp
  have "alike (?body s) (?body t) \<and> noq (?body s)" for s t
    by (intro conjI alike_escape alike_rules) (simp_all add: noq_def)
  then have f3: "alike_all qw qw'"
    using p(2) q(2) same by (auto simp: same_attr_def split: option.splits if_splits)
  have f4: "alike_all aw aw'"
    using attr_wheres_alike[OF _ _ p(3) q(3)] same by simp
  have w: "alike_all [w_pred cur] [w_pred cur]"
    using settled_no_quote[of "w_pred cur"] int_text_plain by (simp add: w_pred_def alike_self noq_def)
  show ?thesis
    unfolding p(4) q(4) cur by (intro alike_all_append w log_scope_alike assms(2) f1 f2 f3 f4)
qed

lemma and_sep: "settled False '' AND ''" "noq '' AND ''" "'' AND '' \<noteq> []"
  by (simp_all add: noq_def)

text \<open>C40: the logs list and the log volume are free of injections: two requests with the same window and the same
  filters present, of principals with equally many environments, are answered by queries with the same
  tokens, whatever the texts of the filters and the names of the environments contain.\<close>

theorem log_queries_have_fixed_shape:
  assumes "same_log_filters p q" and "length sc = length sc'"
    and "log_wheres now p sc = Inr xs" and "log_wheres now q sc' = Inr ys"
  shows "tokenize (logs_sql xs limit) = tokenize (logs_sql ys limit)
    \<and> tokenize (logs_volume_sql bucket_s xs) = tokenize (logs_volume_sql bucket_s ys)"
proof -
  note ws = alike_intersperse[OF and_sep log_wheres_alike[OF assms]]
  have lim: "settled False ('' ORDER BY ts_ns DESC LIMIT '' @ decimal_text limit)"
    using int_text_plain[of "int limit"] by (intro settled_no_quote) (simp add: int_text_def)
  have bucket: "settled False (bucket_expr bucket_s)"
    by (intro settled_no_quote) (simp add: bucket_expr_def Let_def int_text_plain)
  have "alike (logs_sql xs limit) (logs_sql ys limit)"
    unfolding logs_sql_def by (intro ws[THEN conjunct1] alike_rules lim) (simp_all add: noq_def lit_text_def)
  moreover have "alike (logs_volume_sql bucket_s xs) (logs_volume_sql bucket_s ys)"
    unfolding logs_volume_sql_def by (intro ws[THEN conjunct1] alike_rules bucket) (simp_all add: noq_def lit_text_def)
  ultimately show ?thesis by (simp add: alike_tokens)
qed

section \<open>Traces and runs\<close>

definition same_trace_filters :: "traces_params \<Rightarrow> traces_params \<Rightarrow> bool" where
  "same_trace_filters p q \<longleftrightarrow> tq_range p = tq_range q \<and> same_attr (tq_service p) (tq_service q) \<and> tq_min_duration_ms p = tq_min_duration_ms q
     \<and> tq_outcome p = tq_outcome q \<and> same_attr (tq_attr p) (tq_attr q) \<and> same_attr (tq_attr_not p) (tq_attr_not q)"

lemma alike_trace_exists:
  assumes "length sc = length sc'" and "quote \<notin> set alias"
  shows "alike (and_pred (env_trace_exists alias sc)) (and_pred (env_trace_exists alias sc'))"
    and "alike_all (case env_trace_exists alias sc of None \<Rightarrow> [] | Some e \<Rightarrow> [e]) (case env_trace_exists alias sc' of None \<Rightarrow> [] | Some e \<Rightarrow> [e])"
    and "noq (and_pred (env_trace_exists alias sc))"
proof -
  have "alike (and_pred (env_trace_exists alias sc)) (and_pred (env_trace_exists alias sc')) \<and>
    alike_all (case env_trace_exists alias sc of None \<Rightarrow> [] | Some e \<Rightarrow> [e]) (case env_trace_exists alias sc' of None \<Rightarrow> [] | Some e \<Rightarrow> [e]) \<and>
    noq (and_pred (env_trace_exists alias sc))"
  proof (cases "env_scope_where ''se.target_environment'' sc")
    case None
    then have "env_scope_where ''se.target_environment'' sc' = None" using assms(1) by (auto simp: env_scope_where_def split: if_splits)
    then show ?thesis using None by (simp add: env_trace_exists_def and_pred_def alike_self noq_def)
  next
    case (Some a)
    from alike_env[OF assms(1) Some] obtain b where b: "env_scope_where ''se.target_environment'' sc' = Some b" "alike a b" by auto
    have "alike (''EXISTS (SELECT 1 FROM spans se WHERE se.trace_id = '' @ alias @ ''.trace_id AND '' @ a @ '')'')
       (''EXISTS (SELECT 1 FROM spans se WHERE se.trace_id = '' @ alias @ ''.trace_id AND '' @ b @ '')'')" (is "alike ?x ?y")
      by (intro b(2) alike_rules settled_no_quote[OF assms(2)]) (simp_all add: noq_def)
    moreover from this have "alike ('' AND '' @ ?x) ('' AND '' @ ?y)" by (rule alike_const[rotated]) simp
    ultimately show ?thesis using Some b(1) by (simp add: env_trace_exists_def and_pred_def noq_def)
  qed
  then show "alike (and_pred (env_trace_exists alias sc)) (and_pred (env_trace_exists alias sc'))"
    and "alike_all (case env_trace_exists alias sc of None \<Rightarrow> [] | Some e \<Rightarrow> [e]) (case env_trace_exists alias sc' of None \<Rightarrow> [] | Some e \<Rightarrow> [e])"
    and "noq (and_pred (env_trace_exists alias sc))" by blast+
qed

lemma trace_attr_alike:
  assumes "same_attr x y" and "trace_attr neg x = Inr xs" and "trace_attr neg y = Inr ys"
  shows "alike_all xs ys"
proof (rule attr_where_alike[OF assms[unfolded trace_attr_def]])
  fix k v k' v'
  have c: "settled False (if neg then ''NOT '' else [])" by simp
  have "alike (attr_exists neg k v) (attr_exists neg k' v')"
    unfolding attr_exists_def by (rule alike_const[OF c], intro alike_rules) (simp_all add: noq_def)
  moreover have "noq (attr_exists neg k v)" by (simp add: attr_exists_def noq_def)
  ultimately show "alike (attr_exists neg k v) (attr_exists neg k' v') \<and> noq (attr_exists neg k v)" by blast
qed

lemma outcome_alike: "outcome_where x = Inr w \<Longrightarrow> alike_all (case w of None \<Rightarrow> [] | Some s \<Rightarrow> [s]) (case w of None \<Rightarrow> [] | Some s \<Rightarrow> [s])"
proof -
  assume w: "outcome_where x = Inr w"
  have a: "alike (''l.log_attrs['' @ lit_text ''status'' @ ''] = '' @ sql_string s) (''l.log_attrs['' @ lit_text ''status'' @ ''] = '' @ sql_string s)" for s
    by (intro alike_const alike_lit_text alike_ends) (simp_all add: noq_def)
  have b: "alike (''l.log_attrs['' @ lit_text ''status'' @ ''] IS NULL'') (''l.log_attrs['' @ lit_text ''status'' @ ''] IS NULL'')"
    by (rule alike_self) (simp add: lit_text_def)
  show ?thesis
    using w a b by (cases w) (auto simp: outcome_where_def Let_def noq_def split: option.splits if_splits simp del: append_Cons append_Nil)
qed

lemma trace_wheres_alike:
  assumes "same_trace_filters p q" and "length sc = length sc'"
    and "trace_wheres p sc = Inr xs" and "trace_wheres q sc' = Inr ys"
  shows "alike_all xs ys"
proof -
  let ?svc = "\<lambda>s. ''EXISTS (SELECT 1 FROM spans sx WHERE sx.trace_id = t.trace_id AND sx.service_name = '' @ sql_string s @ '')''"
  let ?dur = "\<lambda>p. case tq_min_duration_ms p of None \<Rightarrow> Inr []
      | Some ms \<Rightarrow> if is_finite ms \<and> f64_ge ms (Fin 0)
          then Inr [''t.duration_ns >= '' @ int_text (f64_to_i64 (f64_mul ms (Fin 1000000)))]
          else Inl ''min_duration_ms must be a non-negative number''"
  note same = assms(1)[unfolded same_trace_filters_def]
  obtain mw ow aw nw where p: "?dur p = Inr mw" "outcome_where (tq_outcome p) = Inr ow" "trace_attr False (tq_attr p) = Inr aw"
      "trace_attr True (tq_attr_not p) = Inr nw"
      "xs = (case env_trace_exists ''t'' sc of None \<Rightarrow> [] | Some e \<Rightarrow> [e]) @ (case given (tq_service p) of None \<Rightarrow> [] | Some s \<Rightarrow> [?svc s])
        @ mw @ (case ow of None \<Rightarrow> [] | Some w \<Rightarrow> [w]) @ aw @ nw"
    using assms(3) unfolding trace_wheres_def res_bind_Inr_iff by (elim exE conjE) (rule that, assumption+, simp)
  obtain mw' ow' aw' nw' where q: "?dur q = Inr mw'" "outcome_where (tq_outcome q) = Inr ow'" "trace_attr False (tq_attr q) = Inr aw'"
      "trace_attr True (tq_attr_not q) = Inr nw'"
      "ys = (case env_trace_exists ''t'' sc' of None \<Rightarrow> [] | Some e \<Rightarrow> [e]) @ (case given (tq_service q) of None \<Rightarrow> [] | Some s \<Rightarrow> [?svc s])
        @ mw' @ (case ow' of None \<Rightarrow> [] | Some w \<Rightarrow> [w]) @ aw' @ nw'"
    using assms(4) unfolding trace_wheres_def res_bind_Inr_iff by (elim exE conjE) (rule that, assumption+, simp)
  have f1: "alike_all (case given (tq_service p) of None \<Rightarrow> [] | Some s \<Rightarrow> [?svc s]) (case given (tq_service q) of None \<Rightarrow> [] | Some s \<Rightarrow> [?svc s])"
    using same by (intro filter_alike conjI alike_rules) (simp_all add: noq_def)
  have mw: "mw' = mw" and ow: "ow' = ow" using p(1,2) q(1,2) same by simp_all
  have "alike_all mw mw"
    using p(1) settled_no_quote[of "''t.duration_ns >= '' @ int_text i" for i] int_text_plain
    by (auto simp: alike_self noq_def split: option.splits if_splits)
  then show ?thesis
    unfolding p(5) q(5) mw ow using same
    by (intro alike_all_append f1 alike_trace_exists(2) assms(2) outcome_alike[OF p(2)]
        trace_attr_alike[OF _ p(3) q(3)] trace_attr_alike[OF _ p(4) q(4)]) simp_all
qed

lemma span_window_quoteless: "span_window now r = Inr (Some w) \<Longrightarrow> quote \<notin> set w"
  using int_text_plain by (auto simp: span_window_def w_pred_def split: option.splits prod.splits)

text \<open>The list of traces, the durations, one trace with its logs, and the authorization of a run are free of
  injections: the tokens of their queries depend neither on the texts of the filters and identifiers nor on the names of
  the environments.\<close>

theorem trace_queries_have_fixed_shape:
  assumes "same_trace_filters p q" and "length sc = length sc'" and "span_window now rng = Inr sw"
    and "trace_wheres p sc = Inr xs" and "trace_wheres q sc' = Inr ys"
    and "durations_where now sc rng = Inr d" and "durations_where now sc' rng = Inr d'"
  shows "tokenize (traces_sql sw xs) = tokenize (traces_sql sw ys)
    \<and> tokenize (durations_points_sql d) = tokenize (durations_points_sql d')
    \<and> tokenize (trace_spans_sql sc i) = tokenize (trace_spans_sql sc' j)
    \<and> tokenize (trace_logs_sql i) = tokenize (trace_logs_sql j)
    \<and> tokenize (authorize_run_sql sc i) = tokenize (authorize_run_sql sc' j)"
proof (intro conjI)
  have ws: "alike (intersperse_str '' AND '' xs) (intersperse_str '' AND '' ys)"
    using alike_intersperse[OF and_sep trace_wheres_alike[OF assms(1,2,4,5)]] by blast
  have empty: "xs = [] \<longleftrightarrow> ys = []"
    using trace_wheres_alike[OF assms(1,2,4,5)] by (auto simp: alike_all_def)
  have sw: "settled False (case sw of None \<Rightarrow> ''TRUE'' | Some w \<Rightarrow> w)"
    using span_window_quoteless assms(3) settled_no_quote by (cases sw) auto
  have "alike (if xs = [] then [] else ''WHERE '' @ intersperse_str '' AND '' xs) (if ys = [] then [] else ''WHERE '' @ intersperse_str '' AND '' ys)"
    using ws empty by (cases "xs = []") (auto intro: alike_self alike_const[of "''WHERE ''"] simp del: append_Cons)
  moreover have "noq (if xs = [] then [] else ''WHERE '' @ intersperse_str '' AND '' xs)" for xs
    by (simp add: noq_def)
  ultimately have "alike (traces_sql sw xs) (traces_sql sw ys)"
    unfolding traces_sql_def by (intro sw alike_rules) (simp_all add: noq_def)
  then show "tokenize (traces_sql sw xs) = tokenize (traces_sql sw ys)" by (rule alike_tokens)
  have q: "quote \<notin> set ''spans''" by simp
  note env = alike_trace_exists[OF assms(2) q]
  have env': "noq (and_pred (env_trace_exists ''spans'' sc'))" using alike_trace_exists(3)[OF assms(2)[symmetric] q] .
  have swq: "alike (and_pred sw) (and_pred sw)" "noq (and_pred sw)"
    using span_window_quoteless assms(3) settled_no_quote by (cases sw; auto simp: and_pred_def noq_def intro!: alike_self)+
  have d: "d = ''parent_span_id IS NULL'' @ and_pred (env_trace_exists ''spans'' sc) @ and_pred sw"
    "d' = ''parent_span_id IS NULL'' @ and_pred (env_trace_exists ''spans'' sc') @ and_pred sw"
    using assms(3,6,7) by (simp_all add: durations_where_def)
  have "alike d d'" unfolding d by (intro alike_const alike_append env(1) swq) simp
  moreover have "noq d" "noq d'" unfolding d by (simp_all add: noq_def)
  ultimately have "alike (durations_points_sql d) (durations_points_sql d')"
    unfolding durations_points_sql_def by (intro alike_const alike_append alike_self) (simp_all add: noq_def)
  then show "tokenize (durations_points_sql d) = tokenize (durations_points_sql d')" by (rule alike_tokens)
  have "alike (trace_spans_sql sc i) (trace_spans_sql sc' j)"
    unfolding trace_spans_sql_def
    by (intro alike_sql_string alike_const alike_append env(1) alike_self noq_append env(3) env') (simp_all add: noq_def)
  then show "tokenize (trace_spans_sql sc i) = tokenize (trace_spans_sql sc' j)" by (rule alike_tokens)
  have "alike (trace_logs_sql i) (trace_logs_sql j)"
    unfolding trace_logs_sql_def by (intro alike_sql_string alike_const alike_self) (simp_all add: noq_def)
  then show "tokenize (trace_logs_sql i) = tokenize (trace_logs_sql j)" by (rule alike_tokens)
  have "alike (run_scope_sql sc) (run_scope_sql sc')"
  proof (cases "sc = []")
    case True
    then have "sc' = []" using assms(2) by simp
    then show ?thesis using True by (simp add: run_scope_sql_def alike_self)
  next
    case False
    then have n: "sc' \<noteq> []" using assms(2) by auto
    have "alike (intersperse_str '', '' (map sql_string sc) @ '')'') (intersperse_str '', '' (map sql_string sc') @ '')'')"
      by (intro alike_append alike_literals assms(2) alike_self) (simp_all add: noq_def)
    note run = this
    show ?thesis
      unfolding run_scope_sql_def if_not_P[OF False] if_not_P[OF n]
      by (intro run alike_lit_text alike_const) (simp_all add: noq_def)
  qed
  moreover have "noq (run_scope_sql sc)" for sc by (simp add: run_scope_sql_def noq_def)
  ultimately have "alike (authorize_run_sql sc i) (authorize_run_sql sc' j)"
    unfolding authorize_run_sql_def
    by (intro alike_sql_string alike_const alike_append[of "run_scope_sql sc"] alike_self) (simp_all add: noq_def)
  then show "tokenize (authorize_run_sql sc i) = tokenize (authorize_run_sql sc' j)"
    by (rule alike_tokens)
qed

end
