(* ===== verification/Sql_Examples.thy ===== *)
theory Sql_Examples
  imports Ask_Props Read_Queries_Props
begin

text \<open>
  The theorems on the SQL guard, the analytics question and the read queries applied to concrete queries, and the
  behaviours of the guard that do not meet its own description.
\<close>

section \<open>The guard\<close>

definition cte_query :: string where
  "cte_query = ''WITH x AS (SELECT * FROM spans) SELECT count(*) FROM x''"

lemma cte_query_accepted: "validate_generated_sql cte_query ALLOWED_TABLES = Inr ()"
  unfolding cte_query_def by code_simp


lemma limit_is_injected_once_witness: "inject_limit (inject_limit ''SELECT 1 FROM spans;'' 500) 7 = ''SELECT 1 FROM spans LIMIT 500''"
proof -
  have "closed ''SELECT 1 FROM spans;''" by (simp add: closed_def) code_simp
  then have "inject_limit (inject_limit ''SELECT 1 FROM spans;'' 500) 7 = inject_limit ''SELECT 1 FROM spans;'' 500"
    using limit_is_injected_once by blast
  moreover have "inject_limit ''SELECT 1 FROM spans;'' 500 = ''SELECT 1 FROM spans LIMIT 500''"
    by code_simp
  ultimately show ?thesis by simp
qed

definition dev_pred :: string where
  "dev_pred = ''target_environment IN ('' @ lit_text ''dev'' @ '')''"

lemma dev_pred_plain: "list_all plain_pred (map (\<lambda>(t, p). (lower t, p)) [(''spans'', dev_pred)])"
proof -
  have "dev_pred = scope_predicate [''dev'']" by (simp add: dev_pred_def scope_predicate_def sql_string_def lit_text_def)
  then show ?thesis using plain_scope_predicate[of "[''dev'']"] by simp
qed

definition cte_scoped :: string where
  "cte_scoped = ''WITH x AS (SELECT * FROM (SELECT * FROM spans WHERE '' @ dev_pred @ '') AS spans) SELECT count(*) FROM x''"

lemma cte_query_scoped: "scope_tables cte_query [(''spans'', dev_pred)] = Inr cte_scoped"
  unfolding cte_query_def cte_scoped_def dev_pred_def by code_simp

lemma scoping_is_substitution_witness:
  "confine (scope_ctes cte_query) (map (\<lambda>(t, p). (lower t, p)) [(''spans'', dev_pred)]) (lex cte_query) = Inr (lex cte_scoped)"
  using scoping_is_substitution[of cte_query "[(''spans'', dev_pred)]"] dev_pred_plain cte_query_scoped by blast

lemma scoped_references_are_filtered_witness: "prefix (''WHERE'' # tokenize dev_pred @ ['')'']) (drop 12 (tokenize cte_scoped))"
proof -
  let ?ts = "tokenize cte_scoped"
  have ts: "?ts = take 10 ?ts @ ''FROM'' # ''spans'' # drop 12 ?ts" unfolding cte_scoped_def dev_pred_def by code_simp
  have f: "is_from ''FROM''" "word_char (hd ''spans'')" by code_simp+
  have "lower ''spans'' \<notin> set (scope_ctes cte_query)" unfolding cte_query_def by code_simp
  then show ?thesis
    using scoped_references_are_filtered[OF dev_pred_plain cte_query_scoped ts f] by auto
qed

section \<open>Questions\<close>

definition dev_operator :: principal where
  "dev_operator = \<lparr> pr_user_id = ''u1'', pr_username = ''dev'', pr_role = Viewer, pr_scopes = [''dev''], pr_must_change = False, pr_synthetic = False \<rparr>"

definition fenced_reply :: string where
  "fenced_reply = fence @ ''sql SELECT count(*) FROM spans;'' @ fence"

definition dev_count :: string where
  "dev_count = ''SELECT count(*) FROM (SELECT * FROM spans WHERE '' @ dev_pred @ '') AS spans LIMIT 500''"

lemma fenced_asked: "ask_sql (\<lambda>_. LlmReply fenced_reply) dev_operator ''How big is the lake?'' = Inr (dev_count, ''llm'')"
  unfolding fenced_reply_def dev_operator_def dev_count_def dev_pred_def by code_simp


lemma scope_predicate_roundtrip_witness:
  "literal_values (lex (scope_predicate [''dev'', ''it'' @ [quote] @ '')s''])) = [''dev'', ''it'' @ [quote] @ '')s'']"
  using scope_predicate_roundtrip[of "[''dev'', ''it'' @ [quote] @ '')s'']"] by simp

text \<open>The curated queries pass the guard (the test \<open>golden_sql_passes_the_guard\<close>).\<close>

definition passes :: "nat \<Rightarrow> bool" where
  "passes i \<longleftrightarrow> validate_generated_sql (snd (GOLDEN ! i)) ALLOWED_TABLES = Inr ()"

lemma golden_0: "passes 0"
  by code_simp

lemma golden_1: "passes 1"
  by code_simp

lemma golden_2: "passes 2"
  by code_simp

lemma golden_3: "passes 3"
  by code_simp

lemma golden_4: "passes 4"
  by code_simp

lemma golden_5: "passes 5"
  by code_simp

lemma golden_sql_passes_the_guard: "list_all (\<lambda>(q, sql). validate_generated_sql sql ALLOWED_TABLES = Inr ()) GOLDEN"
  using golden_0 golden_1 golden_2 golden_3 golden_4 golden_5
  by (simp add: passes_def GOLDEN_def del: append_Cons append_Nil)

section \<open>What the guard lets through\<close>

text \<open>A second table behind a comma is neither compared with the allow-list nor scoped: a principal confined to one
  environment gets the password hashes of all users, with a reply of the model it can ask for.\<close>

definition comma_reply :: string where
  "comma_reply = ''SELECT u.username, u.password_hash FROM spans, users u''"

lemma comma_join_reads_any_table:
  "ask_sql (\<lambda>_. LlmReply comma_reply) dev_operator ''Who is there?'' =
    Inr (''SELECT u.username, u.password_hash FROM (SELECT * FROM spans WHERE '' @ dev_pred @ '') AS spans, users u LIMIT 500'', ''llm'')"
  unfolding comma_reply_def dev_operator_def dev_pred_def by code_simp

text \<open>The same with the one table that is allowed: the second reference keeps its rows of every environment.\<close>

lemma comma_join_leaves_the_scope:
  "ask_sql (\<lambda>_. LlmReply ''SELECT t.* FROM spans s, spans t'') dev_operator ''What runs?'' =
    Inr (''SELECT t.* FROM (SELECT * FROM spans WHERE '' @ dev_pred @ '') s, spans t LIMIT 500'', ''llm'')"
  unfolding dev_operator_def dev_pred_def by code_simp

text \<open>A table behind an opening parenthesis is not compared with the allow-list, and a quoted function name is not seen as a
  call.\<close>

lemma parenthesized_table_accepted: "validate_generated_sql ''SELECT * FROM (users CROSS JOIN spans)'' ALLOWED_TABLES = Inr ()"
  by code_simp

definition quoted_call :: string where
  "quoted_call = ''SELECT '' @ [CHR 0x22] @ ''read_text'' @ [CHR 0x22] @ ''('' @ lit_text ''/proc/self/environ'' @ '') FROM spans''"

lemma quoted_function_accepted: "validate_generated_sql quoted_call ALLOWED_TABLES = Inr ()"
  unfolding quoted_call_def by code_simp

section \<open>Read queries\<close>

definition no_logs_filter :: logs_params where
  "no_logs_filter = \<lparr> lq_range = None, lq_severity = None, lq_service = None, lq_q = None, lq_attr = None, lq_attr_not = None \<rparr>"

definition mild_logs :: logs_params where
  "mild_logs = no_logs_filter\<lparr> lq_service := Some ''api'', lq_attr := Some ''k=v'' \<rparr>"

definition hostile_logs :: logs_params where
  "hostile_logs = no_logs_filter\<lparr> lq_service := Some ([quote] @ '' OR 1=1; DROP TABLE logs --''), lq_attr := Some ([quote] @ '']=1 OR '' @ [quote] @ ''a=b'') \<rparr>"

lemma log_queries_have_fixed_shape_witness: "\<exists>xs ys. log_wheres 1000 mild_logs [''dev''] = Inr xs
    \<and> log_wheres 1000 hostile_logs [[quote]] = Inr ys \<and> tokenize (logs_sql xs 10) = tokenize (logs_sql ys 10)"
proof -
  have "\<exists>xs. log_wheres 1000 mild_logs [''dev''] = Inr xs" "\<exists>ys. log_wheres 1000 hostile_logs [[quote]] = Inr ys"
    by (simp_all add: log_wheres_def mild_logs_def hostile_logs_def no_logs_filter_def windows_def parse_range_def
        given_def attr_wheres_def attr_where_def attr_kv_def Let_def)
  then obtain xs ys where w: "log_wheres 1000 mild_logs [''dev''] = Inr xs" "log_wheres 1000 hostile_logs [[quote]] = Inr ys" by blast
  have "same_log_filters mild_logs hostile_logs"
    by (simp add: same_log_filters_def same_attr_def given_def mild_logs_def hostile_logs_def no_logs_filter_def)
  from log_queries_have_fixed_shape[OF this _ w, of 10 300] w show ?thesis by auto
qed

definition trace_filter :: "string \<Rightarrow> string \<Rightarrow> traces_params" where
  "trace_filter s a = \<lparr> tq_range = Some ''7d'', tq_service = Some s, tq_min_duration_ms = None, tq_outcome = Some ''Failed'', tq_attr = Some a, tq_attr_not = None \<rparr>"

lemma failed_outcome: "outcome_where (Some ''Failed'') = Inr (Some (''l.log_attrs['' @ lit_text ''status'' @ ''] = '' @ lit_text ''Failed''))"
  by code_simp

lemma trace_queries_have_fixed_shape_witness: "\<exists>sw xs ys. trace_wheres (trace_filter ''api'' ''k=v'') [''dev''] = Inr xs
    \<and> trace_wheres (trace_filter [quote] ([quote] @ ''='' @ [quote])) [[quote]] = Inr ys \<and> tokenize (traces_sql sw xs) = tokenize (traces_sql sw ys)"
proof -
  have "\<exists>sw. span_window 1000 (Some ''7d'') = Inr sw" "\<exists>xs. trace_wheres (trace_filter ''api'' ''k=v'') [''dev''] = Inr xs"
    "\<exists>ys. trace_wheres (trace_filter [quote] ([quote] @ ''='' @ [quote])) [[quote]] = Inr ys"
    "\<exists>d. durations_where 1000 [''dev''] (Some ''7d'') = Inr d" "\<exists>d. durations_where 1000 [[quote]] (Some ''7d'') = Inr d"
    by (simp_all add: span_window_def durations_where_def trace_wheres_def trace_filter_def windows_def parse_range_def
        given_def trace_attr_def attr_where_def attr_kv_def failed_outcome Let_def)
  then obtain sw xs ys d d' where w: "span_window 1000 (Some ''7d'') = Inr sw" "trace_wheres (trace_filter ''api'' ''k=v'') [''dev''] = Inr xs"
    "trace_wheres (trace_filter [quote] ([quote] @ ''='' @ [quote])) [[quote]] = Inr ys"
    "durations_where 1000 [''dev''] (Some ''7d'') = Inr d" "durations_where 1000 [[quote]] (Some ''7d'') = Inr d'" by blast
  have "same_trace_filters (trace_filter ''api'' ''k=v'') (trace_filter [quote] ([quote] @ ''='' @ [quote]))"
    by (simp add: same_trace_filters_def same_attr_def given_def trace_filter_def)
  from trace_queries_have_fixed_shape[OF this _ w] w show ?thesis by auto
qed

end
