(* ===== verification/Campaign.thy ===== *)
theory Campaign
  imports Queue_Props Float64
begin

text \<open>
  Game day campaigns of the daemon (\<open>tumult-ingest/src/gamedays.rs\<close>): a campaign is a parent run whose
  definition lists experiments; at every tick the supervisor looks at each active parent and enqueues its
  next experiment as a child run, waits, or finishes the parent. The JSON of a campaign's definition and
  parameters is read by the functions of \<open>campaign_codec\<close>; fresh identifiers are arguments.
\<close>

section \<open>Campaigns\<close>

record envelope =
  ev_steps :: "string option list"  \<comment> \<open>\<open>registry_id\<close> of each experiment, where it is a string\<close>
  ev_threshold :: "f64 option"  \<comment> \<open>\<open>scoring.pass_threshold\<close>, where it is a number\<close>

record campaign_codec =
  cc_envelope :: "string \<Rightarrow> (string, envelope) result"
  cc_env :: "string \<Rightarrow> string option"  \<comment> \<open>\<open>env\<close> of the parameters, where it is a string\<close>

definition default_threshold :: f64 where
  "default_threshold = Fin (3 / 4)"

definition pass_threshold :: "envelope \<Rightarrow> f64" where
  "pass_threshold v = (case ev_threshold v of None \<Rightarrow> default_threshold | Some t \<Rightarrow> t)"

definition step_registry :: "envelope \<Rightarrow> nat \<Rightarrow> string" where
  "step_registry v i = (case ev_steps v ! i of None \<Rightarrow> [] | Some g \<Rightarrow> g)"

definition is_terminal :: "run_row \<Rightarrow> bool" where
  "is_terminal r \<longleftrightarrow> terminal (run_st r)"

definition campaign_outcome :: "run_row list \<Rightarrow> f64 \<Rightarrow> run_state" where
  "campaign_outcome children threshold =
    (if list_ex (\<lambda>c. run_st c = RFailed \<or> run_st c = Orphaned) children then RFailed
     else (let passed = length (filter (\<lambda>c. run_st c = Passed) children);
               fraction = f64_ratio passed (max 1 (length children)) in
       if f64_ge fraction threshold then Passed else RDeviated))"

text \<open>\<open>SELECT * FROM runs WHERE gameday_id = ? ORDER BY queued_at_ns\<close>.\<close>

definition children_of :: "string \<Rightarrow> db \<Rightarrow> run_row list" where
  "children_of pid d = sort_key run_queued_at (filter (\<lambda>r. run_gameday_id r = Some pid) (runs d))"

definition finish_parent :: "env \<Rightarrow> string \<Rightarrow> run_state \<Rightarrow> (qstate, string, unit) comp" where
  "finish_parent E pid outcome = on_store (finish_run E pid outcome None (Some ''not_needed'') None)"

text \<open>The closure that links the child and starts the parent: two writes, no transaction.\<close>

definition link_child :: "env \<Rightarrow> run_row \<Rightarrow> string \<Rightarrow> (qstate, string, unit) comp" where
  "link_child E parent child = on_store (seqc (set_run_gameday E child (run_id parent))
     (if run_st parent = Queued then set_run_state_with E (run_id parent) Running (Some ''campaign_started'') None None else ret ()))"

definition campaign_env :: "campaign_codec \<Rightarrow> run_row \<Rightarrow> string" where
  "campaign_env C parent = (case Option.bind (run_params_json parent) (cc_env C) of None \<Rightarrow> ''dev'' | Some e \<Rightarrow> e)"

definition campaign_actor :: "audit_row list \<Rightarrow> string option" where
  "campaign_actor trail = Option.bind (find (\<lambda>a. au_event a = ''enqueued'') trail) au_actor"

text \<open>The next experiment through the normal run path, up to the identifier of its run (\<open>None\<close> when the queue is full).
  \<open>child\<close> is the fresh identifier.\<close>

definition create_child :: "env \<Rightarrow> engine \<Rightarrow> campaign_codec \<Rightarrow> string \<Rightarrow> run_row \<Rightarrow> string \<Rightarrow> (qstate, string, string option) comp" where
  "create_child E G C child parent registry_id =
    bindc (on_store (registry_definition E registry_id)) (\<lambda>def. case def of
      None \<Rightarrow> fail (''campaign step registry row '' @ registry_id @ '' missing'')
    | Some g \<Rightarrow>
      (let env = campaign_env C parent in
       bindc (on_store (run_audit_trail E (run_id parent))) (\<lambda>trail.
       bindc (from_result (map_err refusal_str (actor_requires_binding (eng_users G) (campaign_actor trail) env))) (\<lambda>require_binding.
       bindc (from_result (map_err (\<lambda>_. ''campaign definition failed to resolve; check definition and configured sources'')
          (prepare_run G (reg_definition_toon g) Map.empty))) (\<lambda>(x, injected).
       bindc (from_result (map_err refusal_str
          (classify_execution (eng_execution_hash G) (eng_bindings G) x injected env None require_binding))) (\<lambda>tier.
       bindc (from_result (map_err refusal_str (eng_execution_hash G x injected))) (\<lambda>hash q.
         (let request = \<lparr> req_registry_id = reg_id g, req_definition_toon = reg_definition_toon g, req_vars = Map.empty,
                req_env = env, req_target = None \<rparr> in
          case (if tier = T0 then enqueue_checked E G child request (campaign_actor trail) (Some hash)
                else request_gated_checked E G child request tier (campaign_actor trail) (Some hash)) q of
            (Inl EFull, q') \<Rightarrow> (Inr None, q')
          | (Inl (EStore e), q') \<Rightarrow> (Inl e, q')
          | (Inr c, q') \<Rightarrow> (Inr (Some c), q')))))))))"

definition dispatch_step :: "env \<Rightarrow> engine \<Rightarrow> campaign_codec \<Rightarrow> string \<Rightarrow> run_row \<Rightarrow> string \<Rightarrow> (qstate, string, nat) comp" where
  "dispatch_step E G C child parent registry_id = bindc (create_child E G C child parent registry_id) (\<lambda>created. case created of
      None \<Rightarrow> ret 0
    | Some c \<Rightarrow> seqc (link_child E parent c) (ret 1))"

definition advance_one :: "env \<Rightarrow> engine \<Rightarrow> campaign_codec \<Rightarrow> string \<Rightarrow> run_row \<times> string \<Rightarrow> (qstate, string, nat) comp" where
  "advance_one E G C child pd = (case pd of (parent, definition_json) \<Rightarrow>
    bindc (from_result (cc_envelope C definition_json)) (\<lambda>v.
    bindc (fresh_read E (query E (children_of (run_id parent)))) (\<lambda>children.
      if length (ev_steps v) \<le> length children then
        (if list_all is_terminal children
         then seqc (finish_parent E (run_id parent) (campaign_outcome children (pass_threshold v))) (ret 0) else ret 0)
      else if children \<noteq> [] \<and> \<not> is_terminal (last children) then ret 0
      else dispatch_step E G C child parent (step_registry v (length children)))))"

text \<open>The active parents, joined with their definitions.\<close>

definition active_parents :: "db \<Rightarrow> (run_row \<times> string) list" where
  "active_parents d = concat (map (\<lambda>r. map (\<lambda>g. (r, reg_definition_toon g))
      (filter (\<lambda>g. reg_id g = run_registry_id r \<and> reg_gameday g) (registry d)))
    (filter (\<lambda>r. run_gameday_id r = None \<and> (run_st r = Queued \<or> run_st r = Running)) (runs d)))"

text \<open>A campaign that cannot be advanced is logged and skipped.\<close>

fun advance_all :: "env \<Rightarrow> engine \<Rightarrow> campaign_codec \<Rightarrow> (nat \<Rightarrow> string) \<Rightarrow> nat \<Rightarrow> (run_row \<times> string) list \<Rightarrow> qstate \<Rightarrow> nat \<times> qstate" where
  "advance_all E G C fresh k [] q = (0, q)"
| "advance_all E G C fresh k (p # ps) q = (case advance_one E G C (fresh k) p q of (r, q1) \<Rightarrow>
     (case advance_all E G C fresh (k + 1) ps q1 of (n, q2) \<Rightarrow>
       ((case r of Inr m \<Rightarrow> m | Inl e \<Rightarrow> 0) + n, q2)))"

definition advance_campaigns :: "env \<Rightarrow> engine \<Rightarrow> campaign_codec \<Rightarrow> (nat \<Rightarrow> string) \<Rightarrow> (qstate, string, nat) comp" where
  "advance_campaigns E G C fresh = bindc (fresh_read E (query E active_parents)) (\<lambda>ps q.
     case advance_all E G C fresh 0 ps q of (n, q') \<Rightarrow> (Inr n, q'))"

section \<open>Starting a campaign\<close>

text \<open>The write of \<open>start_campaign\<close> (\<open>tumult-api/src/gamedays.rs\<close>): the conflict check and the insertion in one closure on the
  single writer; the answer is whether there was a conflict.\<close>

definition insert_campaign :: "env \<Rightarrow> new_run \<Rightarrow> bool writer" where
  "insert_campaign E r = bindc (active_gameday_campaign E (nr_registry_id r)) (\<lambda>found.
     if found \<noteq> None then ret True else seqc (insert_run E r) (ret False))"

end
