(* ===== verification/Campaign_Props.thy ===== *)
theory Campaign_Props
  imports Campaign Daemon_Steps
begin

text \<open>
  A campaign runs its experiments one at a time and in order. The supervisor's tick is cut into the steps
  between which the daemon's workers, the sweeper and the API write: reading the children, creating the
  next run, linking it, finishing the parent.
\<close>

section \<open>What the others may do\<close>

text \<open>Rows are kept with their identity, definition, time and link, terminal rows stay terminal, and new rows are
  no children of the campaign.\<close>

definition kept_row :: "run_row \<Rightarrow> run_row \<Rightarrow> bool" where
  "kept_row r r' \<longleftrightarrow> run_id r' = run_id r \<and> run_registry_id r' = run_registry_id r \<and> run_queued_at r' = run_queued_at r
     \<and> run_gameday_id r' = run_gameday_id r \<and> (is_terminal r \<longrightarrow> is_terminal r')"

definition other_work :: "string \<Rightarrow> store \<Rightarrow> store \<Rightarrow> bool" where
  "other_work pid s s' \<longleftrightarrow> tick s \<le> tick s' \<and> (\<exists>zs ws. runs (data s') = zs @ ws \<and> list_all2 kept_row (runs (data s)) zs
     \<and> (\<forall>w \<in> set ws. run_gameday_id w = None \<and> run_id w \<notin> run_id ` set (runs (data s))))"

datatype phase = PIdle | PChosen nat | PCreated string

inductive campaign_step :: "env \<Rightarrow> engine \<Rightarrow> campaign_codec \<Rightarrow> envelope \<Rightarrow> string \<Rightarrow> phase \<times> qstate \<Rightarrow> phase \<times> qstate \<Rightarrow> bool"
  for E G C v pid where
  choose: "fresh_read E (query E (children_of pid)) q = (Inr cs, q') \<Longrightarrow> length cs < length (ev_steps v) \<Longrightarrow>
    cs = [] \<or> is_terminal (last cs) \<Longrightarrow> campaign_step E G C v pid (PIdle, q) (PChosen (length cs), q')"
| create: "run_id parent = pid \<Longrightarrow> create_child E G C child parent (step_registry v k) q = (r, q') \<Longrightarrow> child \<notin> run_id ` set (runs (data (q_store q))) \<Longrightarrow>
    campaign_step E G C v pid (PChosen k, q) (case r of Inr (Some c) \<Rightarrow> PCreated c | _ \<Rightarrow> PIdle, q')"
| link: "run_id parent = pid \<Longrightarrow> link_child E parent c q = (r, q') \<Longrightarrow> campaign_step E G C v pid (PCreated c, q) (PIdle, q')"
| finish: "fresh_read E (query E (children_of pid)) q = (Inr cs, q1) \<Longrightarrow> list_all is_terminal cs \<Longrightarrow> length (ev_steps v) \<le> length cs \<Longrightarrow>
    finish_parent E pid (campaign_outcome cs (pass_threshold v)) q1 = (r, q') \<Longrightarrow> campaign_step E G C v pid (PIdle, q) (PIdle, q')"
| crash: "campaign_step E G C v pid (p, q) (PIdle, q)"
| other: "other_work pid (q_store q) (q_store q') \<Longrightarrow> campaign_step E G C v pid (p, q) (p, q')"

inductive_cases campaign_stepE: "campaign_step E G C v pid s s'"

section \<open>The invariant\<close>

definition kids :: "string \<Rightarrow> store \<Rightarrow> run_row list" where
  "kids pid s = filter (\<lambda>r. run_gameday_id r = Some pid) (runs (data s))"

definition in_order :: "env \<Rightarrow> envelope \<Rightarrow> string \<Rightarrow> store \<Rightarrow> bool" where
  "in_order E v pid s \<longleftrightarrow> map run_registry_id (kids pid s) = map (step_registry v) [0..<length (kids pid s)]
     \<and> length (kids pid s) \<le> length (ev_steps v) \<and> (\<forall>k \<in> set (butlast (kids pid s)). is_terminal k)
     \<and> sorted (map run_queued_at (kids pid s)) \<and> (\<forall>k \<in> set (kids pid s). run_queued_at k \<le> env_clock E (tick s))
     \<and> pid \<notin> run_id ` set (kids pid s)"

text \<open>A run created for step \<open>k\<close> and not yet linked, behind all children.\<close>

definition pending_link :: "env \<Rightarrow> envelope \<Rightarrow> string \<Rightarrow> string \<Rightarrow> store \<Rightarrow> bool" where
  "pending_link E v pid c s \<longleftrightarrow> (\<exists>as r bs. runs (data s) = as @ r # bs \<and> run_id r = c \<and> run_gameday_id r = None
     \<and> run_registry_id r = step_registry v (length (kids pid s)) \<and> run_queued_at r \<le> env_clock E (tick s)
     \<and> (\<forall>k \<in> set (kids pid s). run_queued_at k \<le> run_queued_at r)
     \<and> (\<forall>x \<in> set as \<union> set bs. run_id x \<noteq> c) \<and> (\<forall>x \<in> set bs. run_gameday_id x = None))"

fun phase_ok :: "env \<Rightarrow> envelope \<Rightarrow> string \<Rightarrow> phase \<times> qstate \<Rightarrow> bool" where
  "phase_ok E v pid (PIdle, q) = True"
| "phase_ok E v pid (PChosen k, q) \<longleftrightarrow> k = length (kids pid (q_store q)) \<and> k < length (ev_steps v) \<and> list_all is_terminal (kids pid (q_store q))"
| "phase_ok E v pid (PCreated c, q) \<longleftrightarrow> length (kids pid (q_store q)) < length (ev_steps v) \<and> list_all is_terminal (kids pid (q_store q))
     \<and> c \<noteq> pid \<and> pending_link E v pid c (q_store q)"

definition campaign_inv :: "env \<Rightarrow> envelope \<Rightarrow> string \<Rightarrow> phase \<times> qstate \<Rightarrow> bool" where
  "campaign_inv E v pid s \<longleftrightarrow> in_order E v pid (q_store (snd s)) \<and> phase_ok E v pid s
     \<and> pid \<in> run_id ` set (runs (data (q_store (snd s))))"

lemma list_all2_filter: "list_all2 R xs ys \<Longrightarrow> (\<And>x y. R x y \<Longrightarrow> P x = P y) \<Longrightarrow> list_all2 R (filter P xs) (filter P ys)"
  by (induction rule: list_all2_induct) auto

lemma list_all2_map_eq: "list_all2 R xs ys \<Longrightarrow> (\<And>x y. R x y \<Longrightarrow> f x = f y) \<Longrightarrow> map f xs = map f ys"
  by (induction rule: list_all2_induct) auto

lemma list_all2_butlast: "list_all2 R xs ys \<Longrightarrow> list_all2 R (butlast xs) (butlast ys)"
  by (induction rule: list_all2_induct) (auto dest: list_all2_lengthD)

lemma list_all2_all: "list_all2 R xs ys \<Longrightarrow> (\<And>x y. R x y \<Longrightarrow> P x \<Longrightarrow> P y) \<Longrightarrow> \<forall>x \<in> set xs. P x \<Longrightarrow> \<forall>y \<in> set ys. P y"
  by (induction rule: list_all2_induct) auto

text \<open>A change that keeps the children, whoever makes it.\<close>

lemma in_order_kept:
  assumes inv: "in_order E v pid s" and k: "list_all2 kept_row (kids pid s) (kids pid s')" and t: "tick s \<le> tick s'" and m: "mono (env_clock E)"
  shows "in_order E v pid s'"
proof -
  have eq: "map run_registry_id (kids pid s') = map run_registry_id (kids pid s)" "map run_queued_at (kids pid s') = map run_queued_at (kids pid s)"
      "length (kids pid s') = length (kids pid s)" "map run_id (kids pid s') = map run_id (kids pid s)"
    using list_all2_map_eq[OF k, of run_registry_id] list_all2_map_eq[OF k, of run_queued_at] list_all2_map_eq[OF k, of run_id] list_all2_lengthD[OF k]
    by (simp_all add: kept_row_def)
  have "\<forall>x \<in> set (butlast (kids pid s')). is_terminal x"
    using list_all2_all[OF list_all2_butlast[OF k], of is_terminal] inv by (simp add: kept_row_def in_order_def)
  moreover have "env_clock E (tick s) \<le> env_clock E (tick s')" using m t by (simp add: monoD)
  then have "\<forall>x \<in> set (kids pid s'). run_queued_at x \<le> env_clock E (tick s')"
    using list_all2_all[OF k, of "\<lambda>x. run_queued_at x \<le> env_clock E (tick s')"] inv
    by (auto simp: kept_row_def in_order_def intro: order_trans)
  moreover have "pid \<notin> run_id ` set (kids pid s')" using inv eq(4) unfolding in_order_def by (metis list.set_map)
  ultimately show ?thesis using inv eq unfolding in_order_def by simp
qed

section \<open>What the steps write\<close>

text \<open>Only rows of one new run are added, and time advances.\<close>

definition adds :: "string \<Rightarrow> db \<Rightarrow> db \<Rightarrow> bool" where
  "adds rid d d' \<longleftrightarrow> registry d' = registry d \<and> (\<exists>rows. runs d' = runs d @ rows \<and> (\<forall>w \<in> set rows. run_id w = rid \<and> run_gameday_id w = None))"

lemma adds_same: "runs d' = runs d \<Longrightarrow> registry d' = registry d \<Longrightarrow> adds rid d d'"
  by (simp add: adds_def)

interpretation adding: table_order "adds rid" for rid
proof unfold_locales
  show "adds rid d d" for d by (simp add: adds_same)
  show "adds rid d d''" if ab: "adds rid d d'" and bc: "adds rid d' d''" for d d' d''
  proof -
    obtain a b where "runs d' = runs d @ a" "runs d'' = runs d' @ b"
      "\<forall>w \<in> set a \<union> set b. run_id w = rid \<and> run_gameday_id w = None"
      using ab bc unfolding adds_def by blast
    then show ?thesis using ab bc unfolding adds_def by (intro conjI exI[of _ "a @ b"]) auto
  qed
qed

lemma adds_parts [simp, intro]:
  "moves (adds rid) (insert_run_audit E r ev det act)" "moves (adds rid) (insert_run_context E r c act)"
  "moves (adds rid) (insert_approval_request E q)" "nr_id nr = rid \<Longrightarrow> moves (adds rid) (insert_row E nr st)"
  by (auto simp: insert_run_context_def insert_row_def insert_approval_request_def adds_def new_row_def
      intro!: adding.moves_rules adding.moves_execute adding.moves_insert_run_audit split: option.split context_json.split pin_field.split)

lemma adds_inserts: "nr_id nr = rid \<Longrightarrow> moves (adds rid) (insert_run_with_context E nr c)"
    "nr_id nr = rid \<Longrightarrow> moves (adds rid) (insert_gated_run_with_context E nr q det c)"
  unfolding insert_run_with_context_def insert_gated_run_with_context_def
  by (intro adding.moves_rules adds_parts; auto split: option.split)+

definition addsq :: "string \<Rightarrow> qstate \<Rightarrow> qstate \<Rightarrow> bool" where
  "addsq rid q q' \<longleftrightarrow> tick (q_store q) \<le> tick (q_store q') \<and> adds rid (data (q_store q)) (data (q_store q'))"

interpretation addingq: comp_order "addsq rid" for rid
  by unfold_locales (auto simp: addsq_def intro: adding.le_trans)

lemma addsq_on_store: "moves (adds rid) m \<Longrightarrow> advances m \<Longrightarrow> obeys (addsq rid) (on_store m)"
  by (auto simp: obeys_def on_store_eq addsq_def dest: movesD advancesD)

lemma addsq_reads: "reads m \<Longrightarrow> obeys (addsq rid) m"
  by (erule obeys_weaken) (auto simp: only_time_def addsq_def)

lemma addsq_insert: "nr_id nr = rid \<Longrightarrow> obeys (addsq rid) (on_store (insert_run_with_context E nr c))"
    "nr_id nr = rid \<Longrightarrow> obeys (addsq rid) (on_store (insert_gated_run_with_context E nr q det c))"
  using adds_inserts[of nr rid E] exec_op_advances[of E "InsertRun nr c"] exec_op_advances[of E "InsertGated nr q det c"]
  by (auto intro!: addsq_on_store)

lemma addsq_enqueue: "obeys (addsq rid) (enqueue_checked E G rid r actor expected)"
proof -
  have send: "obeys (addsq rid) (\<lambda>q. if q_open q then (Inr (), q \<lparr> q_channel := q_channel q @ [w] \<rparr>) else (Inl e, q))" for w e
    by (auto simp: obeys_def addsq_def)
  have b: "obeys (addsq rid) (enqueue_body E G rid r actor expected)"
    unfolding enqueue_body_def
    by (intro addingq.obeys_rules addsq_insert obeys_from_result addingq.le_refl send addsq_reads) simp_all
  have "addsq rid q q'" if h: "enqueue_checked E G rid r actor expected q = (res, q')" for q res q'
  proof (cases "q_permits q = 0")
    case True
    then show ?thesis using h by (simp add: enqueue_checked_def)
  next
    case False
    let ?q = "q \<lparr> q_permits := q_permits q - 1 \<rparr>"
    obtain r1 q1 where e: "enqueue_body E G rid r actor expected ?q = (r1, q1)" by (cases "enqueue_body E G rid r actor expected ?q")
    have "addsq rid ?q q1" using obeysD[OF b e] .
    then show ?thesis using h False e
      by (cases r1) (auto simp: enqueue_checked_def holding_permit_def addsq_def split: prod.splits sum.splits)
  qed
  then show ?thesis by (auto simp: obeys_def)
qed

lemma addsq_gated: "obeys (addsq rid) (request_gated_checked E G rid r t actor expected)"
  unfolding request_gated_checked_def
  by (intro obeys_with_err addingq.obeys_rules addsq_insert obeys_from_result addingq.le_refl addsq_reads) simp_all

lemma reads_of_campaign: "reads (on_store (registry_definition E g))" "reads (on_store (run_audit_trail E pid))"
    "reads (fresh_read E (query E f))"
  by (simp_all add: registry_definition_def run_audit_trail_def)

lemma addsq_create_child: "obeys (addsq child) (create_child E G C child parent g)"
proof -
  have send: "obeys (addsq child) (\<lambda>q. case (if tier = T0 then enqueue_checked E G child request actor h
        else request_gated_checked E G child request tier actor h) q of
      (Inl EFull, q') \<Rightarrow> (Inr None, q') | (Inl (EStore e), q') \<Rightarrow> (Inl e, q') | (Inr c, q') \<Rightarrow> (Inr (Some c), q'))" for tier request actor h
    using addsq_enqueue[of child E G request actor h] addsq_gated[of child E G request tier actor h]
    by (auto simp: obeys_def split: prod.splits sum.splits enqueue_error.splits if_splits)
  show ?thesis
    unfolding create_child_def Let_def
    by (intro addingq.obeys_rules addsq_reads reads_of_campaign obeys_from_result addingq.le_refl send)
qed

text \<open>What a created child is: the step's definition, classified for the campaign's environment and the owner's
  rights, queued when it is free of risk and parked for approval otherwise.\<close>

definition child_created :: "env \<Rightarrow> engine \<Rightarrow> campaign_codec \<Rightarrow> string \<Rightarrow> run_row \<Rightarrow> string \<Rightarrow> qstate \<Rightarrow> qstate \<Rightarrow> bool" where
  "child_created E G C child parent g q q' \<longleftrightarrow> (\<exists>def x injected tier binding row t.
     def \<in> set (registry (data (q_store q))) \<and> reg_id def = g
     \<and> prepare_run G (reg_definition_toon def) Map.empty = Inr (x, injected)
     \<and> actor_requires_binding (eng_users G) (campaign_actor (sort_key au_at (run_audits (run_id parent) (data (q_store q))))) (campaign_env C parent) = Inr binding
     \<and> classify_execution (eng_execution_hash G) (eng_bindings G) x injected (campaign_env C parent) None binding = Inr tier
     \<and> runs (data (q_store q')) = runs (data (q_store q)) @ [row] \<and> run_id row = child \<and> run_registry_id row = g
     \<and> run_gameday_id row = None \<and> run_queued_at row = env_clock E t \<and> tick (q_store q) \<le> t \<and> t \<le> tick (q_store q')
     \<and> (if tier = T0 then run_st row = Queued \<and> length (q_channel q') = length (q_channel q) + 1
        else run_st row = PendingApproval \<and> q_channel q' = q_channel q
          \<and> (\<exists>rq \<in> set (requests (data (q_store q'))). rq_run rq = child \<and> rq_tier rq = tier_as_str tier \<and> rq_env rq = campaign_env C parent
              \<and> rq_quorum rq = int (quorum_required tier))))"

lemma create_child_Inr:
  assumes "create_child E G C child parent g q = (Inr (Some c), q')"
  shows "c = child \<and> child_created E G C child parent g q q'"
proof -
  obtain def q1 where q1: "on_store (registry_definition E g) q = (Inr (Some def), q1)"
    and rest1: "(let env = campaign_env C parent in
       bindc (on_store (run_audit_trail E (run_id parent))) (\<lambda>trail.
       bindc (from_result (map_err refusal_str (actor_requires_binding (eng_users G) (campaign_actor trail) env))) (\<lambda>require_binding.
       bindc (from_result (map_err (\<lambda>_. ''campaign definition failed to resolve; check definition and configured sources'')
          (prepare_run G (reg_definition_toon def) Map.empty))) (\<lambda>(x, injected).
       bindc (from_result (map_err refusal_str
          (classify_execution (eng_execution_hash G) (eng_bindings G) x injected env None require_binding))) (\<lambda>tier.
       bindc (from_result (map_err refusal_str (eng_execution_hash G x injected))) (\<lambda>hash q.
         (let request = \<lparr> req_registry_id = reg_id def, req_definition_toon = reg_definition_toon def, req_vars = Map.empty,
                req_env = env, req_target = None \<rparr> in
          case (if tier = T0 then enqueue_checked E G child request (campaign_actor trail) (Some hash)
                else request_gated_checked E G child request tier (campaign_actor trail) (Some hash)) q of
            (Inl EFull, q') \<Rightarrow> (Inr None, q')
          | (Inl (EStore e), q') \<Rightarrow> (Inl e, q')
          | (Inr c, q') \<Rightarrow> (Inr (Some c), q')))))))) q1 = (Inr (Some c), q')"
    using assms unfolding create_child_def by (auto simp del: on_store_Inr from_result_Inr simp: Let_def split: option.splits)
  have d1: "data (q_store q1) = data (q_store q)" "tick (q_store q) \<le> tick (q_store q1)" "q_channel q1 = q_channel q"
    using obeysD[OF reads_of_campaign(1) q1] by (auto simp: only_time_def)
  have "find (\<lambda>x. reg_id x = g) (registry (data (q_store q))) = Some def" using q1 by (auto simp: registry_definition_def)
  then have def: "def \<in> set (registry (data (q_store q)))" "reg_id def = g" by (auto simp: find_Some_iff)
  let ?env = "campaign_env C parent"
  obtain trail q2 binding x injected tier hash where
      tr: "on_store (run_audit_trail E (run_id parent)) q1 = (Inr trail, q2)"
    and h: "actor_requires_binding (eng_users G) (campaign_actor trail) ?env = Inr binding"
      "prepare_run G (reg_definition_toon def) Map.empty = Inr (x, injected)"
      "classify_execution (eng_execution_hash G) (eng_bindings G) x injected ?env None binding = Inr tier"
      "eng_execution_hash G x injected = Inr hash"
    and send: "(case (if tier = T0 then enqueue_checked E G child \<lparr> req_registry_id = reg_id def, req_definition_toon = reg_definition_toon def, req_vars = Map.empty,
                req_env = ?env, req_target = None \<rparr> (campaign_actor trail) (Some hash)
              else request_gated_checked E G child \<lparr> req_registry_id = reg_id def, req_definition_toon = reg_definition_toon def, req_vars = Map.empty,
                req_env = ?env, req_target = None \<rparr> tier (campaign_actor trail) (Some hash)) q2 of
            (Inl EFull, q') \<Rightarrow> (Inr None, q')
          | (Inl (EStore e), q') \<Rightarrow> (Inl e, q')
          | (Inr c, q') \<Rightarrow> (Inr (Some c), q')) = (Inr (Some c), q')"
    using rest1 unfolding Let_def by (auto simp del: on_store_Inr)
  have d2: "data (q_store q2) = data (q_store q)" "tick (q_store q) \<le> tick (q_store q2)" "q_channel q2 = q_channel q"
    using obeysD[OF reads_of_campaign(2) tr] d1 by (auto simp: only_time_def)
  have trail: "trail = sort_key au_at (run_audits (run_id parent) (data (q_store q)))"
    using tr d1(1) by (auto simp: run_audit_trail_def)
  let ?r = "\<lparr> req_registry_id = reg_id def, req_definition_toon = reg_definition_toon def, req_vars = Map.empty, req_env = ?env, req_target = None \<rparr>"
  have now: "tick (q_store q2) \<le> tick (q_store q')"
  proof (cases "tier = T0")
    case True
    then have "enqueue_checked E G child ?r (campaign_actor trail) (Some hash) q2 = (Inr c, q')"
      using send by (auto split: prod.splits sum.splits enqueue_error.splits)
    from obeysD[OF addsq_enqueue this] show ?thesis by (simp add: addsq_def)
  next
    case False
    then have "request_gated_checked E G child ?r tier (campaign_actor trail) (Some hash) q2 = (Inr c, q')"
      using send by (auto split: prod.splits sum.splits enqueue_error.splits)
    from obeysD[OF addsq_gated this] show ?thesis by (simp add: addsq_def)
  qed
  show ?thesis
  proof (cases "tier = T0")
    case True
    then have e: "enqueue_checked E G child ?r (campaign_actor trail) (Some hash) q2 = (Inr c, q')"
      using send by (auto split: prod.splits sum.splits enqueue_error.splits)
    from enqueue_is_durable[OF e] obtain n rows where c: "c = child" "n = env_clock E (tick (q_store q2))"
      "runs (data (q_store q')) = runs (data (q_store q)) @ [new_row (submitted G child ?r (campaign_actor trail) n) Queued]"
      "length (q_channel q') = length (q_channel q) + 1"
      by (auto simp: d2)
    then show ?thesis
      unfolding child_created_def using def h trail d2 now True
      by (intro conjI exI[of _ def] exI[of _ x] exI[of _ injected] exI[of _ tier] exI[of _ binding]
          exI[of _ "new_row (submitted G child ?r (campaign_actor trail) n) Queued"] exI[of _ "tick (q_store q2)"])
        (simp_all add: new_row_def submitted_def)
  next
    case False
    then have e: "request_gated_checked E G child ?r tier (campaign_actor trail) (Some hash) q2 = (Inr c, q')"
      using send by (auto split: prod.splits sum.splits enqueue_error.splits)
    from request_gated_parks[OF e] obtain n rows where c: "c = child" "n = env_clock E (tick (q_store q2))"
      "runs (data (q_store q')) = runs (data (q_store q)) @ [new_row (submitted G child ?r (campaign_actor trail) n) PendingApproval]"
      "approval_row E child ?r tier (campaign_actor trail) n \<in> set (requests (data (q_store q')))"
      "q_channel q' = q_channel q"
      by (auto simp: d2)
    then show ?thesis
      unfolding child_created_def using def h trail d2 now False
      by (intro conjI exI[of _ def] exI[of _ x] exI[of _ injected] exI[of _ tier] exI[of _ binding]
          exI[of _ "new_row (submitted G child ?r (campaign_actor trail) n) PendingApproval"] exI[of _ "tick (q_store q2)"])
        (auto simp: new_row_def submitted_def approval_row_def intro!: bexI[of _ "approval_row E child ?r tier (campaign_actor trail) n"])
  qed
qed

end
