(* ===== verification/Campaign_Order.thy ===== *)
theory Campaign_Order
  imports Campaign_Props
begin

text \<open>
  The steps of a campaign keep its order: the children are the first experiments of its definition, in order and
  each once, and only the last may still be on its way. A tick of the supervisor is a sequence of such steps.
\<close>

section \<open>The steps keep the invariant\<close>

lemma map_eq_image: "map f xs = map f ys \<Longrightarrow> f ` set ys = f ` set xs"
  by (metis list.set_map)

lemma kids_adds: "adds rid (data s) (data s') \<Longrightarrow> kids pid s' = kids pid s"
  by (auto simp: adds_def kids_def filter_empty_conv)

lemma kids_same: "data s' = data s \<Longrightarrow> kids pid s' = kids pid s"
  by (simp add: kids_def)

lemma list_all2_refl_kept: "list_all2 kept_row xs xs"
  by (simp add: list_all2_same kept_row_def)

lemma kids_other: "other_work pid s s' \<Longrightarrow> list_all2 kept_row (kids pid s) (kids pid s')"
proof -
  assume "other_work pid s s'"
  then obtain zs ws where r: "runs (data s') = zs @ ws" "list_all2 kept_row (runs (data s)) zs" "\<forall>w \<in> set ws. run_gameday_id w = None"
    unfolding other_work_def by blast
  have "filter (\<lambda>x. run_gameday_id x = Some pid) ws = []" using r(3) by (auto simp: filter_empty_conv)
  then have "kids pid s' = filter (\<lambda>x. run_gameday_id x = Some pid) zs" by (simp add: kids_def r(1))
  then show ?thesis using list_all2_filter[OF r(2), of "\<lambda>x. run_gameday_id x = Some pid"] by (simp add: kids_def kept_row_def)
qed

lemma sort_key_sorted: "sorted (map f xs) \<Longrightarrow> sort_key f xs = xs"
  by (induction xs) (auto simp: insort_is_Cons)

lemma children_are_kids: "in_order E v pid s \<Longrightarrow> children_of pid (data s) = kids pid s"
  by (simp add: children_of_def kids_def in_order_def sort_key_sorted)

lemma all_terminal: "\<forall>k \<in> set (butlast xs). P k \<Longrightarrow> xs = [] \<or> P (last xs) \<Longrightarrow> list_all P xs"
  by (cases xs rule: rev_cases) (auto simp: list_all_iff)

lemma fresh_read_query: "fresh_read E (query E f) q = (r, q') \<Longrightarrow> data (q_store q') = data (q_store q) \<and> tick (q_store q) \<le> tick (q_store q')
    \<and> (\<forall>x. r = Inr x \<longrightarrow> x = f (data (q_store q)))"
  using obeysD[OF reads_of_campaign(3), of E f q r q'] by (auto simp: only_time_def fresh_read_def stmt_eq split: option.splits)

lemma in_order_same_kids: "in_order E v pid s \<Longrightarrow> kids pid s' = kids pid s \<Longrightarrow> tick s \<le> tick s' \<Longrightarrow> mono (env_clock E) \<Longrightarrow> in_order E v pid s'"
  by (erule in_order_kept) (simp_all add: list_all2_refl_kept)

text \<open>Writes on the parent's own row.\<close>

definition on_parent :: "string \<Rightarrow> db \<Rightarrow> db \<Rightarrow> bool" where
  "on_parent pid d d' \<longleftrightarrow> list_all2 (\<lambda>r r'. r' = r \<or> run_id r = pid \<and> run_id r' = pid \<and> run_gameday_id r' = run_gameday_id r) (runs d) (runs d')"

interpretation parental: table_order "on_parent pid" for pid
proof unfold_locales
  show "on_parent pid d d" for d by (simp add: on_parent_def list_all2_same)
  show "on_parent pid d d''" if "on_parent pid d d'" "on_parent pid d' d''" for d d' d''
    using that unfolding on_parent_def by (rule list_all2_trans[rotated]) auto
qed

lemma on_parent_writes: "moves (on_parent pid) (finish_run E pid st eid rb err)" "moves (on_parent pid) (set_run_state_with E pid st ev det act)"
  unfolding finish_run_def set_run_state_with_def Let_def require_transition_def
  by (intro parental.moves_rules parental.moves_update_runs parental.moves_insert_run_audit;
      simp add: on_parent_def list_all2_same list_all2_map2)+

lemma kids_on_parent:
  assumes p: "on_parent pid (data s) (data s')" and n: "pid \<notin> run_id ` set (kids pid s)"
  shows "kids pid s' = kids pid s"
proof -
  have "filter (\<lambda>r. run_gameday_id r = Some pid) ys = filter (\<lambda>r. run_gameday_id r = Some pid) xs"
    if "list_all2 (\<lambda>r r'. r' = r \<or> run_id r = pid \<and> run_id r' = pid \<and> run_gameday_id r' = run_gameday_id r) xs ys"
      "\<forall>r \<in> set xs. run_gameday_id r = Some pid \<longrightarrow> run_id r \<noteq> pid" for xs ys
    using that by (induction rule: list_all2_induct) auto
  from this[OF p[unfolded on_parent_def]] n show ?thesis by (auto simp: kids_def)
qed

lemma ids_on_parent: "on_parent pid (data s) (data s') \<Longrightarrow> run_id ` set (runs (data s')) = run_id ` set (runs (data s))"
proof -
  assume "on_parent pid (data s) (data s')"
  then have "map run_id (runs (data s)) = map run_id (runs (data s'))"
    unfolding on_parent_def by (rule list_all2_map_eq) auto
  then show ?thesis by (rule map_eq_image)
qed

text \<open>The link puts the new run behind the children.\<close>

lemma set_gameday_result:
  assumes "set_run_gameday E c pid s = (r, s')"
  shows "tick s \<le> tick s'" "case r of Inl _ \<Rightarrow> data s' = data s
    | Inr _ \<Rightarrow> runs (data s') = map (\<lambda>x. if run_id x = c then x \<lparr> run_gameday_id := Some pid \<rparr> else x) (runs (data s))"
  using assms by (auto simp: set_run_gameday_def update_runs_def execute_def update_where_def seqc_def bindc_eq stmt_eq split: sum.splits option.splits)

lemma pending_linkI:
  "runs (data s) = as @ r # bs \<Longrightarrow> run_id r = c \<Longrightarrow> run_gameday_id r = None \<Longrightarrow> run_registry_id r = step_registry v (length (kids pid s)) \<Longrightarrow>
   run_queued_at r \<le> env_clock E (tick s) \<Longrightarrow> \<forall>k \<in> set (kids pid s). run_queued_at k \<le> run_queued_at r \<Longrightarrow>
   \<forall>x \<in> set as \<union> set bs. run_id x \<noteq> c \<Longrightarrow> \<forall>x \<in> set bs. run_gameday_id x = None \<Longrightarrow> pending_link E v pid c s"
  unfolding pending_link_def by blast

lemma in_order_linked:
  assumes inv: "in_order E v pid s" and p: "pending_link E v pid c s" and n: "length (kids pid s) < length (ev_steps v)"
    and a: "list_all is_terminal (kids pid s)" and c: "c \<noteq> pid" and t: "tick s \<le> tick s'" and m: "mono (env_clock E)"
    and r: "runs (data s') = map (\<lambda>x. if run_id x = c then x \<lparr> run_gameday_id := Some pid \<rparr> else x) (runs (data s))"
  shows "in_order E v pid s'"
proof -
  obtain as x bs where p: "runs (data s) = as @ x # bs" "run_id x = c" "run_gameday_id x = None"
      "run_registry_id x = step_registry v (length (kids pid s))" "run_queued_at x \<le> env_clock E (tick s)"
      "\<forall>k \<in> set (kids pid s). run_queued_at k \<le> run_queued_at x"
      "\<forall>y \<in> set as \<union> set bs. run_id y \<noteq> c" "\<forall>y \<in> set bs. run_gameday_id y = None"
    using p unfolding pending_link_def by blast
  let ?u = "\<lambda>x. if run_id x = c then x \<lparr> run_gameday_id := Some pid \<rparr> else x"
  have u: "map ?u as = as" "map ?u bs = bs" by (rule map_idI; use p(7) in auto)+
  have b: "filter (\<lambda>r. run_gameday_id r = Some pid) bs = []" using p(8) by (auto simp: filter_empty_conv)
  have k: "kids pid s = filter (\<lambda>r. run_gameday_id r = Some pid) as" using p(3) b by (simp add: kids_def p(1))
  have "runs (data s') = map ?u as @ (x \<lparr> run_gameday_id := Some pid \<rparr>) # map ?u bs" using p(2) by (simp add: r p(1))
  then have k': "kids pid s' = kids pid s @ [x \<lparr> run_gameday_id := Some pid \<rparr>]" unfolding u k by (simp add: kids_def b)
  have "env_clock E (tick s) \<le> env_clock E (tick s')" using m t by (simp add: monoD)
  then show ?thesis using inv n a p(2,4,5,6) c
    by (force simp: in_order_def k' sorted_append list_all_iff intro: order_trans)
qed

lemma inv_same_kids:
  assumes "campaign_inv E v pid (p, q)" "list_all2 kept_row (kids pid (q_store q)) (kids pid (q_store q'))"
    "tick (q_store q) \<le> tick (q_store q')" "mono (env_clock E)"
    "run_id ` set (runs (data (q_store q))) \<subseteq> run_id ` set (runs (data (q_store q')))" "phase_ok E v pid (p', q')"
  shows "campaign_inv E v pid (p', q')"
  using assms in_order_kept[OF _ assms(2,3,4)] by (auto simp: campaign_inv_def)

lemma kept_terminal: "list_all2 kept_row xs ys \<Longrightarrow> list_all is_terminal xs \<Longrightarrow> list_all is_terminal ys"
  unfolding list_all_iff by (rule list_all2_all, assumption) (auto simp: kept_row_def)

text \<open>A pending link stays pending while others write.\<close>

lemma pending_kept:
  assumes p: "pending_link E v pid c s" and o: "other_work pid s s'" and m: "mono (env_clock E)"
  shows "pending_link E v pid c s'"
proof -
  obtain as x bs where x: "runs (data s) = as @ x # bs" "run_id x = c" "run_gameday_id x = None"
      "run_registry_id x = step_registry v (length (kids pid s))" "run_queued_at x \<le> env_clock E (tick s)"
      "\<forall>k \<in> set (kids pid s). run_queued_at k \<le> run_queued_at x"
      "\<forall>y \<in> set as \<union> set bs. run_id y \<noteq> c" "\<forall>y \<in> set bs. run_gameday_id y = None"
    using p unfolding pending_link_def by blast
  obtain zs ws where o: "runs (data s') = zs @ ws" "list_all2 kept_row (as @ x # bs) zs" "tick s \<le> tick s'"
      "\<forall>w \<in> set ws. run_gameday_id w = None \<and> run_id w \<notin> run_id ` set (runs (data s))"
    using o unfolding other_work_def x(1) by blast
  obtain as' x' bs' where z: "zs = as' @ x' # bs'" "list_all2 kept_row as as'" "kept_row x x'" "list_all2 kept_row bs bs'"
    using o(2) by (auto simp: list_all2_append1 list_all2_Cons1)
  have k: "list_all2 kept_row (kids pid s) (kids pid s')" by (rule kids_other[OF assms(2)])
  have q: "\<forall>k \<in> set (kids pid s'). run_queued_at k \<le> run_queued_at x'"
    using list_all2_all[OF k, of "\<lambda>k. run_queued_at k \<le> run_queued_at x"] x(6) z(3) by (simp add: kept_row_def)
  have ids: "\<forall>y \<in> set as' \<union> set bs'. run_id y \<noteq> c"
    using list_all2_all[OF z(2), of "\<lambda>y. run_id y \<noteq> c"] list_all2_all[OF z(4), of "\<lambda>y. run_id y \<noteq> c"] x(7) by (auto simp: kept_row_def)
  have none: "\<forall>y \<in> set bs'. run_gameday_id y = None"
    using list_all2_all[OF z(4), of "\<lambda>y. run_gameday_id y = None"] x(8) by (auto simp: kept_row_def)
  have "env_clock E (tick s) \<le> env_clock E (tick s')" using m o(3) by (simp add: monoD)
  then show ?thesis unfolding pending_link_def
    using x q ids none o(1,4) z(1,3) list_all2_lengthD[OF k]
    by (intro exI[of _ as'] exI[of _ x'] exI[of _ "bs' @ ws"]) (auto simp: kept_row_def)
qed

lemma phase_kept:
  assumes "phase_ok E v pid (p, q)" "other_work pid (q_store q) (q_store q')" "mono (env_clock E)"
  shows "phase_ok E v pid (p, q')"
proof -
  have k: "list_all2 kept_row (kids pid (q_store q)) (kids pid (q_store q'))" by (rule kids_other[OF assms(2)])
  show ?thesis
    using assms kept_terminal[OF k] list_all2_lengthD[OF k] pending_kept[OF _ assms(2,3)] by (cases p) auto
qed

lemma other_ids: "other_work pid s s' \<Longrightarrow> run_id ` set (runs (data s)) \<subseteq> run_id ` set (runs (data s'))"
proof -
  assume "other_work pid s s'"
  then obtain zs ws where "runs (data s') = zs @ ws" "list_all2 kept_row (runs (data s)) zs" unfolding other_work_def by blast
  moreover from this(2) have "map run_id zs = map run_id (runs (data s))" by (rule list_all2_map_eq[symmetric]) (simp add: kept_row_def)
  then have "run_id ` set (runs (data s)) = run_id ` set zs" by (rule map_eq_image)
  ultimately show ?thesis by auto
qed

lemma choose_keeps:
  assumes "fresh_read E (query E (children_of pid)) q = (Inr cs, q')" "length cs < length (ev_steps v)" "cs = [] \<or> is_terminal (last cs)"
    and inv: "campaign_inv E v pid (PIdle, q)" and m: "mono (env_clock E)"
  shows "campaign_inv E v pid (PChosen (length cs), q')"
proof -
  have d: "data (q_store q') = data (q_store q)" "tick (q_store q) \<le> tick (q_store q')" "cs = children_of pid (data (q_store q))"
    using fresh_read_query[OF assms(1)] by auto
  have i: "in_order E v pid (q_store q)" using inv by (simp add: campaign_inv_def)
  have cs: "cs = kids pid (q_store q)" using d(3) children_are_kids[OF i] by simp
  have t: "list_all is_terminal cs"
    by (rule all_terminal) (use i assms(3) in \<open>auto simp: cs in_order_def\<close>)
  show ?thesis by (rule inv_same_kids[OF inv]) (use d(1,2) m cs t assms(2) in \<open>auto simp: kids_same[OF d(1)] list_all2_refl_kept\<close>)
qed

lemma child_row:
  assumes "create_child E G C child parent g q = (Inr (Some c), q')"
  shows "\<exists>row t. c = child \<and> runs (data (q_store q')) = runs (data (q_store q)) @ [row] \<and> run_id row = child \<and> run_registry_id row = g
    \<and> run_gameday_id row = None \<and> run_queued_at row = env_clock E t \<and> tick (q_store q) \<le> t \<and> t \<le> tick (q_store q')"
proof -
  have "c = child" and "child_created E G C child parent g q q'" using create_child_Inr[OF assms] by simp_all
  then show ?thesis unfolding child_created_def by (elim exE conjE) (intro exI conjI; assumption)
qed

lemma create_keeps:
  assumes e: "create_child E G C child parent (step_registry v k) q = (r, q')" and new: "child \<notin> run_id ` set (runs (data (q_store q)))"
    and inv: "campaign_inv E v pid (PChosen k, q)" and m: "mono (env_clock E)"
  shows "campaign_inv E v pid (case r of Inr (Some c) \<Rightarrow> PCreated c | _ \<Rightarrow> PIdle, q')"
proof -
  have a: "addsq child q q'" by (rule obeysD[OF addsq_create_child e])
  then have k: "kids pid (q_store q') = kids pid (q_store q)" and t: "tick (q_store q) \<le> tick (q_store q')"
    and ids: "run_id ` set (runs (data (q_store q))) \<subseteq> run_id ` set (runs (data (q_store q')))"
    by (auto simp: addsq_def kids_adds) (auto simp: adds_def)
  have i: "in_order E v pid (q_store q)" and pin: "pid \<in> run_id ` set (runs (data (q_store q)))"
    and ph: "k = length (kids pid (q_store q))" "k < length (ev_steps v)" "list_all is_terminal (kids pid (q_store q))"
    using inv by (simp_all add: campaign_inv_def)
  have "phase_ok E v pid (PCreated c, q')" if that: "r = Inr (Some c)" for c
  proof -
    have e: "create_child E G C child parent (step_registry v k) q = (Inr (Some c), q')" using e that by simp
    obtain row tc where c: "c = child" "runs (data (q_store q')) = runs (data (q_store q)) @ [row]" "run_id row = child"
        "run_registry_id row = step_registry v k" "run_gameday_id row = None" "run_queued_at row = env_clock E tc"
        "tick (q_store q) \<le> tc" "tc \<le> tick (q_store q')"
      using child_row[OF e] by blast
    have "env_clock E (tick (q_store q)) \<le> env_clock E tc" "env_clock E tc \<le> env_clock E (tick (q_store q'))"
      using m c(7,8) by (simp_all add: monoD)
    moreover have "\<forall>k \<in> set (kids pid (q_store q)). run_queued_at k \<le> env_clock E (tick (q_store q))" using i by (simp add: in_order_def)
    moreover have "\<forall>x \<in> set (runs (data (q_store q))). run_id x \<noteq> child" using new by (metis imageI)
    ultimately have "pending_link E v pid c (q_store q')"
      by (intro pending_linkI[OF c(2)]) (use c ph(1) k in \<open>auto intro: order_trans\<close>)
    moreover have "c \<noteq> pid" using c(1) new pin by auto
    ultimately show ?thesis using ph k by simp
  qed
  then have ok: "phase_ok E v pid (case r of Inr (Some c) \<Rightarrow> PCreated c | _ \<Rightarrow> PIdle, q')" by (auto split: sum.splits option.splits)
  show ?thesis by (rule inv_same_kids[OF inv _ t m ids ok]) (simp add: k list_all2_refl_kept)
qed

lemma link_keeps:
  assumes p: "run_id parent = pid" and e: "link_child E parent c q = (r, q')"
    and inv: "campaign_inv E v pid (PCreated c, q)" and m: "mono (env_clock E)"
  shows "campaign_inv E v pid (PIdle, q')"
proof -
  let ?s = "q_store q"
  have i: "in_order E v pid ?s" and pin: "pid \<in> run_id ` set (runs (data ?s))"
    and ph: "length (kids pid ?s) < length (ev_steps v)" "list_all is_terminal (kids pid ?s)" "c \<noteq> pid" "pending_link E v pid c ?s"
    using inv by (simp_all add: campaign_inv_def)
  obtain r0 s1 where l: "set_run_gameday E c pid ?s = (r0, s1)" by (cases "set_run_gameday E c pid ?s")
  let ?then = "if run_st parent = Queued then set_run_state_with E (run_id parent) Running (Some ''campaign_started'') None None else ret ()"
  note res = set_gameday_result[OF l]
  have "map run_id (runs (data ?s)) = map run_id (runs (data s1))"
    using res(2) by (cases r0) (simp_all add: o_def)
  then have ids: "run_id ` set (runs (data s1)) = run_id ` set (runs (data ?s))" by (rule map_eq_image)
  show ?thesis
  proof (cases r0)
    case (Inl err)
    then have "q' = q \<lparr> q_store := s1 \<rparr>" using e l p by (auto simp: link_child_def on_store_eq seqc_def bindc_def)
    then have d: "data (q_store q') = data ?s" "tick ?s \<le> tick (q_store q')" using res Inl by simp_all
    show ?thesis by (rule inv_same_kids[OF inv _ d(2) m]) (simp_all add: kids_same[OF d(1)] list_all2_refl_kept d(1))
  next
    case (Inr u)
    have i1: "in_order E v pid s1" using in_order_linked[OF i ph(4,1,2,3) res(1) m] res(2) Inr by simp
    obtain r2 s2 where t: "?then s1 = (r2, s2)" by (cases "?then s1")
    have q': "q_store q' = s2" using e l p Inr t by (auto simp: link_child_def on_store_eq seqc_def bindc_def)
    have op: "on_parent pid (data s1) (data s2)"
      using t p movesD[OF on_parent_writes(2)] by (auto simp: parental.le_refl split: if_splits)
    have tk: "tick s1 \<le> tick s2" using t advancesD[of "set_run_state_with E (run_id parent) Running (Some ''campaign_started'') None None"]
        exec_op_advances[of E "SetState (run_id parent) Running (Some ''campaign_started'') None None"] by (auto split: if_splits)
    have "pid \<notin> run_id ` set (kids pid s1)" using i1 by (simp add: in_order_def)
    from kids_on_parent[OF op this] have "in_order E v pid s2" by (rule in_order_same_kids[OF i1 _ tk m])
    then show ?thesis using pin ids ids_on_parent[OF op] by (simp add: campaign_inv_def q')
  qed
qed

lemma finish_keeps:
  assumes e: "finish_parent E pid st q1 = (r, q')" and d: "data (q_store q1) = data (q_store q)" "tick (q_store q) \<le> tick (q_store q1)"
    and inv: "campaign_inv E v pid (PIdle, q)" and m: "mono (env_clock E)"
  shows "campaign_inv E v pid (PIdle, q')"
proof -
  obtain r0 s1 where f: "finish_run E pid st None (Some ''not_needed'') None (q_store q1) = (r0, s1)" "q_store q' = s1"
    using e by (auto simp: finish_parent_def on_store_eq)
  have op: "on_parent pid (data (q_store q)) (data s1)" using movesD[OF on_parent_writes(1) f(1)] d(1) by simp
  have tk: "tick (q_store q1) \<le> tick s1"
    using f(1) exec_op_advances[of E "Finish pid st None (Some ''not_needed'') None"] by (auto dest: advancesD)
  have n: "pid \<notin> run_id ` set (kids pid (q_store q))" using inv by (simp add: campaign_inv_def in_order_def)
  have k: "kids pid s1 = kids pid (q_store q)" by (rule kids_on_parent[OF op n])
  show ?thesis by (rule inv_same_kids[OF inv]) (use k tk d(2) m ids_on_parent[OF op] in \<open>simp_all add: f(2) list_all2_refl_kept\<close>)
qed

interpretation campaigning: stable_system "campaign_step E G C v pid" "\<lambda>s. mono (env_clock E) \<longrightarrow> campaign_inv E v pid s" for E G C v pid
proof (unfold_locales, intro impI)
  fix s s'
  assume step: "campaign_step E G C v pid s s'" and "mono (env_clock E) \<longrightarrow> campaign_inv E v pid s" and m: "mono (env_clock E)"
  then have "campaign_inv E v pid s" by simp
  with step show "campaign_inv E v pid s'"
  proof (induction rule: campaign_step.induct)
    case (choose q cs q')
    then show ?case using choose_keeps m by blast
  next
    case (create parent child k q r q')
    then show ?case using create_keeps m by blast
  next
    case (link parent c q r q')
    then show ?case using link_keeps m by blast
  next
    case (finish q cs q1 r q')
    then show ?case using finish_keeps[OF finish.hyps(4) _ _ _ m] fresh_read_query[OF finish.hyps(1)] by blast
  next
    case (crash p q)
    then show ?case by (simp add: campaign_inv_def)
  next
    case (other q q' p)
    then show ?case
      using inv_same_kids[OF other.prems kids_other[OF other.hyps] _ m other_ids[OF other.hyps]] phase_kept[OF _ other.hyps m]
      by (auto simp: campaign_inv_def other_work_def)
  qed
qed

section \<open>A tick of the supervisor\<close>

lemma only_reads: "data (q_store q') = data (q_store q) \<Longrightarrow> tick (q_store q) \<le> tick (q_store q') \<Longrightarrow> campaign_step E G C v pid (p, q) (p, q')"
  by (rule campaign_step.other, simp add: other_work_def, rule exI[of _ "runs (data (q_store q))"], rule exI[of _ "[]"])
    (simp add: list_all2_refl_kept)

text \<open>A tick that enqueues: what was read, what was created, what was linked.\<close>

lemma advance_one_cases:
  assumes a: "advance_one E G C child (parent, def) q = (r, q')" and v: "cc_envelope C def = Inr v"
  obtains (read) "data (q_store q') = data (q_store q)" "tick (q_store q) \<le> tick (q_store q')" "\<forall>n. r = Inr n \<longrightarrow> n = 0"
  | (finish) cs q1 r0 where "fresh_read E (query E (children_of (run_id parent))) q = (Inr cs, q1)" "list_all is_terminal cs"
      "length (ev_steps v) \<le> length cs" "finish_parent E (run_id parent) (campaign_outcome cs (pass_threshold v)) q1 = (r0, q')"
      "\<forall>n. r = Inr n \<longrightarrow> n = 0"
  | (stuck) cs q1 r0 where "fresh_read E (query E (children_of (run_id parent))) q = (Inr cs, q1)" "length cs < length (ev_steps v)"
      "cs = [] \<or> is_terminal (last cs)" "create_child E G C child parent (step_registry v (length cs)) q1 = (r0, q')"
      "\<forall>c. r0 \<noteq> Inr (Some c)" "\<forall>n. r = Inr n \<longrightarrow> n = 0"
  | (link) cs q1 c q2 r0 where "fresh_read E (query E (children_of (run_id parent))) q = (Inr cs, q1)" "length cs < length (ev_steps v)"
      "cs = [] \<or> is_terminal (last cs)" "create_child E G C child parent (step_registry v (length cs)) q1 = (Inr (Some c), q2)"
      "link_child E parent c q2 = (r0, q')" "\<forall>n. r = Inr n \<longrightarrow> n = 1 \<and> r0 = Inr ()"
proof -
  obtain r1 q1 where f: "fresh_read E (query E (children_of (run_id parent))) q = (r1, q1)"
    by (cases "fresh_read E (query E (children_of (run_id parent))) q")
  note d = fresh_read_query[OF f]
  show thesis
  proof (cases r1)
    case (Inl e)
    then show ?thesis using a v f d by (intro read) (auto simp: advance_one_def bindc_def from_result_def)
  next
    case (Inr cs)
    note f = f[unfolded Inr]
    let ?rest = "dispatch_step E G C child parent (step_registry v (length cs))"
    have body: "(if length (ev_steps v) \<le> length cs then
        (if list_all is_terminal cs then seqc (finish_parent E (run_id parent) (campaign_outcome cs (pass_threshold v))) (ret 0) else ret 0)
      else if cs \<noteq> [] \<and> \<not> is_terminal (last cs) then ret 0 else ?rest) q1 = (r, q')"
      using a v f by (simp add: advance_one_def bindc_def from_result_def)
    consider (fin) "length (ev_steps v) \<le> length cs" "list_all is_terminal cs"
      | (wait) "length (ev_steps v) \<le> length cs \<and> \<not> list_all is_terminal cs \<or> length cs < length (ev_steps v) \<and> cs \<noteq> [] \<and> \<not> is_terminal (last cs)"
      | (go) "length cs < length (ev_steps v)" "cs = [] \<or> is_terminal (last cs)" by linarith
    then show ?thesis
    proof cases
      case fin
      obtain r0 q2 where e: "finish_parent E (run_id parent) (campaign_outcome cs (pass_threshold v)) q1 = (r0, q2)"
        by (cases "finish_parent E (run_id parent) (campaign_outcome cs (pass_threshold v)) q1")
      have "q2 = q'" "\<forall>n. r = Inr n \<longrightarrow> n = 0" using fin body e by (auto simp: seqc_def bindc_def split: sum.splits)
      then show ?thesis using finish[OF f fin(2,1)] e by blast
    next
      case wait
      then show ?thesis using body d by (intro read) (auto split: if_splits)
    next
      case go
      have body: "?rest q1 = (r, q')" using body go by (auto split: if_splits)
      obtain r0 q2 where e: "create_child E G C child parent (step_registry v (length cs)) q1 = (r0, q2)"
        by (cases "create_child E G C child parent (step_registry v (length cs)) q1")
      show ?thesis
      proof (cases "\<exists>c. r0 = Inr (Some c)")
        case True
        then obtain c where c: "r0 = Inr (Some c)" by blast
        obtain r3 q3 where l: "link_child E parent c q2 = (r3, q3)" by (cases "link_child E parent c q2")
        have "q3 = q'" "\<forall>n. r = Inr n \<longrightarrow> n = 1 \<and> r3 = Inr ()"
          using body e c l by (auto simp: dispatch_step_def seqc_def bindc_def split: sum.splits)
        then show ?thesis using link[OF f go] e c l by blast
      next
        case False
        then have "q2 = q'" "\<forall>n. r = Inr n \<longrightarrow> n = 0"
          using body e by (auto simp: dispatch_step_def bindc_def split: sum.splits option.splits)
        then show ?thesis using stuck[OF f go] e False by blast
      qed
    qed
  qed
qed

lemma advance_one_steps:
  assumes a: "advance_one E G C child (parent, def) q = (r, q')" and v: "cc_envelope C def = Inr v"
    and new: "child \<notin> run_id ` set (runs (data (q_store q)))"
  shows "(campaign_step E G C v (run_id parent))\<^sup>*\<^sup>* (PIdle, q) (PIdle, q')"
  using a v
proof (cases rule: advance_one_cases)
  case read
  then show ?thesis by (intro r_into_rtranclp only_reads)
next
  case (finish cs q1 r0)
  then show ?thesis by (intro r_into_rtranclp campaign_step.finish)
next
  case (stuck cs q1 r0)
  have "child \<notin> run_id ` set (runs (data (q_store q1)))" using fresh_read_query[OF stuck(1)] new by simp
  from campaign_step.create[OF refl stuck(4) this] have "campaign_step E G C v (run_id parent) (PChosen (length cs), q1) (PIdle, q')"
    using stuck(5) by (simp split: sum.splits option.splits)
  moreover have "campaign_step E G C v (run_id parent) (PIdle, q) (PChosen (length cs), q1)" by (rule campaign_step.choose[OF stuck(1-3)])
  ultimately show ?thesis by (meson converse_rtranclp_into_rtranclp rtranclp.rtrancl_refl)
next
  case (link cs q1 c q2 r0)
  have "child \<notin> run_id ` set (runs (data (q_store q1)))" using fresh_read_query[OF link(1)] new by simp
  from campaign_step.create[OF refl link(4) this] have "campaign_step E G C v (run_id parent) (PChosen (length cs), q1) (PCreated c, q2)"
    by simp
  moreover have "campaign_step E G C v (run_id parent) (PIdle, q) (PChosen (length cs), q1)" by (rule campaign_step.choose[OF link(1-3)])
  moreover have "campaign_step E G C v (run_id parent) (PCreated c, q2) (PIdle, q')" by (rule campaign_step.link[OF refl link(5)])
  ultimately show ?thesis by (meson converse_rtranclp_into_rtranclp rtranclp.rtrancl_refl)
qed

section \<open>What the campaign promises\<close>


text \<open>C18: a tick that reports an enqueued experiment created the run of the experiment behind the last finished child under the
  approval rules: the definition was classified for the campaign's environment and the rights of the person who started the campaign, and it
  waits for an approval of its tier and quorum unless it is free of risk; then the run was linked to the campaign.\<close>

theorem campaign_step_is_gated:
  assumes "advance_one E G C child (parent, def) q = (Inr n, q')" "cc_envelope C def = Inr v" "n \<noteq> 0"
  shows "\<exists>q1 q2 cs. cs = children_of (run_id parent) (data (q_store q)) \<and> length cs < length (ev_steps v) \<and> (cs = [] \<or> is_terminal (last cs))
    \<and> data (q_store q1) = data (q_store q) \<and> child_created E G C child parent (step_registry v (length cs)) q1 q2
    \<and> link_child E parent child q2 = (Inr (), q') \<and> n = 1"
  using assms(1,2)
proof (cases rule: advance_one_cases)
  case (link cs q1 c q2 r0)
  have "c = child" and "child_created E G C child parent (step_registry v (length cs)) q1 q2" using create_child_Inr[OF link(4)] by simp_all
  then show ?thesis using link fresh_read_query[OF link(1)] by blast
qed (use assms(3) in blast)+

text \<open>The outcome, in whole numbers.\<close>

lemma rnd53_threshold: "rnd53 (3 / 4) = 3 / 4" "rnd53 (3 / 4 - 1 / 2 ^ 34) = 3 / 4 - 1 / 2 ^ 34"
  by code_simp+

lemma ratio_default_threshold:
  assumes n: "0 < n" "n < 2 ^ 32" and a: "a \<le> n"
  shows "f64_ge (f64_ratio a n) default_threshold \<longleftrightarrow> 3 * n \<le> 4 * a"
proof (cases "a = 0")
  case True
  then show ?thesis using n by (simp add: f64_ratio_def f64_ge_def default_threshold_def rnd53_def)
next
  case False
  note rr = ratio_range[of a n]
  have pos: "(0::rat) < of_nat n" using n by simp
  show ?thesis
  proof (cases "3 * n \<le> 4 * a")
    case True
    have "(of_nat (3 * n) :: rat) \<le> of_nat (4 * a)" using True by (simp only: of_nat_le_iff)
    then have "(3 / 4 :: rat) \<le> of_nat a / of_nat n" using pos by (simp add: field_simps)
    then have "rnd53 (3 / 4) \<le> rnd53 (of_nat a / of_nat n)" using rr False n a by (intro rnd53_mono) auto
    then show ?thesis using True by (simp add: f64_ratio_def f64_ge_def default_threshold_def rnd53_threshold)
  next
    case no: False
    have "4 * a + 1 \<le> 3 * n" using no by simp
    then have "(of_nat (4 * a + 1) :: rat) \<le> of_nat (3 * n)" by (simp only: of_nat_le_iff)
    then have "(of_nat a / of_nat n :: rat) \<le> 3 / 4 - 1 / (4 * of_nat n)" using pos by (simp add: field_simps)
    moreover have "(of_nat n :: rat) \<le> of_nat (2 ^ 32)" using n(2) by (simp only: of_nat_le_iff)
    then have "1 / 2 ^ 34 \<le> (1 / (4 * of_nat n) :: rat)" using pos by (simp add: field_simps)
    ultimately have "(of_nat a / of_nat n :: rat) \<le> 3 / 4 - 1 / 2 ^ 34" by linarith
    then have "rnd53 (of_nat a / of_nat n) \<le> rnd53 (3 / 4 - 1 / 2 ^ 34)" using rr False n a by (intro rnd53_mono) auto
    then have "rnd53 (of_nat a / of_nat n) < 3 / 4" unfolding rnd53_threshold by simp
    then show ?thesis using no by (simp add: f64_ratio_def f64_ge_def default_threshold_def)
  qed
qed

text \<open>With the default threshold a campaign of finished children passes exactly when none failed and at least three quarters
  passed: the rounding of the quotient never changes the verdict, and of the two states that would fail it only \<open>failed\<close> can occur.\<close>

theorem campaign_outcome_exact:
  assumes "children \<noteq> []" "length children < 2 ^ 32" "list_all is_terminal children"
  shows "campaign_outcome children default_threshold =
    (if \<exists>c \<in> set children. run_st c = RFailed then RFailed
     else if 3 * length children \<le> 4 * length (filter (\<lambda>c. run_st c = Passed) children) then Passed else RDeviated)"
proof -
  have "\<not> is_terminal c" if "run_st c = Orphaned" for c using that by (simp add: is_terminal_def)
  then have no: "list_ex (\<lambda>c. run_st c = RFailed \<or> run_st c = Orphaned) children \<longleftrightarrow> (\<exists>c \<in> set children. run_st c = RFailed)"
    using assms(3) by (auto simp: list_ex_iff list_all_iff)
  have m: "max (Suc 0) (length children) = length children" using assms(1) by (cases children) auto
  show ?thesis
    using ratio_default_threshold[of "length children" "length (filter (\<lambda>c. run_st c = Passed) children)"] assms(1,2)
    by (simp add: campaign_outcome_def no m Let_def length_filter_le)
qed

end
