(* ===== verification/Campaign_Examples.thy ===== *)
theory Campaign_Examples
  imports Campaign_Order Daemon_Examples
begin

text \<open>
  A campaign of two experiments on concrete stores: its first step, a step that is created again after a crash
  before its link, and the verdict over a child that lost its daemon.
\<close>

definition day_envelope :: envelope where
  "day_envelope = \<lparr> ev_steps = [Some ''g'', Some ''h''], ev_threshold = None \<rparr>"

definition day_codec :: campaign_codec where
  "day_codec = \<lparr> cc_envelope = (\<lambda>_. Inr day_envelope), cc_env = (\<lambda>_. None) \<rparr>"

definition registered :: "string \<Rightarrow> bool \<Rightarrow> registry_row" where
  "registered g day = \<lparr> reg_id = g, reg_name = g, reg_definition_toon = ''toon'', reg_content_hash = [], reg_registered_at = 0,
     reg_registered_by = None, reg_gameday = day \<rparr>"

definition day_parent :: run_row where
  "day_parent = new_row \<lparr> nr_id = ''d'', nr_registry_id = ''day'', nr_params_json = None, nr_queued_at = 0, nr_actor = None \<rparr> Queued"

definition day_queue :: qstate where
  "day_queue = spawn_queue \<lparr> data = empty_db \<lparr> registry := [registered ''g'' False, registered ''h'' False, registered ''day'' True],
     runs := [day_parent] \<rparr>, tick = 0 \<rparr> queue_config_default"

lemma day_fields: "run_id day_parent = ''d''" "run_st day_parent = Queued" "run_gameday_id day_parent = None"
    "runs (data (q_store day_queue)) = [day_parent]" "registry (data (q_store day_queue)) = [registered ''g'' False, registered ''h'' False, registered ''day'' True]"
    "campaign_env day_codec day_parent = ''dev''" "cc_envelope day_codec def = Inr day_envelope" "ev_steps day_envelope = [Some ''g'', Some ''h'']"
    "reg_id (registered g b) = g"
  by (simp_all add: day_parent_def new_row_def day_queue_def spawn_queue_def campaign_env_def day_codec_def day_envelope_def registered_def)

section \<open>The first step\<close>

text \<open>With the calm engine every definition prepares to the same experiment, which no operator has bound: its run waits for the
  highest tier's approval.\<close>

lemma calm_read: "on_store (query calm_env f) q = (Inr (f (data (q_store q))), q \<lparr> q_store := (q_store q) \<lparr> tick := tick (q_store q) + 1 \<rparr> \<rparr>)"
  by (simp add: on_store_def exec_write_def put_store_def reliable_query[OF calm_reliable] map_err_def)

lemma calm_fresh_read: "fresh_read calm_env (query calm_env f) q = (Inr (f (data (q_store q))), q \<lparr> q_store := (q_store q) \<lparr> tick := tick (q_store q) + 2 \<rparr> \<rparr>)"
  by (simp add: fresh_read_def on_store_def exec_write_def put_store_def seqc_def bindc_def reliable_stmt[OF calm_reliable]
      reliable_query[OF calm_reliable] map_err_def)

lemma calm_gated:
  assumes r: "req_vars r = Map.empty" "req_env r = ''dev''" "req_target r = None"
  shows "\<exists>q'. request_gated_checked calm_env calm_engine child r T3 actor (Some ''x'') q = (Inr child, q')"
proof -
  let ?n = "env_clock calm_env (tick (q_store q))"
  obtain t where ins: "insert_gated_run_with_context calm_env
    \<lparr> nr_id = child, nr_registry_id = req_registry_id r, nr_params_json = None, nr_queued_at = ?n, nr_actor = actor \<rparr>
    (approval_row calm_env child r T3 actor ?n) (Some (requested_detail T3 (canonical_pin calm_env r)))
    (Some (ContextObject (PinString ''x'') ''context'')) ((q_store q) \<lparr> tick := Suc (tick (q_store q)) \<rparr>) = (Inr (), t)"
    using reliable_gated_insert[OF calm_reliable] by blast
  have h: "eng_execution_hash calm_engine x v = Inr ''x''" "request_context calm_engine r ''x'' = ContextObject (PinString ''x'') ''context''"
    for x v by (simp_all add: calm_engine_def request_context_def)
  show ?thesis using ins
    by (simp add: request_gated_checked_def r h calm_tier calm_prepare no_params bindc_def seqc_def with_err_def
        on_store_def exec_write_def put_store_def now_ns_def from_result_def map_err_def check_expected_def ensure_def ret_def)
qed

lemma calm_create:
  assumes "find (\<lambda>x. reg_id x = g) (registry (data (q_store q))) = Some d"
  shows "\<exists>q'. create_child calm_env calm_engine day_codec child day_parent g q = (Inr (Some child), q')"
proof -
  let ?r = "\<lparr> req_registry_id = reg_id d, req_definition_toon = reg_definition_toon d, req_vars = Map.empty, req_env = ''dev'', req_target = None \<rparr>"
  have u: "actor_requires_binding (eng_users calm_engine) a env = Inr False" "eng_execution_hash calm_engine x v = Inr ''x''" for a env x v
    by (simp_all add: calm_engine_def open_lake_def actor_requires_binding_def)
  obtain q' where "request_gated_checked calm_env calm_engine child ?r T3
      (campaign_actor (sort_key au_at (run_audits ''d'' (data (q_store q))))) (Some ''x'')
      (q \<lparr> q_store := (q_store q) \<lparr> tick := Suc (Suc (tick (q_store q))) \<rparr> \<rparr>) = (Inr child, q')"
    using calm_gated[of ?r] by fastforce
  then show ?thesis
    by (simp add: create_child_def registry_definition_def run_audit_trail_def calm_read assms bindc_def from_result_def map_err_def
        u calm_prepare day_fields calm_tier)
qed

lemma calm_link:
  assumes r: "runs (data (q_store q)) = [day_parent, row]" "run_id row = ''c1''"
  shows "\<exists>q'. link_child calm_env day_parent ''c1'' q = (Inr (), q') \<and> runs (data (q_store q')) =
    [day_parent \<lparr> run_st := Running \<rparr>, row \<lparr> run_gameday_id := Some ''d'' \<rparr>]"
proof -
  let ?s = "q_store q"
  let ?s1 = "?s \<lparr> tick := tick ?s + 1, data := (data ?s) \<lparr> runs := [day_parent, row \<lparr> run_gameday_id := Some ''d'' \<rparr>] \<rparr> \<rparr>"
  have g: "set_run_gameday calm_env ''c1'' ''d'' ?s = (Inr (), ?s1)"
    by (simp add: set_run_gameday_def update_runs_def reliable_execute[OF calm_reliable] update_where_def bindc_def r day_fields ret_def del: execute_Inr)
  let ?P = "\<lambda>r. run_id r = ''d'' \<and> \<not> terminal (run_st r) \<and> (Running \<noteq> Queued \<or> run_st r = PendingApproval)"
  let ?s2 = "?s1 \<lparr> tick := tick ?s + 2 \<rparr>"
  let ?s3 = "?s1 \<lparr> tick := tick ?s + 3, data := (data ?s) \<lparr> runs := [day_parent \<lparr> run_st := Running \<rparr>, row \<lparr> run_gameday_id := Some ''d'' \<rparr>] \<rparr> \<rparr>"
  have u: "update_runs calm_env ?P (\<lambda>r. r \<lparr> run_st := Running \<rparr>) ?s2 = (Inr 1, ?s3)"
    by (simp add: update_runs_def reliable_execute[OF calm_reliable] update_where_def r day_fields del: execute_Inr)
  obtain t a where t: "insert_run_audit calm_env ''d'' ''campaign_started'' None None ?s3 = (Inr (), t)" "data t = data ?s3 \<lparr> audits := audits (data ?s3) @ [a] \<rparr>"
    using reliable_audit[OF calm_reliable] by blast
  have "set_run_state_with calm_env ''d'' Running (Some ''campaign_started'') None None ?s1 = (Inr (), t \<lparr> tick := tick t + 1 \<rparr>)"
    unfolding set_run_state_with_def
    by (rule reliable_with_tx[OF calm_reliable]) (use u t(1) in \<open>simp add: bindc_def seqc_def require_transition_def ensure_def ret_def\<close>)
  then show ?thesis using g t(2)
    by (simp add: link_child_def on_store_def exec_write_def put_store_def seqc_def bindc_def day_fields map_err_def)
qed

definition first_tick :: "(string, nat) result \<times> qstate" where
  "first_tick = advance_one calm_env calm_engine day_codec ''c1'' (day_parent, ''day'') day_queue"

lemma day_no_children: "children_of ''d'' (data (q_store day_queue)) = []"
  by (simp add: children_of_def day_fields)

lemma first_tick_ok: "\<exists>row. first_tick = (Inr 1, snd first_tick) \<and> run_id row = ''c1''
  \<and> runs (data (q_store (snd first_tick))) = [day_parent \<lparr> run_st := Running \<rparr>, row \<lparr> run_gameday_id := Some ''d'' \<rparr>]"
proof -
  let ?q1 = "day_queue \<lparr> q_store := (q_store day_queue) \<lparr> tick := tick (q_store day_queue) + 2 \<rparr> \<rparr>"
  obtain q2 where c: "create_child calm_env calm_engine day_codec ''c1'' day_parent ''g'' ?q1 = (Inr (Some ''c1''), q2)"
    using calm_create[of "''g''" ?q1 _ "''c1''"] by (simp add: day_fields) blast
  obtain row where row: "runs (data (q_store q2)) = [day_parent, row]" "run_id row = ''c1''"
    using child_row[OF c] by (auto simp: day_fields)
  obtain q3 where l: "link_child calm_env day_parent ''c1'' q2 = (Inr (), q3)"
      "runs (data (q_store q3)) = [day_parent \<lparr> run_st := Running \<rparr>, row \<lparr> run_gameday_id := Some ''d'' \<rparr>]"
    using calm_link[OF row] by blast
  have "first_tick = (Inr 1, q3)" using c l(1)
    by (simp add: first_tick_def advance_one_def day_fields bindc_def from_result_def calm_fresh_read day_no_children dispatch_step_def
        step_registry_def seqc_def ret_def)
  then have "first_tick = (Inr 1, snd first_tick)" "snd first_tick = q3" by (metis snd_conv)+
  then show ?thesis using l(2) row(2) by blast
qed

theorem campaign_step_is_gated_witness:
  "\<exists>q2. link_child calm_env day_parent ''c1'' q2 = (Inr (), snd first_tick)
    \<and> (\<exists>q1. data (q_store q1) = data (q_store day_queue) \<and> child_created calm_env calm_engine day_codec ''c1'' day_parent ''g'' q1 q2)"
proof -
  have a: "advance_one calm_env calm_engine day_codec ''c1'' (day_parent, ''day'') day_queue = (Inr 1, snd first_tick)"
    using first_tick_ok unfolding first_tick_def by blast
  have g: "step_registry day_envelope 0 = ''g''" by (simp add: step_registry_def day_fields)
  show ?thesis using campaign_step_is_gated[OF a day_fields(7)] day_no_children by (auto simp: day_fields(1) g)
qed


section \<open>A crash before the link\<close>

text \<open>The run of a step exists before it is linked. A crash, or a failed write, in between leaves a run that no
  child of the campaign, and the next tick creates the same step again: both runs exist, and the approval of the first
  is still open.\<close>

lemma five_steps: "R a b \<Longrightarrow> R b c \<Longrightarrow> R c d \<Longrightarrow> R d e \<Longrightarrow> R e f \<Longrightarrow> R\<^sup>*\<^sup>* a f"
  by (blast intro: converse_rtranclp_into_rtranclp)

theorem unlinked_step_runs_twice:
  "\<exists>q a b. (campaign_step calm_env calm_engine day_codec day_envelope ''d'')\<^sup>*\<^sup>* (PIdle, day_queue) (PCreated ''c2'', q)
    \<and> runs (data (q_store q)) = [day_parent, a, b] \<and> run_id a = ''c1'' \<and> run_id b = ''c2''
    \<and> run_registry_id a = ''g'' \<and> run_registry_id b = ''g''"
proof -
  let ?step = "campaign_step calm_env calm_engine day_codec day_envelope ''d''"
  let ?later = "\<lambda>q. q \<lparr> q_store := (q_store q) \<lparr> tick := tick (q_store q) + 2 \<rparr> \<rparr>"
  have choose: "?step (PIdle, q) (PChosen 0, ?later q)" if "children_of ''d'' (data (q_store q)) = []" for q
    using campaign_step.choose[OF calm_fresh_read, of "''d''" q day_envelope calm_engine day_codec] that by (simp add: day_fields)
  have g: "step_registry day_envelope 0 = ''g''" by (simp add: step_registry_def day_fields)
  have create: "?step (PChosen 0, q) (PCreated c, q')"
    if "create_child calm_env calm_engine day_codec c day_parent ''g'' q = (Inr (Some c), q')" "c \<notin> run_id ` set (runs (data (q_store q)))" for q q' c
    using campaign_step.create[of day_parent "''d''" calm_env calm_engine day_codec c day_envelope 0 q "Inr (Some c)" q'] that
    by (simp add: day_fields g)
  obtain q1 where q1: "create_child calm_env calm_engine day_codec ''c1'' day_parent ''g'' (?later day_queue) = (Inr (Some ''c1''), q1)"
    using calm_create[of "''g''" "?later day_queue" _ "''c1''"] by (simp add: day_fields) blast
  obtain a where a: "runs (data (q_store q1)) = [day_parent, a]" "run_id a = ''c1''" "run_registry_id a = ''g''" "run_gameday_id a = None"
    using child_row[OF q1] by (auto simp: day_fields)
  have "registry (data (q_store q1)) = registry (data (q_store day_queue))"
    using obeysD[OF addsq_create_child q1] by (simp add: addsq_def adds_def)
  then have "\<exists>d. find (\<lambda>x. reg_id x = ''g'') (registry (data (q_store (?later q1)))) = Some d" by (simp add: day_fields)
  then obtain q2 where q2: "create_child calm_env calm_engine day_codec ''c2'' day_parent ''g'' (?later q1) = (Inr (Some ''c2''), q2)"
    using calm_create[of "''g''" "?later q1" _ "''c2''"] by auto
  obtain b where b: "runs (data (q_store q2)) = [day_parent, a, b]" "run_id b = ''c2''" "run_registry_id b = ''g''"
    using child_row[OF q2] by (auto simp: a)
  have s1: "?step (PIdle, day_queue) (PChosen 0, ?later day_queue)" by (rule choose[OF day_no_children])
  have s2: "?step (PChosen 0, ?later day_queue) (PCreated ''c1'', q1)" by (rule create[OF q1]) (simp add: day_fields)
  have s3: "?step (PCreated ''c1'', q1) (PIdle, q1)" by (rule campaign_step.crash)
  have s4: "?step (PIdle, q1) (PChosen 0, ?later q1)" by (rule choose) (simp add: children_of_def a day_fields)
  have s5: "?step (PChosen 0, ?later q1) (PCreated ''c2'', q2)" by (rule create[OF q2]) (simp add: a day_fields)
  have "?step\<^sup>*\<^sup>* (PIdle, day_queue) (PCreated ''c2'', q2)" by (rule five_steps[where R = ?step, OF s1 s2 s3 s4 s5])
  then show ?thesis using a b by blast
qed

section \<open>The verdict\<close>

definition child_in :: "run_state \<Rightarrow> run_row" where
  "child_in st = new_row \<lparr> nr_id = ''c'', nr_registry_id = ''g'', nr_params_json = None, nr_queued_at = 0, nr_actor = None \<rparr> st"

lemma child_st: "run_st (child_in st) = st"
  by (simp add: child_in_def new_row_def)

theorem campaign_outcome_exact_witness:
  "campaign_outcome [child_in Passed, child_in Passed, child_in Passed, child_in RDeviated] default_threshold = Passed"
proof -
  let ?cs = "[child_in Passed, child_in Passed, child_in Passed, child_in RDeviated]"
  have "list_all is_terminal ?cs" by (simp add: is_terminal_def child_st)
  then show ?thesis using campaign_outcome_exact[of ?cs] by (simp add: child_st)
qed

lemma mapped_row: "ys = map (\<lambda>x. if P x then f x else x) xs \<Longrightarrow> y \<in> set ys \<Longrightarrow> (\<exists>x. y = f x) \<or> \<not> P y"
  by auto

text \<open>Recovery ends a child whose daemon died as aborted, and an aborted child does not fail the campaign: three passed children carry it.\<close>

theorem orphaned_child_does_not_fail:
  assumes "finish_orphan E rid NothingExecuted s = (Inr (), s')" "r \<in> set (runs (data s'))" "run_id r = rid"
  shows "run_st r = RAborted \<and> campaign_outcome [child_in Passed, child_in Passed, child_in Passed, r] default_threshold = Passed"
proof -
  have "finish_run E rid RAborted None (Some ''not_needed'') (Some ''orphaned before execution'') s = (Inr (), s')"
    using assms(1) by (simp add: finish_orphan_def)
  from finish_run_rows[OF this] obtain now where "runs (data s') = map (\<lambda>r. if finishable rid RAborted r then
      finished_row RAborted None (Some ''not_needed'') (Some ''orphaned before execution'') now r else r) (runs (data s))" by blast
  from mapped_row[OF this assms(2)] have "run_st r = RAborted \<or> \<not> finishable rid RAborted r" by (auto simp: finished_row_def)
  then have a: "run_st r = RAborted" using assms(3) by (simp add: finishable_def)
  have f: "f64_ge (f64_ratio 3 4) default_threshold" unfolding f64_ratio_def f64_ge_def default_threshold_def by (simp add: rnd53_threshold)
  let ?cs = "[child_in Passed, child_in Passed, child_in Passed, r]"
  have n: "length (filter (\<lambda>c. run_st c = Passed) ?cs) = 3" "max 1 (length ?cs) = 4" "\<not> list_ex (\<lambda>c. run_st c = RFailed \<or> run_st c = Orphaned) ?cs"
    by (simp_all add: a child_st)
  have "campaign_outcome ?cs default_threshold = Passed" unfolding campaign_outcome_def n Let_def using n(3) f by simp
  then show ?thesis using a by simp
qed

end
