(* ===== verification/Scoring.thy ===== *)
theory Scoring
  imports Sql_Util Float_Arith "HOL-Library.Product_Lexorder" "HOL-Library.Multiset"
begin

text \<open>
  The resilience scorecard (\<open>tumult-compliance/src/scoring.rs\<close>): the query for the latest runs, the score of one run with
  its decay, the rollup into targets and the portfolio. The reader is an argument that answers a query text with rows;
  timestamps are integers.
\<close>

section \<open>Scores\<close>

definition STALE_NS :: int where
  "STALE_NS = 30 * 86400 * 1000000000"

datatype score_state = SPassed | SStale | SPartial | SFailed | SNeverRun

definition score_run :: "(int \<times> bool) option \<Rightarrow> int \<Rightarrow> nat \<times> score_state" where
  "score_run latest as_of = (case latest of
     None \<Rightarrow> (0, SNeverRun)
   | Some (ts, ok) \<Rightarrow> if \<not> ok then (50, SFailed) else if as_of - ts > STALE_NS then (75, SStale) else (100, SPassed))"

definition band :: "f64 \<Rightarrow> string" where
  "band score = (if f64_lt (Fin 70) score then ''good'' else if f64_ge score (Fin 50) then ''fair'' else ''poor'')"

text \<open>\<open>sort_by\<close> with \<open>partial_cmp\<close>, equal where it has no answer: stable. (With a NaN among the values the library leaves the order open; the model does not follow it there.)\<close>

fun insert_low :: "('a \<Rightarrow> f64) \<Rightarrow> 'a \<Rightarrow> 'a list \<Rightarrow> 'a list" where
  "insert_low f x [] = [x]"
| "insert_low f x (y # ys) = (if f64_lt (f y) (f x) then y # insert_low f x ys else x # y # ys)"

definition sort_low :: "('a \<Rightarrow> f64) \<Rightarrow> 'a list \<Rightarrow> 'a list" where
  "sort_low f xs = foldr (insert_low f) xs []"

section \<open>The query\<close>

definition env_in :: "string \<Rightarrow> string list \<Rightarrow> string option" where
  "env_in col envs = (if envs = [] then None
     else Some (col @ '' IN ('' @ intersperse_str '', '' (map (\<lambda>e. [quote] @ replace_char quote [quote, quote] e @ [quote]) envs) @ '')''))"

definition and_env :: "string option \<Rightarrow> string" where
  "and_env pred = (case pred of None \<Rightarrow> [] | Some p \<Rightarrow> '' AND '' @ p)"

text \<open>\<open>str::replace\<close> of a text; the code never replaces the empty one.\<close>

function replace_str :: "string \<Rightarrow> string \<Rightarrow> string \<Rightarrow> string" where
  "replace_str pat rep [] = []"
| "replace_str pat rep (c # cs) = (if pat = [] then c # cs
     else case strip_prefix pat (c # cs) of Some r \<Rightarrow> rep @ replace_str pat rep r | None \<Rightarrow> c # replace_str pat rep cs)"
  by pat_completeness auto
termination
proof (relation "measure (\<lambda>(pat, rep, s). length s)")
  fix pat rep cs r and c :: char
  assume "pat \<noteq> []" "strip_prefix pat (c # cs) = Some r"
  then have "length (c # cs) = length pat + length r" "0 < length pat" by (simp_all flip: length_append)
  then show "((pat, rep, r), pat, rep, c # cs) \<in> measure (\<lambda>(pat, rep, s). length s)" by simp
qed auto

definition LATEST_SQL :: string where
  "LATEST_SQL = ''SELECT * FROM ( SELECT s.experiment_name AS name, s.target_system AS target, s.ts_ns AS ts, s.fault_severity AS severity, l.log_attrs[''
     @ lit_text ''status'' @ ''] AS status, '' @ lit_text ''automated''
     @ '' AS origin, s.target_environment AS environment, s.experiment_id AS evidence_id, (SELECT COUNT(*) FROM spans r WHERE r.span_name = ''
     @ lit_text ''resilience.experiment'' @ '' AND r.experiment_name = s.experiment_name AND r.target_system IS NOT DISTINCT FROM s.target_system AND r.target_environment IS NOT DISTINCT FROM s.target_environment AND r.ts_ns <= {AS_OF}{ENV_R}) AS runs FROM spans s LEFT JOIN logs l ON l.log_attrs[''
     @ lit_text ''experiment_id'' @ ''] = s.experiment_id AND l.body = '' @ lit_text ''experiment.completed'' @ '' WHERE s.span_name = ''
     @ lit_text ''resilience.experiment'' @ '' AND s.experiment_name IS NOT NULL AND s.ts_ns <= {AS_OF}{ENV_S} UNION ALL SELECT m.experiment_name, m.target_system, m.executed_at_ns, NULL, m.outcome_status, ''
     @ lit_text ''manual'' @ '', m.target_environment, m.id, 1 FROM manual_experiments m WHERE m.status = '' @ lit_text ''verified'' @ '' AND m.outcome_status != ''
     @ lit_text ''inconclusive'' @ '' AND m.executed_at_ns <= {AS_OF}{ENV_M} ) QUALIFY ROW_NUMBER() OVER (PARTITION BY name, target, environment, origin ORDER BY ts DESC, evidence_id DESC) = 1''"

definition latest_sql :: "int \<Rightarrow> string list \<Rightarrow> string" where
  "latest_sql as_of envs = replace_str ''{ENV_M}'' (and_env (env_in ''m.target_environment'' envs))
     (replace_str ''{ENV_R}'' (and_env (env_in ''r.target_environment'' envs))
     (replace_str ''{ENV_S}'' (and_env (env_in ''s.target_environment'' envs))
     (replace_str ''{AS_OF}'' (int_text as_of) LATEST_SQL)))"

section \<open>The scorecard\<close>

text \<open>A row of the answer, each column as its accessor reads it.\<close>

record latest_row =
  lt_name :: "string option"
  lt_target :: "string option"
  lt_ts :: "int option"
  lt_status :: "string option"
  lt_runs :: "nat option"
  lt_severity :: "string option"
  lt_origin :: "string option"
  lt_environment :: "string option"
  lt_evidence :: "string option"

record experiment_score =
  xs_name :: string
  xs_target :: "string option"
  xs_environment :: "string option"
  xs_evidence :: "string option"
  xs_score :: nat
  xs_state :: score_state
  xs_band :: string
  xs_last_run :: "int option"
  xs_outcome :: "string option"
  xs_severity :: "string option"
  xs_runs :: nat
  xs_origin :: string

record target_score =
  ts_target :: string
  ts_score :: f64
  ts_band :: string
  ts_runs :: nat
  ts_last_run :: "int option"

record scorecard =
  sc_portfolio :: f64
  sc_band :: string
  sc_delta :: "f64 option"
  sc_as_of :: int
  sc_targets :: "target_score list"
  sc_experiments :: "experiment_score list"

definition score_row :: "latest_row \<Rightarrow> int \<Rightarrow> nat \<times> score_state" where
  "score_row r as_of = (let outcome = map_option lower (lt_status r) in
     if outcome = Some ''completed'' \<or> outcome = Some ''passed'' then score_run (map_option (\<lambda>t. (t, True)) (lt_ts r)) as_of
     else if outcome = Some ''partial'' then (75, SPartial)
     else score_run (map_option (\<lambda>t. (t, False)) (lt_ts r)) as_of)"

definition experiment_of :: "int \<Rightarrow> latest_row \<Rightarrow> experiment_score option" where
  "experiment_of as_of r = map_option (\<lambda>name. case score_row r as_of of (score, state) \<Rightarrow>
     \<lparr> xs_name = name, xs_target = lt_target r, xs_environment = lt_environment r, xs_evidence = lt_evidence r, xs_score = score, xs_state = state,
       xs_band = band (f64_of_nat score), xs_last_run = lt_ts r, xs_outcome = lt_status r, xs_severity = lt_severity r,
       xs_runs = (case lt_runs r of None \<Rightarrow> 0 | Some n \<Rightarrow> n), xs_origin = (case lt_origin r of None \<Rightarrow> ''automated'' | Some g \<Rightarrow> g) \<rparr>) (lt_name r)"

definition target_key :: "experiment_score \<Rightarrow> string" where
  "target_key e = (case xs_target e of None \<Rightarrow> ''(untargeted)'' | Some t \<Rightarrow> t)"

definition f64_mean :: "f64 list \<Rightarrow> f64" where
  "f64_mean xs = f64_div (f64_sum xs) (f64_of_nat (length xs))"

definition latest_of :: "int option list \<Rightarrow> int option" where
  "latest_of ts = (let xs = concat (map (\<lambda>x. case x of None \<Rightarrow> [] | Some t \<Rightarrow> [t]) ts) in if xs = [] then None else Some (Max (set xs)))"

definition target_of :: "experiment_score list \<Rightarrow> string \<Rightarrow> target_score" where
  "target_of es target = (let exps = filter (\<lambda>e. target_key e = target) es; score = f64_mean (map (\<lambda>e. f64_of_nat (xs_score e)) exps) in
     \<lparr> ts_target = target, ts_score = score, ts_band = band score, ts_runs = sum_list (map xs_runs exps),
       ts_last_run = latest_of (map xs_last_run exps) \<rparr>)"

definition targets_of :: "experiment_score list \<Rightarrow> target_score list" where
  "targets_of es = sort_low ts_score (map (target_of es) (sorted_list_of_set (set (map target_key es))))"

definition portfolio_of :: "target_score list \<Rightarrow> f64" where
  "portfolio_of ts = (if ts = [] then Fin 0 else f64_mean (map ts_score ts))"

definition scorecard_of :: "latest_row list \<Rightarrow> int \<Rightarrow> scorecard" where
  "scorecard_of rows as_of = (let es = sort_key (\<lambda>e. (xs_score e, xs_name e)) (List.map_filter (experiment_of as_of) rows);
       ts = targets_of es; portfolio = portfolio_of ts in
     \<lparr> sc_portfolio = portfolio, sc_band = band portfolio, sc_delta = None, sc_as_of = as_of, sc_targets = ts, sc_experiments = es \<rparr>)"

type_synonym lake_reader = "string \<Rightarrow> (string, latest_row list) result"

definition compute_as_of :: "lake_reader \<Rightarrow> int \<Rightarrow> string list \<Rightarrow> (string, scorecard) result" where
  "compute_as_of rd as_of envs = (case rd (latest_sql as_of envs) of Inl e \<Rightarrow> Inl e | Inr rows \<Rightarrow> Inr (scorecard_of rows as_of))"

definition compute_scoped :: "lake_reader \<Rightarrow> int \<Rightarrow> int option \<Rightarrow> string list \<Rightarrow> (string, scorecard) result" where
  "compute_scoped rd as_of period_ns envs = res_bind (compute_as_of rd as_of envs) (\<lambda>card. case period_ns of
     None \<Rightarrow> Inr card
   | Some period \<Rightarrow> res_bind (compute_as_of rd (as_of - period) envs) (\<lambda>prev.
       Inr (card \<lparr> sc_delta := Some (f64_sub (sc_portfolio card) (sc_portfolio prev)) \<rparr>)))"

definition compute_scores :: "lake_reader \<Rightarrow> int \<Rightarrow> int option \<Rightarrow> (string, scorecard) result" where
  "compute_scores rd as_of period_ns = compute_scoped rd as_of period_ns []"

text \<open>The trend: integer division truncates towards zero.\<close>

fun series_from :: "lake_reader \<Rightarrow> int \<Rightarrow> int \<Rightarrow> int \<Rightarrow> string list \<Rightarrow> nat list \<Rightarrow> (string, (f64 \<times> f64) list) result" where
  "series_from rd as_of period step envs [] = Inr []"
| "series_from rd as_of period step envs (i # is) = res_bind (compute_as_of rd (as_of - period + step * int i) envs) (\<lambda>card.
     res_bind (series_from rd as_of period step envs is) (\<lambda>ps. Inr ((f64_of_nat i, sc_portfolio card) # ps)))"

definition portfolio_series_scoped :: "lake_reader \<Rightarrow> int \<Rightarrow> int \<Rightarrow> nat \<Rightarrow> string list \<Rightarrow> (string, (f64 \<times> f64) list) result" where
  "portfolio_series_scoped rd as_of period points envs = (let n = max 2 points; step = (if period < 0 then - (- period div int n) else period div int n) in
     series_from rd as_of period step envs [1..<n + 1])"

definition portfolio_series :: "lake_reader \<Rightarrow> int \<Rightarrow> int \<Rightarrow> nat \<Rightarrow> (string, (f64 \<times> f64) list) result" where
  "portfolio_series rd as_of period points = portfolio_series_scoped rd as_of period points []"

definition pending_sql :: "string list \<Rightarrow> string" where
  "pending_sql envs = ''SELECT experiment_name AS name FROM manual_experiments WHERE status IN ('' @ lit_text ''draft'' @ '', '' @ lit_text ''submitted'' @ '')''
     @ and_env (env_in ''target_environment'' envs) @ '' ORDER BY experiment_name''"

text \<open>The names of the answer's rows, where they are strings.\<close>

definition pending_manual_leaves_scoped :: "(string \<Rightarrow> (string, string option list) result) \<Rightarrow> string list \<Rightarrow> (string, string list) result" where
  "pending_manual_leaves_scoped rd envs = (case rd (pending_sql envs) of Inl e \<Rightarrow> Inl e | Inr rows \<Rightarrow> Inr (List.map_filter id rows))"

definition pending_manual_leaves :: "(string \<Rightarrow> (string, string option list) result) \<Rightarrow> (string, string list) result" where
  "pending_manual_leaves rd = pending_manual_leaves_scoped rd []"

section \<open>Shared facts\<close>

lemma strip_prefix_self [simp]: "strip_prefix p (p @ r) = Some r"
  by simp

lemma insert_low_mset [simp]: "mset (insert_low f x xs) = mset (x # xs)"
  by (induction xs) auto

lemma sort_low_mset: "mset (sort_low f xs) = mset xs"
  by (induction xs) (simp_all add: sort_low_def)

lemma sort_low_set [simp]: "set (sort_low f xs) = set xs" and sort_low_length [simp]: "length (sort_low f xs) = length xs"
  by (metis sort_low_mset set_mset_mset, metis sort_low_mset size_mset)

end
