(* ===== verification/Org_Tree.thy ===== *)
theory Org_Tree
  imports Scoring
begin

text \<open>
  The organisation tree of the scorecards (\<open>tumult-compliance/src/org.rs\<close>): an arena of nodes with parent and children
  indices built from the parsed file, globs that assign experiments to nodes, and the rollup of a node. The
  loops that follow parent links are partial functions, so that not ending is a value of the model.
\<close>

section \<open>The file\<close>

datatype org_error = OrgIo string | OrgYaml string | OrgInvalid string

record node_spec =
  ns_name :: string
  ns_kind :: string
  ns_parent :: "string option"

record assignment_spec =
  as_team :: string
  as_targets :: "string list"
  as_criticality :: "string \<rightharpoonup> string"

record org_file =
  of_nodes :: "node_spec list"
  of_assignments :: "assignment_spec list"
  of_weight :: f64
  of_stale_days :: nat

definition default_weight :: f64 where
  "default_weight = Fin 1"

section \<open>The tree\<close>

record org_node =
  nd_name :: string
  nd_kind :: string
  nd_parent :: "nat option"
  nd_children :: "nat list"

record assignment =
  ag_node :: nat
  ag_targets :: "string list"
  ag_criticality :: "string \<rightharpoonup> string"

record org_tree =
  ot_nodes :: "org_node list"
  ot_root :: nat
  ot_unassigned :: nat
  ot_by_name :: "string \<rightharpoonup> nat"
  ot_assignments :: "assignment list"
  ot_default_weight :: f64
  ot_stale_days :: nat

definition UNASSIGNED :: string where
  "UNASSIGNED = ''(unassigned)''"

definition criticality_weight :: "string \<Rightarrow> nat" where
  "criticality_weight level = (if level = ''critical'' then 3 else if level = ''high'' then 2 else 1)"

text \<open>\<open>str::find\<close> and the slice behind the occurrence: what follows the first one.\<close>

fun after_first :: "string \<Rightarrow> string \<Rightarrow> string option" where
  "after_first seg [] = (if seg = [] then Some [] else None)"
| "after_first seg (c # cs) = (case strip_prefix seg (c # cs) of Some r \<Rightarrow> Some r | None \<Rightarrow> after_first seg cs)"

definition ends_with :: "string \<Rightarrow> string \<Rightarrow> bool" where
  "ends_with s p \<longleftrightarrow> starts_with (rev s) (rev p)"

fun match_segments :: "string list \<Rightarrow> string \<Rightarrow> string option" where
  "match_segments [] rest = Some rest"
| "match_segments (seg # segs) rest = (case after_first seg rest of None \<Rightarrow> None | Some r \<Rightarrow> match_segments segs r)"

definition glob_match :: "string \<Rightarrow> string \<Rightarrow> bool" where
  "glob_match pattern name =
    (let anchored_start = \<not> starts_with pattern ''*''; anchored_end = \<not> ends_with pattern ''*'';
         segments = filter (\<lambda>s. s \<noteq> []) (split_at CHR ''*'' pattern) in
     if segments = [] then True
     else case (if anchored_start then Option.bind (strip_prefix (hd segments) name) (match_segments (tl segments))
                else match_segments segments name) of
        None \<Rightarrow> False
      | Some rest \<Rightarrow> if anchored_end then ends_with name (last segments) else True)"

definition empty_tree :: org_tree where
  "empty_tree = \<lparr> ot_nodes = [\<lparr> nd_name = [], nd_kind = ''company'', nd_parent = None, nd_children = [1] \<rparr>,
       \<lparr> nd_name = UNASSIGNED, nd_kind = ''unassigned'', nd_parent = Some 0, nd_children = [] \<rparr>],
     ot_root = 0, ot_unassigned = 1, ot_by_name = [UNASSIGNED \<mapsto> 1], ot_assignments = [],
     ot_default_weight = Fin 1, ot_stale_days = 30 \<rparr>"

fun check_names :: "string list \<Rightarrow> node_spec list \<Rightarrow> (org_error, unit) result" where
  "check_names seen [] = Inr ()"
| "check_names seen (s # ss) =
    (if trim (ns_name s) = [] \<or> CHR ''/'' \<in> set (ns_name s) \<or> ns_name s = UNASSIGNED \<or> ns_name s \<in> set seen
     then Inl (OrgInvalid (''duplicate or invalid node name '' @ [CHR 0x27] @ ns_name s @ [CHR 0x27]))
     else check_names (ns_name s # seen) ss)"

definition add_node :: "org_tree \<Rightarrow> node_spec \<Rightarrow> nat \<Rightarrow> org_tree" where
  "add_node t s parent = (let n = length (ot_nodes t);
       nodes = ot_nodes t @ [\<lparr> nd_name = ns_name s, nd_kind = ns_kind s, nd_parent = Some parent, nd_children = [] \<rparr>];
       p = nodes ! parent in
     t \<lparr> ot_nodes := nodes[parent := p \<lparr> nd_children := nd_children p @ [n] \<rparr>], ot_by_name := (ot_by_name t)(ns_name s \<mapsto> n) \<rparr>)"

fun insert_nodes :: "org_tree \<Rightarrow> node_spec list \<Rightarrow> (org_error, org_tree) result" where
  "insert_nodes t [] = Inr t"
| "insert_nodes t (s # ss) = (case (case ns_parent s of None \<Rightarrow> Some (ot_root t) | Some p \<Rightarrow> ot_by_name t p) of
     None \<Rightarrow> Inl (OrgInvalid (''node '' @ [CHR 0x27] @ ns_name s @ [CHR 0x27] @ '' has unknown parent '' @ [CHR 0x27]
         @ (case ns_parent s of Some p \<Rightarrow> p | None \<Rightarrow> []) @ [CHR 0x27]))
   | Some parent \<Rightarrow> insert_nodes (add_node t s parent) ss)"

text \<open>The walk of the cycle check: \<open>Inl n\<close> when it comes to \<open>n\<close> a second time.\<close>

partial_function (option) walk_parents :: "org_node list \<Rightarrow> nat list \<Rightarrow> nat \<Rightarrow> (nat + unit) option" where
  "walk_parents nodes visited n = (if n \<in> set visited then Some (Inl n)
     else case nd_parent (nodes ! n) of None \<Rightarrow> Some (Inr ()) | Some p \<Rightarrow> walk_parents nodes (n # visited) p)"

fun check_cycles :: "org_tree \<Rightarrow> nat list \<Rightarrow> (org_error, unit) result option" where
  "check_cycles t [] = Some (Inr ())"
| "check_cycles t (i # is) = Option.bind (walk_parents (ot_nodes t) [] i) (\<lambda>r. case r of
     Inl n \<Rightarrow> Some (Inl (OrgInvalid (''cycle detected involving node '' @ [CHR 0x27] @ nd_name (ot_nodes t ! n) @ [CHR 0x27])))
   | Inr _ \<Rightarrow> check_cycles t is)"

fun compile_assignments :: "org_tree \<Rightarrow> assignment_spec list \<Rightarrow> (org_error, org_tree) result" where
  "compile_assignments t [] = Inr t"
| "compile_assignments t (a # as) = (case ot_by_name t (as_team a) of
     None \<Rightarrow> Inl (OrgInvalid (''assignment targets unknown team '' @ [CHR 0x27] @ as_team a @ [CHR 0x27]))
   | Some node \<Rightarrow> compile_assignments (t \<lparr> ot_assignments := ot_assignments t @
       [\<lparr> ag_node = node, ag_targets = as_targets a, ag_criticality = as_criticality a \<rparr>] \<rparr>) as)"

definition build_tree :: "org_file \<Rightarrow> (org_error, org_tree) result option" where
  "build_tree f = (case check_names [] (of_nodes f) of
     Inl e \<Rightarrow> Some (Inl e)
   | Inr _ \<Rightarrow> (case insert_nodes (empty_tree \<lparr> ot_default_weight := of_weight f, ot_stale_days := of_stale_days f \<rparr>) (of_nodes f) of
       Inl e \<Rightarrow> Some (Inl e)
     | Inr t \<Rightarrow> map_option (\<lambda>r. case r of Inl e \<Rightarrow> Inl e | Inr _ \<Rightarrow> compile_assignments t (of_assignments f))
         (check_cycles t [0..<length (ot_nodes t)])))"

text \<open>\<open>from_yaml\<close> and \<open>load\<close>: reading and parsing the text are arguments.\<close>

definition from_yaml :: "(string \<Rightarrow> (string, org_file) result) \<Rightarrow> string \<Rightarrow> (org_error, org_tree) result option" where
  "from_yaml parse txt = (case parse txt of Inl e \<Rightarrow> Some (Inl (OrgYaml e)) | Inr f \<Rightarrow> build_tree f)"

definition load_tree :: "(string, string) result \<Rightarrow> (string \<Rightarrow> (string, org_file) result) \<Rightarrow> (org_error, org_tree) result option" where
  "load_tree read parse = (case read of Inl e \<Rightarrow> Some (Inl (OrgIo e)) | Inr txt \<Rightarrow> from_yaml parse txt)"

section \<open>Paths\<close>

definition trim_matches :: "char \<Rightarrow> string \<Rightarrow> string" where
  "trim_matches c s = rev (dropWhile (\<lambda>d. d = c) (rev (dropWhile (\<lambda>d. d = c) s)))"

fun resolve_from :: "org_tree \<Rightarrow> nat \<Rightarrow> string list \<Rightarrow> nat option" where
  "resolve_from t cur [] = Some cur"
| "resolve_from t cur (seg # segs) =
    Option.bind (find (\<lambda>c. nd_name (ot_nodes t ! c) = seg) (nd_children (ot_nodes t ! cur))) (\<lambda>next. resolve_from t next segs)"

definition resolve :: "org_tree \<Rightarrow> string \<Rightarrow> nat option" where
  "resolve t path = (let trimmed = trim_matches CHR ''/'' path in
     if trimmed = [] then Some (ot_root t) else resolve_from t (ot_root t) (split_at CHR ''/'' trimmed))"

partial_function (option) path_parts :: "org_tree \<Rightarrow> nat \<Rightarrow> string list \<Rightarrow> string list option" where
  "path_parts t i parts = (case nd_parent (ot_nodes t ! i) of
     None \<Rightarrow> Some (rev parts)
   | Some parent \<Rightarrow> path_parts t parent (parts @ [nd_name (ot_nodes t ! i)]))"

definition path_of :: "org_tree \<Rightarrow> nat \<Rightarrow> string option" where
  "path_of t i = map_option (intersperse_str ''/'') (path_parts t i [])"

partial_function (option) in_subtree :: "org_tree \<Rightarrow> nat \<Rightarrow> nat \<Rightarrow> bool option" where
  "in_subtree t ancestor i = (if i = ancestor then Some True
     else case nd_parent (ot_nodes t ! i) of Some p \<Rightarrow> in_subtree t ancestor p | None \<Rightarrow> Some False)"

declare walk_parents.simps [code] path_parts.simps [code] in_subtree.simps [code]

section \<open>Rollups\<close>

definition assign :: "org_tree \<Rightarrow> string \<Rightarrow> nat \<times> f64" where
  "assign t name = (case find (\<lambda>a. list_ex (\<lambda>g. glob_match g name) (ag_targets a)) (ot_assignments t) of
     Some a \<Rightarrow> (ag_node a, f64_mul (ot_default_weight t)
       (f64_of_nat (case ag_criticality a name of None \<Rightarrow> 1 | Some l \<Rightarrow> criticality_weight l)))
   | None \<Rightarrow> (ot_unassigned t, ot_default_weight t))"

record scored_leaf =
  sl_name :: string
  sl_score :: "nat option"

record tally =
  ta_sum :: f64
  ta_weights :: f64
  ta_total :: f64
  ta_scored :: nat
  ta_expected :: nat
  ta_weakest :: "(nat \<times> string) option"

definition empty_tally :: tally where
  "empty_tally = \<lparr> ta_sum = Fin 0, ta_weights = Fin 0, ta_total = Fin 0, ta_scored = 0, ta_expected = 0, ta_weakest = None \<rparr>"

definition count_leaf :: "f64 \<Rightarrow> scored_leaf \<Rightarrow> tally \<Rightarrow> tally" where
  "count_leaf weight l ta = (let ta = ta \<lparr> ta_expected := ta_expected ta + 1, ta_total := f64_add (ta_total ta) weight \<rparr> in
     case sl_score l of None \<Rightarrow> ta
     | Some score \<Rightarrow> ta \<lparr> ta_scored := ta_scored ta + 1, ta_sum := f64_add (ta_sum ta) (f64_mul weight (f64_of_nat score)),
         ta_weights := f64_add (ta_weights ta) weight,
         ta_weakest := (case ta_weakest ta of None \<Rightarrow> Some (score, sl_name l)
           | Some (s, n) \<Rightarrow> if score < s then Some (score, sl_name l) else Some (s, n)) \<rparr>)"

fun tally_leaves :: "org_tree \<Rightarrow> nat \<Rightarrow> scored_leaf list \<Rightarrow> tally \<Rightarrow> tally option" where
  "tally_leaves t i [] ta = Some ta"
| "tally_leaves t i (l # ls) ta = (case assign t (sl_name l) of (node, weight) \<Rightarrow>
     Option.bind (in_subtree t i node) (\<lambda>inside. tally_leaves t i ls (if inside then count_leaf weight l ta else ta)))"

datatype node_score = NodeScore (nsc_path: string) (nsc_name: string) (nsc_kind: string) (nsc_score: f64) (nsc_band: string)
  (nsc_coverage: f64) (nsc_scored: nat) (nsc_expected: nat) (nsc_weakest: "string option") (nsc_weight: f64) (nsc_children: "node_score list")

definition node_score_of :: "org_tree \<Rightarrow> nat \<Rightarrow> string \<Rightarrow> tally \<Rightarrow> node_score list \<Rightarrow> node_score" where
  "node_score_of t i path ta children = (let score = (if f64_lt (Fin 0) (ta_weights ta) then f64_div (ta_sum ta) (ta_weights ta) else Fin 0) in
     NodeScore path (if i = ot_root t then ''(company)'' else nd_name (ot_nodes t ! i)) (nd_kind (ot_nodes t ! i)) score (band score)
       (if ta_expected ta = 0 then Fin 0 else f64_div (f64_of_nat (ta_scored ta)) (f64_of_nat (ta_expected ta)))
       (ta_scored ta) (ta_expected ta) (map_option snd (ta_weakest ta)) (ta_total ta) children)"

definition aggregate_leaf :: "org_tree \<Rightarrow> scored_leaf list \<Rightarrow> nat \<Rightarrow> node_score option" where
  "aggregate_leaf t ls i = Option.bind (tally_leaves t i ls empty_tally) (\<lambda>ta.
     Option.bind (path_of t i) (\<lambda>path. Some (node_score_of t i path ta [])))"

fun options :: "'a option list \<Rightarrow> 'a list option" where
  "options [] = Some []"
| "options (x # xs) = Option.bind x (\<lambda>y. map_option ((#) y) (options xs))"

definition aggregate :: "org_tree \<Rightarrow> nat \<Rightarrow> scored_leaf list \<Rightarrow> node_score option" where
  "aggregate t i ls = Option.bind (tally_leaves t i ls empty_tally) (\<lambda>ta.
     Option.bind (options (map (aggregate_leaf t ls) (nd_children (ot_nodes t ! i)))) (\<lambda>cs.
     Option.bind (path_of t i) (\<lambda>path. Some (node_score_of t i path ta (sort_low nsc_score cs)))))"

text \<open>\<open>compute_node\<close>: the outer option is the model's, the inner one the code's.\<close>

definition compute_node :: "org_tree \<Rightarrow> string \<Rightarrow> scored_leaf list \<Rightarrow> node_score option option" where
  "compute_node t path ls = (case resolve t path of None \<Rightarrow> Some None | Some i \<Rightarrow> map_option Some (aggregate t i ls))"

end
