(* ===== verification/Org_Glob.thy ===== *)
theory Org_Glob
  imports Org_Tree
begin

text \<open>
  The leftmost search of \<open>glob_match\<close> decides the language of the pattern as soon as it has a star. A pattern
  without one is compared at both ends only.
\<close>

section \<open>The language of a pattern\<close>

function glob :: "string \<Rightarrow> string \<Rightarrow> bool" where
  "glob [] n \<longleftrightarrow> n = []"
| "glob (c # p) n \<longleftrightarrow> (if c = CHR ''*'' then glob p n \<or> (case n of [] \<Rightarrow> False | _ # n' \<Rightarrow> glob (c # p) n')
     else (case n of [] \<Rightarrow> False | d # n' \<Rightarrow> c = d \<and> glob p n'))"
  by pat_completeness auto
termination by (relation "measure (\<lambda>(p, n). length p + length n)") auto

declare glob.simps(2) [simp del]

lemma glob_char: "c \<noteq> CHR ''*'' \<Longrightarrow> glob (c # p) n \<longleftrightarrow> (\<exists>n'. n = c # n' \<and> glob p n')"
  by (cases n) (auto simp: glob.simps(2))

lemma glob_star: "glob (CHR ''*'' # p) n \<longleftrightarrow> (\<exists>x r. n = x @ r \<and> glob p r)"
proof (induction n)
  case Nil
  then show ?case by (simp add: glob.simps(2))
next
  case (Cons d n)
  have "(\<exists>x r. d # n = x @ r \<and> glob p r) \<longleftrightarrow> glob p (d # n) \<or> (\<exists>x r. n = x @ r \<and> glob p r)"
    by (auto simp: Cons_eq_append_conv)
  then show ?case using Cons.IH glob.simps(2)[of "CHR ''*''" p "d # n"] by simp
qed

lemma glob_literal: "CHR ''*'' \<notin> set s \<Longrightarrow> glob (s @ p) n \<longleftrightarrow> (\<exists>r. n = s @ r \<and> glob p r)"
  by (induction s arbitrary: n) (auto simp: glob_char)

text \<open>The pieces between the stars, each behind a gap.\<close>

fun gaps :: "string list \<Rightarrow> string \<Rightarrow> bool" where
  "gaps [] n \<longleftrightarrow> n = []"
| "gaps (s # ss) n \<longleftrightarrow> (\<exists>x r. n = x @ s @ r \<and> gaps ss r)"

lemma split_star_pieces: "s \<in> set (split_at d p) \<Longrightarrow> d \<notin> set s"
  by (induction p arbitrary: s) (auto split: if_splits list.splits)

lemma split_at_cases: obtains (none) "d \<notin> set p" "split_at d p = [p]"
  | (some) a q where "p = a @ d # q" "d \<notin> set a" "split_at d p = a # split_at d q"
proof (cases "d \<in> set p")
  case True
  then obtain a q where "p = a @ d # q" "d \<notin> set a" by (meson split_list_first)
  then show ?thesis using that(2) split_at_append by blast
qed (use that(1) split_at_none in blast)

lemma glob_pieces: "glob p n \<longleftrightarrow> (\<exists>r. n = hd (split_at CHR ''*'' p) @ r \<and> gaps (tl (split_at CHR ''*'' p)) r)"
proof (induction "length p" arbitrary: p n rule: less_induct)
  case less
  show ?case
  proof (cases rule: split_at_cases[of "CHR ''*''" p])
    case none
    then show ?thesis using glob_literal[OF none(1), of "[]" n] by simp
  next
    case (some a q)
    obtain b bs where b: "split_at CHR ''*'' q = b # bs" by (meson neq_Nil_conv split_at_ne)
    have "glob q r \<longleftrightarrow> (\<exists>r'. r = b @ r' \<and> gaps bs r')" for r using less[of q r] some(1) b by simp
    then show ?thesis unfolding some(1) glob_literal[OF some(2)] glob_star
      by (simp add: some(3)[unfolded some(1)] b) blast
  qed
qed

section \<open>The leftmost occurrence leaves the most\<close>

lemma after_first_Some: "after_first s n = Some r \<Longrightarrow> \<exists>x. n = x @ s @ r"
proof (induction s n rule: after_first.induct)
  case (2 s c cs)
  show ?case
  proof (cases "strip_prefix s (c # cs)")
    case None
    then obtain x where "cs = x @ s @ r" using 2 by auto
    then show ?thesis by (intro exI[of _ "c # x"]) simp
  next
    case (Some r')
    then have "r' = r" using 2(2) by (simp del: strip_prefix_Some)
    then show ?thesis using Some by (intro exI[of _ "[]"]) simp
  qed
qed (auto split: if_splits)

lemma after_first_most: "n = x @ s @ r \<Longrightarrow> \<exists>y. after_first s n = Some (y @ r)"
proof (induction s n arbitrary: x rule: after_first.induct)
  case (1 s)
  then show ?case by simp
next
  case (2 s c cs)
  show ?case
  proof (cases "strip_prefix s (c # cs)")
    case None
    then have "x \<noteq> []" using 2(2) strip_prefix_Some[of s "c # cs" r] by auto
    then obtain x' where "x = c # x'" using 2(2) by (cases x) auto
    then show ?thesis using 2(1)[OF None, of x'] 2(2) None by simp
  next
    case (Some r')
    then have n: "c # cs = s @ r'" by simp
    then have e: "s @ r' = (x @ s) @ r" using 2(2) by simp
    have "drop (length x) r' = r" using arg_cong[OF e, of "drop (length (x @ s))"] by (simp del: append_assoc)
    then have "r' = take (length x) r' @ r" by (metis append_take_drop_id)
    moreover have "after_first s (c # cs) = Some r'" using Some by (simp del: strip_prefix_Some)
    ultimately show ?thesis by metis
  qed
qed

section \<open>The search decides the language\<close>

lemma gaps_more: "gaps ss r \<Longrightarrow> ss \<noteq> [] \<Longrightarrow> gaps ss (y @ r)"
  by (cases ss) (auto, metis append.assoc)

lemma gaps_last:
  "gaps (ss @ [l]) n \<longleftrightarrow> (\<exists>r x. match_segments (filter (\<lambda>s. s \<noteq> []) ss) n = Some r \<and> r = x @ l)"
proof (induction ss arbitrary: n)
  case (Cons s ss)
  show ?case
  proof (cases "s = []")
    case True
    have "gaps (ss @ [l]) n \<longleftrightarrow> (\<exists>x r. n = x @ r \<and> gaps (ss @ [l]) r)"
      using gaps_more[of "ss @ [l]"] by (metis append_Nil append_is_Nil_conv list.distinct(1))
    then show ?thesis using Cons.IH[of n] True by simp
  next
    case False
    have "(\<exists>x r. n = x @ s @ r \<and> gaps (ss @ [l]) r) \<longleftrightarrow> (\<exists>r. after_first s n = Some r \<and> gaps (ss @ [l]) r)"
    proof
      assume "\<exists>x r. n = x @ s @ r \<and> gaps (ss @ [l]) r"
      then obtain x r where n: "n = x @ s @ r" "gaps (ss @ [l]) r" by blast
      obtain y where "after_first s n = Some (y @ r)" using after_first_most[OF n(1)] by blast
      then show "\<exists>r. after_first s n = Some r \<and> gaps (ss @ [l]) r" using gaps_more[OF n(2)] by blast
    next
      assume "\<exists>r. after_first s n = Some r \<and> gaps (ss @ [l]) r"
      then show "\<exists>x r. n = x @ s @ r \<and> gaps (ss @ [l]) r" using after_first_Some by blast
    qed
    then show ?thesis using Cons.IH False by (auto split: option.splits)
  qed
qed auto

lemma match_segments_append: "match_segments (as @ bs) n = Option.bind (match_segments as n) (match_segments bs)"
  by (induction as arbitrary: n) (auto split: option.splits)

lemma match_segments_suffix: "match_segments segs n = Some r \<Longrightarrow> \<exists>x. n = x @ r"
proof (induction segs arbitrary: n)
  case (Cons s segs)
  then obtain r1 where "after_first s n = Some r1" "match_segments segs r1 = Some r" by (auto split: option.splits)
  then show ?case using Cons.IH[of r1] after_first_Some[of s n r1] by (metis append.assoc)
qed simp

lemma ends_with_iff: "ends_with s p \<longleftrightarrow> (\<exists>x. s = x @ p)"
proof -
  have "ends_with s p \<longleftrightarrow> (\<exists>y. rev s = rev p @ y)" by (auto simp: ends_with_def starts_with_def)
  also have "\<dots> \<longleftrightarrow> (\<exists>x. s = x @ p)" by (metis rev_append rev_rev_ident)
  finally show ?thesis .
qed

text \<open>The last piece: the code looks for it behind the others and then compares the end of the whole name.\<close>

lemma last_piece:
  assumes "n = w @ r" "l \<noteq> []"
  shows "(\<exists>x. r = x @ l) \<longleftrightarrow> after_first l r \<noteq> None \<and> ends_with n l"
proof
  assume "\<exists>x. r = x @ l"
  then obtain x where x: "r = x @ l" by blast
  then show "after_first l r \<noteq> None \<and> ends_with n l"
    using after_first_most[of r x l "[]"] assms(1) by (auto simp: ends_with_iff)
next
  assume a: "after_first l r \<noteq> None \<and> ends_with n l"
  then obtain x y where x: "r = x @ l @ y" using after_first_Some by fastforce
  obtain z where z: "w @ r = z @ l" using a assms(1) by (auto simp: ends_with_iff)
  have "length l \<le> length r" using x by simp
  then have "length w \<le> length z" using arg_cong[OF z, of length] by simp
  then show "\<exists>x. r = x @ l" using z by (metis append_eq_append_conv_if append_eq_conv_conj)
qed

lemma all_stars: "filter (\<lambda>s. s \<noteq> []) ss = [] \<Longrightarrow> gaps (ss @ [[]]) n"
  unfolding gaps_last by simp

lemma split_first_star: "starts_with p ''*'' \<longleftrightarrow> p \<noteq> [] \<and> hd (split_at CHR ''*'' p) = []"
  by (cases p) (auto simp: starts_with_def split: list.splits)

lemma split_last_star: "ends_with p ''*'' \<longleftrightarrow> p \<noteq> [] \<and> last (split_at CHR ''*'' p) = []"
proof -
  have "p \<noteq> [] \<Longrightarrow> last (split_at d p) = [] \<longleftrightarrow> last p = d" for d :: char
  proof (induction p)
    case (Cons c p)
    obtain q qs where q: "split_at d p = q # qs" by (meson neq_Nil_conv split_at_ne)
    show ?case
    proof (cases "p = []")
      case False
      then show ?thesis using Cons.IH q split_at_inj[of d p "[]"] by (auto split: if_splits)
    qed auto
  qed simp
  moreover have "ends_with p ''*'' \<longleftrightarrow> p \<noteq> [] \<and> last p = CHR ''*''"
    by (cases p rule: rev_cases) (auto simp: ends_with_iff)
  ultimately show ?thesis by blast
qed

lemma glob_match_star:
  assumes star: "CHR ''*'' \<in> set p"
  shows "glob_match p n \<longleftrightarrow> glob p n"
proof -
  let ?ne = "filter (\<lambda>s. s \<noteq> [])"
  obtain a q where a: "p = a @ CHR ''*'' # q" "split_at CHR ''*'' p = a # split_at CHR ''*'' q"
    using star by (cases rule: split_at_cases[of "CHR ''*''" p]) auto
  obtain bs l where bl: "split_at CHR ''*'' q = bs @ [l]" by (metis append_butlast_last_id split_at_ne)
  have se: "starts_with p ''*'' \<longleftrightarrow> a = []" "ends_with p ''*'' \<longleftrightarrow> l = []"
    unfolding split_first_star split_last_star using a bl by auto
  define segs where "segs = ?ne (bs @ [l])"
  have rest: "(case match_segments segs r of None \<Rightarrow> False | Some _ \<Rightarrow> l \<noteq> [] \<longrightarrow> ends_with n l) \<longleftrightarrow> gaps (bs @ [l]) r"
    if n: "n = w @ r" for w r
  proof (cases "l = []")
    case True
    then show ?thesis unfolding gaps_last segs_def by (auto split: option.splits)
  next
    case False
    have m: "match_segments segs r = Option.bind (match_segments (?ne bs) r) (after_first l)"
      using False by (cases "match_segments (?ne bs) r") (auto simp: segs_def match_segments_append split: option.splits)
    show ?thesis
    proof (cases "match_segments (?ne bs) r")
      case None
      then show ?thesis unfolding m gaps_last by simp
    next
      case (Some r')
      obtain x where "r = x @ r'" using match_segments_suffix[OF Some] by blast
      then have "n = (w @ x) @ r'" using n by simp
      from last_piece[OF this False] show ?thesis unfolding m gaps_last using Some False by (auto split: option.splits)
    qed
  qed
  have g: "glob p n \<longleftrightarrow> (\<exists>r. n = a @ r \<and> gaps (bs @ [l]) r)" unfolding glob_pieces a(2) bl by simp
  have segments: "?ne (split_at CHR ''*'' p) = (if a = [] then segs else a # segs)" by (simp add: a(2) bl segs_def)
  show ?thesis
  proof (cases "a = []")
    case True
    show ?thesis
    proof (cases "segs = []")
      case empty: True
      then have "?ne bs = []" "l = []" unfolding segs_def by (auto split: if_splits)
      then have "gaps (bs @ [l]) n" using all_stars by simp
      then show ?thesis unfolding g glob_match_def segments Let_def using True empty by simp
    next
      case False
      then have "last segs = l" if "l \<noteq> []" using that by (simp add: segs_def)
      then show ?thesis unfolding g glob_match_def segments Let_def using True False se rest[of "[]" n]
        by (auto split: option.splits)
    qed
  next
    case False
    have l: "last (a # segs) = l" if "l \<noteq> []" using that by (simp add: segs_def)
    show ?thesis
    proof (cases "strip_prefix a n")
      case None
      then have "\<nexists>r. n = a @ r" by (metis strip_prefix_Some option.distinct(1))
      then show ?thesis unfolding g glob_match_def segments Let_def using False se None by simp
    next
      case (Some r)
      then have n: "n = a @ r" by simp
      show ?thesis unfolding g glob_match_def segments Let_def using False se rest[OF n] Some l
        by (auto simp: n split: option.splits)
    qed
  qed
qed


end
