(* ===== verification/Org_Props.thy ===== *)
theory Org_Props
  imports Org_Glob
begin

text \<open>
  A tree that was built is well-formed: parents come before their children, the children lists are the inverse of
  the parent links, and names are unique. So every walk along the parents ends, the slash path of a node resolves to it,
  and a rollup counts every leaf of its subtree once.
\<close>

section \<open>Well-formed trees\<close>

definition names_ok :: "org_tree \<Rightarrow> bool" where
  "names_ok t \<longleftrightarrow> (\<forall>n i. ot_by_name t n = Some i \<longleftrightarrow> 0 < i \<and> i < length (ot_nodes t) \<and> nd_name (ot_nodes t ! i) = n)
     \<and> (\<forall>i. 0 < i \<and> i < length (ot_nodes t) \<longrightarrow> nd_name (ot_nodes t ! i) \<noteq> [] \<and> CHR ''/'' \<notin> set (nd_name (ot_nodes t ! i)))"

definition links_ok :: "org_tree \<Rightarrow> bool" where
  "links_ok t \<longleftrightarrow> ot_root t = 0 \<and> ot_unassigned t = 1 \<and> 2 \<le> length (ot_nodes t) \<and> nd_parent (ot_nodes t ! 0) = None
     \<and> (\<forall>i. 0 < i \<and> i < length (ot_nodes t) \<longrightarrow> (\<exists>p < i. nd_parent (ot_nodes t ! i) = Some p))
     \<and> (\<forall>p < length (ot_nodes t). nd_children (ot_nodes t ! p) = filter (\<lambda>i. nd_parent (ot_nodes t ! i) = Some p) [0..<length (ot_nodes t)])"

definition tree_wf :: "org_tree \<Rightarrow> bool" where
  "tree_wf t \<longleftrightarrow> links_ok t \<and> names_ok t \<and> (\<forall>a \<in> set (ot_assignments t). ag_node a < length (ot_nodes t))"

lemma empty_wf: "tree_wf (empty_tree \<lparr> ot_default_weight := w, ot_stale_days := d \<rparr>)"
proof -
  let ?t = "empty_tree \<lparr> ot_default_weight := w, ot_stale_days := d \<rparr>"
  have n: "ot_nodes ?t = [\<lparr> nd_name = [], nd_kind = ''company'', nd_parent = None, nd_children = [1] \<rparr>,
       \<lparr> nd_name = UNASSIGNED, nd_kind = ''unassigned'', nd_parent = Some 0, nd_children = [] \<rparr>]"
    by (simp add: empty_tree_def)
  have b: "ot_by_name ?t = [UNASSIGNED \<mapsto> 1]" by (simp add: empty_tree_def)
  have i: "i < Suc (Suc 0) \<longleftrightarrow> i = 0 \<or> i = Suc 0" for i by auto
  have u: "UNASSIGNED \<noteq> []" "CHR ''/'' \<notin> set UNASSIGNED" by (simp_all add: UNASSIGNED_def)
  have "links_ok ?t" unfolding links_ok_def n by (auto simp: i empty_tree_def)
  moreover have "names_ok ?t" unfolding names_ok_def n b by (auto simp: i u split: if_splits)
  ultimately show ?thesis by (simp add: tree_wf_def empty_tree_def)
qed

lemma add_node_nodes:
  assumes p: "p < length (ot_nodes t)"
  shows "length (ot_nodes (add_node t s p)) = Suc (length (ot_nodes t))"
    "i < length (ot_nodes t) \<Longrightarrow> nd_parent (ot_nodes (add_node t s p) ! i) = nd_parent (ot_nodes t ! i)"
    "nd_parent (ot_nodes (add_node t s p) ! length (ot_nodes t)) = Some p"
    "i < length (ot_nodes t) \<Longrightarrow> nd_name (ot_nodes (add_node t s p) ! i) = nd_name (ot_nodes t ! i)"
    "nd_name (ot_nodes (add_node t s p) ! length (ot_nodes t)) = ns_name s"
    "i < length (ot_nodes t) \<Longrightarrow> nd_children (ot_nodes (add_node t s p) ! i) = nd_children (ot_nodes t ! i) @ (if i = p then [length (ot_nodes t)] else [])"
    "nd_children (ot_nodes (add_node t s p) ! length (ot_nodes t)) = []"
  using p by (auto simp: add_node_def Let_def nth_append nth_list_update)

lemma add_links:
  assumes wf: "links_ok t" and p: "p < length (ot_nodes t)"
  shows "links_ok (add_node t s p)"
proof -
  let ?n = "length (ot_nodes t)"
  note new = add_node_nodes[OF p]
  have kids: "nd_children (ot_nodes (add_node t s p) ! q) = filter (\<lambda>i. nd_parent (ot_nodes (add_node t s p) ! i) = Some q) [0..<Suc ?n]"
    if q: "q < Suc ?n" for q
  proof (cases "q < ?n")
    case True
    have "filter (\<lambda>i. nd_parent (ot_nodes (add_node t s p) ! i) = Some q) [0..<?n] = filter (\<lambda>i. nd_parent (ot_nodes t ! i) = Some q) [0..<?n]"
      by (rule filter_cong) (auto simp: new(2))
    then show ?thesis using wf True by (auto simp: links_ok_def new(3,6))
  next
    case False
    then have q: "q = ?n" using q by simp
    have "\<forall>i < ?n. nd_parent (ot_nodes t ! i) \<noteq> Some ?n"
    proof (intro allI impI)
      fix i assume i: "i < ?n"
      show "nd_parent (ot_nodes t ! i) \<noteq> Some ?n"
        using wf i by (cases "i = 0") (auto simp: links_ok_def)
    qed
    then show ?thesis using p by (auto simp: q new(2,3,7) filter_empty_conv)
  qed
  have "\<exists>q < i. nd_parent (ot_nodes (add_node t s p) ! i) = Some q" if "0 < i" "i < Suc ?n" for i
    using that wf p by (cases "i = ?n") (auto simp: links_ok_def new(2,3))
  moreover have "nd_parent (ot_nodes (add_node t s p) ! 0) = None" using wf p by (subst new(2)) (auto simp: links_ok_def)
  moreover have "ot_root (add_node t s p) = ot_root t" "ot_unassigned (add_node t s p) = ot_unassigned t"
    by (simp_all add: add_node_def Let_def)
  ultimately show ?thesis using wf kids by (simp add: links_ok_def new(1))
qed

lemma add_names:
  assumes ok: "names_ok t" and p: "p < length (ot_nodes t)" and len: "0 < length (ot_nodes t)"
    and new_name: "ot_by_name t (ns_name s) = None" "ns_name s \<noteq> []" "CHR ''/'' \<notin> set (ns_name s)"
  shows "names_ok (add_node t s p)"
proof -
  let ?n = "length (ot_nodes t)"
  note new = add_node_nodes[OF p]
  have b: "ot_by_name (add_node t s p) = (ot_by_name t)(ns_name s \<mapsto> ?n)" by (simp add: add_node_def Let_def)
  have fresh: "nd_name (ot_nodes t ! i) \<noteq> ns_name s" if "0 < i" "i < ?n" for i
    using ok new_name(1) that unfolding names_ok_def by (metis option.distinct(1))
  have "ot_by_name (add_node t s p) n = Some i \<longleftrightarrow> 0 < i \<and> i < Suc ?n \<and> nd_name (ot_nodes (add_node t s p) ! i) = n" for n i
  proof (cases "i < ?n")
    case True
    have "ot_by_name t n = Some i \<longleftrightarrow> 0 < i \<and> nd_name (ot_nodes t ! i) = n" using ok True by (simp add: names_ok_def)
    then show ?thesis using True fresh[of i] by (auto simp: b new(4))
  next
    case False
    have "ot_by_name t n \<noteq> Some i" using ok False by (simp add: names_ok_def)
    then show ?thesis using False len by (cases "i = ?n") (auto simp: b new(5))
  qed
  moreover have "nd_name (ot_nodes (add_node t s p) ! i) \<noteq> [] \<and> CHR ''/'' \<notin> set (nd_name (ot_nodes (add_node t s p) ! i))"
    if "0 < i" "i < Suc ?n" for i
    using that ok new_name(2,3) by (cases "i = ?n") (auto simp: names_ok_def new(4,5))
  ultimately show ?thesis by (simp add: names_ok_def new(1))
qed

lemma check_names_ok: "check_names seen ss = Inr u \<Longrightarrow> distinct (map ns_name ss)
    \<and> (\<forall>s \<in> set ss. ns_name s \<noteq> [] \<and> CHR ''/'' \<notin> set (ns_name s) \<and> ns_name s \<noteq> UNASSIGNED \<and> ns_name s \<notin> set seen)"
proof (induction ss arbitrary: seen)
  case (Cons s ss)
  then have "trim (ns_name s) \<noteq> []" and h: "CHR ''/'' \<notin> set (ns_name s)" "ns_name s \<noteq> UNASSIGNED" "ns_name s \<notin> set seen"
      "check_names (ns_name s # seen) ss = Inr u" by (auto split: if_splits)
  then have "ns_name s \<noteq> []" by (auto simp: trim_def)
  then show ?case using Cons.IH[OF h(4)] h by auto
qed simp

lemma insert_nodes_wf:
  assumes "insert_nodes t ss = Inr t'" "links_ok t" "names_ok t" "distinct (map ns_name ss)"
    "\<forall>s \<in> set ss. ns_name s \<noteq> [] \<and> CHR ''/'' \<notin> set (ns_name s) \<and> ot_by_name t (ns_name s) = None"
  shows "links_ok t' \<and> names_ok t' \<and> ot_assignments t' = ot_assignments t \<and> ot_default_weight t' = ot_default_weight t"
  using assms
proof (induction ss arbitrary: t)
  case (Cons s ss)
  obtain p where p: "(case ns_parent s of None \<Rightarrow> Some (ot_root t) | Some p \<Rightarrow> ot_by_name t p) = Some p"
      "insert_nodes (add_node t s p) ss = Inr t'"
    using Cons.prems(1) by (auto split: option.splits)
  have len: "2 \<le> length (ot_nodes t)" "ot_root t = 0" using Cons.prems(2) by (simp_all add: links_ok_def)
  have pl: "p < length (ot_nodes t)"
  proof (cases "ns_parent s")
    case None
    then show ?thesis using p(1) len by auto
  next
    case (Some a)
    then have "ot_by_name t a = Some p" using p(1) by simp
    then show ?thesis using Cons.prems(3) unfolding names_ok_def by blast
  qed
  have b: "ot_by_name (add_node t s p) = (ot_by_name t)(ns_name s \<mapsto> length (ot_nodes t))" "ot_assignments (add_node t s p) = ot_assignments t"
      "ot_default_weight (add_node t s p) = ot_default_weight t"
    by (simp_all add: add_node_def Let_def)
  have l: "links_ok (add_node t s p)" by (rule add_links[OF Cons.prems(2) pl])
  have n: "names_ok (add_node t s p)" by (rule add_names[OF Cons.prems(3) pl]) (use len Cons.prems(5) in auto)
  have "\<forall>x \<in> set ss. ns_name x \<noteq> ns_name s" using Cons.prems(4) by (simp add: image_iff) metis
  then have "\<forall>x \<in> set ss. ns_name x \<noteq> [] \<and> CHR ''/'' \<notin> set (ns_name x) \<and> ot_by_name (add_node t s p) (ns_name x) = None"
    using Cons.prems(5) by (simp add: b)
  then show ?case using Cons.IH[OF p(2) l n] Cons.prems(4) b by simp
qed simp

lemma compile_wf: "compile_assignments t as = Inr t' \<Longrightarrow> tree_wf t \<Longrightarrow> tree_wf t' \<and> ot_default_weight t' = ot_default_weight t"
proof (induction as arbitrary: t)
  case (Cons a as)
  obtain n where n: "ot_by_name t (as_team a) = Some n" using Cons.prems(1) by (auto split: option.splits)
  then have "n < length (ot_nodes t)" using Cons.prems(2) unfolding tree_wf_def names_ok_def by blast
  then have "tree_wf (t \<lparr> ot_assignments := ot_assignments t @ [\<lparr> ag_node = n, ag_targets = as_targets a, ag_criticality = as_criticality a \<rparr>] \<rparr>)"
    using Cons.prems(2) by (auto simp: tree_wf_def links_ok_def names_ok_def)
  then show ?case using Cons.IH Cons.prems(1) n by fastforce
qed simp

section \<open>The walks along the parents end\<close>

lemma parent_cases:
  assumes "links_ok t" "i < length (ot_nodes t)"
  obtains (root) "i = 0" "nd_parent (ot_nodes t ! i) = None"
    | (inner) p where "0 < i" "p < i" "nd_parent (ot_nodes t ! i) = Some p"
  using assms unfolding links_ok_def by (cases "i = 0") auto

lemma walk_ends: "links_ok t \<Longrightarrow> i < length (ot_nodes t) \<Longrightarrow> \<forall>j \<in> set visited. i < j \<Longrightarrow> walk_parents (ot_nodes t) visited i = Some (Inr ())"
proof (induction i arbitrary: visited rule: less_induct)
  case (less i)
  have n: "i \<notin> set visited" using less.prems(3) by auto
  from less.prems(1,2) show ?case
  proof (cases rule: parent_cases)
    case root
    then show ?thesis using n by (simp add: walk_parents.simps)
  next
    case (inner p)
    have "walk_parents (ot_nodes t) (i # visited) p = Some (Inr ())"
      by (rule less.IH[OF inner(2) less.prems(1)]) (use inner(2) less.prems(2,3) in auto)
    then show ?thesis using n inner(3) by (subst walk_parents.simps) simp
  qed
qed

lemma cycles_never_found: "links_ok t \<Longrightarrow> \<forall>i \<in> set is. i < length (ot_nodes t) \<Longrightarrow> check_cycles t is = Some (Inr ())"
  by (induction "is") (auto simp: walk_ends)

lemma build_tree_ends:
  shows "\<exists>r. build_tree f = Some r \<and> (case r of
      Inr t \<Rightarrow> tree_wf t \<and> ot_default_weight t = of_weight f
    | Inl e \<Rightarrow> \<exists>m. e = OrgInvalid m \<and> \<not> starts_with m ''cycle'')"
proof -
  have msg: "check_names seen ss = Inl e \<Longrightarrow> \<exists>m. e = OrgInvalid m \<and> \<not> starts_with m ''cycle''" for seen ss e
    by (induction seen ss rule: check_names.induct) (auto simp: starts_with_def split: if_splits)
  have msg2: "insert_nodes t ss = Inl e \<Longrightarrow> \<exists>m. e = OrgInvalid m \<and> \<not> starts_with m ''cycle''" for t ss e
    by (induction t ss rule: insert_nodes.induct) (auto simp: starts_with_def split: option.splits)
  have msg3: "compile_assignments t as = Inl e \<Longrightarrow> \<exists>m. e = OrgInvalid m \<and> \<not> starts_with m ''cycle''" for t as e
    by (induction t as rule: compile_assignments.induct) (auto simp: starts_with_def split: option.splits)
  let ?t0 = "empty_tree \<lparr> ot_default_weight := of_weight f, ot_stale_days := of_stale_days f \<rparr>"
  show ?thesis
  proof (cases "check_names [] (of_nodes f)")
    case (Inl e)
    then show ?thesis using msg by (simp add: build_tree_def)
  next
    case c: (Inr u)
    show ?thesis
    proof (cases "insert_nodes ?t0 (of_nodes f)")
      case (Inl e)
      then show ?thesis using msg2 c by (simp add: build_tree_def)
    next
      case (Inr t)
      have e: "tree_wf ?t0" by (rule empty_wf)
      have "ot_by_name ?t0 n = None" if "n \<noteq> UNASSIGNED" for n using that by (simp add: empty_tree_def)
      then have t: "links_ok t" "names_ok t" "ot_assignments t = ot_assignments ?t0" "ot_default_weight t = of_weight f"
        using insert_nodes_wf[OF Inr] e check_names_ok[OF c] by (auto simp: tree_wf_def)
      then have wf: "tree_wf t" by (simp add: tree_wf_def empty_tree_def)
      have cyc: "check_cycles t [0..<length (ot_nodes t)] = Some (Inr ())" by (rule cycles_never_found[OF t(1)]) simp
      show ?thesis using c Inr cyc msg3[of t "of_assignments f"] compile_wf[of t "of_assignments f"] wf t(4)
        by (auto simp: build_tree_def split: sum.splits)
    qed
  qed
qed

text \<open>Building a tree always ends, with an error or with a well-formed tree; the check for cycles is never the one that refuses,
  because a parent must be declared before its children.\<close>

theorem build_tree_wf:
  shows "\<exists>r. build_tree f = Some r \<and> (case r of
      Inr t \<Rightarrow> tree_wf t \<and> ot_default_weight t = of_weight f
    | Inl e \<Rightarrow> \<exists>m. e = OrgInvalid m \<and> \<not> starts_with m ''cycle'')"
  by (rule build_tree_ends)

section \<open>Slash paths\<close>

lemma child_iff: "links_ok t \<Longrightarrow> p < length (ot_nodes t) \<Longrightarrow>
    c \<in> set (nd_children (ot_nodes t ! p)) \<longleftrightarrow> c < length (ot_nodes t) \<and> nd_parent (ot_nodes t ! c) = Some p"
  by (auto simp: links_ok_def)

lemma find_unique:
  assumes "x \<in> set xs" "P x" "\<And>y. y \<in> set xs \<Longrightarrow> P y \<Longrightarrow> y = x"
  shows "find P xs = Some x"
proof (cases "find P xs")
  case None
  then show ?thesis using assms(1,2) by (auto simp: find_None_iff)
next
  case (Some y)
  then have "y \<in> set xs" "P y" by (auto simp: find_Some_iff)
  then show ?thesis using assms(3) Some by blast
qed

lemma named: "names_ok t \<Longrightarrow> 0 < i \<Longrightarrow> i < length (ot_nodes t) \<Longrightarrow> ot_by_name t (nd_name (ot_nodes t ! i)) = Some i"
  unfolding names_ok_def by blast

lemma same_name:
  assumes "names_ok t" "0 < i" "i < length (ot_nodes t)" "0 < j" "j < length (ot_nodes t)" "nd_name (ot_nodes t ! i) = nd_name (ot_nodes t ! j)"
  shows "i = j"
  by (rule option.inject[THEN iffD1]) (use named[OF assms(1-3)] named[OF assms(1,4,5)] assms(6) in argo)

lemma resolve_from_append: "resolve_from t cur (as @ bs) = Option.bind (resolve_from t cur as) (\<lambda>i. resolve_from t i bs)"
  by (induction as arbitrary: cur) (auto split: bind_split)

lemma path_parts_resolve:
  assumes wf: "links_ok t" "names_ok t"
  shows "i < length (ot_nodes t) \<Longrightarrow> \<exists>ns. path_parts t i parts = Some (ns @ rev parts) \<and> resolve_from t 0 ns = Some i
    \<and> (\<forall>n \<in> set ns. n \<noteq> [] \<and> CHR ''/'' \<notin> set n) \<and> (ns = [] \<longleftrightarrow> i = 0)"
proof (induction i arbitrary: parts rule: less_induct)
  case (less i)
  from wf(1) less.prems show ?case
  proof (cases rule: parent_cases)
    case root
    then show ?thesis by (simp add: path_parts.simps)
  next
    case (inner p)
    let ?n = "nd_name (ot_nodes t ! i)"
    obtain ns where ns: "path_parts t p (parts @ [?n]) = Some (ns @ rev (parts @ [?n]))" "resolve_from t 0 ns = Some p"
        "\<forall>n \<in> set ns. n \<noteq> [] \<and> CHR ''/'' \<notin> set n"
      using less.IH[of p "parts @ [?n]"] inner(2) less.prems by auto
    have p: "p < length (ot_nodes t)" using inner(2) less.prems by simp
    have "find (\<lambda>c. nd_name (ot_nodes t ! c) = ?n) (nd_children (ot_nodes t ! p)) = Some i"
    proof (rule find_unique)
      show "i \<in> set (nd_children (ot_nodes t ! p))" using child_iff[OF wf(1) p] less.prems inner(3) by simp
      fix c assume c: "c \<in> set (nd_children (ot_nodes t ! p))" "nd_name (ot_nodes t ! c) = ?n"
      then have "0 < c" "c < length (ot_nodes t)"
        using child_iff[OF wf(1) p, of c] wf(1) by (auto simp: links_ok_def intro: Suc_leI gr0I)
      then show "c = i" using same_name[OF wf(2), of c i] c(2) inner(1) less.prems by simp
    qed simp
    then have "resolve_from t 0 (ns @ [?n]) = Some i" by (simp add: resolve_from_append ns(2))
    moreover have "path_parts t i parts = Some ((ns @ [?n]) @ rev parts)" using ns(1) inner(3) by (subst path_parts.simps) simp
    moreover have "?n \<noteq> [] \<and> CHR ''/'' \<notin> set ?n" using wf(2) inner(1) less.prems by (simp add: names_ok_def)
    ultimately show ?thesis using ns(3) inner(1) by (intro exI[of _ "ns @ [?n]"]) auto
  qed
qed

lemma split_intersperse: "ns \<noteq> [] \<Longrightarrow> \<forall>n \<in> set ns. d \<notin> set n \<Longrightarrow> split_at d (intersperse_str [d] ns) = ns"
proof (induction ns rule: induct_list012)
  case (3 a b ns)
  then show ?case by (simp add: split_at_append)
qed (simp_all add: split_at_none)

lemma trim_matches_same: "s \<noteq> [] \<Longrightarrow> hd s \<noteq> c \<Longrightarrow> last s \<noteq> c \<Longrightarrow> trim_matches c s = s"
  by (simp add: trim_matches_def dropWhile_id hd_rev)

lemma intersperse_ends:
  "ns \<noteq> [] \<Longrightarrow> \<forall>n \<in> set ns. n \<noteq> [] \<and> c \<notin> set n \<Longrightarrow> intersperse_str sep ns \<noteq> [] \<and> hd (intersperse_str sep ns) \<noteq> c \<and> last (intersperse_str sep ns) \<noteq> c"
proof (induction ns rule: induct_list012)
  case (2 a)
  then show ?case by (cases a) (auto simp: in_set_conv_decomp dest: last_in_set)
next
  case (3 a b ns)
  then have "a \<noteq> []" "hd a \<in> set a" "c \<notin> set a" by auto
  then have "hd a \<noteq> c" by auto
  then show ?case using 3 \<open>a \<noteq> []\<close> by auto
qed simp

text \<open>C36: the slash path the code prints for a node of a built tree leads back to this node.\<close>

theorem path_roundtrip:
  assumes "build_tree f = Some (Inr t)" "i < length (ot_nodes t)"
  shows "\<exists>p. path_of t i = Some p \<and> resolve t p = Some i"
proof -
  have wf: "links_ok t" "names_ok t" using build_tree_ends[of f] assms(1) by (auto simp: tree_wf_def)
  obtain ns where ns: "path_parts t i [] = Some ns" "resolve_from t 0 ns = Some i"
      "\<forall>n \<in> set ns. n \<noteq> [] \<and> CHR ''/'' \<notin> set n" "ns = [] \<longleftrightarrow> i = 0"
    using path_parts_resolve[OF wf assms(2), of "[]"] by auto
  have root: "ot_root t = 0" using wf(1) by (simp add: links_ok_def)
  have "resolve t (intersperse_str ''/'' ns) = Some i"
  proof (cases "ns = []")
    case True
    then show ?thesis using ns(4) root by (simp add: resolve_def trim_matches_def)
  next
    case False
    note e = intersperse_ends[OF False ns(3), of "''/''"]
    have "trim_matches CHR ''/'' (intersperse_str ''/'' ns) = intersperse_str ''/'' ns" using e by (intro trim_matches_same) auto
    moreover have "split_at CHR ''/'' (intersperse_str ''/'' ns) = ns" using False ns(3) by (intro split_intersperse) auto
    ultimately show ?thesis using e ns(2) root by (simp add: resolve_def)
  qed
  then show ?thesis using ns(1) by (simp add: path_of_def)
qed

section \<open>Rollups count every leaf once\<close>

text \<open>Whether \<open>a\<close> is the node or above it.\<close>

definition covers :: "org_tree \<Rightarrow> nat \<Rightarrow> nat \<Rightarrow> bool" where
  "covers t a i \<longleftrightarrow> in_subtree t a i = Some True"

lemma in_subtree_ends: "links_ok t \<Longrightarrow> i < length (ot_nodes t) \<Longrightarrow> in_subtree t a i = Some (covers t a i)"
proof (induction i rule: less_induct)
  case (less i)
  have "\<exists>b. in_subtree t a i = Some b"
  proof (cases "i = a")
    case False
    from less.prems show ?thesis
    proof (cases rule: parent_cases)
      case root
      then show ?thesis using False by (intro exI[of _ False]) (simp add: in_subtree.simps)
    next
      case (inner p)
      then show ?thesis using less False by (subst in_subtree.simps) simp
    qed
  qed (intro exI[of _ True], simp add: in_subtree.simps)
  then show ?case by (auto simp: covers_def)
qed

lemma covers_step:
  assumes "links_ok t" "i < length (ot_nodes t)"
  shows "covers t a i \<longleftrightarrow> i = a \<or> (\<exists>p. nd_parent (ot_nodes t ! i) = Some p \<and> covers t a p)"
  unfolding covers_def by (subst in_subtree.simps) (auto split: option.splits)

lemma covers_le: "links_ok t \<Longrightarrow> i < length (ot_nodes t) \<Longrightarrow> covers t a i \<Longrightarrow> a \<le> i"
proof (induction i rule: less_induct)
  case (less i)
  show ?case
  proof (cases "i = a")
    case False
    then obtain p where p: "nd_parent (ot_nodes t ! i) = Some p" "covers t a p"
      using covers_step[OF less.prems(1,2)] less.prems(3) by blast
    from less.prems(1,2) show ?thesis
      by (cases rule: parent_cases) (use less.IH[of p] p less.prems in auto)
  qed simp
qed

lemma filter_single: "x \<in> set xs \<Longrightarrow> distinct xs \<Longrightarrow> length (filter (\<lambda>c. c = x) xs) = 1"
  by (induction xs) (auto simp: filter_empty_conv)

text \<open>Below a node a leaf is at the node itself or below exactly one child.\<close>

lemma covers_children:
  assumes wf: "links_ok t" and a: "a < length (ot_nodes t)"
  shows "i < length (ot_nodes t) \<Longrightarrow>
    length (filter (\<lambda>c. covers t c i) (nd_children (ot_nodes t ! a))) = (if covers t a i \<and> i \<noteq> a then 1 else 0)"
proof (induction i rule: less_induct)
  case (less i)
  let ?kids = "nd_children (ot_nodes t ! a)"
  have d: "distinct ?kids" using wf a by (simp add: links_ok_def)
  have kid: "c < length (ot_nodes t)" "nd_parent (ot_nodes t ! c) = Some a" "a < c" if "c \<in> set ?kids" for c
  proof -
    show c: "c < length (ot_nodes t)" "nd_parent (ot_nodes t ! c) = Some a" using child_iff[OF wf a] that by auto
    from wf c(1) show "a < c" by (cases rule: parent_cases) (use c in auto)
  qed
  from wf less.prems show ?case
  proof (cases rule: parent_cases)
    case root
    have "\<not> covers t c i" if "c \<in> set ?kids" for c
      using covers_le[OF wf less.prems, of c] kid[OF that] root by auto
    moreover have "covers t a i \<Longrightarrow> i = a" using covers_step[OF wf less.prems, of a] root by simp
    ultimately show ?thesis by (auto simp: filter_empty_conv)
  next
    case (inner p)
    have p: "p < length (ot_nodes t)" using inner(2) less.prems by simp
    have step: "covers t c i \<longleftrightarrow> i = c \<or> covers t c p" for c using covers_step[OF wf less.prems, of c] inner(3) by simp
    show ?thesis
    proof (cases "p = a")
      case True
      have "covers t c i \<longleftrightarrow> c = i" if "c \<in> set ?kids" for c
        using step[of c] covers_le[OF wf p, of c] kid[OF that] True by auto
      then have "filter (\<lambda>c. covers t c i) ?kids = filter (\<lambda>c. c = i) ?kids" by (intro filter_cong) auto
      moreover have "i \<in> set ?kids" using child_iff[OF wf a] inner(3) True less.prems by simp
      then have "length (filter (\<lambda>c. c = i) ?kids) = 1" using d by (rule filter_single)
      moreover have "covers t a i" "i \<noteq> a" using step[of a] True inner(2) covers_step[OF wf p, of a] by auto
      ultimately show ?thesis by simp
    next
      case False
      have "i \<notin> set ?kids" using child_iff[OF wf a, of i] inner(3) False by auto
      then have "filter (\<lambda>c. covers t c i) ?kids = filter (\<lambda>c. covers t c p) ?kids" using step by (intro filter_cong) auto
      moreover have "covers t a i \<and> i \<noteq> a \<longleftrightarrow> covers t a p \<and> p \<noteq> a"
        using step[of a] covers_le[OF wf p, of a] inner(2) False by auto
      ultimately show ?thesis using less.IH[OF inner(2) p] by simp
    qed
  qed
qed

definition leaf_node :: "org_tree \<Rightarrow> scored_leaf \<Rightarrow> nat" where
  "leaf_node t l = fst (assign t (sl_name l))"

definition leaves_below :: "org_tree \<Rightarrow> nat \<Rightarrow> scored_leaf list \<Rightarrow> scored_leaf list" where
  "leaves_below t i ls = filter (\<lambda>l. covers t i (leaf_node t l)) ls"

definition tally_of :: "org_tree \<Rightarrow> scored_leaf list \<Rightarrow> tally \<Rightarrow> tally" where
  "tally_of t ls ta = fold (\<lambda>l. count_leaf (snd (assign t (sl_name l))) l) ls ta"

lemma leaf_node_lt: "tree_wf t \<Longrightarrow> leaf_node t l < length (ot_nodes t)"
proof -
  assume wf: "tree_wf t"
  then have two: "2 \<le> length (ot_nodes t)" "ot_unassigned t = 1" by (simp_all add: tree_wf_def links_ok_def)
  show ?thesis
  proof (cases "find (\<lambda>a. list_ex (\<lambda>g. glob_match g (sl_name l)) (ag_targets a)) (ot_assignments t)")
    case (Some a)
    then have "a \<in> set (ot_assignments t)" by (auto simp: find_Some_iff)
    then show ?thesis using wf Some by (simp add: leaf_node_def assign_def tree_wf_def)
  qed (use two in \<open>simp add: leaf_node_def assign_def\<close>)
qed

lemma tally_leaves_eq: "tree_wf t \<Longrightarrow> tally_leaves t i ls ta = Some (tally_of t (leaves_below t i ls) ta)"
proof (induction ls arbitrary: ta)
  case (Cons l ls)
  have "in_subtree t i (leaf_node t l) = Some (covers t i (leaf_node t l))"
    by (rule in_subtree_ends[OF _ leaf_node_lt[OF Cons.prems]]) (use Cons.prems in \<open>simp add: tree_wf_def\<close>)
  then show ?case using Cons by (cases "assign t (sl_name l)") (simp add: leaf_node_def leaves_below_def tally_of_def)
qed (simp add: leaves_below_def tally_of_def)

lemma tally_counts: "ta_expected (tally_of t ls ta) = ta_expected ta + length ls"
    "ta_scored (tally_of t ls ta) = ta_scored ta + length (filter (\<lambda>l. sl_score l \<noteq> None) ls)"
proof (induction ls arbitrary: ta)
  case (Cons l ls)
  { case 1 show ?case using Cons.IH(1) by (simp add: tally_of_def count_leaf_def Let_def split: option.splits) next
    case 2 show ?case using Cons.IH(2) by (simp add: tally_of_def count_leaf_def Let_def split: option.splits) }
qed (simp_all add: tally_of_def)

lemma empty_counts: "ta_expected empty_tally = 0" "ta_scored empty_tally = 0"
  by (simp_all add: empty_tally_def)

lemma node_score_fields: "nsc_expected (node_score_of t i path ta cs) = ta_expected ta" "nsc_scored (node_score_of t i path ta cs) = ta_scored ta"
    "nsc_children (node_score_of t i path ta cs) = cs"
    "nsc_score (node_score_of t i path ta cs) = (if f64_lt (Fin 0) (ta_weights ta) then f64_div (ta_sum ta) (ta_weights ta) else Fin 0)"
  by (simp_all add: node_score_of_def Let_def)

lemma path_of_ends: "tree_wf t \<Longrightarrow> i < length (ot_nodes t) \<Longrightarrow> \<exists>p. path_of t i = Some p"
  using path_parts_resolve[of t i "[]"] by (fastforce simp: tree_wf_def path_of_def)

lemma aggregate_leaf_ends: "tree_wf t \<Longrightarrow> i < length (ot_nodes t) \<Longrightarrow>
    \<exists>path. aggregate_leaf t ls i = Some (node_score_of t i path (tally_of t (leaves_below t i ls) empty_tally) [])"
  using path_of_ends[of t i] by (auto simp: aggregate_leaf_def tally_leaves_eq)

lemma options_map: "(\<And>x. x \<in> set xs \<Longrightarrow> \<exists>y. f x = Some y \<and> P x y) \<Longrightarrow> \<exists>ys. options (map f xs) = Some ys \<and> list_all2 P xs ys"
proof (induction xs)
  case (Cons x xs)
  then obtain y ys where "f x = Some y" "P x y" "options (map f xs) = Some ys" "list_all2 P xs ys" by force
  then show ?case by simp
qed simp

lemma sort_low_sum: "sum_list (map f (sort_low g xs)) = (sum_list (map f xs) :: nat)"
  by (metis mset_map sum_mset_sum_list sort_low_mset)

lemma count_swap: "sum_list (map (\<lambda>c. length (filter (Q c) ls)) cs) = sum_list (map (\<lambda>l. length (filter (\<lambda>c. Q c l) cs)) ls)"
proof (induction ls)
  case (Cons l ls)
  have "sum_list (map (\<lambda>c. length (filter (Q c) (l # ls))) cs) = length (filter (\<lambda>c. Q c l) cs) + sum_list (map (\<lambda>c. length (filter (Q c) ls)) cs)"
    by (induction cs) auto
  then show ?case using Cons.IH by simp
qed simp

lemma sum_indicator: "sum_list (map (\<lambda>x. if P x then 1 else 0) xs) = length (filter P xs)"
  by (induction xs) auto

lemma children_count:
  assumes wf: "tree_wf t" and i: "i < length (ot_nodes t)"
  shows "length (filter R (leaves_below t i ls)) = length (filter (\<lambda>l. leaf_node t l = i \<and> R l) ls)
    + sum_list (map (\<lambda>c. length (filter R (leaves_below t c ls))) (nd_children (ot_nodes t ! i)))"
proof -
  have l: "links_ok t" using wf by (simp add: tree_wf_def)
  let ?ls = "filter R ls" and ?kids = "nd_children (ot_nodes t ! i)"
  have below: "filter R (leaves_below t c ls) = filter (\<lambda>x. covers t c (leaf_node t x)) ?ls" for c
    by (simp add: leaves_below_def conj_commute)
  have "sum_list (map (\<lambda>c. length (filter (\<lambda>x. covers t c (leaf_node t x)) ?ls)) ?kids)
      = sum_list (map (\<lambda>x. length (filter (\<lambda>c. covers t c (leaf_node t x)) ?kids)) ?ls)" by (rule count_swap)
  also have "\<dots> = sum_list (map (\<lambda>x. if covers t i (leaf_node t x) \<and> leaf_node t x \<noteq> i then 1 else 0) ?ls)"
    using covers_children[OF l i leaf_node_lt[OF wf]] by simp
  also have "\<dots> = length (filter (\<lambda>x. covers t i (leaf_node t x) \<and> leaf_node t x \<noteq> i) ?ls)" by (rule sum_indicator)
  finally have k: "sum_list (map (\<lambda>c. length (filter R (leaves_below t c ls))) ?kids)
      = length (filter (\<lambda>x. covers t i (leaf_node t x) \<and> leaf_node t x \<noteq> i) ?ls)" by (simp add: below)
  have self: "covers t i i" by (simp add: covers_def in_subtree.simps)
  have parts: "length (filter (\<lambda>x. covers t i (leaf_node t x)) ys) = length (filter (\<lambda>x. leaf_node t x = i) ys)
      + length (filter (\<lambda>x. covers t i (leaf_node t x) \<and> leaf_node t x \<noteq> i) ys)" for ys
    using self by (induction ys) auto
  have "filter (\<lambda>l. leaf_node t l = i \<and> R l) ls = filter (\<lambda>x. leaf_node t x = i) ?ls" by (simp add: conj_commute)
  then show ?thesis using parts[of ?ls] k below[of i] by presburger
qed

lemma resolve_lt:
  assumes "tree_wf t" "resolve t path = Some i"
  shows "i < length (ot_nodes t)"
proof -
  have l: "links_ok t" using assms(1) by (simp add: tree_wf_def)
  have "resolve_from t cur segs = Some i \<Longrightarrow> cur < length (ot_nodes t) \<Longrightarrow> i < length (ot_nodes t)" for cur segs
  proof (induction segs arbitrary: cur)
    case (Cons s segs)
    obtain c where c: "find (\<lambda>c. nd_name (ot_nodes t ! c) = s) (nd_children (ot_nodes t ! cur)) = Some c" "resolve_from t c segs = Some i"
      using Cons.prems(1) by (auto split: bind_splits)
    then have "c \<in> set (nd_children (ot_nodes t ! cur))" by (auto simp: find_Some_iff)
    then show ?case using Cons.IH[OF c(2)] child_iff[OF l Cons.prems(2)] by blast
  qed simp
  moreover have "ot_root t < length (ot_nodes t)" using l unfolding links_ok_def by linarith
  ultimately show ?thesis using assms(2) by (auto simp: resolve_def Let_def split: if_splits)
qed

lemma compute_node_ends:
  assumes wf: "tree_wf t" and r: "resolve t path = Some i"
  shows "\<exists>p cs. compute_node t path ls = Some (Some (node_score_of t i p (tally_of t (leaves_below t i ls) empty_tally) (sort_low nsc_score cs)))
    \<and> list_all2 (\<lambda>c s. \<exists>p. s = node_score_of t c p (tally_of t (leaves_below t c ls) empty_tally) []) (nd_children (ot_nodes t ! i)) cs"
proof -
  have i: "i < length (ot_nodes t)" by (rule resolve_lt[OF assms])
  have "c < length (ot_nodes t)" if "c \<in> set (nd_children (ot_nodes t ! i))" for c
    using child_iff[OF _ i] wf that by (auto simp: tree_wf_def)
  then obtain cs where "options (map (aggregate_leaf t ls) (nd_children (ot_nodes t ! i))) = Some cs"
      "list_all2 (\<lambda>c s. \<exists>p. s = node_score_of t c p (tally_of t (leaves_below t c ls) empty_tally) []) (nd_children (ot_nodes t ! i)) cs"
    using options_map[of "nd_children (ot_nodes t ! i)" "aggregate_leaf t ls"
        "\<lambda>c s. \<exists>p. s = node_score_of t c p (tally_of t (leaves_below t c ls) empty_tally) []"] aggregate_leaf_ends[OF wf] by blast
  moreover obtain p where "path_of t i = Some p" using path_of_ends[OF wf i] by blast
  ultimately show ?thesis using r by (auto simp: compute_node_def aggregate_def tally_leaves_eq[OF wf])
qed

text \<open>C19: the rollup of a node of a built tree is always computed, and it partitions the leaves: every leaf counted for a node, and every
  scored leaf, is assigned to the node itself or counted for exactly one of its children, and the company counts all leaves once.\<close>

theorem rollup_partitions_leaves:
  assumes "build_tree f = Some (Inr t)" "resolve t path = Some i"
  shows "\<exists>s. compute_node t path ls = Some (Some s)
    \<and> nsc_expected s = length (filter (\<lambda>l. fst (assign t (sl_name l)) = i) ls) + sum_list (map nsc_expected (nsc_children s))
    \<and> nsc_scored s = length (filter (\<lambda>l. fst (assign t (sl_name l)) = i \<and> sl_score l \<noteq> None) ls) + sum_list (map nsc_scored (nsc_children s))
    \<and> (i = 0 \<longrightarrow> nsc_expected s = length ls)"
proof -
  have wf: "tree_wf t" using build_tree_ends[of f] assms(1) by auto
  have i: "i < length (ot_nodes t)" by (rule resolve_lt[OF wf assms(2)])
  obtain p cs where c: "compute_node t path ls = Some (Some (node_score_of t i p (tally_of t (leaves_below t i ls) empty_tally) (sort_low nsc_score cs)))"
      "list_all2 (\<lambda>c s. \<exists>p. s = node_score_of t c p (tally_of t (leaves_below t c ls) empty_tally) []) (nd_children (ot_nodes t ! i)) cs"
    using compute_node_ends[OF wf assms(2)] by blast
  have "map nsc_expected cs = map (\<lambda>c. length (leaves_below t c ls)) (nd_children (ot_nodes t ! i))"
    using c(2) by (induction rule: list_all2_induct) (auto simp: node_score_fields tally_counts empty_counts)
  moreover have "map nsc_scored cs = map (\<lambda>c. length (filter (\<lambda>l. sl_score l \<noteq> None) (leaves_below t c ls))) (nd_children (ot_nodes t ! i))"
    using c(2) by (induction rule: list_all2_induct) (auto simp: node_score_fields tally_counts empty_counts)
  moreover have "covers t 0 j" if "j < length (ot_nodes t)" for j
    using that
  proof (induction j rule: less_induct)
    case (less j)
    have l: "links_ok t" using wf by (simp add: tree_wf_def)
    from l less.prems show ?case
      by (cases rule: parent_cases) (use covers_step[OF l less.prems, of 0] less in auto)
  qed
  then have "i = 0 \<Longrightarrow> leaves_below t i ls = ls" using leaf_node_lt[OF wf] by (simp add: leaves_below_def)
  ultimately show ?thesis
    using c(1) children_count[OF wf i, of "\<lambda>_. True" ls] children_count[OF wf i, of "\<lambda>l. sl_score l \<noteq> None" ls]
    by (auto simp: node_score_fields tally_counts empty_counts sort_low_sum leaf_node_def)
qed

section \<open>The score is the weighted mean of the leaves\<close>

definition level_of :: "org_tree \<Rightarrow> string \<Rightarrow> nat" where
  "level_of t name = (case find (\<lambda>a. list_ex (\<lambda>g. glob_match g name) (ag_targets a)) (ot_assignments t) of
     None \<Rightarrow> 1 | Some a \<Rightarrow> (case ag_criticality a name of None \<Rightarrow> 1 | Some l \<Rightarrow> criticality_weight l))"

lemma level_range: "1 \<le> level_of t name" "level_of t name \<le> 3"
  by (auto simp: level_of_def criticality_weight_def split: option.splits)

lemma assign_weight: "ot_default_weight t = Fin 1 \<Longrightarrow> snd (assign t name) = Fin (of_nat (level_of t name))"
proof -
  assume w: "ot_default_weight t = Fin 1"
  have "f64_mul (Fin 1) (f64_of_nat n) = Fin (of_nat n)" if "n \<le> 3" for n
    using to_f64_nat[of n] that by (simp add: f64_of_nat_def)
  then show ?thesis using w level_range(2)[of t name]
    by (auto simp: assign_def level_of_def split: option.splits)
qed

definition score_sum :: "org_tree \<Rightarrow> scored_leaf list \<Rightarrow> nat" where
  "score_sum t ls = sum_list (map (\<lambda>l. level_of t (sl_name l) * the (sl_score l)) (filter (\<lambda>l. sl_score l \<noteq> None) ls))"

definition weight_sum :: "org_tree \<Rightarrow> scored_leaf list \<Rightarrow> nat" where
  "weight_sum t ls = sum_list (map (\<lambda>l. level_of t (sl_name l)) (filter (\<lambda>l. sl_score l \<noteq> None) ls))"

lemma weights_le: "weight_sum t ls \<le> 3 * length ls"
proof (induction ls)
  case (Cons l ls)
  then show ?case using level_range(2)[of t "sl_name l"] by (simp add: weight_sum_def)
qed (simp add: weight_sum_def)

lemma sums_le: "\<forall>l \<in> set ls. \<forall>s. sl_score l = Some s \<longrightarrow> s \<le> 100 \<Longrightarrow> score_sum t ls \<le> 100 * weight_sum t ls"
proof (induction ls)
  case (Cons l ls)
  show ?case
  proof (cases "sl_score l")
    case (Some s)
    then have k: "level_of t (sl_name l) * s \<le> 100 * level_of t (sl_name l)" using Cons.prems by simp
    then show ?thesis using add_mono[OF k Cons.IH] Cons.prems Some by (simp add: score_sum_def weight_sum_def)
  qed (use Cons in \<open>simp add: score_sum_def weight_sum_def\<close>)
qed (simp add: score_sum_def weight_sum_def)

lemma tally_exact:
  assumes w: "ot_default_weight t = Fin 1"
  shows "\<forall>l \<in> set ls. \<forall>s. sl_score l = Some s \<longrightarrow> s \<le> 100 \<Longrightarrow> S + 300 * length ls < 2 ^ 53 \<Longrightarrow> W + 3 * length ls < 2 ^ 53 \<Longrightarrow>
    ta_sum ta = Fin (of_nat S) \<Longrightarrow> ta_weights ta = Fin (of_nat W) \<Longrightarrow>
    ta_sum (tally_of t ls ta) = Fin (of_nat (S + score_sum t ls)) \<and> ta_weights (tally_of t ls ta) = Fin (of_nat (W + weight_sum t ls))"
proof (induction ls arbitrary: ta S W)
  case (Cons l ls)
  let ?n = "level_of t (sl_name l)"
  have lw: "snd (assign t (sl_name l)) = Fin (of_nat ?n)" by (rule assign_weight[OF w])
  have step: "tally_of t (l # ls) ta = tally_of t ls (count_leaf (Fin (of_nat ?n)) l ta)" by (simp add: tally_of_def lw)
  show ?case
  proof (cases "sl_score l")
    case None
    then have "ta_sum (count_leaf (Fin (of_nat ?n)) l ta) = Fin (of_nat S)" "ta_weights (count_leaf (Fin (of_nat ?n)) l ta) = Fin (of_nat W)"
      using Cons.prems(4,5) by (simp_all add: count_leaf_def Let_def)
    then show ?thesis using Cons.IH[of S W] Cons.prems None by (simp add: step score_sum_def weight_sum_def)
  next
    case (Some s)
    have s: "s \<le> 100" "?n \<le> 3" using Cons.prems(1) Some level_range(2) by auto
    have ns: "?n * s \<le> 300" using mult_le_mono[OF s(2,1)] by simp
    have p: "f64_mul (Fin (of_nat ?n)) (f64_of_nat s) = Fin (of_nat (?n * s))"
      using to_f64_nat[of "?n * s"] ns by (simp add: f64_of_nat_def)
    have b: "S + ?n * s < 2 ^ 53" "W + ?n < 2 ^ 53" using ns s(2) Cons.prems(2,3) by (simp_all del: power.simps)
    have "f64_add (Fin (of_nat S)) (Fin (of_nat (?n * s))) = Fin (of_nat (S + ?n * s))" "f64_add (Fin (of_nat W)) (Fin (of_nat ?n)) = Fin (of_nat (W + ?n))"
      using to_f64_nat[OF b(1)] to_f64_nat[OF b(2)] by simp_all
    then have "ta_sum (count_leaf (Fin (of_nat ?n)) l ta) = Fin (of_nat (S + ?n * s))" "ta_weights (count_leaf (Fin (of_nat ?n)) l ta) = Fin (of_nat (W + ?n))"
      using Cons.prems(4,5) Some p by (simp_all add: count_leaf_def Let_def del: f64_add.simps f64_mul.simps)
    then show ?thesis using Cons.IH[of "S + ?n * s" "W + ?n"] Cons.prems ns s Some by (simp add: step score_sum_def weight_sum_def add.assoc)
  qed
qed (simp add: tally_of_def score_sum_def weight_sum_def)

lemma weights_pos: "filter (\<lambda>l. sl_score l \<noteq> None) ls \<noteq> [] \<Longrightarrow> 0 < weight_sum t ls"
proof (induction ls)
  case (Cons l ls)
  then show ?case using level_range(1)[of t "sl_name l"] by (auto simp: weight_sum_def)
qed simp

text \<open>C34: with the default weight the score of a node is the criticality-weighted mean of all scored leaves below it, in whole numbers and
  rounded once; it lies between 0 and 100, and a node without a scored leaf has 0.\<close>

theorem rollup_is_weighted_mean:
  assumes "build_tree f = Some (Inr t)" "of_weight f = Fin 1" "resolve t path = Some i"
    "\<forall>l \<in> set ls. \<forall>s. sl_score l = Some s \<longrightarrow> s \<le> 100" "length ls < 2 ^ 40" "compute_node t path ls = Some (Some s)"
  shows "let below = filter (\<lambda>l. in_subtree t i (fst (assign t (sl_name l))) = Some True \<and> sl_score l \<noteq> None) ls;
             total = sum_list (map (\<lambda>l. level_of t (sl_name l)) below) in
    nsc_score s = (if below = [] then Fin 0
      else to_f64 (of_nat (sum_list (map (\<lambda>l. level_of t (sl_name l) * the (sl_score l)) below)) / of_nat total))
    \<and> between 0 100 (nsc_score s)"
proof -
  have wf: "tree_wf t" and w: "ot_default_weight t = Fin 1" using build_tree_ends[of f] assms(1,2) by auto
  let ?ls = "leaves_below t i ls"
  have len: "length ?ls \<le> length ls" by (simp add: leaves_below_def)
  have le: "\<forall>l \<in> set ?ls. \<forall>s. sl_score l = Some s \<longrightarrow> s \<le> 100" using assms(4) unfolding leaves_below_def by auto
  have bound: "0 + 300 * length ?ls < 2 ^ 53" "0 + 3 * length ?ls < 2 ^ 53" using len assms(5) by simp_all
  obtain p cs where s: "s = node_score_of t i p (tally_of t ?ls empty_tally) (sort_low nsc_score cs)"
    using compute_node_ends[OF wf assms(3), of ls] assms(6) by auto
  have e: "ta_sum empty_tally = Fin (of_nat 0)" "ta_weights empty_tally = Fin (of_nat 0)" by (simp_all add: empty_tally_def)
  have ta: "ta_sum (tally_of t ?ls empty_tally) = Fin (of_nat (score_sum t ?ls))" "ta_weights (tally_of t ?ls empty_tally) = Fin (of_nat (weight_sum t ?ls))"
    using tally_exact[OF w le bound e] by simp_all
  have below: "filter (\<lambda>l. in_subtree t i (fst (assign t (sl_name l))) = Some True \<and> sl_score l \<noteq> None) ls = filter (\<lambda>l. sl_score l \<noteq> None) ?ls"
    by (simp add: leaves_below_def covers_def leaf_node_def conj_commute)
  show ?thesis
  proof (cases "filter (\<lambda>l. sl_score l \<noteq> None) ?ls = []")
    case True
    then have "weight_sum t ?ls = 0" by (simp add: weight_sum_def)
    then show ?thesis using True unfolding Let_def below by (simp add: s node_score_fields ta)
  next
    case False
    have pos: "0 < weight_sum t ?ls" by (rule weights_pos[OF False])
    have score: "nsc_score s = to_f64 (of_nat (score_sum t ?ls) / of_nat (weight_sum t ?ls))"
      using pos by (simp add: s node_score_fields ta)
    have "(of_nat (score_sum t ?ls) :: rat) \<le> of_nat (100 * weight_sum t ?ls)" using sums_le[OF le] by (simp only: of_nat_le_iff)
    then have "(of_nat (score_sum t ?ls) / of_nat (weight_sum t ?ls) :: rat) \<le> 100" using pos by (simp add: divide_le_eq)
    then have "between 0 100 (nsc_score s)"
      using to_f64_mono[of 0 "of_nat (score_sum t ?ls) / of_nat (weight_sum t ?ls)"] to_f64_mono[of "of_nat (score_sum t ?ls) / of_nat (weight_sum t ?ls)" 100]
        to_f64_nat[of 100] by (simp add: between_le score to_f64_0)
    then show ?thesis using False score unfolding Let_def below by (simp add: score_sum_def weight_sum_def)
  qed
qed

end
