(* ===== verification/Scoring_Props.thy ===== *)
theory Scoring_Props
  imports Scoring Read_Queries_Props
begin

text \<open>
  The query of the scorecard is free of injections as long as no environment contains a brace, and every number of a
  scorecard is between 0 and 100.
\<close>

section \<open>Filling in the query\<close>

lemma replace_free: "hd pat \<notin> set a \<Longrightarrow> pat \<noteq> [] \<Longrightarrow> replace_str pat rep (a @ b) = a @ replace_str pat rep b"
proof (induction a)
  case (Cons c a)
  then have "strip_prefix pat ((c # a) @ b) = None" by (cases pat) auto
  then show ?case using Cons by simp
qed simp

lemma replace_hit: "pat \<noteq> [] \<Longrightarrow> replace_str pat rep (pat @ b) = rep @ replace_str pat rep b"
  by (cases pat) (simp_all del: strip_prefix_Some)

lemma replace_skip: "strip_prefix pat (c # a @ b) = None \<Longrightarrow> hd pat \<notin> set a \<Longrightarrow> pat \<noteq> [] \<Longrightarrow> replace_str pat rep (c # a @ b) = (c # a) @ replace_str pat rep b"
  by (simp add: replace_free)

definition latest_filled :: "string \<Rightarrow> string \<Rightarrow> string \<Rightarrow> string \<Rightarrow> string" where
  "latest_filled as_of r s m = ''SELECT * FROM ( SELECT s.experiment_name AS name, s.target_system AS target, s.ts_ns AS ts, s.fault_severity AS severity, l.log_attrs[''
     @ lit_text ''status'' @ ''] AS status, '' @ lit_text ''automated''
     @ '' AS origin, s.target_environment AS environment, s.experiment_id AS evidence_id, (SELECT COUNT(*) FROM spans r WHERE r.span_name = ''
     @ lit_text ''resilience.experiment'' @ '' AND r.experiment_name = s.experiment_name AND r.target_system IS NOT DISTINCT FROM s.target_system AND r.target_environment IS NOT DISTINCT FROM s.target_environment AND r.ts_ns <= ''
     @ as_of @ r @ '') AS runs FROM spans s LEFT JOIN logs l ON l.log_attrs[''
     @ lit_text ''experiment_id'' @ ''] = s.experiment_id AND l.body = '' @ lit_text ''experiment.completed'' @ '' WHERE s.span_name = ''
     @ lit_text ''resilience.experiment'' @ '' AND s.experiment_name IS NOT NULL AND s.ts_ns <= ''
     @ as_of @ s @ '' UNION ALL SELECT m.experiment_name, m.target_system, m.executed_at_ns, NULL, m.outcome_status, ''
     @ lit_text ''manual'' @ '', m.target_environment, m.id, 1 FROM manual_experiments m WHERE m.status = '' @ lit_text ''verified'' @ '' AND m.outcome_status != ''
     @ lit_text ''inconclusive'' @ '' AND m.executed_at_ns <= ''
     @ as_of @ m @ '' ) QUALIFY ROW_NUMBER() OVER (PARTITION BY name, target, environment, origin ORDER BY ts DESC, evidence_id DESC) = 1''"

lemma latest_template: "LATEST_SQL = latest_filled ''{AS_OF}'' ''{ENV_R}'' ''{ENV_S}'' ''{ENV_M}''"
  by (simp add: LATEST_SQL_def latest_filled_def)

abbreviation brace :: char where "brace \<equiv> CHR ''{''"

text \<open>Replacing acts on the fillings one by one.\<close>

lemma replace_filled:
  assumes "pat \<noteq> []" "hd pat = brace"
    "\<And>b. replace_str pat rep (t @ b) = t' @ replace_str pat rep b" "\<And>b. replace_str pat rep (r @ b) = r' @ replace_str pat rep b"
    "\<And>b. replace_str pat rep (s @ b) = s' @ replace_str pat rep b" "\<And>b. replace_str pat rep (m @ b) = m' @ replace_str pat rep b"
  shows "replace_str pat rep (latest_filled t r s m) = latest_filled t' r' s' m'"
proof -
  have lit: "replace_str pat rep (lit_text x @ b) = lit_text x @ replace_str pat rep b" if "brace \<notin> set x" for x b
    using replace_free[of pat "lit_text x" rep b] assms(1,2) that by (simp add: lit_text_def)
  have free: "replace_str pat rep (a @ b) = a @ replace_str pat rep b" if "brace \<notin> set a" for a b
    using replace_free[of pat a rep b] assms(1,2) that by simp
  have last: "replace_str pat rep a = a" if "brace \<notin> set a" for a
    using replace_free[of pat a rep "[]"] assms(1,2) that by simp
  show ?thesis unfolding latest_filled_def
    by (subst free, simp, (subst lit, simp | subst assms(3-6) | subst free, simp | subst last, simp)+, rule refl)
qed

lemma brace_free: "brace \<notin> set a \<Longrightarrow> hd pat = brace \<Longrightarrow> pat \<noteq> [] \<Longrightarrow> replace_str pat rep (a @ b) = a @ replace_str pat rep b"
  by (simp add: replace_free)

lemma int_text_no_brace: "brace \<notin> set (int_text i)"
proof -
  have "brace \<notin> set (decimal_text n)" for n using decimal_digits[of n] by (auto simp: is_digit_def)
  then show ?thesis by (simp add: int_text_def)
qed

lemma join_set: "set (intersperse_str sep xs) \<subseteq> set sep \<union> \<Union> (set ` set xs)"
  by (induction sep xs rule: intersperse_str.induct) auto

lemma doubled_set: "set (replace_char quote [quote, quote] e) = set e"
  by (induction e) (auto simp: replace_char_def)

lemma env_no_brace:
  assumes "\<forall>e \<in> set envs. brace \<notin> set e" "brace \<notin> set col"
  shows "brace \<notin> set (and_env (env_in col envs))"
proof -
  have "brace \<notin> set (intersperse_str '', '' (map (\<lambda>e. [quote] @ replace_char quote [quote, quote] e @ [quote]) envs))"
    using subsetD[OF join_set[of "'', ''" "map (\<lambda>e. [quote] @ replace_char quote [quote, quote] e @ [quote]) envs"], of brace] assms(1)
    by (auto simp: doubled_set split: if_splits)
  then show ?thesis using assms(2) by (simp add: and_env_def env_in_def)
qed

lemma latest_sql_filled:
  assumes "\<forall>e \<in> set envs. brace \<notin> set e"
  shows "latest_sql as_of envs = latest_filled (int_text as_of) (and_env (env_in ''r.target_environment'' envs))
    (and_env (env_in ''s.target_environment'' envs)) (and_env (env_in ''m.target_environment'' envs))"
proof -
  let ?R = "and_env (env_in ''r.target_environment'' envs)" and ?S = "and_env (env_in ''s.target_environment'' envs)"
    and ?M = "and_env (env_in ''m.target_environment'' envs)" and ?t = "int_text as_of"
  have nb: "brace \<notin> set ?R" "brace \<notin> set ?S" "brace \<notin> set ?M" "brace \<notin> set ?t"
    using env_no_brace[OF assms] int_text_no_brace by simp_all
  have hits: "replace_str ''{AS_OF}'' rep (''{AS_OF}'' @ b) = rep @ replace_str ''{AS_OF}'' rep b"
      "replace_str ''{ENV_S}'' rep (''{ENV_S}'' @ b) = rep @ replace_str ''{ENV_S}'' rep b"
      "replace_str ''{ENV_R}'' rep (''{ENV_R}'' @ b) = rep @ replace_str ''{ENV_R}'' rep b"
      "replace_str ''{ENV_M}'' rep (''{ENV_M}'' @ b) = rep @ replace_str ''{ENV_M}'' rep b" for rep b
    by (rule replace_hit, simp)+
  have skips: "replace_str ''{AS_OF}'' rep (''{ENV_R}'' @ b) = ''{ENV_R}'' @ replace_str ''{AS_OF}'' rep b"
      "replace_str ''{AS_OF}'' rep (''{ENV_S}'' @ b) = ''{ENV_S}'' @ replace_str ''{AS_OF}'' rep b"
      "replace_str ''{AS_OF}'' rep (''{ENV_M}'' @ b) = ''{ENV_M}'' @ replace_str ''{AS_OF}'' rep b"
      "replace_str ''{ENV_S}'' rep (''{ENV_R}'' @ b) = ''{ENV_R}'' @ replace_str ''{ENV_S}'' rep b"
      "replace_str ''{ENV_S}'' rep (''{ENV_M}'' @ b) = ''{ENV_M}'' @ replace_str ''{ENV_S}'' rep b"
      "replace_str ''{ENV_R}'' rep (''{ENV_M}'' @ b) = ''{ENV_M}'' @ replace_str ''{ENV_R}'' rep b" for rep b
    by simp_all
  note free = brace_free[OF nb(1)] brace_free[OF nb(2)] brace_free[OF nb(3)] brace_free[OF nb(4)]
  have "replace_str ''{AS_OF}'' ?t LATEST_SQL = latest_filled ?t ''{ENV_R}'' ''{ENV_S}'' ''{ENV_M}''"
    unfolding latest_template by (rule replace_filled) (rule hits skips | simp)+
  moreover have "replace_str ''{ENV_S}'' ?S (latest_filled ?t ''{ENV_R}'' ''{ENV_S}'' ''{ENV_M}'') = latest_filled ?t ''{ENV_R}'' ?S ''{ENV_M}''"
    by (rule replace_filled) (rule hits skips free | simp)+
  moreover have "replace_str ''{ENV_R}'' ?R (latest_filled ?t ''{ENV_R}'' ?S ''{ENV_M}'') = latest_filled ?t ?R ?S ''{ENV_M}''"
    by (rule replace_filled) (rule hits skips free | simp)+
  moreover have "replace_str ''{ENV_M}'' ?M (latest_filled ?t ?R ?S ''{ENV_M}'') = latest_filled ?t ?R ?S ?M"
    by (rule replace_filled) (rule hits skips free | simp)+
  ultimately show ?thesis by (simp only: latest_sql_def)
qed

section \<open>Fixed shape\<close>

lemma env_in_eq: "env_in col envs = env_scope_where col envs"
proof -
  have "sql_string = (\<lambda>e. [quote] @ replace_char quote [quote, quote] e @ [quote])" by (rule ext) (simp add: sql_string_def)
  then show ?thesis by (simp add: env_in_def env_scope_where_def)
qed

lemma and_env_alike:
  assumes "length envs = length envs'" "quote \<notin> set col"
  shows "alike (and_env (env_in col envs)) (and_env (env_in col envs'))" "noq (and_env (env_in col envs))"
proof -
  show "alike (and_env (env_in col envs)) (and_env (env_in col envs'))"
  proof (cases "env_in col envs")
    case None
    then have "env_in col envs' = None" using assms(1) by (cases envs') (auto simp: env_in_def split: if_splits)
    then show ?thesis using None alike_self[of "[]"] by (simp add: and_env_def)
  next
    case (Some a)
    obtain b where b: "env_in col envs' = Some b" "alike a b"
      using alike_env[OF assms(1) _ assms(2)] Some by (auto simp: env_in_eq)
    have "alike ('' AND '' @ a) ('' AND '' @ b)" by (rule alike_const[OF _ b(2)]) simp
    then show ?thesis by (simp add: and_env_def Some b(1))
  qed
  show "noq (and_env (env_in col envs))" by (cases "env_in col envs") (simp_all add: and_env_def noq_def)
qed

text \<open>The query of the scorecard is free of injections: for principals with equally many environments, none with an opening brace in its
  name, it has the same tokens, whatever else the names contain; and its three reads, the runs, their count and the manual
  records, each carry the predicate of the scopes.\<close>

theorem scorecard_query_has_fixed_shape:
  assumes "length envs = length envs'" "\<forall>e \<in> set envs \<union> set envs'. brace \<notin> set e"
  shows "tokenize (latest_sql as_of envs) = tokenize (latest_sql as_of envs')
    \<and> latest_sql as_of envs = latest_filled (int_text as_of) (and_env (env_in ''r.target_environment'' envs))
        (and_env (env_in ''s.target_environment'' envs)) (and_env (env_in ''m.target_environment'' envs))"
proof -
  let ?c = "''s.target_environment''"
  have f: "latest_sql as_of envs = latest_filled (int_text as_of) (and_env (env_in ''r.target_environment'' envs))
        (and_env (env_in ?c envs)) (and_env (env_in ''m.target_environment'' envs))"
    "latest_sql as_of envs' = latest_filled (int_text as_of) (and_env (env_in ''r.target_environment'' envs'))
        (and_env (env_in ?c envs')) (and_env (env_in ''m.target_environment'' envs'))"
    by (rule latest_sql_filled, use assms(2) in simp)+
  have t: "settled False (int_text as_of)" by (rule settled_no_quote[OF int_text_plain])
  have "alike (latest_sql as_of envs) (latest_sql as_of envs')"
    unfolding f latest_filled_def
    by (intro alike_rules t and_env_alike[OF assms(1)]) (simp_all add: noq_def lit_text_def)
  then show ?thesis using f(1) by (simp add: alike_tokens)
qed

section \<open>Every score is between 0 and 100\<close>

lemma to_f64_between:
  assumes "0 \<le> x" "x \<le> of_nat n" "n < 2 ^ 53"
  shows "between 0 (of_nat n) (to_f64 x)"
  using to_f64_mono[OF assms(1)] to_f64_mono[OF assms(2)] to_f64_nat[OF assms(3)] by (simp add: between_le to_f64_0)

lemma sum_between:
  "\<forall>x \<in> set xs. between 0 100 x \<Longrightarrow> between 0 (of_nat n) a \<Longrightarrow> n + 100 * length xs < 2 ^ 53 \<Longrightarrow>
    between 0 (of_nat (n + 100 * length xs)) (foldl f64_add a xs)"
proof (induction xs arbitrary: a n)
  case (Cons x xs)
  obtain r s where rs: "x = Fin r" "0 \<le> r" "r \<le> 100" "a = Fin s" "0 \<le> s" "s \<le> of_nat n"
    using Cons.prems(1,2) by (auto simp: between_def)
  have "between 0 (of_nat (n + 100)) (f64_add a x)"
    using to_f64_between[of "s + r" "n + 100"] rs Cons.prems(3) by simp
  then show ?case using Cons.IH[where a = "f64_add a x" and n = "n + 100"] Cons.prems(1,3) by (simp add: add.assoc)
qed simp

lemma mean_between:
  assumes "xs \<noteq> []" "\<forall>x \<in> set xs. between 0 100 x" "length xs < 2 ^ 40"
  shows "between 0 100 (f64_mean xs)"
proof -
  have "between 0 (of_nat (0 + 100 * length xs)) (foldl f64_add (Fin 0) xs)"
    by (rule sum_between[OF assms(2)]) (use assms(3) in simp_all)
  then obtain s where s: "f64_sum xs = Fin s" "0 \<le> s" "s \<le> 100 * of_nat (length xs)" by (auto simp: f64_sum_def between_def)
  have "(0::rat) < of_nat (length xs)" using assms(1) by simp
  then have "0 \<le> s / of_nat (length xs)" "s / of_nat (length xs) \<le> of_nat 100" using s(2,3) by (simp_all add: divide_le_eq)
  from to_f64_between[OF this] show ?thesis using assms(1) by (simp add: f64_mean_def f64_of_nat_def s(1))
qed

lemma row_score: "fst (score_row r as_of) \<in> {0, 50, 75, 100}"
  by (auto simp: score_row_def score_run_def Let_def split: option.splits)

lemma experiment_scores: "e \<in> set (List.map_filter (experiment_of as_of) rows) \<Longrightarrow> xs_score e \<in> {0, 50, 75, 100}"
proof -
  assume "e \<in> set (List.map_filter (experiment_of as_of) rows)"
  then obtain r where "experiment_of as_of r = Some e" by (auto simp: map_filter_def)
  moreover obtain score state where "score_row r as_of = (score, state)" by fastforce
  ultimately show ?thesis using row_score[of r as_of] by (auto simp: experiment_of_def)
qed

lemma target_between:
  assumes "\<forall>e \<in> set es. xs_score e \<le> 100" "length es < 2 ^ 40" "t \<in> set (targets_of es)"
  shows "between 0 100 (ts_score t)"
proof -
  obtain e where e: "e \<in> set es" "t = target_of es (target_key e)" using assms(3) by (auto simp: targets_of_def)
  let ?exps = "filter (\<lambda>x. target_key x = target_key e) es"
  have "length ?exps < 2 ^ 40" using le_less_trans[OF length_filter_le assms(2)] .
  moreover have "?exps \<noteq> []" using e(1) by (auto simp: filter_empty_conv)
  moreover have "between 0 100 (f64_of_nat (xs_score x))" if "x \<in> set es" for x
  proof -
    have "(of_nat (xs_score x) :: rat) \<le> of_nat 100" using assms(1) that by (simp only: of_nat_le_iff)
    then show ?thesis by (simp add: f64_of_nat_def)
  qed
  ultimately show ?thesis using assms(2)
    by (auto simp: e(2) target_of_def Let_def intro!: mean_between)
qed

lemma targets_length: "length (targets_of es) \<le> length es"
proof -
  have "length (targets_of es) = card (set (map target_key es))" by (simp add: targets_of_def)
  also have "\<dots> \<le> length (map target_key es)" by (rule card_length)
  finally show ?thesis by simp
qed

lemma map_filter_length: "length (List.map_filter f xs) \<le> length xs"
  by (simp add: map_filter_def)

lemma scorecard_between:
  assumes "length rows < 2 ^ 40"
  shows "(\<forall>e \<in> set (sc_experiments (scorecard_of rows as_of)). xs_score e \<in> {0, 50, 75, 100})
    \<and> (\<forall>t \<in> set (sc_targets (scorecard_of rows as_of)). between 0 100 (ts_score t)) \<and> between 0 100 (sc_portfolio (scorecard_of rows as_of))"
proof -
  let ?es = "sort_key (\<lambda>e. (xs_score e, xs_name e)) (List.map_filter (experiment_of as_of) rows)"
  have sc: "\<forall>e \<in> set ?es. xs_score e \<in> {0, 50, 75, 100}" using experiment_scores by simp
  then have le: "\<forall>e \<in> set ?es. xs_score e \<le> 100" by fastforce
  have len: "length ?es < 2 ^ 40" using map_filter_length[of "experiment_of as_of" rows] assms by simp
  have ts: "\<forall>t \<in> set (targets_of ?es). between 0 100 (ts_score t)" using target_between[OF le len] by blast
  have "between 0 100 (portfolio_of (targets_of ?es))"
    using mean_between[of "map ts_score (targets_of ?es)"] ts targets_length[of ?es] len by (auto simp: portfolio_of_def)
  then show ?thesis using sc ts by (simp add: scorecard_of_def Let_def)
qed

text \<open>Whatever the store answers, an experiment scores 0, 50, 75 or 100, every target and the portfolio are numbers between 0 and 100,
  and the change against the previous period is between minus 100 and 100.\<close>

theorem scorecards_are_bounded:
  assumes "compute_scoped rd as_of period envs = Inr sc" "\<And>sql rows. rd sql = Inr rows \<Longrightarrow> length rows < 2 ^ 40"
  shows "(\<forall>e \<in> set (sc_experiments sc). xs_score e \<in> {0, 50, 75, 100}) \<and> (\<forall>t \<in> set (sc_targets sc). between 0 100 (ts_score t))
    \<and> between 0 100 (sc_portfolio sc) \<and> (\<forall>d. sc_delta sc = Some d \<longrightarrow> between (- 100) 100 d)"
proof -
  have one: "(\<forall>e \<in> set (sc_experiments c). xs_score e \<in> {0, 50, 75, 100}) \<and> (\<forall>t \<in> set (sc_targets c). between 0 100 (ts_score t))
      \<and> between 0 100 (sc_portfolio c) \<and> sc_delta c = None" if "compute_as_of rd t envs = Inr c" for t c
    using that scorecard_between assms(2) by (fastforce simp: compute_as_of_def scorecard_of_def Let_def split: sum.splits)
  obtain c where c: "compute_as_of rd as_of envs = Inr c"
    using assms(1) by (cases "compute_as_of rd as_of envs") (auto simp: compute_scoped_def)
  show ?thesis
  proof (cases period)
    case None
    then show ?thesis using assms(1) c one[OF c] by (simp add: compute_scoped_def)
  next
    case (Some p)
    obtain prev where p: "compute_as_of rd (as_of - p) envs = Inr prev"
      using assms(1) c Some by (cases "compute_as_of rd (as_of - p) envs") (auto simp: compute_scoped_def)
    then have card: "sc = c \<lparr> sc_delta := Some (f64_sub (sc_portfolio c) (sc_portfolio prev)) \<rparr>"
      using assms(1) c Some by (simp add: compute_scoped_def)
    obtain x y where xy: "sc_portfolio c = Fin x" "sc_portfolio prev = Fin y" "0 \<le> x" "x \<le> 100" "0 \<le> y" "y \<le> 100"
      using one[OF c] one[OF p] by (auto simp: between_def)
    have "to_f64 (- 100) = Fin (- 100)" using to_f64_int[of "- 100"] by simp
    then have "between (- 100) 100 (to_f64 (x - y))"
      using to_f64_mono[of "- 100" "x - y"] to_f64_mono[of "x - y" 100] to_f64_nat[of 100] xy by (simp add: between_le)
    then show ?thesis using one[OF c] xy by (simp add: card f64_sub_def)
  qed
qed

end
