(* ===== verification/Org_Examples.thy ===== *)
theory Org_Examples
  imports Org_Props Scoring_Props
begin

text \<open>
  The organisation file of the module's tests, its tree and a rollup over four experiments; and the patterns and files
  that are not read the way the comments say.
\<close>

definition spec :: "string \<Rightarrow> string \<Rightarrow> string option \<Rightarrow> node_spec" where
  "spec n k p = \<lparr> ns_name = n, ns_kind = k, ns_parent = p \<rparr>"

definition platform_file :: org_file where
  "platform_file = \<lparr> of_nodes = [spec ''platform'' ''domain'' None, spec ''edge'' ''unit'' (Some ''platform''), spec ''db'' ''team'' (Some ''platform'')],
     of_assignments = [\<lparr> as_team = ''edge'', as_targets = [''edge-*''], as_criticality = [''edge-cdn'' \<mapsto> ''critical''] \<rparr>,
       \<lparr> as_team = ''db'', as_targets = [''db-*'', ''pg-*''], as_criticality = Map.empty \<rparr>],
     of_weight = Fin 1, of_stale_days = 30 \<rparr>"

definition platform_tree :: org_tree where
  "platform_tree = (case build_tree platform_file of Some (Inr t) \<Rightarrow> t | _ \<Rightarrow> empty_tree)"

definition four_leaves :: "scored_leaf list" where
  "four_leaves = [\<lparr> sl_name = ''edge-cdn'', sl_score = Some 50 \<rparr>, \<lparr> sl_name = ''edge-dns'', sl_score = Some 100 \<rparr>,
     \<lparr> sl_name = ''pg-fail'', sl_score = None \<rparr>, \<lparr> sl_name = ''other'', sl_score = Some 75 \<rparr>]"

lemma platform_built: "build_tree platform_file = Some (Inr platform_tree)"
proof -
  have "case build_tree platform_file of Some (Inr t) \<Rightarrow> True | _ \<Rightarrow> False" by code_simp
  then show ?thesis by (auto simp: platform_tree_def split: option.splits sum.splits)
qed

lemma platform_size: "length (ot_nodes platform_tree) = 5" "resolve platform_tree ''/platform/edge/'' = Some 3" "resolve platform_tree [] = Some 0"
  by code_simp+

theorem path_roundtrip_witness: "\<exists>p. path_of platform_tree 3 = Some p \<and> resolve platform_tree p = Some 3"
  using path_roundtrip[OF platform_built, of 3] by (simp add: platform_size)

theorem rollup_partitions_leaves_witness: "\<exists>s. compute_node platform_tree [] four_leaves = Some (Some s) \<and> nsc_expected s = 4"
proof -
  have "length four_leaves = 4" by (simp add: four_leaves_def)
  then show ?thesis using rollup_partitions_leaves[OF platform_built platform_size(3), of four_leaves] by auto
qed

lemma four_scores: "\<forall>l \<in> set four_leaves. \<forall>s. sl_score l = Some s \<longrightarrow> s \<le> 100" "length four_leaves < 2 ^ 40" "of_weight platform_file = Fin 1"
  by (auto simp: four_leaves_def platform_file_def)

theorem rollup_is_weighted_mean_witness:
  "\<exists>s. compute_node platform_tree ''/platform/edge/'' four_leaves = Some (Some s) \<and> nsc_score s = to_f64 (250 / 4)"
proof -
  have "tree_wf platform_tree" using build_tree_ends[of platform_file] platform_built by auto
  then obtain s where s: "compute_node platform_tree ''/platform/edge/'' four_leaves = Some (Some s)"
    using compute_node_ends[OF _ platform_size(2), of four_leaves] by auto
  let ?below = "filter (\<lambda>l. in_subtree platform_tree 3 (fst (assign platform_tree (sl_name l))) = Some True \<and> sl_score l \<noteq> None) four_leaves"
  have "?below \<noteq> [] \<and> sum_list (map (\<lambda>l. level_of platform_tree (sl_name l) * the (sl_score l)) ?below) = 250
      \<and> sum_list (map (\<lambda>l. level_of platform_tree (sl_name l)) ?below) = 4" by code_simp
  then show ?thesis
    using rollup_is_weighted_mean[OF platform_built four_scores(3) platform_size(2) four_scores(1,2) s] s by (auto simp: Let_def)
qed

section \<open>The query and the card\<close>

theorem scorecard_query_has_fixed_shape_witness:
  "tokenize (latest_sql 0 [''prod'', ''dev'']) = tokenize (latest_sql 0 [[quote] @ '') OR 1=1 --'', [quote, quote]])"
  by (rule conjunct1[OF scorecard_query_has_fixed_shape]) simp_all

definition passed_row :: "string \<Rightarrow> int \<Rightarrow> latest_row" where
  "passed_row n t = \<lparr> lt_name = Some n, lt_target = Some ''edge'', lt_ts = Some t, lt_status = Some ''Completed'', lt_runs = Some 2, lt_severity = None,
     lt_origin = None, lt_environment = Some ''prod'', lt_evidence = None \<rparr>"

theorem scorecards_are_bounded_witness:
  "\<exists>sc. compute_scoped (\<lambda>_. Inr [passed_row ''a'' 5, passed_row ''b'' 0]) (STALE_NS + 1) (Some 7) [''prod''] = Inr sc \<and> between 0 100 (sc_portfolio sc)"
proof -
  obtain sc where sc: "compute_scoped (\<lambda>_. Inr [passed_row ''a'' 5, passed_row ''b'' 0]) (STALE_NS + 1) (Some 7) [''prod''] = Inr sc"
    by (simp add: compute_scoped_def compute_as_of_def)
  have "length rows < 2 ^ 40" if "(\<lambda>_. Inr [passed_row ''a'' 5, passed_row ''b'' 0]) sql = (Inr rows :: (string, latest_row list) result)" for sql :: string and rows
    using that by auto
  from scorecards_are_bounded[OF sc this] sc show ?thesis by blast
qed

section \<open>Where the comments promise more\<close>

text \<open>A pattern without a star is not anchored as a whole; the empty pattern matches everything.\<close>

lemma literal_pattern_is_not_exact: "glob_match ''db'' ''db-over-db''" "glob_match [] ''anything''"
  by code_simp+

text \<open>The placeholders are filled one after the other, so an environment that is named like a later placeholder is rewritten inside
  the literal it is quoted in: the quotes of the inserted predicate then end this literal.\<close>

lemma placeholder_scope_rewritten:
  "replace_str ''{ENV_R}'' (and_env (env_in ''r.target_environment'' [''{ENV_R}'', ''prod'']))
     (replace_str ''{ENV_S}'' (and_env (env_in ''s.target_environment'' [''{ENV_R}'', ''prod''])) ''s.ts_ns <= 7{ENV_S}'')
   = ''s.ts_ns <= 7 AND s.target_environment IN ('' @ [quote] @ '' AND r.target_environment IN ('' @ [quote] @ ''{ENV_R}'' @ [quote] @ '', '' @ [quote] @ ''prod''
     @ [quote] @ '')'' @ [quote] @ '', '' @ [quote] @ ''prod'' @ [quote] @ '')''"
  by code_simp

text \<open>A file without a cycle whose child is declared before its parent is refused.\<close>

lemma forward_parent_refused:
  "build_tree \<lparr> of_nodes = [spec ''edge'' ''unit'' (Some ''platform''), spec ''platform'' ''domain'' None], of_assignments = [],
     of_weight = Fin 1, of_stale_days = 30 \<rparr> = Some (Inl (OrgInvalid (''node '' @ [CHR 0x27] @ ''edge'' @ [CHR 0x27] @ '' has unknown parent '' @ [CHR 0x27] @ ''platform'' @ [CHR 0x27])))"
  by (simp add: build_tree_def spec_def trim_def is_ws_def UNASSIGNED_def empty_tree_def)

end
