(* ===== verification/Spec2Isabelle.thy ===== *)
theory Spec2Isabelle
  imports Daemon_Examples Runner_Examples Api_Examples Sql_Examples Campaign_Examples Org_Examples
begin

text \<open>
  Verification library of tumult, a chaos-engineering platform written in Rust: experiments
  that inject faults are validated, approved, queued, executed with guards and rollbacks, and
  recorded. The theories model the parts that decide whether a fault may be injected, by
  whom, when it stops, and what is left behind as evidence.

  The program's parts and how they meet. A client calls the HTTP API (\<open>tumult-api\<close>). Its
  middleware authenticates and authorizes the request against the identity tables
  (\<open>tumult-lake/src/auth.rs\<close>). A run is classified into a risk tier (\<open>tumult-ingest/src/approvals.rs\<close>)
  and either enqueued or parked for approval in the run tables (\<open>tumult-lake/src/runs.rs\<close>,
  \<open>approvals.rs\<close>) by the run queue (\<open>tumult-ingest/src/runs\<close>). A worker takes it from the queue and
  executes it with the experiment runner (\<open>tumult-core/src/runner\<close>), which resolves the experiment
  with the engine (\<open>tumult-core/src/engine\<close>), calls the providers, samples probes, watches the guards
  and rolls back. At start the daemon reconciles runs a crash left behind. The autopilot
  (\<open>tumult-autopilot\<close>) gates changes it proposes by itself.

  Which theory models which part.

  \<open>Tumult_Prelude\<close>: strings, results, computations on a state that can fail, and the contracts
  the components share as locales: \<open>stable_system\<close> (a step relation that keeps an invariant),
  \<open>preorder_system\<close> and \<open>comp_order\<close> (computations that move a state along an order). They are interpreted
  on the models: the audit trail and the run states in \<open>Run_Invariants\<close>, the daemon in
  \<open>Daemon\<close>, the observations of the runner in \<open>Runner_Activity\<close>, the API in \<open>Api_Props\<close>.
  \<open>Float64\<close> and \<open>Float_Arith\<close> are Rust's \<open>f64\<close>: values are rationals, infinities or NaN, and every operation rounds to 53 bits.

  \<open>Auth_Roles\<close>: \<open>tumult-auth/src/lib.rs\<close>. \<open>Api_Store\<close>: the identity tables and their statements.
  \<open>Api_Routes\<close>: \<open>auth/route_table.rs\<close>. \<open>Api_Auth\<close>: \<open>auth/middleware.rs\<close>, \<open>auth/rate_limit.rs\<close>.
  \<open>Api_Handlers\<close>: \<open>auth/session.rs\<close>, \<open>users.rs\<close>, \<open>tokens.rs\<close> as a step relation \<open>api_step\<close> over the moments
  at which a request reads, checks and writes. \<open>Api_Props\<close>: who gets through, who changes
  accounts, rotation and revocation, well-typed rows, the bounds of the limiter; the runs that break
  a promise of the code are in \<open>Api_Examples\<close>.

  \<open>Core_Types\<close>: \<open>tumult-core/src/types\<close> and \<open>engine/tolerance.rs\<close>. \<open>Experiment_Engine\<close>, \<open>Engine_Props\<close>:
  \<open>engine/config.rs\<close>, \<open>template.rs\<close>, \<open>validation.rs\<close>. \<open>Runner_Env\<close>: configuration, controls, providers and
  the world a run observes (\<open>runner/mod.rs\<close>, \<open>controls.rs\<close>, \<open>execution.rs\<close>). \<open>Runner_Activity\<close>: one activity,
  hypotheses, rollbacks. \<open>Runner_Phases\<close>: sampling, the recovery loop, the statistics of a phase. \<open>Runner_Method\<close>: the method phase with its threads
  (\<open>activity.rs\<close>, \<open>guard.rs\<close>, \<open>sampler.rs\<close>) as the step relation \<open>method_step\<close> over all interleavings. \<open>Runner_Experiment\<close>: the
  whole run and its exit paths. \<open>Method_Safety\<close>, \<open>Method_Progress\<close>, \<open>Runner_Recovery\<close>, \<open>Runner_Outcomes\<close>, \<open>Runner_Lifecycle\<close>:
  the cap on concurrent faults, halting and cancellation, progress, the recovery loop,
  the journals, and the refinement of an abstract protocol of phases (the automaton \<open>lc\<close>) by the
  whole run. \<open>Gameday\<close>, \<open>Gameday_Props\<close>: campaigns of \<open>runner/gameday.rs\<close>.

  \<open>Autopilot\<close>: policy, ladder, validator and gate of \<open>tumult-autopilot\<close>. \<open>Approval_Tiers\<close>: tiers and the
  operator's execution policy.

  \<open>Run_Store\<close>: the run, approval and audit tables with every write, transactions and failing statements. \<open>Run_Invariants\<close>, \<open>Run_Lifecycle\<close>:
  what any sequence of writes keeps: all-or-nothing operations, the hash chain, single use of approvals, segregation of duties, the state machine of a run.
  \<open>Run_Queue\<close>, \<open>Run_Worker\<close>, \<open>Run_Reconcile\<close>: \<open>runs/queue\<close>, \<open>runs/worker.rs\<close>, \<open>runs/reconcile.rs\<close>. \<open>Daemon_Steps\<close>, \<open>Daemon\<close>: API calls, sweep and workers
  interleaved over one store. \<open>Queue_Props\<close>, \<open>Queue_Control\<close>, \<open>Worker_Props\<close>: dispatch, emergency stop, one worker's pass.
  \<open>Campaign\<close>: the supervisor of game days (\<open>tumult-ingest/src/gamedays.rs\<close>), one tick over the run tables. \<open>Campaign_Props\<close>,
  \<open>Campaign_Order\<close>: the children of a campaign run in the order of its definition and through the gate, however ticks, workers, approvals and
  crashes interleave; the verdict in floating point is the exact one.

  \<open>Sql_Guard\<close>: \<open>tumult-intelligence/src/sql_guard.rs\<close>, the tokenizers, the validation and the rewriting of generated SQL.
  \<open>Sql_Lexemes\<close>, \<open>Sql_Guard_Props\<close>: a lossless lexer as reference, and the guard and the rewriting as functions on its lexemes. \<open>Ask\<close>,
  \<open>Ask_Props\<close>: \<open>tumult-api/src/ask.rs\<close>, which queries a question can lead to. \<open>Sql_Util\<close>, \<open>Read_Queries\<close>: \<open>sql_util.rs\<close> and the
  handlers for logs, traces and topology; \<open>Sql_Shape\<close>, \<open>Read_Queries_Props\<close>: the tokens of their queries do not depend on
  the texts of a request.

  \<open>Scoring\<close>, \<open>Scoring_Props\<close>: the scorecard of \<open>tumult-compliance/src/scoring.rs\<close>, its query and its bounds. \<open>Org_Tree\<close>: the
  organisation tree of \<open>org.rs\<close>; \<open>Org_Glob\<close>: its patterns against their language; \<open>Org_Props\<close>: well-formed trees, paths, and
  rollups as partitions and weighted means.
  The theories named \<open>_Examples\<close> hold concrete runs that witness the properties.

  Correspondence. A struct is a record, an enum a datatype, \<open>Result\<close> a sum, a method on
  \<open>&mut self\<close> a computation that returns the new state also when it fails. Every SQL statement can fail, and a
  failed transaction restores the tables. What the code takes from elsewhere is an argument:
  the environment records hold clocks, random draws, hash functions, the TOON codec, the
  regular-expression engine, the providers and the file system. The interleaving of the threads of a method phase is
  the argument \<open>sched\<close>, of which only \<open>schedules\<close> is assumed: that its result is reached by steps
  of \<open>method_step\<close>.

  Bounds and fuel. A worker's pass takes at most 17 steps (its measure is 14 between the awaits); the recovery loop is given
  one round more than the timeout holds intervals (\<open>rv_rounds\<close>); the exponent of a rounding is searched over 1074 places
  below and 971 above one, which is the range of the format; the rejection sampling of a password is given as many draws as the generator needs to deliver
  24 usable bytes. Integers that the code keeps at a width are words or carry the
  wrap-around; nanosecond clocks are integers.

  Loops along parent links (the organisation tree) are partial functions, proved to end on every tree the code builds.

  Not modelled: telemetry (spans, metrics, log lines), the evaluation of SQL and the decoding of rows (statements of the run and
  identity tables are functions on tables, the queries of the read side are texts), network servers and
  process plumbing, the fault providers (they are behind the executor, a parameter), the knowledge graph, the report renderers,
  agent traffic, and the front ends (CLI, MCP, TUI, web). Strings are ASCII.
\<close>

end
